(* ===== verification/Obs_Prelude.thy ===== *)
theory Obs_Prelude
  imports Main "HOL-Library.Word"
begin

text \<open>
  Shared vocabulary of the observatory development: names for the machine types the Go sources
  use, Go's built-in \<open>copy\<close> on slices, decimal rendering and parsing of counters
  (\<open>strconv.FormatUint\<close> and \<open>strconv.ParseUint\<close> in base ten), and the generic list facts
  that several components rest on.
\<close>

section \<open>Names for machine types and results\<close>

type_synonym byte = "8 word"
type_synonym u16 = "16 word"
type_synonym u32 = "32 word"
type_synonym u64 = "64 word"

named_theorems codec_simps \<open>unfolding rules for encoders and decoders\<close>
named_theorems inv_intros \<open>preservation of a component invariant by one of its operations\<close>

section \<open>Segments of lists\<close>

text \<open>The last \<open>n\<close> elements of a list: what survives in a buffer that drops its oldest entries.\<close>

definition lastn :: "nat \<Rightarrow> 'a list \<Rightarrow> 'a list" where
  "lastn n xs = drop (length xs - n) xs"

lemma length_lastn [simp]: "length (lastn n xs) = min n (length xs)"
  by (auto simp: lastn_def)

lemma lastn_all: "length xs \<le> n \<Longrightarrow> lastn n xs = xs"
  by (simp add: lastn_def)

lemma lastn_append_le: "n \<le> length ys \<Longrightarrow> lastn n (xs @ ys) = lastn n ys"
  by (simp add: lastn_def)

lemma lastn_append_ge:
  assumes "length ys \<le> n"
  shows "lastn n (xs @ ys) = lastn (n - length ys) xs @ ys"
proof -
  have cut: "length xs + length ys - n - length xs = 0"
    using assms by arith
  have keep: "length xs + length ys - n = length xs - (n - length ys)"
    using assms by arith
  show ?thesis
    unfolding lastn_def length_append drop_append cut unfolding keep by simp
qed

lemma lastn_append_lastn: "lastn n (lastn n xs @ ys) = lastn n (xs @ ys)"
proof (cases "length xs \<le> n")
  case True
  then show ?thesis by (simp add: lastn_all)
next
  case False
  have "xs @ ys = take (length xs - n) xs @ (lastn n xs @ ys)"
    by (simp add: lastn_def)
  moreover have "n \<le> length (lastn n xs @ ys)"
    using False by simp
  ultimately show ?thesis
    by (metis lastn_append_le)
qed

lemma drop_lastn:
  "drop k (lastn n xs) = drop (length xs - n + k) xs"
  by (simp add: lastn_def add.commute)

lemma nth_lastn:
  "i < min n (length xs) \<Longrightarrow> lastn n xs ! i = xs ! (length xs - n + i)"
  by (simp add: lastn_def)

lemma take_length_take: "take (length (take k xs)) xs = take k xs"
  by (auto simp: min_def)

lemma mod_once: "(a :: nat) < 2 * n \<Longrightarrow> a mod n = (if a < n then a else a - n)"
proof (cases "a < n")
  case False
  assume "a < 2 * n"
  with False have "a mod n = (a - n) mod n" and "a - n < n" by (simp_all add: le_mod_geq)
  with False show ?thesis by simp
qed simp

section \<open>Go's copy on slices\<close>

text \<open>
  \<open>copy_at dst i src\<close> is the effect of \<open>copy(dst[i:], src)\<close>: the destination afterwards and
  the number of elements copied, the smaller of the two lengths.
\<close>

definition copy_at :: "'a list \<Rightarrow> nat \<Rightarrow> 'a list \<Rightarrow> 'a list \<times> nat" where
  "copy_at dst i src =
     (let n = min (length dst - i) (length src)
      in (take i dst @ take n src @ drop (i + n) dst, n))"

lemma length_copy_at [simp]: "i \<le> length dst \<Longrightarrow> length (fst (copy_at dst i src)) = length dst"
  by (auto simp: copy_at_def Let_def)

lemma copy_at_count [simp]: "snd (copy_at dst i src) = min (length dst - i) (length src)"
  by (simp add: copy_at_def Let_def)

lemma nth_copy_at:
  assumes "i \<le> length dst" and "j < length dst"
  shows "fst (copy_at dst i src) ! j =
     (if i \<le> j \<and> j < i + length src then src ! (j - i) else dst ! j)"
proof -
  define n where "n = min (length dst - i) (length src)"
  have "fst (copy_at dst i src) = take i dst @ take n src @ drop (i + n) dst"
    by (simp add: copy_at_def n_def Let_def)
  moreover have "length (take n src) = n" and "i + n \<le> length dst" and "n \<le> length src"
    using assms by (auto simp: n_def)
  moreover have "j < i + n \<longleftrightarrow> j < i + length src"
    using assms by (auto simp: n_def)
  ultimately show ?thesis
    using assms by (auto simp: nth_append)
qed

section \<open>Decimal counters\<close>

text \<open>
  Counters cross every wire of the program as decimal strings. \<open>format_uint\<close> is
  \<open>strconv.FormatUint(n, 10)\<close> and \<open>parse_uint64\<close> is \<open>strconv.ParseUint(s, 10, 64)\<close>: an empty
  string, a character that is not a digit or a value past 64 bits is an error.
\<close>

definition digit_char :: "nat \<Rightarrow> char" where
  "digit_char d = char_of (48 + d)"

definition char_digit :: "char \<Rightarrow> nat option" where
  "char_digit c = (let k = (of_char c :: nat) in if 48 \<le> k \<and> k \<le> 57 then Some (k - 48) else None)"

fun format_uint :: "nat \<Rightarrow> string" where
  "format_uint n =
     (if n < 10 then [digit_char n] else format_uint (n div 10) @ [digit_char (n mod 10)])"

declare format_uint.simps [simp del]

text \<open>\<open>strconv.FormatInt(i, 10)\<close>.\<close>

definition format_int :: "int \<Rightarrow> string" where
  "format_int i = (if i < 0 then CHR ''-'' # format_uint (nat (- i)) else format_uint (nat i))"

fun parse_digits :: "nat \<Rightarrow> string \<Rightarrow> nat option" where
  "parse_digits acc [] = Some acc"
| "parse_digits acc (c # cs) =
     (case char_digit c of None \<Rightarrow> None | Some d \<Rightarrow> parse_digits (10 * acc + d) cs)"

definition parse_uint64 :: "string \<Rightarrow> nat option" where
  "parse_uint64 s =
     (if s = [] then None
      else case parse_digits 0 s of
             None \<Rightarrow> None
           | Some n \<Rightarrow> if n < 2 ^ 64 then Some n else None)"

definition parse_uint32 :: "string \<Rightarrow> nat option" where
  "parse_uint32 s =
     (if s = [] then None
      else case parse_digits 0 s of
             None \<Rightarrow> None
           | Some n \<Rightarrow> if n < 2 ^ 32 then Some n else None)"

lemma char_digit_digit_char [simp]: "d < 10 \<Longrightarrow> char_digit (digit_char d) = Some d"
  by (simp add: char_digit_def digit_char_def Let_def of_char_of)

lemma parse_digits_append:
  "parse_digits acc (xs @ ys) =
     (case parse_digits acc xs of None \<Rightarrow> None | Some a \<Rightarrow> parse_digits a ys)"
  by (induction xs arbitrary: acc) (auto split: option.splits)

lemma format_uint_nonempty [simp]: "format_uint n \<noteq> []"
  by (subst format_uint.simps) simp

lemma parse_digits_format_uint: "parse_digits 0 (format_uint n) = Some n"
proof (induction n rule: format_uint.induct)
  case (1 n)
  show ?case
  proof (cases "n < 10")
    case True
    then show ?thesis by (simp add: format_uint.simps [of n])
  next
    case False
    with 1 have "parse_digits 0 (format_uint (n div 10)) = Some (n div 10)" by simp
    with False show ?thesis
      by (simp add: format_uint.simps [of n] parse_digits_append)
  qed
qed

lemma parse_format_uint [simp]: "n < 2 ^ 64 \<Longrightarrow> parse_uint64 (format_uint n) = Some n"
  by (simp add: parse_uint64_def parse_digits_format_uint)

lemma parse_uint64_bound: "parse_uint64 s = Some n \<Longrightarrow> n < 2 ^ 64"
  by (auto simp: parse_uint64_def split: if_splits option.splits)

lemma unat_parse_uint32: "parse_uint32 s = Some n \<Longrightarrow> unat (of_nat n :: u32) = n"
  by (auto simp: parse_uint32_def unat_of_nat split: if_splits option.splits)

lemma format_uint_inject: "format_uint m = format_uint n \<longleftrightarrow> m = n"
  by (metis option.inject parse_digits_format_uint)

section \<open>Words read as naturals\<close>

lemma unat_u64_lt [simp]: "unat (w :: u64) < 2 ^ 64"
  using unsigned_less [of w] by simp

lemma unat_u64_of_nat: "n < 2 ^ 64 \<Longrightarrow> unat (of_nat n :: u64) = n"
  by (simp add: unat_of_nat)

lemma unat_u64_add:
  "unat (a :: u64) + unat b < 2 ^ 64 \<Longrightarrow> unat (a + b) = unat a + unat b"
  by (simp add: unat_word_ariths)

lemma unat_u64_sub: "b \<le> (a :: u64) \<Longrightarrow> unat (a - b) = unat a - unat b"
  by (simp add: unat_sub)

text \<open>Go's \<open>int64\<close>: a mathematical integer brought back into range as two's complement does.\<close>

definition wrap64 :: "int \<Rightarrow> int" where
  "wrap64 i = sint (word_of_int i :: u64)"

lemma sint_u64_small: "uint (w :: u64) < 2 ^ 63 \<Longrightarrow> sint w = uint w"
  unfolding sint_uint by (rule signed_take_bit_int_eq_self) (auto intro: order_trans [OF _ uint_ge_0])

lemma wrap64_id:
  assumes "0 \<le> i" "i < 2 ^ 63"
  shows "wrap64 i = i"
proof -
  have "uint (word_of_int i :: u64) = i"
    using assms by (simp add: uint_word_of_int_eq take_bit_int_eq_self)
  with assms show ?thesis by (simp add: wrap64_def sint_u64_small)
qed

lemma uint_u64_sub: "(b :: u64) \<le> a \<Longrightarrow> uint (a - b) = uint a - uint b"
  by (simp add: uint_minus_simple_alt word_le_def uint_sub_if')

lemma uint_u64_add: "uint (a :: u64) + n < 2 ^ 64 \<Longrightarrow> 0 \<le> n \<Longrightarrow> uint (a + word_of_int n) = uint a + n"
proof -
  assume n: "uint a + n < 2 ^ 64" "0 \<le> n"
  then have "n < 2 ^ 64" using uint_ge_0 [of a] by linarith
  with n have "uint (word_of_int n :: u64) = n"
    unfolding uint_word_of_int_eq by (intro take_bit_int_eq_self) simp_all
  with n show ?thesis by (simp add: uint_word_ariths take_bit_eq_mod)
qed

end
