(* ===== verification/Replay_Ring.thy ===== *)
theory Replay_Ring
  imports Obs_Prelude
begin

text \<open>
  The per-session replay ring of the guest PTY broker (\<open>src/internal/guest/pty/ring.go\<close>): a fixed
  buffer that holds the newest bytes of one terminal's output stream and addresses them by
  absolute 64-bit stream offset.

  The ring is modelled at the level of its buffer, start index and count. Its specification is the
  whole output stream as a list of bytes: \<open>ring_tracks r S\<close> says that the ring \<open>r\<close> holds the newest
  bytes of \<open>S\<close>. The locale \<open>replay_buffer\<close> is the interface the session and its attachments rely on,
  and \<open>rr\<close> interprets it with the ring.
\<close>

section \<open>The ring\<close>

record range =
  rng_from :: u64
  rng_to :: u64

definition zero_range :: range where
  "zero_range = \<lparr>rng_from = 0, rng_to = 0\<rparr>"

record ring =
  ring_buf :: "byte list"
  ring_start :: nat
  ring_count :: nat
  ring_head :: u64

definition NewRing :: "int \<Rightarrow> ring" where
  "NewRing sz =
     (let n = (if sz < 1 then 1 else sz)
      in \<lparr>ring_buf = replicate (nat n) 0, ring_start = 0, ring_count = 0, ring_head = 0\<rparr>)"

definition Ring_Size :: "ring \<Rightarrow> nat" where
  "Ring_Size r = length (ring_buf r)"

definition Ring_Tail :: "ring \<Rightarrow> u64" where
  "Ring_Tail r = ring_head r - of_nat (ring_count r)"

text \<open>The two copies that wrap a short write around the end of the buffer.\<close>

definition wrap_copy :: "'a list \<Rightarrow> nat \<Rightarrow> 'a list \<Rightarrow> 'a list" where
  "wrap_copy b e p = (let (b1, n) = copy_at b e p in fst (copy_at b1 0 (drop n p)))"

definition append_store :: "ring \<Rightarrow> byte list \<Rightarrow> ring" where
  "append_store r p =
     (if length (ring_buf r) \<le> length p then
        r\<lparr>ring_buf := fst (copy_at (ring_buf r) 0 (drop (length p - length (ring_buf r)) p)),
          ring_start := 0, ring_count := length (ring_buf r)\<rparr>
      else
        let e = (ring_start r + ring_count r) mod length (ring_buf r);
            b2 = wrap_copy (ring_buf r) e p
        in if length (ring_buf r) < ring_count r + length p then
             r\<lparr>ring_buf := b2,
               ring_start := (ring_start r + (ring_count r + length p - length (ring_buf r))) mod length (ring_buf r),
               ring_count := length (ring_buf r)\<rparr>
           else r\<lparr>ring_buf := b2, ring_count := ring_count r + length p\<rparr>)"

definition Ring_Append :: "ring \<Rightarrow> byte list \<Rightarrow> ring \<times> range \<times> bool" where
  "Ring_Append r p =
     (if p = [] then (r, zero_range, False)
      else
        let before = Ring_Tail r;
            r1 = append_store r p;
            r2 = r1\<lparr>ring_head := ring_head r1 + of_nat (length p)\<rparr>;
            after = Ring_Tail r2
        in if before < after then (r2, \<lparr>rng_from = before, rng_to = after\<rparr>, True)
           else (r2, zero_range, False))"

definition Ring_ReadFrom :: "ring \<Rightarrow> u64 \<Rightarrow> byte list \<times> u64 \<times> bool" where
  "Ring_ReadFrom r offset =
     (let tail = Ring_Tail r;
          (off, gap) = (if offset < tail then (tail, True) else (offset, False))
      in if ring_head r \<le> off then ([], ring_head r, gap)
         else
           let out0 = replicate (unat (ring_head r - off)) 0;
               f = (ring_start r + unat (off - tail)) mod length (ring_buf r);
               (out1, n) = copy_at out0 0 (drop f (ring_buf r));
               out2 = fst (copy_at out1 n (ring_buf r))
           in (out2, ring_head r, gap))"

section \<open>Invariant and contents\<close>

text \<open>
  The shape every operation keeps: a non-empty buffer, indexes inside it, and a head that has not
  wrapped below the bytes held.
\<close>

definition ring_inv :: "ring \<Rightarrow> bool" where
  "ring_inv r \<longleftrightarrow> ring_buf r \<noteq> [] \<and> ring_start r < length (ring_buf r) \<and> ring_count r \<le> length (ring_buf r)
     \<and> ring_count r \<le> unat (ring_head r)"

definition ring_contents :: "ring \<Rightarrow> byte list" where
  "ring_contents r = map (\<lambda>i. ring_buf r ! ((ring_start r + i) mod length (ring_buf r))) [0..<ring_count r]"

lemma length_ring_contents [simp]: "length (ring_contents r) = ring_count r"
  by (simp add: ring_contents_def)

lemma nth_ring_contents:
  "i < ring_count r \<Longrightarrow> ring_contents r ! i = ring_buf r ! ((ring_start r + i) mod length (ring_buf r))"
  by (simp add: ring_contents_def)

lemma unat_Ring_Tail: "ring_inv r \<Longrightarrow> unat (Ring_Tail r) = unat (ring_head r) - ring_count r"
proof -
  assume inv: "ring_inv r"
  then have le: "ring_count r \<le> unat (ring_head r)" by (simp add: ring_inv_def)
  then have "ring_count r < 2 ^ 64" using unat_u64_lt [of "ring_head r"] by linarith
  then have "unat (of_nat (ring_count r) :: u64) = ring_count r" by (rule unat_u64_of_nat)
  with le show ?thesis
    by (simp add: Ring_Tail_def unat_u64_sub word_le_nat_alt)
qed

text \<open>Where the wrapped two-part copy of \<open>Ring_Append\<close> writes, and what it leaves alone.\<close>

lemma length_wrap_copy [simp]: "e \<le> length b \<Longrightarrow> length (wrap_copy b e p) = length b"
  by (simp add: wrap_copy_def case_prod_beta Let_def)

lemma nth_wrap_copy:
  assumes "e < length b" and "length p < length b" and "k < length b"
  shows "wrap_copy b e p ! ((e + k) mod length b) =
         (if k < length p then p ! k else b ! ((e + k) mod length b))"
proof -
  define n where "n = min (length b - e) (length p)"
  define j where "j = (e + k) mod length b"
  have j: "j < length b"
    unfolding j_def using assms(1) by (intro mod_less_divisor) linarith
  have jk: "j = (if e + k < length b then e + k else e + k - length b)"
    using assms(1,3) mod_once [of "e + k" "length b"] by (simp add: j_def)
  have "wrap_copy b e p = fst (copy_at (fst (copy_at b e p)) 0 (drop n p))"
    by (simp add: wrap_copy_def case_prod_beta n_def Let_def)
  moreover have "length (fst (copy_at b e p)) = length b"
    using assms(1) by simp
  ultimately have "wrap_copy b e p ! j =
      (if j < length p - n then drop n p ! j else fst (copy_at b e p) ! j)"
    using j by (simp add: nth_copy_at)
  also have "\<dots> = (if j < length p - n then p ! (n + j)
                   else if e \<le> j \<and> j < e + length p then p ! (j - e) else b ! j)"
    using assms(1) j by (auto simp: nth_copy_at n_def)
  also have "\<dots> = (if k < length p then p ! k else b ! j)"
  proof (cases "e + k < length b")
    case True
    then have "j = e + k" and "\<not> j < length p - n"
      using assms jk by (simp_all add: n_def min_def) arith
    then show ?thesis by simp
  next
    case False
    then have j_eq: "j = e + k - length b" and "\<not> e \<le> j" using assms jk by simp_all
    have "j < length p - n \<longleftrightarrow> k < length p"
      using assms False by (simp add: j_eq n_def min_def) arith
    moreover have "k < length p \<Longrightarrow> n + j = k"
      using assms False by (simp add: j_eq n_def min_def)
    ultimately show ?thesis using \<open>\<not> e \<le> j\<close> by auto
  qed
  finally show ?thesis by (simp add: j_def)
qed

lemma append_store_frame [simp]:
  "length (ring_buf (append_store r p)) = length (ring_buf r)"
  "ring_head (append_store r p) = ring_head r"
proof -
  have "(ring_start r + ring_count r) mod length (ring_buf r) \<le> length (ring_buf r)
        \<or> length (ring_buf r) = 0"
    by (metis bot_nat_0.not_eq_extremum less_imp_le mod_less_divisor)
  then show "length (ring_buf (append_store r p)) = length (ring_buf r)"
    by (auto simp: append_store_def Let_def)
  show "ring_head (append_store r p) = ring_head r"
    by (simp add: append_store_def Let_def)
qed

lemma append_store_count:
  "ring_count r \<le> length (ring_buf r) \<Longrightarrow>
   ring_count (append_store r p) = min (length (ring_buf r)) (ring_count r + length p)"
  by (auto simp: append_store_def Let_def)

lemma append_store_start:
  "ring_buf r \<noteq> [] \<Longrightarrow> ring_start r < length (ring_buf r) \<Longrightarrow>
   ring_start (append_store r p) < length (ring_buf r)"
  by (auto simp: append_store_def Let_def)

lemma append_store_contents_long:
  assumes "length (ring_buf r) \<le> length p"
  shows "ring_contents (append_store r p) = lastn (length (ring_buf r)) p"
proof (rule nth_equalityI)
  show "length (ring_contents (append_store r p)) = length (lastn (length (ring_buf r)) p)"
    using assms by (simp add: append_store_def)
next
  fix i assume "i < length (ring_contents (append_store r p))"
  with assms have i: "i < length (ring_buf r)" by (simp add: append_store_def)
  have "ring_contents (append_store r p) ! i = ring_buf (append_store r p) ! i"
    using assms i by (simp add: ring_contents_def append_store_def)
  also have "\<dots> = p ! (length p - length (ring_buf r) + i)"
    using assms i by (simp add: append_store_def nth_copy_at)
  also have "\<dots> = lastn (length (ring_buf r)) p ! i"
    using assms i by (simp add: nth_lastn)
  finally show "ring_contents (append_store r p) ! i = lastn (length (ring_buf r)) p ! i" .
qed

lemma append_store_contents_short:
  assumes inv: "ring_inv r" and short: "length p < length (ring_buf r)"
  shows "ring_contents (append_store r p) =
         lastn (length (ring_buf r)) (ring_contents r @ p)"
proof (rule nth_equalityI)
  let ?N = "length (ring_buf r)" and ?c = "ring_count r" and ?s = "ring_start r"
  define over where "over = ?c + length p - ?N"
  from inv have N: "0 < ?N" and c: "?c \<le> ?N" by (auto simp: ring_inv_def)
  show "length (ring_contents (append_store r p)) = length (lastn ?N (ring_contents r @ p))"
    using c by (simp add: append_store_count)
  fix i assume "i < length (ring_contents (append_store r p))"
  then have i: "i < min ?N (?c + length p)" using c by (simp add: append_store_count)
  define q where "q = over + i"
  have q: "q < ?c + length p" using i by (auto simp: q_def over_def)
  let ?e = "(?s + ?c) mod ?N"
  have e: "?e < ?N" using N by simp
  have store: "ring_buf (append_store r p) = wrap_copy (ring_buf r) ?e p"
    using short by (auto simp: append_store_def Let_def)
  have "(ring_start (append_store r p) + i) mod ?N = (?s + q) mod ?N"
    using short
    by (auto simp: append_store_def Let_def q_def over_def mod_simps add.assoc)
  then have lhs: "ring_contents (append_store r p) ! i =
      wrap_copy (ring_buf r) ?e p ! ((?s + q) mod ?N)"
    using i c e by (simp add: nth_ring_contents append_store_count store less_imp_le)
  have rhs: "lastn ?N (ring_contents r @ p) ! i = (ring_contents r @ p) ! q"
    using i by (simp add: nth_lastn q_def over_def)
  show "ring_contents (append_store r p) ! i = lastn ?N (ring_contents r @ p) ! i"
  proof (cases "q < ?c")
    case True
    define k where "k = ?N - ?c + q"
    have k: "length p \<le> k" "k < ?N" using True c short by (auto simp: k_def q_def over_def)
    have "?s + ?c + k = ?s + q + ?N" using c by (simp add: k_def)
    then have "(?e + k) mod ?N = (?s + q) mod ?N" by (metis mod_add_left_eq mod_add_self2)
    with k e short True lhs rhs show ?thesis
      using nth_wrap_copy [of ?e "ring_buf r" p k] by (simp add: nth_append nth_ring_contents)
  next
    case False
    define k where "k = q - ?c"
    have k: "k < length p" using False q by (auto simp: k_def)
    have "?s + ?c + k = ?s + q" using False by (simp add: k_def)
    then have "(?e + k) mod ?N = (?s + q) mod ?N" by (metis mod_add_left_eq)
    with k e short False lhs rhs show ?thesis
      using nth_wrap_copy [of ?e "ring_buf r" p k] by (simp add: nth_append k_def)
  qed
qed

lemma append_store_contents:
  assumes "ring_inv r"
  shows "ring_contents (append_store r p) =
         lastn (length (ring_buf r)) (ring_contents r @ p)"
proof (cases "length (ring_buf r) \<le> length p")
  case True
  then show ?thesis by (simp add: append_store_contents_long lastn_append_le)
next
  case False
  with assms show ?thesis by (simp add: append_store_contents_short)
qed

section \<open>The output stream as the specification\<close>

text \<open>
  \<open>ring_tracks r S\<close>: the terminal has written \<open>S\<close> so far, the ring's head is the length of \<open>S\<close>, and
  the ring holds the newest bytes of it, as many as fit.
\<close>

definition ring_tracks :: "ring \<Rightarrow> byte list \<Rightarrow> bool" where
  "ring_tracks r S \<longleftrightarrow> ring_inv r \<and> unat (ring_head r) = length S
     \<and> ring_contents r = lastn (Ring_Size r) S"

definition stream_tail :: "nat \<Rightarrow> byte list \<Rightarrow> nat" where
  "stream_tail c S = length S - c"

lemma ring_tracks_count: "ring_tracks r S \<Longrightarrow> ring_count r = min (Ring_Size r) (length S)"
  by (metis length_lastn length_ring_contents ring_tracks_def)

lemma ring_tracks_head: "ring_tracks r S \<Longrightarrow> unat (ring_head r) = length S"
  by (simp add: ring_tracks_def)

lemma ring_tracks_tail:
  assumes "ring_tracks r S"
  shows "unat (Ring_Tail r) = stream_tail (Ring_Size r) S"
proof -
  have "unat (Ring_Tail r) = length S - ring_count r"
    using assms by (simp add: ring_tracks_def unat_Ring_Tail)
  then show ?thesis
    using ring_tracks_count [OF assms] by (simp add: stream_tail_def min_def)
qed

lemma NewRing_tracks: "ring_tracks (NewRing sz) []"
  by (simp add: ring_tracks_def NewRing_def ring_inv_def ring_contents_def lastn_def Let_def)

lemma NewRing_Size [simp]: "Ring_Size (NewRing sz) = (if sz < 1 then 1 else nat sz)"
  by (simp add: NewRing_def Ring_Size_def Let_def)

definition append_ring :: "ring \<Rightarrow> byte list \<Rightarrow> ring" where
  "append_ring r p =
     (let r1 = append_store r p in r1\<lparr>ring_head := ring_head r1 + of_nat (length p)\<rparr>)"

lemma Ring_Append_unfold:
  "p \<noteq> [] \<Longrightarrow> Ring_Append r p =
     (append_ring r p,
      (if Ring_Tail r < Ring_Tail (append_ring r p)
       then (\<lparr>rng_from = Ring_Tail r, rng_to = Ring_Tail (append_ring r p)\<rparr>, True)
       else (zero_range, False)))"
  by (simp add: Ring_Append_def append_ring_def Let_def)

lemma append_ring_tracks:
  assumes tr: "ring_tracks r S" and room: "length S + length p < 2 ^ 64"
  shows "ring_tracks (append_ring r p) (S @ p)" and "Ring_Size (append_ring r p) = Ring_Size r"
proof -
  let ?r = "append_ring r p"
  from tr have inv: "ring_inv r" and hd: "unat (ring_head r) = length S"
    and cont: "ring_contents r = lastn (Ring_Size r) S"
    by (auto simp: ring_tracks_def)
  show sz: "Ring_Size ?r = Ring_Size r"
    by (simp add: append_ring_def Ring_Size_def Let_def)
  have "unat (of_nat (length p) :: u64) = length p"
    using room by (intro unat_u64_of_nat) linarith
  then have hd': "unat (ring_head ?r) = length (S @ p)"
    using room hd by (simp add: append_ring_def Let_def unat_u64_add)
  have cont': "ring_contents ?r = lastn (Ring_Size r) (S @ p)"
  proof -
    have "ring_contents ?r = ring_contents (append_store r p)"
      by (simp add: append_ring_def ring_contents_def Let_def)
    also have "\<dots> = lastn (Ring_Size r) (lastn (Ring_Size r) S @ p)"
      using append_store_contents [OF inv] cont by (simp add: Ring_Size_def)
    finally show ?thesis by (simp add: lastn_append_lastn)
  qed
  have "ring_count ?r \<le> unat (ring_head ?r)"
    using hd' cont' by (metis length_lastn length_ring_contents min.cobounded2)
  with inv sz have "ring_inv ?r"
    by (auto simp: ring_inv_def append_ring_def Let_def append_store_start append_store_count
        Ring_Size_def simp flip: length_greater_0_conv)
  with hd' cont' sz show "ring_tracks ?r (S @ p)"
    by (simp add: ring_tracks_def)
qed

lemma wrap_read:
  assumes "f < length b" and "len \<le> length b"
  shows "(let (o1, n) = copy_at (replicate len z) 0 (drop f b) in fst (copy_at o1 n b)) =
         map (\<lambda>i. b ! ((f + i) mod length b)) [0..<len]" (is "?out = _")
proof (rule nth_equalityI)
  define n where "n = min len (length b - f)"
  define o1 where "o1 = fst (copy_at (replicate len z) 0 (drop f b))"
  have out: "?out = fst (copy_at o1 n b)" by (simp add: case_prod_beta o1_def n_def Let_def)
  have lo1: "length o1 = len" by (simp add: o1_def)
  show "length ?out = length (map (\<lambda>i. b ! ((f + i) mod length b)) [0..<len])"
    unfolding out by (simp add: lo1 n_def)
  fix i assume "i < length ?out"
  then have i: "i < len" unfolding out by (simp add: lo1 n_def)
  have first: "i < length b - f \<Longrightarrow> o1 ! i = b ! (f + i)"
    using i by (simp add: o1_def nth_copy_at)
  have "?out ! i = (if n \<le> i then b ! (i - n) else o1 ! i)"
    unfolding out using i assms by (auto simp: nth_copy_at lo1 n_def min_le_iff_disj)
  also have "\<dots> = b ! ((f + i) mod length b)"
  proof (cases "n \<le> i")
    case True
    with i have "n = length b - f" by (simp add: n_def min_def split: if_splits)
    with True i assms have "f + i - length b = i - n" and "length b \<le> f + i"
      and "f + i < 2 * length b" by auto
    then have "(f + i) mod length b = i - n" using mod_once [of "f + i" "length b"] by simp
    with True show ?thesis by simp
  next
    case False
    with i have lt: "i < length b - f" by (simp add: n_def min_def split: if_splits)
    then have "(f + i) mod length b = f + i" by simp
    with False first [OF lt] show ?thesis by simp
  qed
  finally show "?out ! i = map (\<lambda>i. b ! ((f + i) mod length b)) [0..<len] ! i"
    using i by simp
qed

lemma ReadFrom_tracks:
  assumes tr: "ring_tracks r S" and rd: "Ring_ReadFrom r off = (b, nxt, gap)"
  shows "unat nxt = length S"
    and "gap \<longleftrightarrow> unat off < stream_tail (Ring_Size r) S"
    and "b = drop (max (unat off) (stream_tail (Ring_Size r) S)) S"
proof -
  let ?N = "Ring_Size r" and ?t = "stream_tail (Ring_Size r) S"
  from tr have inv: "ring_inv r" and hd: "unat (ring_head r) = length S"
    and cont: "ring_contents r = lastn ?N S" by (auto simp: ring_tracks_def)
  have tl: "unat (Ring_Tail r) = ?t" by (rule ring_tracks_tail [OF tr])
  define off' where "off' = (if off < Ring_Tail r then Ring_Tail r else off)"
  have o': "unat off' = max (unat off) ?t"
    by (auto simp: off'_def tl [symmetric] word_less_nat_alt max_def)
  show "unat nxt = length S"
    using rd hd by (auto simp: Ring_ReadFrom_def case_prod_beta Let_def split: if_splits)
  show "gap \<longleftrightarrow> unat off < ?t"
    using rd tl by (auto simp: Ring_ReadFrom_def case_prod_beta Let_def word_less_nat_alt
        split: if_splits)
  show "b = drop (max (unat off) ?t) S"
  proof (cases "ring_head r \<le> off'")
    case True
    then have "length S \<le> unat off'" using hd by (simp add: word_le_nat_alt)
    moreover have "b = []"
      using rd True by (auto simp: Ring_ReadFrom_def off'_def Let_def split: if_splits)
    ultimately show ?thesis by (simp add: o')
  next
    case False
    then have lt: "unat off' < length S" using hd by (simp add: word_le_nat_alt)
    define d where "d = unat off' - ?t"
    have ge: "Ring_Tail r \<le> off'" by (auto simp: off'_def)
    have d1: "unat (off' - Ring_Tail r) = d" using ge by (simp add: unat_u64_sub tl d_def)
    have d2: "unat (ring_head r - off') = ring_count r - d"
      using False hd ge tl ring_tracks_count [OF tr]
      by (simp add: unat_u64_sub d_def stream_tail_def o' min_def)
    let ?f = "(ring_start r + d) mod length (ring_buf r)"
    have N: "0 < length (ring_buf r)" and c: "ring_count r \<le> length (ring_buf r)"
      using inv by (auto simp: ring_inv_def)
    have "b = (let (o1, n) = copy_at (replicate (ring_count r - d) 0) 0 (drop ?f (ring_buf r))
               in fst (copy_at o1 n (ring_buf r)))"
      using rd False d1 d2
      by (auto simp: Ring_ReadFrom_def off'_def Let_def case_prod_beta split: if_splits)
    also have "\<dots> = map (\<lambda>i. ring_buf r ! ((?f + i) mod length (ring_buf r))) [0..<ring_count r - d]"
      using N c by (intro wrap_read) auto
    also have "\<dots> = drop d (ring_contents r)"
      by (rule nth_equalityI) (auto simp: nth_ring_contents mod_simps add.assoc)
    finally show ?thesis
      using lt o' by (simp add: cont drop_lastn d_def stream_tail_def max_def)
  qed
qed

section \<open>The interface the session relies on\<close>

text \<open>
  A replay buffer stores a stream under absolute offsets. Its client knows three things: an append
  extends the stream and reports exactly the range it pushed out, a read returns the suffix from
  the asked offset (or from the tail, flagged as a gap), and head and tail are the stream's.
\<close>

locale replay_buffer =
  fixes tracks :: "'r \<Rightarrow> byte list \<Rightarrow> bool"
    and append :: "'r \<Rightarrow> byte list \<Rightarrow> 'r \<times> range \<times> bool"
    and read_from :: "'r \<Rightarrow> u64 \<Rightarrow> byte list \<times> u64 \<times> bool"
    and head_of :: "'r \<Rightarrow> u64"
    and tail_of :: "'r \<Rightarrow> u64"
    and cap :: "'r \<Rightarrow> nat"
  assumes head_law: "tracks r S \<Longrightarrow> unat (head_of r) = length S"
    and tail_law: "tracks r S \<Longrightarrow> unat (tail_of r) = stream_tail (cap r) S"
    and append_law: "tracks r S \<Longrightarrow> length S + length p < 2 ^ 64 \<Longrightarrow>
          tracks (fst (append r p)) (S @ p)"
    and append_cap: "tracks r S \<Longrightarrow> length S + length p < 2 ^ 64 \<Longrightarrow>
          cap (fst (append r p)) = cap r"
    and read_law: "tracks r S \<Longrightarrow>
          fst (read_from r off) = drop (max (unat off) (stream_tail (cap r) S)) S"
begin

fun appends :: "'r \<Rightarrow> byte list list \<Rightarrow> 'r" where
  "appends r [] = r"
| "appends r (p # ps) = appends (fst (append r p)) ps"

lemma appends_track:
  "tracks r S \<Longrightarrow> length S + length (concat ps) < 2 ^ 64 \<Longrightarrow>
   tracks (appends r ps) (S @ concat ps) \<and> cap (appends r ps) = cap r"
proof (induction ps arbitrary: r S)
  case Nil
  then show ?case by simp
next
  case (Cons p ps)
  from Cons.prems have "length S + length p < 2 ^ 64" by simp
  with Cons.prems have "tracks (fst (append r p)) (S @ p)" "cap (fst (append r p)) = cap r"
    by (auto intro: append_law append_cap)
  with Cons.prems Cons.IH [of "fst (append r p)" "S @ p"] show ?case by (simp add: add.assoc)
qed

text \<open>A reader that is caught up loses nothing as long as less than a buffer arrives meanwhile.\<close>

lemma caught_up_reader:
  assumes "tracks r S" and "length S + length (concat ps) < 2 ^ 64"
    and "length (concat ps) \<le> cap r"
  shows "fst (read_from (appends r ps) (head_of r)) = concat ps"
proof -
  have "tracks (appends r ps) (S @ concat ps)" and cap: "cap (appends r ps) = cap r"
    using appends_track [OF assms(1,2)] by auto
  from read_law [OF this(1), of "head_of r"] show ?thesis
    using assms cap by (simp add: head_law stream_tail_def max_def)
qed

lemma tail_le_head: "tracks r S \<Longrightarrow> tail_of r \<le> head_of r"
  by (simp add: word_le_nat_alt head_law tail_law stream_tail_def)

text \<open>
  One read of a reader at \<open>off\<close> that takes at most \<open>k\<close> bytes: it first moves up to the tail. What it
  delivers is the stream's own bytes at the offset it moved to.
\<close>

lemma bounded_read:
  assumes "tracks r S" and "tail_of r \<le> off"
  shows "take k (fst (read_from r off)) = take k (drop (unat off) S)"
  using assms by (simp add: read_law tail_law word_le_nat_alt max_def)

end

lemma Ring_Append_fst: "ring_tracks r S \<Longrightarrow> length S + length p < 2 ^ 64 \<Longrightarrow>
  ring_tracks (fst (Ring_Append r p)) (S @ p) \<and> Ring_Size (fst (Ring_Append r p)) = Ring_Size r"
  by (cases "p = []") (simp_all add: Ring_Append_def [of r "[]"] Ring_Append_unfold append_ring_tracks)

interpretation rr: replay_buffer ring_tracks Ring_Append Ring_ReadFrom ring_head Ring_Tail Ring_Size
proof unfold_locales
  fix r S off assume "ring_tracks r S"
  then show "fst (Ring_ReadFrom r off) = drop (max (unat off) (stream_tail (Ring_Size r) S)) S"
    by (metis ReadFrom_tracks(3) prod.exhaust_sel)
qed (simp_all add: ring_tracks_tail ring_tracks_head Ring_Append_fst)

section \<open>Properties\<close>

text \<open>
  C28: Appending to a ring that holds the newest bytes of a stream gives a ring that holds the newest
  bytes of the longer stream, and the loss report is exact: it is raised precisely when the tail
  moved, and then names the half-open range of offsets that left the ring.
\<close>

theorem ring_append_refines_stream:
  assumes "ring_tracks r S" and "length S + length p < 2 ^ 64"
    and "Ring_Append r p = (r', dropped, lost)"
  shows "ring_tracks r' (S @ p) \<and> Ring_Size r' = Ring_Size r
    \<and> (lost \<longleftrightarrow> stream_tail (Ring_Size r) S < stream_tail (Ring_Size r) (S @ p))
    \<and> (lost \<longrightarrow> unat (rng_from dropped) = stream_tail (Ring_Size r) S
               \<and> unat (rng_to dropped) = stream_tail (Ring_Size r) (S @ p))
    \<and> (\<not> lost \<longrightarrow> dropped = zero_range)"
proof (cases "p = []")
  case True
  with assms show ?thesis by (auto simp: Ring_Append_def)
next
  case False
  note tr = append_ring_tracks [OF assms(1,2)]
  have "unat (Ring_Tail (append_ring r p)) = stream_tail (Ring_Size r) (S @ p)"
    using ring_tracks_tail [OF tr(1)] tr(2) by simp
  moreover have "unat (Ring_Tail r) = stream_tail (Ring_Size r) S"
    by (rule ring_tracks_tail [OF assms(1)])
  ultimately show ?thesis
    using assms(3) tr by (auto simp: Ring_Append_unfold [OF False] word_less_nat_alt split: if_splits)
qed

definition demo_ring :: ring where
  "demo_ring = fst (Ring_Append (NewRing 4) [1, 2, 3])"

lemma demo_ring_tracks: "ring_tracks demo_ring [1, 2, 3]" "Ring_Size demo_ring = 4"
  using Ring_Append_fst [OF NewRing_tracks, of "[1, 2, 3]" 4] by (simp_all add: demo_ring_def)

theorem ring_append_refines_stream_witness:
  "ring_tracks (fst (Ring_Append demo_ring [4, 5])) [1, 2, 3, 4, 5]
   \<and> unat (rng_to (fst (snd (Ring_Append demo_ring [4, 5])))) = 1
   \<and> snd (snd (Ring_Append demo_ring [4, 5]))"
  using ring_append_refines_stream [of demo_ring "[1, 2, 3]" "[4, 5]"
      "fst (Ring_Append demo_ring [4, 5])" "fst (snd (Ring_Append demo_ring [4, 5]))"
      "snd (snd (Ring_Append demo_ring [4, 5]))"] demo_ring_tracks
  by (simp add: stream_tail_def)

text \<open>
  C29: Reading from any offset returns exactly the bytes of the stream from that offset on, or from
  the tail when the offset is older than what the ring holds; the gap flag says which of the two
  happened, and the returned resume offset is the stream's length.
\<close>

theorem ring_read_exact:
  assumes "ring_tracks r S" and "Ring_ReadFrom r off = (b, nxt, gap)"
  shows "b = drop (max (unat off) (stream_tail (Ring_Size r) S)) S
    \<and> (gap \<longleftrightarrow> unat off < stream_tail (Ring_Size r) S) \<and> unat nxt = length S"
  using ReadFrom_tracks [OF assms] by blast

theorem ring_read_exact_witness:
  "fst (Ring_ReadFrom demo_ring 1) = [2, 3] \<and> \<not> snd (snd (Ring_ReadFrom demo_ring 1))"
  using ring_read_exact [of demo_ring "[1, 2, 3]" 1 "fst (Ring_ReadFrom demo_ring 1)"
      "fst (snd (Ring_ReadFrom demo_ring 1))" "snd (snd (Ring_ReadFrom demo_ring 1))"]
    demo_ring_tracks
  by (simp add: stream_tail_def)

end
