(* ===== verification/Byte_Codec.thy ===== *)
theory Byte_Codec
  imports Obs_Prelude
begin

text \<open>
  Big-endian integers as the wire formats of the program use them (\<open>binary.BigEndian.PutUint32\<close>,
  \<open>Uint32\<close>, \<open>PutUint64\<close> and \<open>Uint64\<close> of Go's standard library), with both round trips.
\<close>

unbundle bit_operations_syntax

definition PutUint32 :: "u32 \<Rightarrow> byte list" where
  "PutUint32 v = [ucast (drop_bit 24 v), ucast (drop_bit 16 v), ucast (drop_bit 8 v), ucast v]"

fun Uint32 :: "byte list \<Rightarrow> u32 option" where
  "Uint32 (a # b # c # d # _) =
     Some (push_bit 24 (ucast a) OR push_bit 16 (ucast b) OR push_bit 8 (ucast c) OR ucast d)"
| "Uint32 _ = None"

definition PutUint64 :: "u64 \<Rightarrow> byte list" where
  "PutUint64 v = [ucast (drop_bit 56 v), ucast (drop_bit 48 v), ucast (drop_bit 40 v),
     ucast (drop_bit 32 v), ucast (drop_bit 24 v), ucast (drop_bit 16 v), ucast (drop_bit 8 v), ucast v]"

fun Uint64 :: "byte list \<Rightarrow> u64 option" where
  "Uint64 (a # b # c # d # e # f # g # h # _) =
     Some (push_bit 56 (ucast a) OR push_bit 48 (ucast b) OR push_bit 40 (ucast c) OR
           push_bit 32 (ucast d) OR push_bit 24 (ucast e) OR push_bit 16 (ucast f) OR
           push_bit 8 (ucast g) OR ucast h)"
| "Uint64 _ = None"

lemma length_PutUint32 [simp]: "length (PutUint32 v) = 4"
  by (simp add: PutUint32_def)

lemma length_PutUint64 [simp]: "length (PutUint64 v) = 8"
  by (simp add: PutUint64_def)

text \<open>The byte of a word at bit position \<open>k\<close>, put back there, is the word between \<open>k\<close> and \<open>k + 8\<close>.\<close>

lemma bit_byte_slice:
  "n < LENGTH('a::len) \<Longrightarrow>
   bit (push_bit k (ucast (ucast (drop_bit k (v :: 'a word)) :: byte) :: 'a word)) n
     \<longleftrightarrow> k \<le> n \<and> n < k + 8 \<and> bit v n"
  by (auto simp: bit_simps)

lemma bit_low_byte:
  "n < LENGTH('a::len) \<Longrightarrow> bit (ucast (ucast (v :: 'a word) :: byte) :: 'a word) n \<longleftrightarrow> n < 8 \<and> bit v n"
  by (auto simp: bit_simps)

lemma Uint32_PutUint32 [simp]: "Uint32 (PutUint32 v @ rest) = Some v"
  unfolding PutUint32_def append_Cons append_Nil Uint32.simps option.inject
proof (rule bit_word_eqI)
  fix n assume n: "n < LENGTH(32)"
  have "bit v n \<longleftrightarrow> 24 \<le> n \<and> n < 24 + 8 \<and> bit v n \<or> 16 \<le> n \<and> n < 16 + 8 \<and> bit v n
          \<or> 8 \<le> n \<and> n < 8 + 8 \<and> bit v n \<or> n < 8 \<and> bit v n"
    using n by (cases "bit v n") (simp_all, linarith)
  then show "bit (push_bit 24 (ucast (ucast (drop_bit 24 v) :: byte)) OR
      push_bit 16 (ucast (ucast (drop_bit 16 v) :: byte)) OR
      push_bit 8 (ucast (ucast (drop_bit 8 v) :: byte)) OR ucast (ucast v :: byte) :: u32) n = bit v n"
    unfolding bit_or_iff bit_byte_slice [OF n] bit_low_byte [OF n] by blast
qed

lemma Uint64_PutUint64 [simp]: "Uint64 (PutUint64 v @ rest) = Some v"
  unfolding PutUint64_def append_Cons append_Nil Uint64.simps option.inject
proof (rule bit_word_eqI)
  fix n assume n: "n < LENGTH(64)"
  have "bit v n \<longleftrightarrow> 56 \<le> n \<and> n < 56 + 8 \<and> bit v n \<or> 48 \<le> n \<and> n < 48 + 8 \<and> bit v n
          \<or> 40 \<le> n \<and> n < 40 + 8 \<and> bit v n \<or> 32 \<le> n \<and> n < 32 + 8 \<and> bit v n
          \<or> 24 \<le> n \<and> n < 24 + 8 \<and> bit v n \<or> 16 \<le> n \<and> n < 16 + 8 \<and> bit v n
          \<or> 8 \<le> n \<and> n < 8 + 8 \<and> bit v n \<or> n < 8 \<and> bit v n"
    using n by (cases "bit v n") (simp_all, linarith)
  then show "bit (push_bit 56 (ucast (ucast (drop_bit 56 v) :: byte)) OR
      push_bit 48 (ucast (ucast (drop_bit 48 v) :: byte)) OR
      push_bit 40 (ucast (ucast (drop_bit 40 v) :: byte)) OR
      push_bit 32 (ucast (ucast (drop_bit 32 v) :: byte)) OR
      push_bit 24 (ucast (ucast (drop_bit 24 v) :: byte)) OR
      push_bit 16 (ucast (ucast (drop_bit 16 v) :: byte)) OR
      push_bit 8 (ucast (ucast (drop_bit 8 v) :: byte)) OR ucast (ucast v :: byte) :: u64) n = bit v n"
    unfolding bit_or_iff bit_byte_slice [OF n] bit_low_byte [OF n] by blast
qed

lemma byte_bit_bound: "8 \<le> n \<Longrightarrow> \<not> bit (a :: byte) n"
  using bit_imp_le_length [of a n] by auto

lemma PutUint32_Uint32:
  assumes "Uint32 [a, b, c, d] = Some v"
  shows "PutUint32 v = [a, b, c, d]"
proof -
  have v: "v = push_bit 24 (ucast a) OR push_bit 16 (ucast b) OR push_bit 8 (ucast c) OR ucast d"
    using assms by simp
  have bits: "bit v n \<longleftrightarrow> n < 32 \<and> (24 \<le> n \<and> bit a (n - 24) \<or> 16 \<le> n \<and> bit b (n - 16)
        \<or> 8 \<le> n \<and> bit c (n - 8) \<or> bit d n)" for n
    by (auto simp: v bit_simps)
  have "ucast (drop_bit 24 v) = a"
    by (rule bit_word_eqI) (simp add: bit_simps bits byte_bit_bound)
  moreover have "ucast (drop_bit 16 v) = b"
    by (rule bit_word_eqI) (simp add: bit_simps bits byte_bit_bound)
  moreover have "ucast (drop_bit 8 v) = c"
    by (rule bit_word_eqI) (simp add: bit_simps bits byte_bit_bound)
  moreover have "ucast v = d"
    by (rule bit_word_eqI) (simp add: bit_simps bits byte_bit_bound)
  ultimately show ?thesis by (simp add: PutUint32_def)
qed

lemma Uint32_eq_None: "Uint32 bs = None \<longleftrightarrow> length bs < 4"
  by (cases bs rule: Uint32.cases) auto

lemma Uint32_inj: "PutUint32 v = PutUint32 w \<Longrightarrow> v = w"
  by (metis Uint32_PutUint32 append_Nil2 option.inject)

end
