(* ===== verification/Guest_Frame.thy ===== *)
theory Guest_Frame
  imports Byte_Codec
begin

text \<open>
  The wire frames of the guest channel (\<open>src/internal/guest/proto/frame.go\<close>): a five-byte header of
  type and big-endian length, then the payload. A connection's write side is a sink that records
  what was written and may break after a given number of bytes; its read side is the list of bytes
  that arrive before the peer closes.
\<close>

section \<open>Frames\<close>

definition FrameControl :: byte where "FrameControl = 0x01"
definition FramePTY :: byte where "FramePTY = 0x02"
definition FrameArtifact :: byte where "FrameArtifact = 0x03"

definition MaxControlFrame :: u32 where "MaxControlFrame = push_bit 20 1"
definition MaxBinaryFrame :: u32 where "MaxBinaryFrame = push_bit 10 256"

definition maxLen :: "byte \<Rightarrow> u32" where
  "maxLen ty =
     (if ty = FrameControl then MaxControlFrame
      else if ty = FramePTY \<or> ty = FrameArtifact then MaxBinaryFrame
      else 0)"

datatype frame_error =
    UnknownType byte
  | FrameLength
  | WriteHeader
  | WritePayload
  | ReadHeader
  | ReadPayload

text \<open>
  The writer: \<open>sink_room\<close> is how many more bytes it takes before it breaks. A write that does not
  fit writes what fits and reports an error, as \<open>io.Writer\<close> does.
\<close>

record sink =
  sink_out :: "byte list"
  sink_room :: nat

definition sink_write :: "sink \<Rightarrow> byte list \<Rightarrow> sink \<times> bool" where
  "sink_write w bs =
     (w\<lparr>sink_out := sink_out w @ take (sink_room w) bs, sink_room := sink_room w - length bs\<rparr>,
      length bs \<le> sink_room w)"

definition WriteFrame :: "sink \<Rightarrow> byte \<Rightarrow> byte list \<Rightarrow> sink \<times> frame_error option" where
  "WriteFrame w ty payload =
     (let mx = maxLen ty in
      if mx = 0 then (w, Some (UnknownType ty))
      else if mx < (of_nat (length payload) :: u32) then (w, Some FrameLength)
      else
        let hdr = ty # PutUint32 (of_nat (length payload));
            (w1, ok1) = sink_write w hdr
        in if \<not> ok1 then (w1, Some WriteHeader)
           else if 0 < length payload then
             (let (w2, ok2) = sink_write w1 payload
              in if \<not> ok2 then (w2, Some WritePayload) else (w2, None))
           else (w1, None))"

text \<open>\<open>io.ReadFull\<close>: exactly \<open>n\<close> bytes or an error.\<close>

definition read_full :: "nat \<Rightarrow> byte list \<Rightarrow> (byte list \<times> byte list) option" where
  "read_full n inp = (if n \<le> length inp then Some (take n inp, drop n inp) else None)"

definition ReadFrame :: "byte list \<Rightarrow> frame_error + (byte \<times> byte list \<times> byte list)" where
  "ReadFrame inp =
     (case read_full 5 inp of
        None \<Rightarrow> Inl ReadHeader
      | Some (hdr, rest) \<Rightarrow>
          let ty = hdr ! 0; mx = maxLen ty in
          if mx = 0 then Inl (UnknownType ty)
          else (case Uint32 (drop 1 hdr) of
                  None \<Rightarrow> Inl ReadHeader
                | Some len \<Rightarrow>
                    if mx < len then Inl FrameLength
                    else if len = 0 then Inr (ty, [], rest)
                    else (case read_full (unat len) rest of
                            None \<Rightarrow> Inl ReadPayload
                          | Some (payload, rest') \<Rightarrow> Inr (ty, payload, rest'))))"

text \<open>The bytes of one frame on the wire.\<close>

definition frame_bytes :: "byte \<Rightarrow> byte list \<Rightarrow> byte list" where
  "frame_bytes ty payload = ty # PutUint32 (of_nat (length payload)) @ payload"

section \<open>Reading and writing\<close>

lemmas frame_consts [codec_simps] = FrameControl_def FramePTY_def FrameArtifact_def
  MaxControlFrame_def MaxBinaryFrame_def maxLen_def

lemma maxLen_values:
  "unat (maxLen FrameControl) = 1048576" "unat (maxLen FramePTY) = 262144"
  "unat (maxLen FrameArtifact) = 262144"
  by (simp_all add: codec_simps push_bit_eq_mult)

lemma maxLen_bound: "unat (maxLen ty) \<le> 1048576"
  by (simp add: codec_simps push_bit_eq_mult)

lemma maxLen_known: "maxLen ty \<noteq> 0 \<longleftrightarrow> ty = 1 \<or> ty = 2 \<or> ty = 3"
  by (simp add: codec_simps push_bit_eq_mult)

definition frame_ok :: "byte \<Rightarrow> byte list \<Rightarrow> bool" where
  "frame_ok ty payload \<longleftrightarrow> maxLen ty \<noteq> 0 \<and> length payload \<le> unat (maxLen ty)"

lemma frame_ok_length: "frame_ok ty p \<Longrightarrow> unat (of_nat (length p) :: u32) = length p"
  using maxLen_bound [of ty] by (simp add: frame_ok_def unat_of_nat)

lemma frame_ok_not_over: "frame_ok ty p \<Longrightarrow> \<not> maxLen ty < (of_nat (length p) :: u32)"
  using frame_ok_length [of ty p] by (simp add: frame_ok_def word_less_nat_alt)

lemma WriteFrame_ok:
  assumes "frame_ok ty p" and "5 + length p \<le> sink_room w"
  shows "WriteFrame w ty p =
    (w\<lparr>sink_out := sink_out w @ frame_bytes ty p, sink_room := sink_room w - (5 + length p)\<rparr>, None)"
  using assms frame_ok_not_over [OF assms(1)]
  by (cases p) (simp_all add: WriteFrame_def sink_write_def frame_bytes_def frame_ok_def Let_def)

lemma ReadFrame_frame_bytes:
  assumes "frame_ok ty p"
  shows "ReadFrame (frame_bytes ty p @ rest) = Inr (ty, p, rest)"
proof -
  have len: "unat (of_nat (length p) :: u32) = length p" by (rule frame_ok_length [OF assms])
  have z: "(of_nat (length p) :: u32) = 0 \<longleftrightarrow> p = []"
    using unat_eq_zero [of "of_nat (length p) :: u32"] unfolding len by auto
  have "read_full 5 (frame_bytes ty p @ rest) =
        Some (ty # PutUint32 (of_nat (length p)), p @ rest)"
    by (simp add: read_full_def frame_bytes_def)
  moreover have "Uint32 (PutUint32 (of_nat (length p))) = Some (of_nat (length p))"
    using Uint32_PutUint32 [of "of_nat (length p)" "[]"] by simp
  ultimately show ?thesis
    using assms frame_ok_not_over [OF assms] len z
    by (auto simp: ReadFrame_def Let_def frame_ok_def read_full_def)
qed

lemma ReadFrame_Inr_frame_ok:
  assumes "ReadFrame inp = Inr (ty, p, rest)"
  shows "frame_ok ty p" and "length p + length rest + 5 = length inp"
  using assms
  by (auto simp: ReadFrame_def read_full_def Let_def frame_ok_def word_le_nat_alt linorder_not_less
      split: if_splits option.splits)

lemma ReadFrame_Inr_bytes:
  assumes "ReadFrame inp = Inr (ty, p, rest)"
  shows "inp = frame_bytes ty p @ rest"
proof -
  from assms have five: "5 \<le> length inp"
    by (auto simp: ReadFrame_def read_full_def split: if_splits)
  then obtain t a b c d tl where inp: "inp = t # a # b # c # d # tl"
    by (auto simp: eval_nat_numeral Suc_le_length_iff)
  obtain len where len: "Uint32 [a, b, c, d] = Some len" by simp
  from assms inp len have t: "t = ty" and body: "p = take (unat len) tl" "rest = drop (unat len) tl"
    and fits: "unat len \<le> length tl"
    by (auto simp: ReadFrame_def read_full_def Let_def split: if_splits)
  have "PutUint32 len = [a, b, c, d]" by (rule PutUint32_Uint32 [OF len])
  moreover have "length p = unat len" using body(1) fits by simp
  ultimately show ?thesis
    using inp t body by (simp add: frame_bytes_def)
qed

text \<open>A connection's frames in order, until the first that cannot be read.\<close>

function read_frames :: "byte list \<Rightarrow> (byte \<times> byte list) list \<times> frame_error" where
  "read_frames inp =
     (case ReadFrame inp of
        Inl e \<Rightarrow> ([], e)
      | Inr (ty, p, rest) \<Rightarrow> (let (fs, e) = read_frames rest in ((ty, p) # fs, e)))"
  by pat_completeness auto
termination
  by (relation "measure length") (auto dest: ReadFrame_Inr_frame_ok(2))

declare read_frames.simps [simp del]

fun write_frames :: "sink \<Rightarrow> (byte \<times> byte list) list \<Rightarrow> sink \<times> frame_error option" where
  "write_frames w [] = (w, None)"
| "write_frames w ((ty, p) # fs) =
     (case WriteFrame w ty p of
        (w1, Some e) \<Rightarrow> (w1, Some e)
      | (w1, None) \<Rightarrow> write_frames w1 fs)"

definition frames_bytes :: "(byte \<times> byte list) list \<Rightarrow> byte list" where
  "frames_bytes fs = concat (map (\<lambda>(ty, p). frame_bytes ty p) fs)"

lemma length_frame_bytes [simp]: "length (frame_bytes ty p) = 5 + length p"
  by (simp add: frame_bytes_def)

lemma write_frames_ok:
  "list_all (\<lambda>(ty, p). frame_ok ty p) fs \<Longrightarrow> length (frames_bytes fs) \<le> sink_room w \<Longrightarrow>
   write_frames w fs =
     (w\<lparr>sink_out := sink_out w @ frames_bytes fs, sink_room := sink_room w - length (frames_bytes fs)\<rparr>,
      None)"
  by (induction w fs rule: write_frames.induct) (auto simp: frames_bytes_def WriteFrame_ok)

lemma read_frames_concat:
  "list_all (\<lambda>(ty, p). frame_ok ty p) fs \<Longrightarrow> ReadFrame rest = Inl e \<Longrightarrow>
   read_frames (frames_bytes fs @ rest) = (fs, e)"
proof (induction fs)
  case Nil
  then show ?case by (simp add: frames_bytes_def read_frames.simps [of rest])
next
  case (Cons f fs)
  obtain ty p where f: "f = (ty, p)" by fastforce
  have "ReadFrame (frames_bytes (f # fs) @ rest) = Inr (ty, p, frames_bytes fs @ rest)"
    using Cons.prems f by (simp add: frames_bytes_def ReadFrame_frame_bytes)
  with Cons show ?case
    by (simp add: f read_frames.simps [of "frames_bytes ((ty, p) # fs) @ rest"])
qed

text \<open>
  The size check compares the payload length after its conversion to 32 bits. A payload of exactly
  \<open>2 ^ 32\<close> bytes passes it with a header that announces an empty frame.
\<close>

lemma WriteFrame_length_wraps:
  assumes "length p = 2 ^ 32" and "maxLen ty \<noteq> 0" and "5 + length p \<le> sink_room w"
  shows "snd (WriteFrame w ty p) = None"
    and "ReadFrame (drop (length (sink_out w)) (sink_out (fst (WriteFrame w ty p)))) = Inr (ty, [], p)"
proof -
  have z: "(of_nat (length p) :: u32) = 0" by (simp add: assms(1) flip: unat_0_iff)
  have "p \<noteq> []" using assms(1) by auto
  then have "WriteFrame w ty p =
    (w\<lparr>sink_out := sink_out w @ frame_bytes ty [] @ p, sink_room := sink_room w - (5 + length p)\<rparr>, None)"
    using assms(2,3) z by (simp add: WriteFrame_def sink_write_def frame_bytes_def Let_def)
  then show "snd (WriteFrame w ty p) = None"
    and "ReadFrame (drop (length (sink_out w)) (sink_out (fst (WriteFrame w ty p)))) = Inr (ty, [], p)"
    using ReadFrame_frame_bytes [of ty "[]" p] assms(2) by (simp_all add: frame_ok_def)
qed

section \<open>Properties\<close>

text \<open>
  C30: The frame reader accepts exactly the well-formed frames: it returns a type, a payload and the
  unread rest precisely when the input is the encoding of a known type with a payload within that
  type's bound, followed by the rest. So no frame over the bound is ever returned, and no frame is
  returned that was not sent.
\<close>

theorem ReadFrame_accepts_exactly_frames:
  "ReadFrame inp = Inr (ty, p, rest) \<longleftrightarrow>
     maxLen ty \<noteq> 0 \<and> length p \<le> unat (maxLen ty)
     \<and> inp = ty # PutUint32 (of_nat (length p)) @ p @ rest"
  using ReadFrame_Inr_frame_ok(1) [of inp ty p rest] ReadFrame_Inr_bytes [of inp ty p rest]
    ReadFrame_frame_bytes [of ty p rest]
  unfolding frame_ok_def frame_bytes_def by auto

text \<open>
  C31: Frames written one after another to a connection that takes them all are read back on the
  other side unchanged and in order, and the reader then stops at the closed connection.
\<close>

theorem frame_stream_roundtrip:
  assumes "list_all (\<lambda>(ty, p). maxLen ty \<noteq> 0 \<and> length p \<le> unat (maxLen ty)) fs"
    and "length (frames_bytes fs) \<le> room"
    and "write_frames \<lparr>sink_out = [], sink_room = room\<rparr> fs = (w, err)"
  shows "err = None \<and> read_frames (sink_out w) = (fs, ReadHeader)"
proof -
  have ok: "list_all (\<lambda>(ty, p). frame_ok ty p) fs" using assms(1) by (simp add: frame_ok_def)
  have "ReadFrame [] = Inl ReadHeader" by (simp add: ReadFrame_def read_full_def)
  from read_frames_concat [OF ok this] write_frames_ok [OF ok] assms(2,3) show ?thesis by auto
qed

theorem frame_stream_roundtrip_witness:
  "read_frames (sink_out (fst (write_frames \<lparr>sink_out = [], sink_room = 100\<rparr>
      [(FrameControl, [1, 2]), (FramePTY, [])]))) = ([(FrameControl, [1, 2]), (FramePTY, [])], ReadHeader)"
  using frame_stream_roundtrip [of "[(FrameControl, [1, 2]), (FramePTY, [])]" 100
      "fst (write_frames \<lparr>sink_out = [], sink_room = 100\<rparr> [(FrameControl, [1, 2]), (FramePTY, [])])"
      "snd (write_frames \<lparr>sink_out = [], sink_room = 100\<rparr> [(FrameControl, [1, 2]), (FramePTY, [])])"]
  by (simp add: frames_bytes_def maxLen_values maxLen_known FrameControl_def [symmetric]
      FramePTY_def [symmetric])

end
