(* ===== verification/Pty_Session.thy ===== *)
theory Pty_Session
  imports Replay_Ring Guest_Frame
begin

text \<open>
  One guest terminal session and its attachments (\<open>src/internal/guest/pty/broker.go\<close>, the \<open>Session\<close>
  and \<open>attachment\<close> types) and the output pump that turns an attachment into PTY frames
  (\<open>streamOut\<close> in \<open>src/internal/guest/terminal.go\<close>).

  The shell's output arrives in chunks (\<open>drain_output\<close>), an attachment reads at its own pace, and the
  pump emits data frames stamped with stream offsets and drop notices. A read that would block is
  one pass of the waiting loop, repeated when the session changed. The main result is that under
  every interleaving the emitted events tile the stream: each byte between the resume offset and the
  pump's cursor was either delivered unchanged at its offset or announced as dropped.
\<close>

section \<open>Session\<close>

record exit_status =
  es_code :: "int option"
  es_signal :: string
  es_reason :: string

record session =
  ss_id :: string
  ss_ring :: ring
  ss_rows :: u16
  ss_cols :: u16
  ss_eof :: bool
  ss_exited :: bool
  ss_status :: exit_status
  ss_lastSeq :: u64
  ss_master :: "byte list"  \<comment> \<open>everything written to the PTY master so far\<close>

datatype broker_error =
    ErrArgvInvalid
  | ErrSessionExists
  | ErrUnknownSession
  | ErrSessionExited
  | ErrUserUnknown
  | ErrOffsetAhead
  | ErrOther

definition drain_output :: "session \<Rightarrow> byte list \<Rightarrow> session" where
  "drain_output s p = (if p \<noteq> [] then s\<lparr>ss_ring := fst (Ring_Append (ss_ring s) p)\<rparr> else s)"

definition drain_end :: "session \<Rightarrow> exit_status \<Rightarrow> session" where
  "drain_end s st = s\<lparr>ss_eof := True, ss_exited := True, ss_status := st\<rparr>"

text \<open>
  What the kernel did with a write to the master: how many bytes it took and whether it failed.
\<close>

definition Session_Input :: "session \<Rightarrow> u64 \<Rightarrow> byte list \<Rightarrow> nat \<times> bool \<Rightarrow> session \<times> bool" where
  "Session_Input s seq b wr =
     (if seq \<le> ss_lastSeq s then (s, False)
      else let s1 = s\<lparr>ss_master := ss_master s @ take (fst wr) b\<rparr>
           in if \<not> snd wr then (s1, False)
              else (s1\<lparr>ss_lastSeq := seq\<rparr>, True))"

definition Session_Resize :: "session \<Rightarrow> u16 \<Rightarrow> u16 \<Rightarrow> bool \<Rightarrow> session \<times> bool" where
  "Session_Resize s rows cols ioctl_ok =
     (if rows = 0 \<or> cols = 0 then (s, False)
      else if \<not> ioctl_ok then (s, False)
      else (s\<lparr>ss_rows := rows, ss_cols := cols\<rparr>, True))"

section \<open>Attachments\<close>

record attachment =
  at_off :: u64
  at_closed :: bool
  at_drop :: range
  at_dropped :: bool

definition Session_Attach :: "session \<Rightarrow> u64 \<Rightarrow> broker_error + (attachment \<times> u64 \<times> bool)" where
  "Session_Attach s after =
     (if ss_exited s then Inl ErrSessionExited
      else if ring_head (ss_ring s) < after then Inl ErrOffsetAhead
      else
        let tail = Ring_Tail (ss_ring s);
            (resume, gap) = (if after < tail then (tail, True) else (after, False))
        in Inr (\<lparr>at_off = resume, at_closed = False, at_drop = zero_range, at_dropped = False\<rparr>,
                resume, gap))"

definition recordDrop :: "attachment \<Rightarrow> range \<Rightarrow> attachment" where
  "recordDrop a r =
     (if \<not> at_dropped a then a\<lparr>at_drop := r, at_dropped := True\<rparr>
      else a\<lparr>at_drop := (at_drop a)\<lparr>rng_to := rng_to r\<rparr>\<rparr>)"

definition attachment_Dropped :: "attachment \<Rightarrow> attachment \<times> range \<times> bool" where
  "attachment_Dropped a =
     (a\<lparr>at_drop := zero_range, at_dropped := False\<rparr>, at_drop a, at_dropped a)"

definition attachment_Close :: "attachment \<Rightarrow> attachment" where
  "attachment_Close a = a\<lparr>at_closed := True\<rparr>"

datatype read_result = RdBytes "byte list" | RdEOF | RdWait

definition attachment_Read :: "session \<Rightarrow> attachment \<Rightarrow> nat \<Rightarrow> attachment \<times> read_result" where
  "attachment_Read s a k =
     (if k = 0 then (a, RdBytes [])
      else if at_closed a then (a, RdEOF)
      else
        let tail = Ring_Tail (ss_ring s);
            a1 = (if at_off a < tail
                  then (recordDrop a \<lparr>rng_from = at_off a, rng_to = tail\<rparr>)\<lparr>at_off := tail\<rparr>
                  else a)
        in if at_off a1 < ring_head (ss_ring s) then
             let b = fst (Ring_ReadFrom (ss_ring s) (at_off a1));
                 n = min k (length b)
             in (a1\<lparr>at_off := at_off a1 + of_nat n\<rparr>, RdBytes (take n b))
           else if ss_eof s then (a1, RdEOF)
           else (a1, RdWait))"

section \<open>The output pump\<close>

text \<open>How a session ended, as \<open>terminal.closed\<close> reports it.\<close>

definition closedFrom :: "session \<Rightarrow> exit_status" where
  "closedFrom s =
     (if ss_exited s then
        \<lparr>es_code = es_code (ss_status s), es_signal = es_signal (ss_status s),
         es_reason = (if es_reason (ss_status s) \<noteq> [] then es_reason (ss_status s) else ''closed'')\<rparr>
      else \<lparr>es_code = None, es_signal = [], es_reason = ''closed''\<rparr>)"

definition streamChunk :: nat where
  "streamChunk = 32768"

datatype stream_event =
    EvDropped u64 u64
  | EvData u64 "byte list"
  | EvClosed exit_status

text \<open>
  The pump's cursor and attachment, what it has put on the connection, how many more writes the
  connection takes before it fails, and whether the pump has returned.
\<close>

record pump =
  pm_cur :: u64
  pm_at :: attachment
  pm_log :: "stream_event list"
  pm_room :: nat
  pm_done :: bool

definition pump_emit :: "pump \<Rightarrow> stream_event \<Rightarrow> pump" where
  "pump_emit pm e =
     (if pm_room pm = 0 then pm\<lparr>pm_done := True\<rparr>
      else pm\<lparr>pm_log := pm_log pm @ [e], pm_room := pm_room pm - 1\<rparr>)"

definition report_drop :: "pump \<Rightarrow> pump" where
  "report_drop pm =
     (let (a1, r, ok) = attachment_Dropped (pm_at pm); pm0 = pm\<lparr>pm_at := a1\<rparr>
      in if ok then
           let pm1 = pump_emit pm0 (EvDropped (rng_from r) (rng_to r))
           in if pm_done pm1 then pm1 else pm1\<lparr>pm_cur := rng_to r\<rparr>
         else pm0)"

definition report_data :: "pump \<Rightarrow> byte list \<Rightarrow> pump" where
  "report_data pm b =
     (if b = [] then pm
      else let pm1 = pump_emit pm (EvData (pm_cur pm) b)
           in if pm_done pm1 then pm1 else pm1\<lparr>pm_cur := pm_cur pm1 + of_nat (length b)\<rparr>)"

definition streamOut_step :: "session \<Rightarrow> bool \<Rightarrow> pump \<Rightarrow> pump" where
  "streamOut_step s detached pm =
     (if pm_done pm then pm
      else case attachment_Read s (pm_at pm) streamChunk of
        (a1, RdWait) \<Rightarrow> pm\<lparr>pm_at := a1\<rparr>
      | (a1, RdBytes b) \<Rightarrow>
          (let pm1 = report_drop (pm\<lparr>pm_at := a1\<rparr>)
           in if pm_done pm1 then pm1 else report_data pm1 b)
      | (a1, RdEOF) \<Rightarrow>
          (let pm1 = report_drop (pm\<lparr>pm_at := a1\<rparr>)
           in if pm_done pm1 then pm1
              else if detached then pm1\<lparr>pm_done := True\<rparr>
              else (pump_emit pm1 (EvClosed (closedFrom s)))\<lparr>pm_done := True\<rparr>))"

text \<open>The payload of a data event as it goes into a PTY frame.\<close>

definition data_payload :: "u64 \<Rightarrow> byte list \<Rightarrow> byte list" where
  "data_payload cur b = PutUint64 cur @ b"

section \<open>What an attachment delivers\<close>

text \<open>
  The pump's cursor and the attachment agree: without a pending drop they are at the same offset, and
  a pending drop runs from the cursor to the attachment.
\<close>

definition linked :: "u64 \<Rightarrow> attachment \<Rightarrow> bool" where
  "linked cur a \<longleftrightarrow>
     (if at_dropped a
      then rng_from (at_drop a) = cur \<and> rng_to (at_drop a) = at_off a \<and> cur < at_off a
      else at_off a = cur)"

definition skip_to_tail :: "session \<Rightarrow> attachment \<Rightarrow> attachment" where
  "skip_to_tail s a =
     (let tail = Ring_Tail (ss_ring s)
      in if at_off a < tail
         then (recordDrop a \<lparr>rng_from = at_off a, rng_to = tail\<rparr>)\<lparr>at_off := tail\<rparr>
         else a)"

lemma attachment_Read_unfold:
  "k \<noteq> 0 \<Longrightarrow> \<not> at_closed a \<Longrightarrow> attachment_Read s a k =
     (let a1 = skip_to_tail s a in
      if at_off a1 < ring_head (ss_ring s) then
        let b = take k (fst (Ring_ReadFrom (ss_ring s) (at_off a1)))
        in (a1\<lparr>at_off := at_off a1 + of_nat (length b)\<rparr>, RdBytes b)
      else if ss_eof s then (a1, RdEOF) else (a1, RdWait))"
  by (simp add: attachment_Read_def skip_to_tail_def Let_def min_def take_all)

lemma skip_to_tail_linked:
  assumes "linked cur a"
  shows "linked cur (skip_to_tail s a)"
    and "Ring_Tail (ss_ring s) \<le> at_off (skip_to_tail s a)"
    and "at_closed (skip_to_tail s a) = at_closed a"
  using assms
  by (auto simp: skip_to_tail_def linked_def recordDrop_def Let_def not_less intro: less_trans)

lemma skip_to_tail_bound:
  assumes "ring_tracks (ss_ring s) S" and "unat (at_off a) \<le> length S"
  shows "unat (at_off (skip_to_tail s a)) \<le> length S"
  using assms rr.tail_law [OF assms(1)] by (simp add: skip_to_tail_def stream_tail_def Let_def)

lemma attachment_Read_bytes:
  assumes tr: "ring_tracks (ss_ring s) S" and lk: "linked cur a" and bd: "unat (at_off a) \<le> length S"
    and rd: "attachment_Read s a k = (a1, RdBytes b)" and k: "0 < k"
  obtains a0 where "linked cur a0" and "unat (at_off a0) + length b \<le> length S" and "b \<noteq> []"
    and "length b \<le> k" and "b = take (length b) (drop (unat (at_off a0)) S)"
    and "a1 = a0\<lparr>at_off := at_off a0 + of_nat (length b)\<rparr>"
proof -
  define a0 where "a0 = skip_to_tail s a"
  from rd k have open_at: "\<not> at_closed a" by (auto simp: attachment_Read_def)
  from rd k have lt: "at_off a0 < ring_head (ss_ring s)"
    and b: "b = take k (fst (Ring_ReadFrom (ss_ring s) (at_off a0)))"
    and a1: "a1 = a0\<lparr>at_off := at_off a0 + of_nat (length b)\<rparr>"
    by (auto simp: attachment_Read_unfold [OF _ open_at] a0_def [symmetric] Let_def split: if_splits)
  have "Ring_Tail (ss_ring s) \<le> at_off a0" unfolding a0_def by (rule skip_to_tail_linked [OF lk])
  with b have bS: "b = take k (drop (unat (at_off a0)) S)" by (simp add: rr.bounded_read [OF tr])
  have "unat (at_off a0) < length S" using lt rr.head_law [OF tr] by (simp add: word_less_nat_alt)
  with bS k have "b \<noteq> []" and "unat (at_off a0) + length b \<le> length S" by auto
  moreover have "b = take (length b) (drop (unat (at_off a0)) S)" and "length b \<le> k"
    unfolding bS by (simp_all only: take_length_take) simp
  ultimately show ?thesis
    using that skip_to_tail_linked(1) [OF lk] a1 unfolding a0_def by blast
qed

lemma ring_window_open:
  assumes "ring_tracks r S" and "x < Ring_Tail r"
  shows "Ring_Tail r < ring_head r"
proof -
  have "0 < Ring_Size r" using assms(1) by (simp add: Ring_Size_def ring_tracks_def ring_inv_def)
  moreover have "0 < length S - Ring_Size r"
    using assms rr.tail_law [OF assms(1)] unfolding word_less_nat_alt stream_tail_def by linarith
  ultimately have "stream_tail (Ring_Size r) S < length S" by (simp add: stream_tail_def)
  then show ?thesis
    unfolding word_less_nat_alt rr.tail_law [OF assms(1)] rr.head_law [OF assms(1)] .
qed

text \<open>A pass that delivers nothing leaves the attachment as it was: a drop always comes with bytes.\<close>

lemma attachment_Read_other:
  assumes "ring_tracks (ss_ring s) S" and "attachment_Read s a k = (a1, res)"
    and "res = RdWait \<or> res = RdEOF" and "0 < k"
  shows "a1 = a"
proof (cases "at_closed a")
  case True
  with assms show ?thesis by (auto simp: attachment_Read_def)
next
  case False
  then have "a1 = skip_to_tail s a" and "\<not> at_off a1 < ring_head (ss_ring s)"
    using assms by (auto simp: attachment_Read_unfold Let_def split: if_splits)
  then show ?thesis
    using ring_window_open [OF assms(1), of "at_off a"] by (auto simp: skip_to_tail_def Let_def split: if_splits)
qed

lemma progress_read:
  assumes "ring_tracks (ss_ring s) S" and "unat (at_off a) < length S" and "\<not> at_closed a" and "0 < k"
  shows "\<exists>a1 b. attachment_Read s a k = (a1, RdBytes b)"
proof -
  have "at_off (skip_to_tail s a) < ring_head (ss_ring s)"
    using ring_window_open [OF assms(1), of "at_off a"] assms(2) rr.head_law [OF assms(1)]
    by (auto simp: skip_to_tail_def word_less_nat_alt Let_def)
  then show ?thesis using assms(3,4) by (simp add: attachment_Read_unfold Let_def)
qed

section \<open>The events tile the stream\<close>

fun tiles :: "byte list \<Rightarrow> nat \<Rightarrow> stream_event list \<Rightarrow> nat \<Rightarrow> bool" where
  "tiles S a [] c \<longleftrightarrow> a = c"
| "tiles S a (EvDropped f t # es) c \<longleftrightarrow>
     unat f = a \<and> a < unat t \<and> unat t \<le> length S \<and> tiles S (unat t) es c"
| "tiles S a (EvData cur b # es) c \<longleftrightarrow>
     unat cur = a \<and> b \<noteq> [] \<and> a + length b \<le> length S \<and> b = take (length b) (drop a S)
     \<and> length b \<le> streamChunk \<and> tiles S (a + length b) es c"
| "tiles S a (EvClosed st # es) c \<longleftrightarrow> tiles S a es c"

lemma tiles_append: "tiles S a (es @ fs) c \<longleftrightarrow> (\<exists>m. tiles S a es m \<and> tiles S m fs c)"
  by (induction S a es c rule: tiles.induct) auto

lemma tiles_extend: "tiles S a es c \<Longrightarrow> tiles (S @ p) a es c"
  by (induction S a es c rule: tiles.induct) auto

lemma tiles_le: "tiles S a es c \<Longrightarrow> a \<le> length S \<Longrightarrow> a \<le> c \<and> c \<le> length S"
  by (induction S a es c rule: tiles.induct) auto

definition pump_inv :: "nat \<Rightarrow> byte list \<Rightarrow> session \<Rightarrow> pump \<Rightarrow> bool" where
  "pump_inv res S s pm \<longleftrightarrow> ring_tracks (ss_ring s) S \<and> length S < 2 ^ 64
     \<and> tiles S res (pm_log pm) (unat (pm_cur pm)) \<and> unat (pm_cur pm) \<le> length S
     \<and> (\<not> pm_done pm \<longrightarrow> at_off (pm_at pm) = pm_cur pm \<and> \<not> at_dropped (pm_at pm))"

text \<open>After the drop notice the cursor stands where the attachment was before it took bytes.\<close>

lemma report_drop_inv:
  assumes "ring_tracks (ss_ring s) S" and "length S < 2 ^ 64"
    and "tiles S res (pm_log pm) (unat (pm_cur pm))" and "unat (pm_cur pm) \<le> length S"
    and "linked (pm_cur pm) a0" and "unat (at_off a0) \<le> length S" and "\<not> pm_done pm"
    and "at_dropped (pm_at pm) = at_dropped a0" and "at_drop (pm_at pm) = at_drop a0"
  shows "tiles S res (pm_log (report_drop pm)) (unat (pm_cur (report_drop pm)))
    \<and> unat (pm_cur (report_drop pm)) \<le> length S
    \<and> (\<not> pm_done (report_drop pm) \<longrightarrow> pm_cur (report_drop pm) = at_off a0)
    \<and> \<not> at_dropped (pm_at (report_drop pm)) \<and> at_off (pm_at (report_drop pm)) = at_off (pm_at pm)"
  using assms
  by (auto simp: report_drop_def attachment_Dropped_def pump_emit_def linked_def tiles_append
      word_less_nat_alt Let_def split: if_splits)

lemma report_data_inv:
  assumes "length S < 2 ^ 64" and "tiles S res (pm_log pm) (unat (pm_cur pm))"
    and "unat (pm_cur pm) + length b \<le> length S" and "b \<noteq> []" and "length b \<le> streamChunk"
    and "b = take (length b) (drop (unat (pm_cur pm)) S)" and "\<not> pm_done pm"
  shows "tiles S res (pm_log (report_data pm b)) (unat (pm_cur (report_data pm b)))
    \<and> unat (pm_cur (report_data pm b)) \<le> length S
    \<and> pm_at (report_data pm b) = pm_at pm
    \<and> (\<not> pm_done (report_data pm b) \<longrightarrow> pm_cur (report_data pm b) = pm_cur pm + of_nat (length b))"
proof -
  have "length b < 2 ^ 64" and "unat (pm_cur pm) + length b < 2 ^ 64" using assms(1,3) by linarith+
  then have cur: "unat (pm_cur pm + of_nat (length b)) = unat (pm_cur pm) + length b"
    by (simp add: unat_u64_add unat_u64_of_nat)
  show ?thesis
    using assms(2-7) cur
    by (auto simp: report_data_def pump_emit_def tiles_append Let_def)
qed

lemma streamOut_step_inv [inv_intros]:
  assumes inv: "pump_inv res S s pm"
  shows "pump_inv res S s (streamOut_step s detached pm)"
proof (cases "pm_done pm")
  case True
  with inv show ?thesis by (simp add: streamOut_step_def)
next
  case False
  with inv have tr: "ring_tracks (ss_ring s) S" and len: "length S < 2 ^ 64"
    and tl: "tiles S res (pm_log pm) (unat (pm_cur pm))" and cur: "unat (pm_cur pm) \<le> length S"
    and lk: "linked (pm_cur pm) (pm_at pm)" and off: "unat (at_off (pm_at pm)) \<le> length S"
    and nd: "\<not> at_dropped (pm_at pm)"
    by (auto simp: pump_inv_def linked_def)
  have chunk: "0 < streamChunk" by (simp add: streamChunk_def)
  obtain a1 rr where rd: "attachment_Read s (pm_at pm) streamChunk = (a1, rr)" by fastforce
  let ?pm = "pm\<lparr>pm_at := a1\<rparr>"
  show ?thesis
  proof (cases rr)
    case RdWait
    with attachment_Read_other [OF tr rd _ chunk] inv False rd show ?thesis
      by (simp add: streamOut_step_def)
  next
    case RdEOF
    then have "a1 = pm_at pm" using attachment_Read_other [OF tr rd _ chunk] by simp
    with RdEOF rd False tr len tl cur nd show ?thesis
      by (simp add: streamOut_step_def pump_inv_def pump_emit_def report_drop_def
          attachment_Dropped_def tiles_append Let_def)
  next
    case (RdBytes b)
    with rd have "attachment_Read s (pm_at pm) streamChunk = (a1, RdBytes b)" by simp
    then obtain a0 where a0: "linked (pm_cur pm) a0" "unat (at_off a0) + length b \<le> length S"
        "b \<noteq> []" "length b \<le> streamChunk" "b = take (length b) (drop (unat (at_off a0)) S)"
      and a1: "a1 = a0\<lparr>at_off := at_off a0 + of_nat (length b)\<rparr>"
      using attachment_Read_bytes [OF tr lk off _ chunk] by metis
    let ?pd = "report_drop ?pm"
    have pd: "tiles S res (pm_log ?pd) (unat (pm_cur ?pd))" "unat (pm_cur ?pd) \<le> length S"
      "\<not> pm_done ?pd \<longrightarrow> pm_cur ?pd = at_off a0" "\<not> at_dropped (pm_at ?pd)"
      "at_off (pm_at ?pd) = at_off a1"
      using report_drop_inv [OF tr len, of res ?pm a0] tl cur a0 a1 False by auto
    have step: "streamOut_step s detached pm = (if pm_done ?pd then ?pd else report_data ?pd b)"
      using rd RdBytes False by (simp add: streamOut_step_def Let_def)
    show ?thesis
    proof (cases "pm_done ?pd")
      case True
      with step pd tr len show ?thesis by (simp add: pump_inv_def)
    next
      case alive: False
      with pd have cur0: "pm_cur ?pd = at_off a0" by simp
      have a1off: "unat (at_off a1) \<le> length S"
        using a0(2) len a1 by (simp add: unat_u64_add unat_u64_of_nat)
      show ?thesis
        using report_data_inv [OF len, of res ?pd b] alive pd cur0 a0 a1 a1off step tr len
        by (auto simp: pump_inv_def linked_def)
    qed
  qed
qed

lemma drain_output_inv [inv_intros]:
  assumes "pump_inv res S s pm" and "length S + length p < 2 ^ 64"
  shows "pump_inv res (S @ p) (drain_output s p) pm"
  using assms Ring_Append_fst [of "ss_ring s" S p]
  by (cases "p = []") (auto simp: pump_inv_def drain_output_def tiles_extend)

lemma session_frame_inv:
  "pump_inv res S s pm \<Longrightarrow> ss_ring s' = ss_ring s \<Longrightarrow> pump_inv res S s' pm"
  by (simp add: pump_inv_def)

lemma session_ring_frame [simp]:
  "ss_ring (fst (Session_Input s q b wr)) = ss_ring s"
  "ss_ring (fst (Session_Resize s rows cols ok)) = ss_ring s"
  "ss_ring (drain_end s st) = ss_ring s"
  by (simp_all add: Session_Input_def Session_Resize_def drain_end_def Let_def)

lemma attachment_Close_inv [inv_intros]:
  "pump_inv res S s pm \<Longrightarrow> pump_inv res S s (pm\<lparr>pm_at := attachment_Close (pm_at pm)\<rparr>)"
  by (simp add: pump_inv_def attachment_Close_def)

section \<open>Interleavings of shell, reader and operator\<close>

datatype term_action =
    Output "byte list"
  | Pump bool
  | Keys u64 "byte list" "nat \<times> bool"
  | ResizeTo u16 u16 bool
  | EndSession exit_status
  | CloseReader

fun term_step :: "session \<times> pump \<Rightarrow> term_action \<Rightarrow> session \<times> pump" where
  "term_step (s, pm) (Output p) = (drain_output s p, pm)"
| "term_step (s, pm) (Pump detached) = (s, streamOut_step s detached pm)"
| "term_step (s, pm) (Keys q b wr) = (fst (Session_Input s q b wr), pm)"
| "term_step (s, pm) (ResizeTo rows cols ok) = (fst (Session_Resize s rows cols ok), pm)"
| "term_step (s, pm) (EndSession st) = (drain_end s st, pm)"
| "term_step (s, pm) CloseReader = (s, pm\<lparr>pm_at := attachment_Close (pm_at pm)\<rparr>)"

definition term_run :: "session \<times> pump \<Rightarrow> term_action list \<Rightarrow> session \<times> pump" where
  "term_run = foldl term_step"

fun outputs :: "term_action list \<Rightarrow> byte list" where
  "outputs [] = []"
| "outputs (Output p # acts) = p @ outputs acts"
| "outputs (_ # acts) = outputs acts"

lemma term_run_inv:
  "pump_inv res S s pm \<Longrightarrow> length S + length (outputs acts) < 2 ^ 64 \<Longrightarrow>
   (\<lambda>(s', pm'). pump_inv res (S @ outputs acts) s' pm') (term_run (s, pm) acts)"
proof (induction acts arbitrary: S s pm)
  case Nil
  then show ?case by (simp add: term_run_def)
next
  case (Cons act acts)
  obtain s1 pm1 where st: "term_step (s, pm) act = (s1, pm1)" by fastforce
  have "pump_inv res (S @ outputs [act]) s1 pm1"
    using st Cons.prems
    by (cases act) (auto intro: drain_output_inv streamOut_step_inv attachment_Close_inv
        session_frame_inv [of res S s])
  moreover have "outputs (act # acts) = outputs [act] @ outputs acts" by (cases act) auto
  ultimately show ?case
    using Cons.IH [of "S @ outputs [act]" s1 pm1] Cons.prems(2) st
    by (simp add: term_run_def add.assoc)
qed

definition start_pump :: "attachment \<Rightarrow> u64 \<Rightarrow> nat \<Rightarrow> pump" where
  "start_pump a resume room =
     \<lparr>pm_cur = resume, pm_at = a, pm_log = [], pm_room = room, pm_done = False\<rparr>"

lemma Session_Attach_inv:
  assumes "ring_tracks (ss_ring s) S" and "length S < 2 ^ 64"
    and "Session_Attach s after = Inr (a, resume, gap)"
  shows "pump_inv (unat resume) S s (start_pump a resume room)"
    and "unat resume = max (unat after) (stream_tail (Ring_Size (ss_ring s)) S)"
    and "gap \<longleftrightarrow> unat after < stream_tail (Ring_Size (ss_ring s)) S"
proof -
  have res: "resume = (if after < Ring_Tail (ss_ring s) then Ring_Tail (ss_ring s) else after)"
    and a: "at_off a = resume" "\<not> at_dropped a" and le: "after \<le> ring_head (ss_ring s)"
    and gap: "gap \<longleftrightarrow> after < Ring_Tail (ss_ring s)"
    using assms(3) by (auto simp: Session_Attach_def Let_def not_less split: if_splits)
  note laws = rr.head_law [OF assms(1)] rr.tail_law [OF assms(1)]
  show "gap \<longleftrightarrow> unat after < stream_tail (Ring_Size (ss_ring s)) S"
    using gap laws by (simp add: word_less_nat_alt)
  show "unat resume = max (unat after) (stream_tail (Ring_Size (ss_ring s)) S)"
    using res laws by (simp add: word_less_nat_alt max_def)
  have "unat resume \<le> length S"
    using res laws le by (simp add: word_le_nat_alt stream_tail_def)
  then show "pump_inv (unat resume) S s (start_pump a resume room)"
    using assms(1,2) a by (simp add: pump_inv_def start_pump_def)
qed

section \<open>Keystrokes\<close>

fun Session_Inputs ::
  "session \<Rightarrow> (u64 \<times> byte list \<times> nat \<times> bool) list \<Rightarrow> session \<times> (u64 \<times> byte list) list" where
  "Session_Inputs s [] = (s, [])"
| "Session_Inputs s ((q, b, wr) # fs) =
     (let (s1, ok) = Session_Input s q b wr; (s2, acc) = Session_Inputs s1 fs
      in (s2, if ok then (q, b) # acc else acc))"

lemma Session_Inputs_order:
  "Session_Inputs s fs = (s', acc) \<Longrightarrow>
   ss_lastSeq s \<le> ss_lastSeq s' \<and> sorted_wrt (<) (map fst acc)
   \<and> (\<forall>q\<in>set (map fst acc). ss_lastSeq s < q \<and> q \<le> ss_lastSeq s')"
proof (induction fs arbitrary: s s' acc)
  case Nil
  then show ?case by simp
next
  case (Cons f fs)
  obtain q b wr where f: "f = (q, b, wr)" by (metis prod_cases3)
  obtain s1 ok where s1: "Session_Input s q b wr = (s1, ok)" by fastforce
  obtain s2 acc' where s2: "Session_Inputs s1 fs = (s2, acc')" by fastforce
  have IH: "ss_lastSeq s1 \<le> ss_lastSeq s2 \<and> sorted_wrt (<) (map fst acc')
      \<and> (\<forall>q\<in>set (map fst acc'). ss_lastSeq s1 < q \<and> q \<le> ss_lastSeq s2)"
    by (rule Cons.IH [OF s2])
  have "(ok \<longrightarrow> ss_lastSeq s < q \<and> ss_lastSeq s1 = q) \<and> (\<not> ok \<longrightarrow> ss_lastSeq s1 = ss_lastSeq s)"
    using s1 by (auto simp: Session_Input_def not_le Let_def split: if_splits)
  moreover have "s' = s2" and "acc = (if ok then (q, b) # acc' else acc')"
    using Cons.prems s1 s2 f by auto
  ultimately show ?case using IH by (auto intro: less_trans less_le_trans)
qed

lemma Session_Inputs_master:
  "Session_Inputs s fs = (s', acc) \<Longrightarrow> list_all (\<lambda>(q, b, wr). wr = (length b, True)) fs \<Longrightarrow>
   ss_master s' = ss_master s @ concat (map snd acc)"
proof (induction fs arbitrary: s s' acc)
  case Nil
  then show ?case by simp
next
  case (Cons f fs)
  obtain q b wr where f: "f = (q, b, wr)" by (metis prod_cases3)
  obtain s1 ok where s1: "Session_Input s q b wr = (s1, ok)" by fastforce
  obtain s2 acc' where s2: "Session_Inputs s1 fs = (s2, acc')" by fastforce
  have IH: "ss_master s2 = ss_master s1 @ concat (map snd acc')"
    using Cons.prems(2) by (intro Cons.IH [OF s2]) simp
  have "ss_master s1 = ss_master s @ (if ok then b else [])"
    using s1 Cons.prems(2) f by (auto simp: Session_Input_def Let_def split: if_splits)
  with IH Cons.prems(1) s1 s2 f show ?case by auto
qed

section \<open>Properties\<close>

text \<open>
  C7: Attach a reader to a running session at any offset and let shell output, pump passes, keystrokes,
  resizes, the session's end and the reader's close interleave in any order. The events put on the
  connection tile the output stream from the resume offset to the pump's cursor: every data frame
  carries the stream's own bytes at the offset it is stamped with, every drop notice names exactly
  the range in between, and nothing is skipped, repeated or reordered. The resume offset is the
  asked offset, or the tail when that is newer, and the gap flag says which.
\<close>

theorem terminal_stream_is_tiled:
  assumes "ring_tracks (ss_ring s) S" and "length S + length (outputs acts) < 2 ^ 64"
    and "Session_Attach s after = Inr (a, resume, gap)"
    and "term_run (s, start_pump a resume room) acts = (s', pm)"
  shows "tiles (S @ outputs acts) (unat resume) (pm_log pm) (unat (pm_cur pm))
    \<and> unat resume \<le> unat (pm_cur pm) \<and> unat (pm_cur pm) \<le> length (S @ outputs acts)
    \<and> unat resume = max (unat after) (stream_tail (Ring_Size (ss_ring s)) S)
    \<and> (gap \<longleftrightarrow> unat after < stream_tail (Ring_Size (ss_ring s)) S)"
proof -
  have "length S < 2 ^ 64" using assms(2) by simp
  note at = Session_Attach_inv [OF assms(1) this assms(3)]
  have "pump_inv (unat resume) (S @ outputs acts) s' pm"
    using term_run_inv [OF at(1) assms(2), of room] assms(4) by simp
  then have t: "tiles (S @ outputs acts) (unat resume) (pm_log pm) (unat (pm_cur pm))"
    by (simp add: pump_inv_def)
  have "unat resume \<le> length (S @ outputs acts)"
    using at(1) [of room] by (simp add: pump_inv_def start_pump_def)
  from tiles_le [OF t this] t at(2,3) show ?thesis by blast
qed

definition demo_status :: exit_status where
  "demo_status = \<lparr>es_code = None, es_signal = [], es_reason = []\<rparr>"

definition demo_session :: session where
  "demo_session = \<lparr>ss_id = ''s'', ss_ring = demo_ring, ss_rows = 24, ss_cols = 80, ss_eof = False,
     ss_exited = False, ss_status = demo_status, ss_lastSeq = 0, ss_master = []\<rparr>"

lemma demo_session_tracks:
  "ring_tracks (ss_ring demo_session) [1, 2, 3]" "Ring_Size (ss_ring demo_session) = 4"
  by (simp_all add: demo_session_def demo_ring_tracks)

definition demo_at :: attachment where
  "demo_at = \<lparr>at_off = 1, at_closed = False, at_drop = zero_range, at_dropped = False\<rparr>"

lemma demo_attach: "Session_Attach demo_session 1 = Inr (demo_at, 1, False)"
proof -
  have "unat (ring_head demo_ring) = 3" and "unat (Ring_Tail demo_ring) = 0"
    using rr.head_law [OF demo_ring_tracks(1)] rr.tail_law [OF demo_ring_tracks(1)] demo_ring_tracks(2)
    by (simp_all add: stream_tail_def)
  then show ?thesis
    by (simp add: Session_Attach_def demo_session_def demo_at_def word_less_nat_alt)
qed

theorem terminal_stream_is_tiled_witness:
  "tiles [1, 2, 3, 4, 5, 6, 7, 8] 1
     (pm_log (snd (term_run (demo_session, start_pump demo_at 1 9) [Output [4, 5, 6, 7, 8], Pump False])))
     (unat (pm_cur (snd (term_run (demo_session, start_pump demo_at 1 9)
        [Output [4, 5, 6, 7, 8], Pump False]))))"
  using terminal_stream_is_tiled [OF demo_session_tracks(1) _ demo_attach,
      of "[Output [4, 5, 6, 7, 8], Pump False]" 9
      "fst (term_run (demo_session, start_pump demo_at 1 9) [Output [4, 5, 6, 7, 8], Pump False])"
      "snd (term_run (demo_session, start_pump demo_at 1 9) [Output [4, 5, 6, 7, 8], Pump False])"]
  by simp

text \<open>
  C32: The pump makes progress. While the connection takes writes and the reader is open, a pass
  that finds output beyond its cursor moves the cursor strictly forward, so a reader that keeps
  asking reaches the head of the stream.
\<close>

theorem pump_progress:
  assumes "pump_inv res S s pm" and "\<not> pm_done pm" and "\<not> at_closed (pm_at pm)"
    and "2 \<le> pm_room pm" and "unat (pm_cur pm) < length S"
  shows "unat (pm_cur pm) < unat (pm_cur (streamOut_step s detached pm))
    \<and> \<not> pm_done (streamOut_step s detached pm)"
proof -
  from assms have tr: "ring_tracks (ss_ring s) S" and len: "length S < 2 ^ 64"
    and lk: "linked (pm_cur pm) (pm_at pm)" and off: "unat (at_off (pm_at pm)) \<le> length S"
    by (auto simp: pump_inv_def linked_def)
  have k: "0 < streamChunk" by (simp add: streamChunk_def)
  have at: "at_off (pm_at pm) = pm_cur pm" using assms by (simp add: pump_inv_def)
  obtain a1 b where rd: "attachment_Read s (pm_at pm) streamChunk = (a1, RdBytes b)"
    using progress_read [OF tr _ assms(3) k] assms(5) at by metis
  obtain a0 where a0: "linked (pm_cur pm) a0" "unat (at_off a0) + length b \<le> length S" "b \<noteq> []"
    "a1 = a0\<lparr>at_off := at_off a0 + of_nat (length b)\<rparr>"
    using attachment_Read_bytes [OF tr lk off rd k] by metis
  have "unat (pm_cur pm) \<le> unat (at_off a0)"
    using a0(1) by (auto simp: linked_def word_less_nat_alt split: if_splits)
  moreover have "unat (at_off a0 + of_nat (length b)) = unat (at_off a0) + length b"
    using a0(2) len by (simp add: unat_u64_add unat_u64_of_nat)
  moreover have "0 < length b" using a0(3) by simp
  ultimately have more: "unat (pm_cur pm) < unat (at_off a0 + of_nat (length b))" by linarith
  show ?thesis
    using rd a0 assms(2,4) more
    by (auto simp: streamOut_step_def report_drop_def attachment_Dropped_def report_data_def
        pump_emit_def linked_def Let_def split: if_splits)
qed

theorem pump_progress_witness:
  "1 < unat (pm_cur (streamOut_step demo_session False (start_pump demo_at 1 5)))"
proof -
  have "pump_inv 1 [1, 2, 3] demo_session (start_pump demo_at 1 5)"
    using Session_Attach_inv(1) [OF demo_session_tracks(1) _ demo_attach, of 5] by simp
  from pump_progress [OF this, of False] show ?thesis
    by (simp add: start_pump_def demo_at_def)
qed

text \<open>
  C33: Keystroke frames are applied at most once and in order. Whatever sequence of frames arrives, with
  retransmissions and failed writes, the accepted ones have strictly increasing sequence numbers
  above the last one applied before, a frame at or below the last applied number changes nothing,
  and when the master takes every write the shell receives exactly the accepted frames' bytes.
\<close>

theorem keystrokes_applied_once:
  assumes "Session_Inputs s fs = (s', acc)"
  shows "sorted_wrt (<) (map fst acc) \<and> (\<forall>q\<in>set (map fst acc). ss_lastSeq s < q \<and> q \<le> ss_lastSeq s')
    \<and> (\<forall>q b wr. q \<le> ss_lastSeq s' \<longrightarrow> Session_Input s' q b wr = (s', False))
    \<and> (list_all (\<lambda>(q, b, wr). wr = (length b, True)) fs \<longrightarrow>
         ss_master s' = ss_master s @ concat (map snd acc))"
  using Session_Inputs_order [OF assms] Session_Inputs_master [OF assms]
  by (simp add: Session_Input_def)

theorem keystrokes_applied_once_witness:
  "ss_master (fst (Session_Inputs demo_session
     [(1, [7], 1, True), (2, [8, 9], 2, True), (1, [7], 1, True)])) = [7, 8, 9]"
  using keystrokes_applied_once [of demo_session "[(1, [7], 1, True), (2, [8, 9], 2, True), (1, [7], 1, True)]"
      "fst (Session_Inputs demo_session [(1, [7], 1, True), (2, [8, 9], 2, True), (1, [7], 1, True)])"
      "snd (Session_Inputs demo_session [(1, [7], 1, True), (2, [8, 9], 2, True), (1, [7], 1, True)])"]
  by (simp add: demo_session_def Session_Input_def Let_def word_le_nat_alt)


lemma demo_pump_log:
  "pump_inv 1 [1, 2, 3] demo_session
     \<lparr>pm_cur = 3, pm_at = demo_at\<lparr>at_off := 3\<rparr>, pm_log = [EvData 1 [2, 3]], pm_room = 4, pm_done = False\<rparr>"
  using demo_session_tracks(1) by (simp add: pump_inv_def demo_at_def streamChunk_def)


end
