(* ===== verification/Pty_Broker.thy ===== *)
theory Pty_Broker
  imports Pty_Session "HOL-Library.List_Lexorder" "HOL-Library.Char_ord"
begin

text \<open>
  The guest PTY broker (\<open>Broker\<close> in \<open>src/internal/guest/pty/broker.go\<close>), the terminal verbs of the
  control channel and the admission of a session stream (\<open>serveTerminal\<close>, \<open>handleStream\<close>, \<open>streamIn\<close> in
  \<open>src/internal/guest/terminal.go\<close>, \<open>authHello\<close> in \<open>src/internal/guest/agent.go\<close>).

  What the operating system answers (the user database, opening a PTY, starting the program) is an
  argument of the operations that ask it. The broker's map of sessions is an association list with
  one entry per id, in the order Go's map iteration happens to have; \<open>Broker_List\<close> does not depend on it.
\<close>

section \<open>Request validation\<close>

definition MinRingBytes :: int where "MinRingBytes = 4096"
definition DefaultRingBytes :: int where "DefaultRingBytes = 262144"
definition MaxRingBytes :: int where "MaxRingBytes = 4194304"

definition clampRing :: "int \<Rightarrow> int" where
  "clampRing n =
     (if n \<le> 0 then DefaultRingBytes
      else if n < MinRingBytes then MinRingBytes
      else if MaxRingBytes < n then MaxRingBytes
      else n)"

definition IsAbs :: "string \<Rightarrow> bool" where
  "IsAbs p = (case p of [] \<Rightarrow> False | c # _ \<Rightarrow> c = CHR ''/'')"

definition validateArgv :: "string list \<Rightarrow> broker_error option" where
  "validateArgv argv =
     (case argv of
        [] \<Rightarrow> Some ErrArgvInvalid
      | prog # args \<Rightarrow>
          if \<not> IsAbs prog then Some ErrArgvInvalid
          else if list_ex (\<lambda>a. a = ''-c'') args then Some ErrArgvInvalid
          else None)"

text \<open>A user database entry: name, numeric ids as strings, home and supplementary groups.\<close>

record passwd =
  pw_name :: string
  pw_uid :: string
  pw_gid :: string
  pw_home :: string
  pw_groups :: "string list option"

record credential =
  cr_uid :: u32
  cr_gid :: u32
  cr_groups :: "u32 list"

definition childUser ::
  "passwd option \<Rightarrow> (string \<Rightarrow> passwd option) \<Rightarrow> string
   \<Rightarrow> broker_error + (passwd \<times> credential option)" where
  "childUser current lookup name =
     (case current of
        None \<Rightarrow> Inl ErrOther
      | Some self \<Rightarrow>
          if name = [] \<or> name = pw_name self then Inr (self, None)
          else case lookup name of
            None \<Rightarrow> Inl ErrUserUnknown
          | Some u \<Rightarrow>
              if pw_uid u = pw_uid self then Inr (u, None)
              else case parse_uint32 (pw_uid u) of
                None \<Rightarrow> Inl ErrUserUnknown
              | Some uid \<Rightarrow>
                  (case parse_uint32 (pw_gid u) of
                     None \<Rightarrow> Inl ErrUserUnknown
                   | Some gid \<Rightarrow>
                       Inr (u, Some \<lparr>cr_uid = of_nat uid, cr_gid = of_nat gid,
                         cr_groups = (case pw_groups u of
                           None \<Rightarrow> []
                         | Some ids \<Rightarrow> map of_nat (List.map_filter parse_uint32 ids))\<rparr>)))"

section \<open>Creating, closing and listing sessions\<close>

record session_spec =
  sp_id :: string
  sp_user :: string
  sp_cwd :: string
  sp_argv :: "string list"
  sp_term :: string
  sp_rows :: u16
  sp_cols :: u16
  sp_ringBytes :: int

record os_env =
  os_current :: "passwd option"
  os_lookup :: "string \<Rightarrow> passwd option"
  os_open :: bool
  os_slave :: bool
  os_start :: bool

type_synonym broker = "(string \<times> session) list"

definition Broker_Get :: "broker \<Rightarrow> string \<Rightarrow> session option" where
  "Broker_Get b i = map_of b i"

definition create_check ::
  "os_env \<Rightarrow> broker \<Rightarrow> session_spec \<Rightarrow> broker_error + (passwd \<times> credential option)" where
  "create_check os b spec =
     (if sp_id spec = [] then Inl ErrArgvInvalid
      else case validateArgv (sp_argv spec) of
        Some e \<Rightarrow> Inl e
      | None \<Rightarrow>
          if sp_cwd spec \<noteq> [] \<and> \<not> IsAbs (sp_cwd spec) then Inl ErrArgvInvalid
          else if sp_rows spec = 0 \<or> sp_cols spec = 0 then Inl ErrArgvInvalid
          else case childUser (os_current os) (os_lookup os) (sp_user spec) of
            Inl e \<Rightarrow> Inl e
          | Inr uc \<Rightarrow>
              if Broker_Get b (sp_id spec) \<noteq> None then Inl ErrSessionExists else Inr uc)"

text \<open>The child process as it is handed to the kernel.\<close>

record child =
  ch_prog :: string
  ch_args :: "string list"
  ch_dir :: string
  ch_env :: "string list"
  ch_setsid :: bool
  ch_setctty :: bool
  ch_cred :: "credential option"

definition guestPath :: string where
  "guestPath = ''/usr/local/sbin:/usr/local/bin:/usr/sbin:/usr/bin:/sbin:/bin''"

definition child_of :: "session_spec \<Rightarrow> passwd \<Rightarrow> credential option \<Rightarrow> child" where
  "child_of spec u cred =
     (let cwd0 = (if sp_cwd spec = [] then pw_home u else sp_cwd spec);
          cwd = (if cwd0 = [] then ''/'' else cwd0);
          trm = (if sp_term spec = [] then ''xterm-256color'' else sp_term spec)
      in \<lparr>ch_prog = hd (sp_argv spec), ch_args = tl (sp_argv spec), ch_dir = cwd,
          ch_env = [''TERM='' @ trm, ''PATH='' @ guestPath, ''HOME='' @ cwd, ''USER='' @ pw_name u,
                    ''LOGNAME='' @ pw_name u, ''SHELL='' @ hd (sp_argv spec), ''LANG=C.UTF-8''],
          ch_setsid = True, ch_setctty = True, ch_cred = cred\<rparr>)"

definition create_start :: "os_env \<Rightarrow> session_spec \<Rightarrow> broker_error + session" where
  "create_start os spec =
     (if \<not> os_open os then Inl ErrOther
      else if \<not> os_slave os then Inl ErrOther
      else if \<not> os_start os then Inl ErrOther
      else Inr \<lparr>ss_id = sp_id spec, ss_ring = NewRing (clampRing (sp_ringBytes spec)),
                ss_rows = sp_rows spec, ss_cols = sp_cols spec, ss_eof = False, ss_exited = False,
                ss_status = \<lparr>es_code = None, es_signal = [], es_reason = []\<rparr>,
                ss_lastSeq = 0, ss_master = []\<rparr>)"

text \<open>
  The second critical section: the id is checked again, because another create may have run while
  the program was being started. The loser's program is terminated.
\<close>

definition create_commit :: "broker \<Rightarrow> session \<Rightarrow> broker \<times> broker_error option" where
  "create_commit b s =
     (if Broker_Get b (ss_id s) \<noteq> None then (b, Some ErrSessionExists)
      else ((ss_id s, s) # b, None))"

definition Broker_Create ::
  "os_env \<Rightarrow> broker \<Rightarrow> session_spec \<Rightarrow> broker \<times> (broker_error + session \<times> child)" where
  "Broker_Create os b spec =
     (case create_check os b spec of
        Inl e \<Rightarrow> (b, Inl e)
      | Inr (u, cred) \<Rightarrow>
          (case create_start os spec of
             Inl e \<Rightarrow> (b, Inl e)
           | Inr s \<Rightarrow>
               (case create_commit b s of
                  (b', Some e) \<Rightarrow> (b', Inl e)
                | (b', None) \<Rightarrow> (b', Inr (s, child_of spec u cred)))))"

definition Broker_Close :: "broker \<Rightarrow> string \<Rightarrow> broker \<times> (broker_error + session)" where
  "Broker_Close b i =
     (case Broker_Get b i of
        None \<Rightarrow> (b, Inl ErrUnknownSession)
      | Some s \<Rightarrow> (filter (\<lambda>(j, _). j \<noteq> i) b, Inr s))"

record session_info =
  si_id :: string
  si_rows :: u16
  si_cols :: u16
  si_head :: u64
  si_tail :: u64
  si_ringBytes :: nat
  si_exited :: bool
  si_exit :: exit_status

definition Session_Info :: "session \<Rightarrow> session_info" where
  "Session_Info s =
     \<lparr>si_id = ss_id s, si_rows = ss_rows s, si_cols = ss_cols s, si_head = ring_head (ss_ring s),
      si_tail = Ring_Tail (ss_ring s), si_ringBytes = Ring_Size (ss_ring s),
      si_exited = ss_exited s, si_exit = ss_status s\<rparr>"

definition Broker_List :: "broker \<Rightarrow> session_info list" where
  "Broker_List b = sort_key si_id (map (\<lambda>(_, s). Session_Info s) b)"

section \<open>The control verbs\<close>

definition terminalCause :: "broker_error \<Rightarrow> string" where
  "terminalCause e =
     (case e of
        ErrArgvInvalid \<Rightarrow> ''argv_invalid''
      | ErrSessionExists \<Rightarrow> ''session_exists''
      | ErrUnknownSession \<Rightarrow> ''session_unknown''
      | ErrSessionExited \<Rightarrow> ''session_exited''
      | ErrUserUnknown \<Rightarrow> ''user_unknown''
      | ErrOffsetAhead \<Rightarrow> ''offset_ahead''
      | ErrOther \<Rightarrow> ''session_failed'')"

text \<open>A verb with its decoded payload; \<open>None\<close> when the payload is not valid JSON.\<close>

datatype term_verb =
    TerminalCreate "session_spec option"
  | TerminalClose "string option"
  | TerminalList
  | OtherVerb

datatype term_reply =
    TerminalCreated string
  | TerminalClosed string exit_status
  | TerminalSessions "(string \<times> u16 \<times> u16 \<times> string \<times> string) list"
  | TerminalError string

text \<open>
  Closing takes the handle first and answers with how the child ended; \<open>reaped\<close> is the status the
  reaper recorded while the session was being terminated.
\<close>

definition serveTerminal ::
  "os_env \<Rightarrow> exit_status \<Rightarrow> broker \<Rightarrow> term_verb \<Rightarrow> broker \<times> term_reply" where
  "serveTerminal os reaped b v =
     (case v of
        TerminalCreate None \<Rightarrow> (b, TerminalError ''malformed_request'')
      | TerminalCreate (Some spec) \<Rightarrow>
          (case Broker_Create os b spec of
             (b', Inl e) \<Rightarrow> (b', TerminalError (terminalCause e))
           | (b', Inr (s, _)) \<Rightarrow> (b', TerminalCreated (ss_id s)))
      | TerminalClose None \<Rightarrow> (b, TerminalError ''malformed_request'')
      | TerminalClose (Some i) \<Rightarrow>
          (case Broker_Get b i of
             None \<Rightarrow> (b, TerminalError ''session_unknown'')
           | Some s \<Rightarrow>
               (case Broker_Close b i of
                  (b', Inl e) \<Rightarrow> (b', TerminalError (terminalCause e))
                | (b', Inr s') \<Rightarrow> (b', TerminalClosed (ss_id s') 
                    (closedFrom (if ss_exited s' then s' else drain_end s' reaped)))))
      | TerminalList \<Rightarrow>
          (b, TerminalSessions (map (\<lambda>i. (si_id i, si_rows i, si_cols i,
                format_uint (unat (si_head i)), format_uint (unat (si_tail i)))) (Broker_List b)))
      | OtherVerb \<Rightarrow> (b, TerminalError ''unsupported''))"

section \<open>The session stream\<close>

definition ProtocolVersion :: int where "ProtocolVersion = 1"

record hello =
  he_version :: int
  he_proof :: string
  he_session :: string
  he_after :: string

definition authHello :: "string \<Rightarrow> hello \<Rightarrow> string option" where
  "authHello token h =
     (if he_version h \<noteq> ProtocolVersion then Some ''protocol version mismatch''
      else if length (he_proof h) \<noteq> length token \<or> he_proof h \<noteq> token
      then Some ''authentication failed''
      else None)"

text \<open>The first control message of a stream connection, as far as it could be read.\<close>

datatype first_message = Unreadable | NotHello | BadHello | HelloMsg hello

datatype hello_answer =
    ProtocolError
  | AckRefused string
  | AckAccepted u64 bool attachment session

definition handleStream_hello :: "string \<Rightarrow> broker \<Rightarrow> first_message \<Rightarrow> hello_answer" where
  "handleStream_hello token b m =
     (case m of
        Unreadable \<Rightarrow> ProtocolError
      | NotHello \<Rightarrow> ProtocolError
      | BadHello \<Rightarrow> ProtocolError
      | HelloMsg h \<Rightarrow>
          (case authHello token h of
             Some reason \<Rightarrow> AckRefused reason
           | None \<Rightarrow>
               (case Broker_Get b (he_session h) of
                  None \<Rightarrow> AckRefused ''no such session''
                | Some s \<Rightarrow>
                    (case (if he_after h \<noteq> [] then parse_uint64 (he_after h) else Some 0) of
                       None \<Rightarrow> AckRefused ''after_offset must be a decimal string''
                     | Some after \<Rightarrow>
                         (case Session_Attach s (of_nat after) of
                            Inl e \<Rightarrow> AckRefused (terminalCause e)
                          | Inr (a, resume, gap) \<Rightarrow> AckAccepted resume gap a s)))))"

text \<open>
  The input pump over the frames that arrive. \<open>wr\<close> is what the master does with a write, \<open>dec\<close> decodes
  a control payload to a resize request, \<open>ioctl\<close> is the kernel's answer to it. The second result
  counts the resize errors reported back.
\<close>

fun streamIn ::
  "(byte list \<Rightarrow> nat \<times> bool) \<Rightarrow> (byte list \<Rightarrow> (u16 \<times> u16) option) \<Rightarrow> bool
   \<Rightarrow> session \<Rightarrow> (byte \<times> byte list) list \<Rightarrow> session \<times> nat" where
  "streamIn wr dec ioctl s [] = (s, 0)"
| "streamIn wr dec ioctl s ((ty, p) # fs) =
     (if ty = FramePTY then
        (if length p < 8 then (s, 0)
         else case Uint64 (take 8 p) of
                None \<Rightarrow> (s, 0)
              | Some seq \<Rightarrow>
                  streamIn wr dec ioctl (fst (Session_Input s seq (drop 8 p) (wr (drop 8 p)))) fs)
      else if ty = FrameControl then
        (case dec p of
           None \<Rightarrow> streamIn wr dec ioctl s fs
         | Some (rows, cols) \<Rightarrow>
             (let (s1, ok) = Session_Resize s rows cols ioctl;
                  (s2, n) = streamIn wr dec ioctl s1 fs
              in (s2, if ok then n else Suc n)))
      else streamIn wr dec ioctl s fs)"

section \<open>The broker's invariant\<close>

text \<open>
  One entry per id, filed under the session's own id, and every ring within the configured bounds
  and in a proper state.
\<close>

definition broker_inv :: "broker \<Rightarrow> bool" where
  "broker_inv b \<longleftrightarrow> distinct (map fst b)
     \<and> (\<forall>(i, s)\<in>set b. i = ss_id s \<and> ring_inv (ss_ring s)
          \<and> MinRingBytes \<le> int (Ring_Size (ss_ring s)) \<and> int (Ring_Size (ss_ring s)) \<le> MaxRingBytes)"

lemma clampRing_bounds: "MinRingBytes \<le> clampRing n \<and> clampRing n \<le> MaxRingBytes"
  by (simp add: clampRing_def MinRingBytes_def MaxRingBytes_def DefaultRingBytes_def)

lemma create_start_session:
  assumes "create_start os spec = Inr s"
  shows "ss_id s = sp_id spec" and "ring_tracks (ss_ring s) []"
    and "MinRingBytes \<le> int (Ring_Size (ss_ring s))" and "int (Ring_Size (ss_ring s)) \<le> MaxRingBytes"
proof -
  from assms have s: "ss_id s = sp_id spec" "ss_ring s = NewRing (clampRing (sp_ringBytes spec))"
    by (auto simp: create_start_def split: if_splits)
  then show "ss_id s = sp_id spec" and "ring_tracks (ss_ring s) []" by (simp_all add: NewRing_tracks)
  have "1 \<le> clampRing (sp_ringBytes spec)"
    using clampRing_bounds [of "sp_ringBytes spec"] by (simp add: MinRingBytes_def)
  then show "MinRingBytes \<le> int (Ring_Size (ss_ring s))" and "int (Ring_Size (ss_ring s)) \<le> MaxRingBytes"
    using clampRing_bounds [of "sp_ringBytes spec"] by (simp_all add: s)
qed

lemma create_commit_inv:
  assumes "broker_inv b" and "create_start os spec = Inr s"
  shows "broker_inv (fst (create_commit b s))"
  using assms create_start_session [OF assms(2)]
  by (auto simp: create_commit_def broker_inv_def Broker_Get_def ring_tracks_def map_of_eq_None_iff)

lemma Broker_Create_inv [inv_intros]: "broker_inv b \<Longrightarrow> broker_inv (fst (Broker_Create os b spec))"
  by (auto simp: Broker_Create_def split: sum.splits prod.splits option.splits
      dest: create_commit_inv)

lemma Broker_Close_inv [inv_intros]: "broker_inv b \<Longrightarrow> broker_inv (fst (Broker_Close b i))"
  by (auto simp: Broker_Close_def broker_inv_def distinct_map_filter split: option.splits)

lemma serveTerminal_inv [inv_intros]:
  "broker_inv b \<Longrightarrow> broker_inv (fst (serveTerminal os reaped b v))"
  using Broker_Create_inv [of b os] Broker_Close_inv [of b]
  by (auto simp: serveTerminal_def split: term_verb.splits option.splits prod.splits sum.splits)
    (metis fst_conv)+

section \<open>Racing creates, closes and session traffic\<close>

text \<open>
  Creates run concurrently: between its two critical sections a create holds a started session that
  is not yet in the map. The state is the map and those pending sessions.
\<close>

definition update_session :: "broker \<Rightarrow> string \<Rightarrow> (session \<Rightarrow> session) \<Rightarrow> broker" where
  "update_session b i f = map (\<lambda>(j, s). (j, if j = i then f s else s)) b"

inductive broker_step :: "os_env \<Rightarrow> broker \<times> session list \<Rightarrow> broker \<times> session list \<Rightarrow> bool"
  for os where
  step_start: "create_check os b spec = Inr uc \<Longrightarrow> create_start os spec = Inr s \<Longrightarrow>
    broker_step os (b, ps) (b, s # ps)"
| step_commit: "s \<in> set ps \<Longrightarrow> broker_step os (b, ps) (fst (create_commit b s), remove1 s ps)"
| step_close: "broker_step os (b, ps) (fst (Broker_Close b i), ps)"
| step_output: "Broker_Get b i = Some s \<Longrightarrow> unat (ring_head (ss_ring s)) + length p < 2 ^ 64 \<Longrightarrow>
    broker_step os (b, ps) (update_session b i (\<lambda>s. drain_output s p), ps)"
| step_keys: "broker_step os (b, ps) (update_session b i (\<lambda>s. fst (Session_Input s q k wr)), ps)"
| step_resize: "broker_step os (b, ps) (update_session b i (\<lambda>s. fst (Session_Resize s r c ok)), ps)"
| step_exit: "broker_step os (b, ps) (update_session b i (\<lambda>s. drain_end s st), ps)"

inductive broker_reachable :: "os_env \<Rightarrow> broker \<times> session list \<Rightarrow> bool" for os where
  reach_init: "broker_reachable os ([], [])"
| reach_step: "broker_reachable os x \<Longrightarrow> broker_step os x y \<Longrightarrow> broker_reachable os y"

inductive_cases broker_stepE: "broker_step os (b, ps) y"

definition session_ok :: "session \<Rightarrow> bool" where
  "session_ok s \<longleftrightarrow> ring_inv (ss_ring s)
     \<and> MinRingBytes \<le> int (Ring_Size (ss_ring s)) \<and> int (Ring_Size (ss_ring s)) \<le> MaxRingBytes"

lemma broker_inv_alt:
  "broker_inv b \<longleftrightarrow> distinct (map fst b) \<and> (\<forall>(i, s)\<in>set b. i = ss_id s \<and> session_ok s)"
  by (simp add: broker_inv_def session_ok_def)

lemma create_start_ok: "create_start os spec = Inr s \<Longrightarrow> session_ok s"
  using create_start_session [of os spec s] by (simp add: session_ok_def ring_tracks_def)

lemma create_commit_ok: "broker_inv b \<Longrightarrow> session_ok s \<Longrightarrow> broker_inv (fst (create_commit b s))"
  by (auto simp: create_commit_def broker_inv_alt Broker_Get_def map_of_eq_None_iff)

lemma update_session_inv:
  assumes "broker_inv b"
    and "\<And>s. Broker_Get b i = Some s \<Longrightarrow> ss_id (f s) = ss_id s \<and> session_ok (f s)"
  shows "broker_inv (update_session b i f)"
proof -
  have keys: "map fst (update_session b i f) = map fst b"
    by (simp add: update_session_def case_prod_beta comp_def)
  have "j = ss_id t \<and> session_ok t" if mem: "(j, t) \<in> set (update_session b i f)" for j t
  proof -
    from mem obtain s where s: "(j, s) \<in> set b" and t: "t = (if j = i then f s else s)"
      by (auto simp: update_session_def)
    from s assms(1) have "Broker_Get b j = Some s"
      by (simp add: Broker_Get_def broker_inv_def)
    with s t assms show ?thesis by (auto simp: broker_inv_alt)
  qed
  with keys assms(1) show ?thesis by (auto simp: broker_inv_alt)
qed

lemma ring_inv_Append:
  assumes "ring_inv r" and "unat (ring_head r) + length p < 2 ^ 64"
  shows "ring_inv (fst (Ring_Append r p)) \<and> Ring_Size (fst (Ring_Append r p)) = Ring_Size r"
proof -
  have "ring_count r \<le> unat (ring_head r)" "ring_count r \<le> Ring_Size r"
    using assms(1) by (simp_all add: ring_inv_def Ring_Size_def)
  show ?thesis
  proof (cases "p = []")
    case True
    with assms(1) show ?thesis by (simp add: Ring_Append_def)
  next
    case False
    have "ring_count (append_store r p) \<le> unat (ring_head r) + length p"
      using append_store_count [of r p] \<open>ring_count r \<le> unat (ring_head r)\<close> \<open>ring_count r \<le> Ring_Size r\<close>
      by (simp add: Ring_Size_def)
    moreover have "unat (ring_head r + of_nat (length p)) = unat (ring_head r) + length p"
      using assms(2) by (simp add: unat_u64_add unat_u64_of_nat)
    moreover have "ring_buf (append_store r p) \<noteq> []"
      using assms(1) append_store_frame(1) [of r p] by (metis length_0_conv ring_inv_def)
    ultimately show ?thesis
      using assms(1) False append_store_start [of r p] append_store_count [of r p]
      by (simp add: Ring_Append_unfold append_ring_def ring_inv_def Ring_Size_def Let_def)
  qed
qed

lemma drain_output_ok:
  "session_ok s \<Longrightarrow> unat (ring_head (ss_ring s)) + length p < 2 ^ 64 \<Longrightarrow>
   ss_id (drain_output s p) = ss_id s \<and> session_ok (drain_output s p)"
  using ring_inv_Append [of "ss_ring s" p] by (simp add: drain_output_def session_ok_def)

lemma session_ops_ok:
  "session_ok s \<Longrightarrow> ss_id (fst (Session_Input s q k wr)) = ss_id s \<and> session_ok (fst (Session_Input s q k wr))"
  "session_ok s \<Longrightarrow> ss_id (fst (Session_Resize s r c ok)) = ss_id s \<and> session_ok (fst (Session_Resize s r c ok))"
  "session_ok s \<Longrightarrow> ss_id (drain_end s st) = ss_id s \<and> session_ok (drain_end s st)"
  by (simp_all add: Session_Input_def Session_Resize_def drain_end_def session_ok_def Let_def)

lemma broker_inv_get: "broker_inv b \<Longrightarrow> Broker_Get b i = Some s \<Longrightarrow> session_ok s \<and> ss_id s = i"
  by (fastforce simp: broker_inv_alt Broker_Get_def dest: map_of_SomeD)

lemma broker_step_inv:
  "broker_step os x y \<Longrightarrow> broker_inv (fst x) \<and> (\<forall>s\<in>set (snd x). session_ok s) \<Longrightarrow>
   broker_inv (fst y) \<and> (\<forall>s\<in>set (snd y). session_ok s)"
proof (induction rule: broker_step.induct)
  case (step_commit s ps b)
  then show ?case using set_remove1_subset [of s ps] by (auto intro: create_commit_ok)
next
  case (step_output b i s p ps)
  then show ?case
    by (auto intro!: update_session_inv drain_output_ok dest: broker_inv_get)
qed (auto intro!: update_session_inv session_ops_ok Broker_Close_inv
    dest: broker_inv_get create_start_ok)

lemma broker_reachable_inv:
  "broker_reachable os x \<Longrightarrow> broker_inv (fst x) \<and> (\<forall>s\<in>set (snd x). session_ok s)"
proof (induction rule: broker_reachable.induct)
  case reach_init
  then show ?case by (simp add: broker_inv_def)
next
  case (reach_step x y)
  then show ?case by (blast dest: broker_step_inv)
qed

lemma create_commit_keeps: "Broker_Get b i = Some t \<Longrightarrow> Broker_Get (fst (create_commit b s)) i = Some t"
  by (auto simp: create_commit_def Broker_Get_def)

lemma Broker_List_ids: "broker_inv b \<Longrightarrow> map si_id (map (\<lambda>(_, s). Session_Info s) b) = map fst b"
  by (auto simp: broker_inv_def Session_Info_def)

lemma Broker_List_sorted:
  assumes "broker_inv b"
  shows "sorted (map si_id (Broker_List b))" and "distinct (map si_id (Broker_List b))"
proof -
  show "sorted (map si_id (Broker_List b))" by (simp add: Broker_List_def)
  have "distinct (map si_id (map (\<lambda>(_, s). Session_Info s) b))"
    using assms unfolding Broker_List_ids [OF assms] by (simp add: broker_inv_def)
  then show "distinct (map si_id (Broker_List b))"
    unfolding Broker_List_def distinct_map [of si_id] distinct_sort set_sort .
qed

definition demo_user :: passwd where
  "demo_user = \<lparr>pw_name = ''root'', pw_uid = ''0'', pw_gid = ''0'', pw_home = ''/root'', pw_groups = None\<rparr>"

definition demo_os :: os_env where
  "demo_os = \<lparr>os_current = Some demo_user, os_lookup = (\<lambda>_. None), os_open = True, os_slave = True,
     os_start = True\<rparr>"

definition demo_spec :: session_spec where
  "demo_spec = \<lparr>sp_id = ''a'', sp_user = [], sp_cwd = [], sp_argv = [''/bin/sh'', ''-l''], sp_term = [],
     sp_rows = 24, sp_cols = 80, sp_ringBytes = 0\<rparr>"

section \<open>Properties\<close>

text \<open>
  C35: Under any interleaving of creates, closes, shell output, keystrokes, resizes and exits, the broker
  holds one session per id, filed under its own id, with a replay ring in a proper state and within
  the configured bounds; finishing a create never replaces a session that is already there, even
  when two creates with the same id raced.
\<close>

theorem broker_sessions_stay_unique:
  assumes "broker_reachable os (b, ps)"
  shows "distinct (map fst b)
    \<and> (\<forall>(i, s)\<in>set b. i = ss_id s \<and> ring_inv (ss_ring s)
         \<and> 4096 \<le> Ring_Size (ss_ring s) \<and> Ring_Size (ss_ring s) \<le> 4194304)
    \<and> (\<forall>s\<in>set ps. \<forall>i t. Broker_Get b i = Some t \<longrightarrow> Broker_Get (fst (create_commit b s)) i = Some t)"
proof -
  have "broker_inv b" using broker_reachable_inv [OF assms] by simp
  then show ?thesis
    by (auto simp: broker_inv_def MinRingBytes_def MaxRingBytes_def create_commit_keeps)
qed

lemma demo_reachable: "\<exists>s. broker_reachable demo_os ([(''a'', s)], [])"
proof -
  obtain uc s where chk: "create_check demo_os [] demo_spec = Inr uc"
    and st: "create_start demo_os demo_spec = Inr s"
    by (simp add: create_check_def create_start_def validateArgv_def IsAbs_def childUser_def
        demo_os_def demo_spec_def Broker_Get_def)
  have "broker_reachable demo_os ([], [s])"
    by (rule reach_step [OF reach_init step_start [OF chk st]])
  moreover have "broker_step demo_os ([], [s]) (fst (create_commit [] s), remove1 s [s])"
    by (rule step_commit) simp
  ultimately have "broker_reachable demo_os (fst (create_commit [] s), remove1 s [s])"
    by (rule reach_step)
  then show ?thesis
    using create_start_session(1) [OF st] by (auto simp: create_commit_def Broker_Get_def demo_spec_def)
qed

theorem broker_sessions_stay_unique_witness:
  "\<exists>s. broker_reachable demo_os ([(''a'', s)], []) \<and> ss_id s = ''a'' \<and> 4096 \<le> Ring_Size (ss_ring s)"
proof -
  obtain s where s: "broker_reachable demo_os ([(''a'', s)], [])" using demo_reachable by blast
  with broker_sessions_stay_unique [OF s] show ?thesis by auto
qed

text \<open>
  A created session runs exactly the requested argument vector: an absolute program, no \<open>-c\<close> among
  its arguments, in its own session with a controlling terminal, never as a user other than the one
  that was asked for. A change of identity happens exactly when the looked-up user's id differs
  from the agent's own, and then to that user's numeric ids; nothing else of the broker changes.
\<close>

theorem created_child_is_as_requested:
  assumes "Broker_Create os b spec = (b', Inr (s, ch))"
  shows "ch_prog ch # ch_args ch = sp_argv spec \<and> IsAbs (ch_prog ch) \<and> ''-c'' \<notin> set (ch_args ch)
    \<and> ch_setsid ch \<and> ch_setctty ch
    \<and> b' = (sp_id spec, s) # b \<and> Broker_Get b (sp_id spec) = None
    \<and> (\<exists>self u. os_current os = Some self \<and> (if sp_user spec = [] \<or> sp_user spec = pw_name self
           then u = self \<and> ch_cred ch = None
           else os_lookup os (sp_user spec) = Some u
             \<and> (case ch_cred ch of
                  None \<Rightarrow> pw_uid u = pw_uid self
                | Some c \<Rightarrow> parse_uint32 (pw_uid u) = Some (unat (cr_uid c))
                          \<and> parse_uint32 (pw_gid u) = Some (unat (cr_gid c)))))"
proof -
  obtain u cred where chk: "create_check os b spec = Inr (u, cred)"
    and st: "create_start os spec = Inr s" and co: "create_commit b s = (b', None)"
    and ch: "ch = child_of spec u cred"
    using assms by (auto simp: Broker_Create_def split: sum.splits prod.splits option.splits)
  from chk have argv: "validateArgv (sp_argv spec) = None"
    and cu: "childUser (os_current os) (os_lookup os) (sp_user spec) = Inr (u, cred)"
    and fresh: "Broker_Get b (sp_id spec) = None"
    by (auto simp: create_check_def split: if_splits option.splits sum.splits)
  have "b' = (sp_id spec, s) # b"
    using co create_start_session(1) [OF st] by (auto simp: create_commit_def split: if_splits)
  moreover have "ch_prog ch # ch_args ch = sp_argv spec \<and> IsAbs (ch_prog ch) \<and> ''-c'' \<notin> set (ch_args ch)
      \<and> ch_setsid ch \<and> ch_setctty ch"
    using argv by (auto simp: ch child_of_def validateArgv_def list_ex_iff Let_def
        split: list.splits if_splits)
  moreover have cred: "ch_cred ch = cred" by (simp add: ch child_of_def Let_def)
  moreover have "\<exists>self u. os_current os = Some self \<and> (if sp_user spec = [] \<or> sp_user spec = pw_name self
      then u = self \<and> ch_cred ch = None
      else os_lookup os (sp_user spec) = Some u
        \<and> (case ch_cred ch of None \<Rightarrow> pw_uid u = pw_uid self
            | Some c \<Rightarrow> parse_uint32 (pw_uid u) = Some (unat (cr_uid c))
                      \<and> parse_uint32 (pw_gid u) = Some (unat (cr_gid c))))"
    unfolding cred using cu
    by (auto simp: childUser_def unat_parse_uint32 split: option.splits if_splits)
  ultimately show ?thesis using fresh by blast
qed

lemma demo_create:
  "\<exists>b' s ch. Broker_Create demo_os [] demo_spec = (b', Inr (s, ch))"
  by (simp add: Broker_Create_def create_check_def create_start_def create_commit_def validateArgv_def
      IsAbs_def childUser_def demo_os_def demo_spec_def Broker_Get_def)

theorem created_child_is_as_requested_witness:
  "\<exists>b' s ch. Broker_Create demo_os [] demo_spec = (b', Inr (s, ch)) \<and> ch_prog ch = ''/bin/sh''
     \<and> ch_args ch = [''-l''] \<and> b' = [(''a'', s)]"
proof -
  obtain b' s ch where c: "Broker_Create demo_os [] demo_spec = (b', Inr (s, ch))"
    using demo_create by blast
  from created_child_is_as_requested [OF c] c show ?thesis by (auto simp: demo_spec_def)
qed

text \<open>
  Listing does not depend on the order in which the map is iterated: two broker states with the same
  entries list the same sessions, in strictly ascending order of id, one per entry.
\<close>

theorem broker_list_is_canonical:
  assumes "broker_inv b" and "set b' = set b" and "distinct (map fst b')"
  shows "Broker_List b' = Broker_List b \<and> sorted_wrt (<) (map si_id (Broker_List b))
    \<and> si_id ` set (Broker_List b) = fst ` set b"
proof -
  have inv': "broker_inv b'" using assms by (simp add: broker_inv_def)
  note srt = Broker_List_sorted [OF assms(1)] Broker_List_sorted [OF inv']
  have same: "set (Broker_List b') = set (Broker_List b)"
    using assms(2) by (simp add: Broker_List_def)
  have "inj_on si_id (set (Broker_List b') \<union> set (Broker_List b))"
    using srt(2) same by (simp add: distinct_map)
  with srt same have "Broker_List b' = Broker_List b"
    by (intro map_sorted_distinct_set_unique [of si_id]) auto
  moreover have "si_id ` set (Broker_List b) = fst ` set b"
    using Broker_List_ids [OF assms(1)] by (metis Broker_List_def list.set_map set_sort)
  ultimately show ?thesis using srt by (simp add: strict_sorted_iff)
qed

lemma demo_broker_inv:
  "broker_inv [(''s'', demo_session\<lparr>ss_ring := NewRing 4096\<rparr>)]"
  using NewRing_tracks [of 4096]
  by (simp add: broker_inv_def MinRingBytes_def MaxRingBytes_def demo_session_def ring_tracks_def)

theorem broker_list_is_canonical_witness:
  "si_id ` set (Broker_List [(''s'', demo_session\<lparr>ss_ring := NewRing 4096\<rparr>)]) = {''s''}"
  using broker_list_is_canonical [OF demo_broker_inv refl] by simp

text \<open>
  C27: A session stream is opened only for a caller that speaks the protocol version and presents the
  boot's capability token, and only on a session the broker holds and whose program still runs; it
  resumes at the asked offset or, flagged as a gap, at the oldest byte still held, and never ahead
  of the stream.
\<close>

theorem stream_admission_requires_token:
  assumes "handleStream_hello token b m = AckAccepted resume gap a s"
  shows "\<exists>h after. m = HelloMsg h \<and> he_version h = 1 \<and> he_proof h = token
    \<and> Broker_Get b (he_session h) = Some s \<and> \<not> ss_exited s
    \<and> (if he_after h = [] then after = 0 else parse_uint64 (he_after h) = Some after)
    \<and> (of_nat after :: u64) \<le> ring_head (ss_ring s)
    \<and> resume = max (of_nat after) (Ring_Tail (ss_ring s)) \<and> (gap \<longleftrightarrow> of_nat after < Ring_Tail (ss_ring s))
    \<and> at_off a = resume"
  using assms
  by (auto simp: handleStream_hello_def authHello_def ProtocolVersion_def Session_Attach_def Let_def
      max_def not_less split: first_message.splits option.splits sum.splits if_splits prod.splits)

theorem stream_admission_requires_token_witness:
  "\<exists>a. handleStream_hello ''tok'' [(''s'', demo_session)]
      (HelloMsg \<lparr>he_version = 1, he_proof = ''tok'', he_session = ''s'', he_after = ''1''\<rparr>)
      = AckAccepted 1 False a demo_session \<and> at_off a = 1"
proof -
  have "parse_uint64 ''1'' = Some 1" by (simp add: parse_uint64_def char_digit_def Let_def)
  then have "handleStream_hello ''tok'' [(''s'', demo_session)]
      (HelloMsg \<lparr>he_version = 1, he_proof = ''tok'', he_session = ''s'', he_after = ''1''\<rparr>)
      = AckAccepted 1 False demo_at demo_session"
    by (simp add: handleStream_hello_def authHello_def ProtocolVersion_def Broker_Get_def demo_attach)
  with stream_admission_requires_token [OF this] show ?thesis by auto
qed

end
