(* ===== verification/Terminal_Window.thy ===== *)
theory Terminal_Window
  imports Obs_Prelude
begin

text \<open>
  The host's in-flight window toward one browser (\<open>src/internal/terminal/window.go\<close>) and the way the
  relay uses it (\<open>sendOutput\<close> in \<open>src/internal/api/terminal_stream.go\<close>): bytes handed to a browser and
  not yet acknowledged are bounded, and the relay waits instead of dropping.

  The window counts stream offsets. The last part models relay, browser and guest together and shows
  that the bound holds as long as the guest reports no dropped output, and that a drop breaks it,
  because the relay does not move the window past the dropped range.
\<close>

section \<open>The window\<close>

record window =
  wn_max :: int
  wn_sent :: u64
  wn_acked :: u64

definition NewWindow :: "int \<Rightarrow> u64 \<Rightarrow> window" where
  "NewWindow mx startOffset =
     \<lparr>wn_max = (if mx \<le> 0 then 1 else mx), wn_sent = startOffset, wn_acked = startOffset\<rparr>"

definition Window_Reserve :: "window \<Rightarrow> int \<Rightarrow> window \<times> bool" where
  "Window_Reserve w n =
     (if n \<le> 0 then (w, True)
      else if wn_max w < wrap64 (sint (wn_sent w - wn_acked w) + n) then (w, False)
      else (w\<lparr>wn_sent := wn_sent w + word_of_int n\<rparr>, True))"

definition Window_Ack :: "window \<Rightarrow> u64 \<Rightarrow> window" where
  "Window_Ack w offset =
     (if offset \<le> wn_acked w then w
      else let off = (if wn_sent w < offset then wn_sent w else offset)
           in w\<lparr>wn_acked := off\<rparr>)"

definition Window_InFlight :: "window \<Rightarrow> int" where
  "Window_InFlight w = sint (wn_sent w - wn_acked w)"

definition Window_Available :: "window \<Rightarrow> int" where
  "Window_Available w = wrap64 (wn_max w - sint (wn_sent w - wn_acked w))"

text \<open>
  The invariant: a positive bound that is an \<open>int64\<close>, acknowledged not past sent, and the difference
  within the bound.
\<close>

definition window_inv :: "window \<Rightarrow> bool" where
  "window_inv w \<longleftrightarrow> 0 < wn_max w \<and> wn_max w < 2 ^ 63 \<and> wn_acked w \<le> wn_sent w
     \<and> uint (wn_sent w) \<le> uint (wn_acked w) + wn_max w"

lemma window_InFlight:
  assumes "window_inv w"
  shows "Window_InFlight w = uint (wn_sent w) - uint (wn_acked w)"
    and "0 \<le> Window_InFlight w" and "Window_InFlight w \<le> wn_max w"
proof -
  have "uint (wn_sent w - wn_acked w) = uint (wn_sent w) - uint (wn_acked w)"
    using assms by (simp add: window_inv_def uint_u64_sub)
  moreover from this have "uint (wn_sent w - wn_acked w) < 2 ^ 63"
    using assms unfolding window_inv_def by linarith
  ultimately show "Window_InFlight w = uint (wn_sent w) - uint (wn_acked w)"
    unfolding Window_InFlight_def using sint_u64_small by metis
  then show "0 \<le> Window_InFlight w" and "Window_InFlight w \<le> wn_max w"
    using assms by (auto simp: window_inv_def word_le_def)
qed

lemma window_Available:
  assumes "window_inv w"
  shows "Window_Available w = wn_max w - Window_InFlight w" and "0 \<le> Window_Available w"
proof -
  have "wrap64 (wn_max w - Window_InFlight w) = wn_max w - Window_InFlight w"
    using assms window_InFlight(2,3) [OF assms] unfolding window_inv_def by (intro wrap64_id) linarith+
  then show "Window_Available w = wn_max w - Window_InFlight w" and "0 \<le> Window_Available w"
    using window_InFlight(3) [OF assms] by (simp_all add: Window_Available_def Window_InFlight_def)
qed

lemma NewWindow_inv [inv_intros]: "mx < 2 ^ 63 \<Longrightarrow> window_inv (NewWindow mx off)"
  by (simp add: window_inv_def NewWindow_def)

lemma Window_Ack_inv [inv_intros]: "window_inv w \<Longrightarrow> window_inv (Window_Ack w off)"
  by (auto simp: window_inv_def Window_Ack_def Let_def word_le_def word_less_def)

lemma Window_Reserve_grants:
  assumes inv: "window_inv w" and n: "0 < n" "n < 2 ^ 63 - wn_max w"
  shows "snd (Window_Reserve w n) \<longleftrightarrow> n \<le> Window_Available w"
    and "snd (Window_Reserve w n) \<Longrightarrow> fst (Window_Reserve w n) = w\<lparr>wn_sent := wn_sent w + word_of_int n\<rparr>"
    and "\<not> snd (Window_Reserve w n) \<Longrightarrow> fst (Window_Reserve w n) = w"
proof -
  have "wrap64 (Window_InFlight w + n) = Window_InFlight w + n"
    using n window_InFlight(2,3) [OF inv] by (intro wrap64_id) linarith+
  then show "snd (Window_Reserve w n) \<longleftrightarrow> n \<le> Window_Available w"
    using n window_Available(1) [OF inv]
    by (auto simp: Window_Reserve_def Window_InFlight_def)
qed (use n in \<open>auto simp: Window_Reserve_def split: if_splits\<close>)

lemma Window_Reserve_inv [inv_intros]:
  assumes inv: "window_inv w" and n: "0 < n" "n < 2 ^ 63 - wn_max w"
    and room: "uint (wn_sent w) + n < 2 ^ 64"
  shows "window_inv (fst (Window_Reserve w n))"
    and "snd (Window_Reserve w n) \<Longrightarrow> uint (wn_sent (fst (Window_Reserve w n))) = uint (wn_sent w) + n"
proof -
  have sent: "uint (wn_sent w + word_of_int n) = uint (wn_sent w) + n"
    using room n by (intro uint_u64_add) auto
  have "snd (Window_Reserve w n) \<Longrightarrow> wn_sent (fst (Window_Reserve w n)) = wn_sent w + word_of_int n"
    by (simp add: Window_Reserve_grants(2) [OF inv n])
  with sent show "snd (Window_Reserve w n) \<Longrightarrow> uint (wn_sent (fst (Window_Reserve w n))) = uint (wn_sent w) + n"
    by simp
  show "window_inv (fst (Window_Reserve w n))"
  proof (cases "snd (Window_Reserve w n)")
    case True
    then have "n \<le> wn_max w - (uint (wn_sent w) - uint (wn_acked w))"
      using Window_Reserve_grants(1) [OF inv n] window_Available(1) [OF inv] window_InFlight(1) [OF inv] by simp
    then show ?thesis
      using inv sent n
      by (simp add: Window_Reserve_grants(2) [OF inv n True] window_inv_def word_le_def)
  next
    case False
    with inv show ?thesis by (simp add: Window_Reserve_grants(3) [OF inv n])
  qed
qed

section \<open>The relay's use of it\<close>

text \<open>
  \<open>sendOutput\<close> hands a run of output to the browser in pieces that fit the window, each piece after a
  successful \<open>reserve\<close>. One pass of its loop either sends a piece or finds no room and waits; the
  acknowledgements that arrive while it waits are the list of the second argument, one batch per wait.
\<close>

record relay_msg =
  rm_offset :: u64
  rm_bytes :: "byte list"

definition sendOutput_pass :: "window \<Rightarrow> u64 \<Rightarrow> byte list \<Rightarrow> window \<times> relay_msg option" where
  "sendOutput_pass w offset b =
     (let limit = wn_max w;
          n = (if limit < int (length b) then nat limit else length b);
          (w', ok) = Window_Reserve w (int n)
      in if ok then (w', Some \<lparr>rm_offset = offset, rm_bytes = take n b\<rparr>) else (w, None))"

fun sendOutput :: "u64 list \<Rightarrow> window \<Rightarrow> u64 \<Rightarrow> byte list \<Rightarrow> window \<times> relay_msg list \<times> bool" where
  "sendOutput acks w offset [] = (w, [], True)"
| "sendOutput acks w offset (x # b) =
     (case sendOutput_pass w offset (x # b) of
        (w', Some m) \<Rightarrow>
          (let k = length (rm_bytes m) - 1;
               (w'', ms, done) = sendOutput acks w' (offset + of_nat (Suc k)) (drop k b)
           in (w'', m # ms, done))
      | (w', None) \<Rightarrow>
          (case acks of
             [] \<Rightarrow> (w', [], False)
           | a # acks' \<Rightarrow> sendOutput acks' (Window_Ack w' a) offset (x # b)))"

lemma sendOutput_pass_cases:
  assumes inv: "window_inv w" and small: "wn_max w < 2 ^ 62" and b: "b \<noteq> []"
    and room: "uint (wn_sent w) + int (length b) < 2 ^ 64"
  obtains (sent) n where "0 < n" "n \<le> length b" "int n \<le> Window_Available w"
      "sendOutput_pass w off b = (w\<lparr>wn_sent := wn_sent w + word_of_int (int n)\<rparr>,
         Some \<lparr>rm_offset = off, rm_bytes = take n b\<rparr>)"
      "window_inv (w\<lparr>wn_sent := wn_sent w + word_of_int (int n)\<rparr>)"
      "uint (wn_sent w + word_of_int (int n)) = uint (wn_sent w) + int n"
  | (full) "sendOutput_pass w off b = (w, None)"
      "Window_Available w < min (wn_max w) (int (length b))"
proof -
  define n where "n = (if wn_max w < int (length b) then nat (wn_max w) else length b)"
  have pos: "0 < wn_max w" using inv by (simp add: window_inv_def)
  have n: "0 < int n" "int n < 2 ^ 63 - wn_max w" "n \<le> length b"
    using pos b small by (auto simp: n_def)
  have nmin: "int n = min (wn_max w) (int (length b))" using pos by (auto simp: n_def)
  have room': "uint (wn_sent w) + int n < 2 ^ 64" using room n(3) by linarith
  note res = Window_Reserve_grants [OF inv n(1,2)] Window_Reserve_inv [OF inv n(1,2) room']
  have eq: "sendOutput_pass w off b =
      (if snd (Window_Reserve w (int n)) then (fst (Window_Reserve w (int n)), Some \<lparr>rm_offset = off, rm_bytes = take n b\<rparr>)
       else (w, None))"
    unfolding sendOutput_pass_def Let_def n_def [symmetric] by (simp add: case_prod_beta)
  show thesis
  proof (cases "snd (Window_Reserve w (int n))")
    case True
    show thesis
      by (rule sent [of n]) (use True n eq res(1,2,4,5) in simp_all)
  next
    case False
    show thesis
      by (rule full) (use False n nmin eq res(1) in simp_all)
  qed
qed

lemma sendOutput_unblocked:
  assumes "window_inv w" "wn_max w < 2 ^ 62" "b \<noteq> []" "uint (wn_sent w) + int (length b) < 2 ^ 64"
    and "wn_acked w = wn_sent w"
  shows "snd (sendOutput_pass w off b) \<noteq> None"
  using assms(1-4)
  by (cases rule: sendOutput_pass_cases [of w b off])
    (use assms(5) window_Available(1) [OF assms(1)] in \<open>simp_all add: Window_InFlight_def\<close>)

text \<open>Messages that carry consecutive positions from \<open>off\<close> on.\<close>

fun in_sequence :: "u64 \<Rightarrow> relay_msg list \<Rightarrow> bool" where
  "in_sequence off [] = True"
| "in_sequence off (m # ms) =
     (rm_offset m = off \<and> in_sequence (off + of_nat (length (rm_bytes m))) ms)"

lemma Window_Reserve_max [simp]: "wn_max (fst (Window_Reserve w n)) = wn_max w"
  by (simp add: Window_Reserve_def)

lemma Window_Ack_max [simp]: "wn_max (Window_Ack w off) = wn_max w"
  by (simp add: Window_Ack_def Let_def)

lemma sendOutput_pass_piece:
  assumes "sendOutput_pass w off b = (w', Some m)" "0 < wn_max w" "b \<noteq> []"
  shows "rm_offset m = off" "0 < length (rm_bytes m)" "int (length (rm_bytes m)) \<le> wn_max w"
    "rm_bytes m = take (length (rm_bytes m)) b" "wn_max w' = wn_max w"
  using assms Window_Reserve_max [of w]
  by (auto simp: sendOutput_pass_def Let_def case_prod_beta split: if_splits)

lemma sendOutput_pass_none: "sendOutput_pass w off b = (w', None) \<Longrightarrow> w' = w"
  by (auto simp: sendOutput_pass_def Let_def case_prod_beta split: if_splits)

text \<open>
  C39: The relay discards nothing it was handed and mislabels nothing. Whatever acknowledgements arrive
  while it waits, the pieces it sends carry consecutive stream positions from the run's own, are
  non-empty and no larger than the window, and together are a prefix of the run; when it finishes
  they are the whole run.
\<close>

theorem sendOutput_delivers:
  assumes "0 < wn_max w"
  shows "case sendOutput acks w off b of (w', ms, ok) \<Rightarrow>
     in_sequence off ms \<and> (\<forall>m \<in> set ms. 0 < length (rm_bytes m) \<and> int (length (rm_bytes m)) \<le> wn_max w)
     \<and> (\<exists>rest. b = concat (map rm_bytes ms) @ rest \<and> (ok \<longrightarrow> rest = []))"
  using assms
proof (induction acks w off b rule: sendOutput.induct)
  case (2 acks w off x b)
  obtain w' om where pass: "sendOutput_pass w off (x # b) = (w', om)" by force
  show ?case
  proof (cases om)
    case (Some m)
    note piece = sendOutput_pass_piece [OF pass [unfolded Some] 2(3)]
    define k where "k = length (rm_bytes m) - 1"
    have k: "length (rm_bytes m) = Suc k" using piece(2) by (simp add: k_def)
    obtain w2 ms ok where rec: "sendOutput acks w' (off + of_nat (Suc k)) (drop k b) = (w2, ms, ok)"
      by (metis prod_cases3)
    have split: "rm_bytes m @ drop k b = x # b"
      using piece(4) k by (metis append_take_drop_id drop_Suc_Cons list.distinct(1))
    have ih: "in_sequence (off + of_nat (Suc k)) ms"
        "\<forall>m \<in> set ms. 0 < length (rm_bytes m) \<and> int (length (rm_bytes m)) \<le> wn_max w"
        "\<exists>rest. drop k b = concat (map rm_bytes ms) @ rest \<and> (ok \<longrightarrow> rest = [])"
      using 2(2) [OF pass [symmetric] Some k_def] 2(3) piece(5) rec by simp_all
    then obtain rest where rest: "drop k b = concat (map rm_bytes ms) @ rest" "ok \<longrightarrow> rest = []" by blast
    have "x # b = concat (map rm_bytes (m # ms)) @ rest" using split rest(1) by simp
    then have whole: "\<exists>rest. x # b = concat (map rm_bytes (m # ms)) @ rest \<and> (ok \<longrightarrow> rest = [])"
      using rest(2) by blast
    have "sendOutput acks w off (x # b) = (w2, m # ms, ok)"
      using pass Some rec by (simp add: k Let_def del: of_nat_Suc)
    then show ?thesis using ih(1,2) piece(1,2,3) k whole by (auto simp del: of_nat_Suc sendOutput.simps)
  next
    case None
    then have "w' = w" using pass sendOutput_pass_none by simp
    with 2 pass None show ?thesis by (cases acks) auto
  qed
qed simp

theorem sendOutput_delivers_witness:
  "case sendOutput [7] (NewWindow 2 5) 5 [1, 2, 3] of (w', ms, ok) \<Rightarrow>
     ms = [\<lparr>rm_offset = 5, rm_bytes = [1, 2]\<rparr>, \<lparr>rm_offset = 7, rm_bytes = [3]\<rparr>] \<and> ok \<and> in_sequence 5 ms"
proof -
  have "0 < wn_max (NewWindow 2 5)" by (simp add: NewWindow_def)
  from sendOutput_delivers [OF this, where acks = "[7]" and off = 5 and b = "[1, 2, 3]"]
  have "in_sequence 5 (fst (snd (sendOutput [7] (NewWindow 2 5) 5 [1, 2, 3])))"
    by (simp add: case_prod_beta)
  moreover have "snd (sendOutput [7] (NewWindow 2 5) 5 [1, 2, 3]) =
      ([\<lparr>rm_offset = 5, rm_bytes = [1, 2]\<rparr>, \<lparr>rm_offset = 7, rm_bytes = [3]\<rparr>], True)"
    by code_simp
  ultimately show ?thesis by (simp add: case_prod_beta)
qed

section \<open>Relay, browser and guest together\<close>

text \<open>
  \<open>rs_pos\<close> is the stream position the relay has reached, \<open>rs_read\<close> the position the browser has consumed
  and acknowledged, \<open>rs_sent\<close> the runs (position and length) handed to the browser. A guest may report
  dropped output, which moves the position without handing anything over (\<open>forwardGuestControl\<close> only
  forwards the notice).
\<close>

record relay_state =
  rs_win :: window
  rs_pos :: nat
  rs_read :: nat
  rs_sent :: "(nat \<times> nat) list"

datatype relay_act = GuestOutput "byte list" | GuestDropped nat | BrowserAck nat

fun relay_step :: "relay_state \<Rightarrow> relay_act \<Rightarrow> relay_state" where
  "relay_step s (GuestOutput b) =
     (case sendOutput_pass (rs_win s) (of_nat (rs_pos s)) b of
        (w, Some m) \<Rightarrow> s\<lparr>rs_win := w, rs_pos := rs_pos s + length (rm_bytes m),
                         rs_sent := rs_sent s @ [(rs_pos s, length (rm_bytes m))]\<rparr>
      | (w, None) \<Rightarrow> s\<lparr>rs_win := w\<rparr>)"
| "relay_step s (GuestDropped d) = s\<lparr>rs_pos := rs_pos s + d\<rparr>"
| "relay_step s (BrowserAck c) =
     (if rs_read s \<le> c \<and> c \<le> rs_pos s
      then s\<lparr>rs_win := Window_Ack (rs_win s) (of_nat c), rs_read := c\<rparr> else s)"

definition relay_start :: "int \<Rightarrow> nat \<Rightarrow> relay_state" where
  "relay_start mx start =
     \<lparr>rs_win = NewWindow mx (of_nat start), rs_pos = start, rs_read = start, rs_sent = []\<rparr>"

text \<open>Bytes handed to the browser that it has not consumed.\<close>

definition beyond :: "nat \<Rightarrow> (nat \<times> nat) list \<Rightarrow> nat" where
  "beyond r runs = sum_list (map (\<lambda>(o', l). (o' + l) - max o' r) runs)"

definition outstanding :: "relay_state \<Rightarrow> nat" where
  "outstanding s = beyond (rs_read s) (rs_sent s)"

fun produced :: "relay_act list \<Rightarrow> nat" where
  "produced [] = 0"
| "produced (GuestOutput b # as) = length b + produced as"
| "produced (GuestDropped d # as) = d + produced as"
| "produced (BrowserAck c # as) = produced as"

fun is_drop :: "relay_act \<Rightarrow> bool" where
  "is_drop (GuestDropped d) = True"
| "is_drop _ = False"

definition relay_inv :: "int \<Rightarrow> nat \<Rightarrow> relay_state \<Rightarrow> bool" where
  "relay_inv mx start s \<longleftrightarrow> window_inv (rs_win s) \<and> wn_max (rs_win s) = mx
     \<and> uint (wn_sent (rs_win s)) = int (rs_pos s) \<and> uint (wn_acked (rs_win s)) = int (rs_read s)
     \<and> start \<le> rs_read s \<and> rs_read s \<le> rs_pos s
     \<and> (\<forall>r. start \<le> r \<longrightarrow> r \<le> rs_pos s \<longrightarrow> beyond r (rs_sent s) = rs_pos s - r)
     \<and> (\<forall>r. rs_pos s \<le> r \<longrightarrow> beyond r (rs_sent s) = 0)"

lemma beyond_snoc [simp]: "beyond r (runs @ [(o', l)]) = beyond r runs + ((o' + l) - max o' r)"
  by (simp add: beyond_def)

lemma relay_inv_outstanding: "relay_inv mx start s \<Longrightarrow> int (outstanding s) \<le> mx"
  by (auto simp: relay_inv_def outstanding_def window_inv_def)

lemma relay_inv_step:
  assumes inv: "relay_inv mx start s" and mx: "mx < 2 ^ 62" and a: "\<not> is_drop a"
    and room: "rs_pos s + produced [a] < 2 ^ 63"
  shows "relay_inv mx start (relay_step s a)" and "rs_pos (relay_step s a) \<le> rs_pos s + produced [a]"
proof -
  have "relay_inv mx start (relay_step s a) \<and> rs_pos (relay_step s a) \<le> rs_pos s + produced [a]"
  proof (cases a)
    case (GuestOutput b)
    show ?thesis
    proof (cases "b = []")
      case True
      then show ?thesis using inv GuestOutput
        by (auto simp: sendOutput_pass_def Window_Reserve_def relay_inv_def)
    next
      case False
      have r: "uint (wn_sent (rs_win s)) + int (length b) < 2 ^ 64"
        using inv room GuestOutput by (simp add: relay_inv_def)
      have w: "window_inv (rs_win s)" "wn_max (rs_win s) < 2 ^ 62" using inv mx by (auto simp: relay_inv_def)
      from w False r show ?thesis
      proof (cases rule: sendOutput_pass_cases [of "rs_win s" b "of_nat (rs_pos s)"])
        case (sent n)
        then show ?thesis
          using inv GuestOutput unfolding relay_inv_def by (auto simp: min_def max_def)
      next
        case full
        then show ?thesis using inv GuestOutput by (simp add: relay_inv_def)
      qed
    qed
  next
    case (BrowserAck c)
    have "c \<le> rs_pos s \<Longrightarrow> uint (of_nat c :: u64) = int c"
      using room BrowserAck by (simp add: uint_nat unat_u64_of_nat)
    then show ?thesis
      using inv BrowserAck Window_Ack_inv [of "rs_win s" "of_nat c"]
      by (auto simp: relay_inv_def Window_Ack_def Let_def word_le_def word_less_def)
  next
    case (GuestDropped d)
    with a show ?thesis by simp
  qed
  then show "relay_inv mx start (relay_step s a)" and "rs_pos (relay_step s a) \<le> rs_pos s + produced [a]"
    by blast+
qed

lemma relay_inv_run:
  assumes "relay_inv mx start s" "mx < 2 ^ 62" "\<not> list_ex is_drop as" "rs_pos s + produced as < 2 ^ 63"
  shows "relay_inv mx start (foldl relay_step s as)"
  using assms
proof (induction as arbitrary: s)
  case (Cons a as)
  have p: "produced (a # as) = produced [a] + produced as" by (cases a) auto
  have "relay_inv mx start (relay_step s a)" "rs_pos (relay_step s a) \<le> rs_pos s + produced [a]"
    using relay_inv_step [OF Cons.prems(1,2), of a] Cons.prems(3,4) p by auto
  then show ?case
    using Cons.IH [of "relay_step s a"] Cons.prems p by simp
qed simp

text \<open>
  C38: as long as the guest reports no dropped output, the bytes handed to a browser that it has not
  consumed never exceed the configured window, whatever the sizes of the guest's output and however
  the acknowledgements are spaced; and whenever the browser is caught up, output is handed over.
\<close>

theorem window_bounds_outstanding:
  assumes "0 < mx" "mx < 2 ^ 62" "\<not> list_ex is_drop as" "start + produced as < 2 ^ 63"
  shows "let s = foldl relay_step (relay_start mx start) as
         in int (outstanding s) \<le> mx
            \<and> (rs_read s = rs_pos s \<longrightarrow> b \<noteq> [] \<longrightarrow> rs_pos s + length b < 2 ^ 63 \<longrightarrow>
                 rs_pos s < rs_pos (relay_step s (GuestOutput b)))"
proof -
  define s where "s = foldl relay_step (relay_start mx start) as"
  have "relay_inv mx start (relay_start mx start)"
    using assms NewWindow_inv [of mx "of_nat start"]
    by (simp add: relay_inv_def relay_start_def NewWindow_def beyond_def uint_nat unat_u64_of_nat)
  with assms have inv: "relay_inv mx start s"
    unfolding s_def by (intro relay_inv_run) (simp_all add: relay_start_def)
  have "rs_pos s < rs_pos (relay_step s (GuestOutput b))"
    if "rs_read s = rs_pos s" "b \<noteq> []" "rs_pos s + length b < 2 ^ 63"
  proof -
    have "wn_acked (rs_win s) = wn_sent (rs_win s)"
      using inv that(1) by (simp add: relay_inv_def word_uint_eq_iff)
    then have "snd (sendOutput_pass (rs_win s) (of_nat (rs_pos s)) b) \<noteq> None"
      using inv assms(2) that by (intro sendOutput_unblocked) (simp_all add: relay_inv_def)
    moreover have "wn_max (rs_win s) = mx" using inv by (simp add: relay_inv_def)
    ultimately show ?thesis
      using that(2) assms(1) by (auto simp: sendOutput_pass_def Let_def case_prod_beta split: if_splits)
  qed
  with inv show ?thesis
    unfolding Let_def s_def [symmetric] by (simp add: relay_inv_outstanding)
qed

definition demo_relay_run :: "relay_act list" where
  "demo_relay_run = [GuestOutput [1, 2, 3], GuestOutput [4, 5], BrowserAck 12, GuestOutput [4, 5], BrowserAck 15]"

theorem window_bounds_outstanding_witness:
  "int (outstanding (foldl relay_step (relay_start 4 10) demo_relay_run)) \<le> 4
   \<and> rs_pos (foldl relay_step (relay_start 4 10) demo_relay_run) = 15
   \<and> 15 < rs_pos (relay_step (foldl relay_step (relay_start 4 10) demo_relay_run) (GuestOutput [6]))"
proof -
  have h: "0 < (4 :: int)" "(4 :: int) < 2 ^ 62" "\<not> list_ex is_drop demo_relay_run"
      "10 + produced demo_relay_run < 2 ^ 63"
    by (simp_all add: demo_relay_run_def)
  have "rs_pos (foldl relay_step (relay_start 4 10) demo_relay_run) = 15"
      "rs_read (foldl relay_step (relay_start 4 10) demo_relay_run) = 15" by code_simp+
  with window_bounds_outstanding [OF h, of "[6]"] show ?thesis unfolding Let_def by auto
qed

text \<open>
  A dropped range moves the stream position but not the window. The browser acknowledges stream
  positions, so after a drop its acknowledgement lies past everything the window has sent, \<open>Ack\<close> clamps
  it there and the whole window reopens although the browser still holds unconsumed bytes.
\<close>

theorem window_after_drop_exceeds:
  "outstanding (foldl relay_step (relay_start 4 0)
     [GuestOutput [1, 2, 3, 4], BrowserAck 4, GuestDropped 100, GuestOutput [5, 6, 7, 8],
      BrowserAck 105, GuestOutput [9, 10, 11, 12]]) = 7"
  by code_simp

end
