(* ===== verification/Writer_Lease.thy ===== *)
theory Writer_Lease
  imports Obs_Prelude
begin

text \<open>
  The writer lease of a terminal session (\<open>src/internal/terminal/lease.go\<close>). Every operation reads the
  clock at most once; the reading is its first argument. The zero \<open>time.Time\<close> that marks an attached
  holder is \<open>None\<close>, and the empty holder string is the free lease. \<open>ls_changed\<close> counts the times the
  notification channel was closed and replaced.
\<close>

section \<open>The lease\<close>

record lease =
  ls_grace :: int
  ls_holder :: string
  ls_releasedAt :: "int option"
  ls_changed :: nat

definition NewLease :: "int \<Rightarrow> lease" where
  "NewLease grace =
     \<lparr>ls_grace = (if grace < 0 then 0 else grace), ls_holder = [], ls_releasedAt = None, ls_changed = 0\<rparr>"

definition notifyLocked :: "lease \<Rightarrow> lease" where
  "notifyLocked l = l\<lparr>ls_changed := Suc (ls_changed l)\<rparr>"

definition expireLocked :: "int \<Rightarrow> lease \<Rightarrow> lease" where
  "expireLocked now l =
     (case ls_releasedAt l of
        None \<Rightarrow> l
      | Some t \<Rightarrow>
          if ls_holder l = [] then l
          else if ls_grace l \<le> now - t
               then notifyLocked (l\<lparr>ls_holder := [], ls_releasedAt := None\<rparr>)
               else l)"

definition Lease_Acquire :: "int \<Rightarrow> string \<Rightarrow> lease \<Rightarrow> lease \<times> bool \<times> string" where
  "Lease_Acquire now connID l0 =
     (let l = expireLocked now l0 in
      if ls_holder l = [] \<or> ls_holder l = connID then
        (let l1 = (if ls_holder l \<noteq> connID then notifyLocked l else l)
         in (l1\<lparr>ls_holder := connID, ls_releasedAt := None\<rparr>, True, connID))
      else (l, False, ls_holder l))"

definition Lease_Release :: "int \<Rightarrow> string \<Rightarrow> lease \<Rightarrow> lease" where
  "Lease_Release now connID l0 =
     (let l = expireLocked now l0 in
      if ls_holder l \<noteq> connID \<or> ls_releasedAt l \<noteq> None then l
      else l\<lparr>ls_releasedAt := Some now\<rparr>)"

definition Lease_Steal :: "int \<Rightarrow> string \<Rightarrow> lease \<Rightarrow> lease \<times> string" where
  "Lease_Steal now connID l0 =
     (let l = expireLocked now l0;
          previous = ls_holder l;
          l1 = l\<lparr>ls_holder := connID, ls_releasedAt := None\<rparr>
      in if previous = connID then (l1, []) else (notifyLocked l1, previous))"

definition Lease_Holder :: "int \<Rightarrow> lease \<Rightarrow> lease \<times> string" where
  "Lease_Holder now l0 = (let l = expireLocked now l0 in (l, ls_holder l))"

definition Lease_IsWriter :: "int \<Rightarrow> string \<Rightarrow> lease \<Rightarrow> lease \<times> bool" where
  "Lease_IsWriter now connID l0 =
     (let l = expireLocked now l0 in (l, ls_holder l \<noteq> [] \<and> ls_holder l = connID))"

lemmas lease_ops = Lease_Acquire_def Lease_Release_def Lease_Steal_def Lease_Holder_def
  Lease_IsWriter_def notifyLocked_def Let_def

section \<open>What the lease promises\<close>

text \<open>
  The specification: at any instant the lease is free, held by an attached connection, or kept for a
  connection that left at a known time. \<open>lease_at\<close> reads it off the implementation, with the lazy expiry
  already applied.
\<close>

datatype tenure = Free | Attached string | Kept string int

definition lease_at :: "int \<Rightarrow> lease \<Rightarrow> tenure" where
  "lease_at now l =
     (if ls_holder l = [] then Free
      else case ls_releasedAt l of
             None \<Rightarrow> Attached (ls_holder l)
           | Some t \<Rightarrow> if now < t + ls_grace l then Kept (ls_holder l) t else Free)"

fun tenant :: "tenure \<Rightarrow> string" where
  "tenant Free = []"
| "tenant (Attached c) = c"
| "tenant (Kept c t) = c"

fun tenure_acquire :: "string \<Rightarrow> tenure \<Rightarrow> tenure" where
  "tenure_acquire c Free = Attached c"
| "tenure_acquire c (Attached d) = Attached d"
| "tenure_acquire c (Kept d t) = (if c = d then Attached c else Kept d t)"

fun tenure_release :: "int \<Rightarrow> int \<Rightarrow> string \<Rightarrow> tenure \<Rightarrow> tenure" where
  "tenure_release grace now c (Attached d) =
     (if c \<noteq> d then Attached d else if 0 < grace then Kept d now else Free)"
| "tenure_release grace now c v = v"

definition lease_wf :: "lease \<Rightarrow> bool" where
  "lease_wf l \<longleftrightarrow> 0 \<le> ls_grace l \<and> (ls_holder l = [] \<longrightarrow> ls_releasedAt l = None)"

datatype lease_op = OpAcquire string | OpRelease string | OpSteal string | OpRead string

fun lease_step :: "lease \<Rightarrow> int \<times> lease_op \<Rightarrow> lease" where
  "lease_step l (now, OpAcquire c) = fst (Lease_Acquire now c l)"
| "lease_step l (now, OpRelease c) = Lease_Release now c l"
| "lease_step l (now, OpSteal c) = fst (Lease_Steal now c l)"
| "lease_step l (now, OpRead c) = fst (Lease_IsWriter now c l)"

fun tenure_step :: "int \<Rightarrow> tenure \<Rightarrow> int \<times> lease_op \<Rightarrow> tenure" where
  "tenure_step grace v (now, OpAcquire c) = tenure_acquire c v"
| "tenure_step grace v (now, OpRelease c) = tenure_release grace now c v"
| "tenure_step grace v (now, OpSteal c) = Attached c"
| "tenure_step grace v (now, OpRead c) = v"

fun op_conn :: "lease_op \<Rightarrow> string" where
  "op_conn (OpAcquire c) = c"
| "op_conn (OpRelease c) = c"
| "op_conn (OpSteal c) = c"
| "op_conn (OpRead c) = c"

lemma NewLease_wf [inv_intros]: "lease_wf (NewLease g)"
  by (simp add: lease_wf_def NewLease_def)

lemma lease_step_grace [simp]: "ls_grace (lease_step l (now, op)) = ls_grace l"
  by (cases op) (auto simp: lease_ops expireLocked_def split: option.splits)

lemma lease_step_wf [inv_intros]: "lease_wf l \<Longrightarrow> op_conn op \<noteq> [] \<Longrightarrow> lease_wf (lease_step l (now, op))"
  by (cases op) (auto simp: lease_ops expireLocked_def lease_wf_def split: option.splits if_splits)

lemma expireLocked_at: "lease_at now (expireLocked now l) = lease_at now l"
  by (auto simp: expireLocked_def lease_at_def notifyLocked_def split: option.splits)

lemma expireLocked_holder: "lease_wf l \<Longrightarrow> ls_holder (expireLocked now l) = tenant (lease_at now l)"
  by (auto simp: expireLocked_def lease_at_def lease_wf_def notifyLocked_def split: option.splits)

lemma lease_step_at:
  "lease_wf l \<Longrightarrow> op_conn op \<noteq> [] \<Longrightarrow>
   lease_at now (lease_step l (now, op)) = tenure_step (ls_grace l) (lease_at now l) (now, op)"
  by (cases op)
    (auto simp: lease_ops expireLocked_def lease_at_def lease_wf_def split: option.splits if_splits)

lemma tenant_Free: "lease_wf l \<Longrightarrow> tenant (lease_at now l) = [] \<longleftrightarrow> lease_at now l = Free"
  by (auto simp: lease_at_def split: option.splits)

lemma lease_step_notifies:
  "ls_holder (lease_step l (now, op)) \<noteq> ls_holder l \<Longrightarrow> ls_changed l < ls_changed (lease_step l (now, op))"
  by (cases op) (auto simp: lease_ops expireLocked_def split: option.splits if_splits)

lemma expireLocked_unexpired: "lease_at now l \<noteq> Free \<Longrightarrow> expireLocked now l = l \<and> ls_holder l \<noteq> []"
  by (auto simp: expireLocked_def lease_at_def split: option.splits if_splits)

lemma lease_step_quiet:
  assumes "tenant (lease_at now (lease_step l (now, op))) = ls_holder l" and "lease_at now l \<noteq> Free"
  shows "ls_changed (lease_step l (now, op)) = ls_changed l"
proof (cases op)
  case (OpSteal c)
  have "tenant (lease_at now (fst (Lease_Steal now c l))) = c"
    by (simp add: Lease_Steal_def lease_at_def notifyLocked_def Let_def)
  with OpSteal assms expireLocked_unexpired [OF assms(2)] show ?thesis
    by (simp add: Lease_Steal_def Let_def)
qed (use expireLocked_unexpired [OF assms(2)] in \<open>simp_all add: lease_ops\<close>)

text \<open>
  C25: The lease implements its specification. Every operation at time \<open>now\<close> takes the tenure at that time
  to the one the specification gives, whatever happened before: acquiring succeeds exactly when the
  lease is free or already the caller's, releasing only ever affects the attached holder, and a steal
  takes the shell at once. The answers (whether the caller may type, who holds it, from whom it was
  taken) are those of the specification. Watchers are woken whenever the stored holder changes, and
  not woken by an operation after which the same connection still holds the lease.
\<close>

theorem lease_refines_tenure:
  assumes "lease_wf l" "op_conn op \<noteq> []"
  shows "lease_at now (lease_step l (now, op)) = tenure_step (ls_grace l) (lease_at now l) (now, op)
    \<and> snd (Lease_Acquire now c l) = (lease_at now l = Free \<or> tenant (lease_at now l) = c,
                                      if lease_at now l = Free then c else tenant (lease_at now l))
    \<and> snd (Lease_Steal now c l) = (if tenant (lease_at now l) = c then [] else tenant (lease_at now l))
    \<and> snd (Lease_Holder now l) = tenant (lease_at now l)
    \<and> (c \<noteq> [] \<longrightarrow> snd (Lease_IsWriter now c l) = (tenant (lease_at now l) = c))
    \<and> (ls_holder (lease_step l (now, op)) \<noteq> ls_holder l \<longrightarrow> ls_changed l < ls_changed (lease_step l (now, op)))
    \<and> (lease_at now l \<noteq> Free \<longrightarrow> tenant (lease_at now (lease_step l (now, op))) = ls_holder l \<longrightarrow>
         ls_changed (lease_step l (now, op)) = ls_changed l)"
proof -
  have t: "ls_holder (expireLocked now l) = tenant (lease_at now l)"
    by (rule expireLocked_holder [OF assms(1)])
  have "snd (Lease_Acquire now c l) = (lease_at now l = Free \<or> tenant (lease_at now l) = c,
      if lease_at now l = Free then c else tenant (lease_at now l))"
    using tenant_Free [OF assms(1), of now] t by (auto simp: Lease_Acquire_def Let_def)
  then show ?thesis
    using lease_step_at [OF assms] lease_step_notifies [of l now op] lease_step_quiet [of now l op] t
    by (auto simp: Lease_Steal_def Lease_Holder_def Lease_IsWriter_def Let_def)
qed

definition demo_lease :: lease where
  "demo_lease = \<lparr>ls_grace = 30, ls_holder = ''a'', ls_releasedAt = Some 100, ls_changed = 1\<rparr>"

theorem lease_refines_tenure_witness:
  "lease_at 110 (lease_step demo_lease (110, OpAcquire ''b'')) = Kept ''a'' 100
   \<and> lease_at 130 (lease_step demo_lease (130, OpAcquire ''b'')) = Attached ''b''
   \<and> snd (Lease_Steal 110 ''b'' demo_lease) = ''a''"
proof -
  have wf: "lease_wf demo_lease" by (simp add: lease_wf_def demo_lease_def)
  have v: "lease_at 110 demo_lease = Kept ''a'' 100" "lease_at 130 demo_lease = Free"
    by (simp_all add: lease_at_def demo_lease_def)
  show ?thesis
    using lease_refines_tenure [OF wf, where op = "OpAcquire ''b''" and now = 110 and c = "''b''"]
      lease_refines_tenure [OF wf, where op = "OpAcquire ''b''" and now = 130 and c = "''b''"] v
    by simp
qed

fun bystander :: "string \<Rightarrow> lease_op \<Rightarrow> bool" where
  "bystander c (OpAcquire d) = (d \<noteq> [])"
| "bystander c (OpRelease d) = (d \<noteq> c \<and> d \<noteq> [])"
| "bystander c (OpSteal d) = False"
| "bystander c (OpRead d) = (d \<noteq> [])"

fun early :: "int \<Rightarrow> int \<times> lease_op \<Rightarrow> bool" where
  "early limit (now, op) = (now < limit)"

lemma attached_step:
  assumes "c \<noteq> []" "ls_holder l = c" "ls_releasedAt l = None" "bystander c op"
  shows "ls_holder (lease_step l (now, op)) = c \<and> ls_releasedAt (lease_step l (now, op)) = None"
  using assms by (cases op) (auto simp: lease_ops expireLocked_def)

lemma kept_step:
  assumes "c \<noteq> []" "ls_holder l = c" "ls_releasedAt l = Some t" "bystander c op" "now < t + ls_grace l"
  shows "ls_holder (lease_step l (now, op)) = c
    \<and> ls_releasedAt (lease_step l (now, op)) \<in> {None, Some t}"
  using assms by (cases op) (auto simp: lease_ops expireLocked_def)

text \<open>
  C24: One connection types. A connection that holds the lease and is attached stays the writer through any
  sequence of acquires, reads and releases by other connections, at any times, as long as nobody
  steals; and once it has left, nobody else becomes the writer by acquiring within the grace window.
\<close>

theorem writer_keeps_shell:
  assumes "c \<noteq> []" "ls_holder l = c" "list_all (bystander c \<circ> snd) ops"
    and "ls_releasedAt l = None \<or> (\<exists>t. ls_releasedAt l = Some t \<and> list_all (early (t + ls_grace l)) ops)"
  shows "ls_holder (foldl lease_step l ops) = c"
  using assms
proof (induction ops arbitrary: l)
  case (Cons x ops)
  obtain now op where x: "x = (now, op)" by force
  have bys: "bystander c op" using Cons.prems(3) x by simp
  show ?case
  proof (cases "ls_releasedAt l")
    case None
    then show ?thesis
      using Cons.IH [of "lease_step l x"] Cons.prems attached_step [OF Cons.prems(1,2) _ bys] x by simp
  next
    case (Some t)
    then have "now < t + ls_grace l" "list_all (early (t + ls_grace l)) ops" using Cons.prems(4) x by auto
    then show ?thesis
      using Cons.IH [of "lease_step l x"] Cons.prems kept_step [OF Cons.prems(1,2) Some bys] x by auto
  qed
qed simp

theorem writer_keeps_shell_witness:
  "ls_holder (foldl lease_step demo_lease
     [(105, OpAcquire ''b''), (110, OpRelease ''b''), (129, OpAcquire ''c'')]) = ''a''"
  by (rule writer_keeps_shell) (simp_all add: demo_lease_def)

end
