(* ===== verification/Terminal_Registry.thy ===== *)
theory Terminal_Registry
  imports Guest_Frame Terminal_Window Writer_Lease "HOL-Library.AList"
begin

text \<open>
  The host's terminal registry (\<open>src/internal/terminal/session.go\<close>, \<open>transport.go\<close>) and the browser's input
  side of the relay (\<open>handleInput\<close>, \<open>handleBrowserControl\<close> in \<open>src/internal/api/terminal_stream.go\<close>).

  What the runner answers on its control socket is an argument of the operations that ask it. The
  sessions are an association list with one entry per id; an attachment is identified by a number and
  kept in the registry's table, so that the session's set of live attachments is a list of numbers.
  The clock reading is an argument, as in the lease.
\<close>

section \<open>Sessions\<close>

datatype sess_state = StateOpen | StateClosed

datatype terminal_error =
    SessionNotFound | SessionClosed | SessionStale | RunnerUnreachable | RunnerRefused
  | AttachRefused | InvalidLeaseMode | ErrReadOnly | StreamBroken frame_error

record host_spec =
  hsp_owner :: string
  hsp_user :: string
  hsp_cwd :: string
  hsp_argv :: "string list"
  hsp_term :: string
  hsp_rows :: u16
  hsp_cols :: u16

record host_session =
  hs_id :: string
  hs_vmid :: string
  hs_bootid :: string
  hs_owner :: string
  hs_createdAt :: int
  hs_state :: sess_state
  hs_rows :: u16
  hs_cols :: u16
  hs_argv :: "string list"
  hs_pid :: int
  hs_outputBytes :: u64
  hs_inputBytes :: u64
  hs_writerHolder :: string
  hs_closedAt :: "int option"
  hs_reason :: string
  hs_exitCode :: "int option"
  hs_signal :: string

text \<open>The runner's answer to a terminal verb (the \<open>Terminal\<close> part of its control reply).\<close>

record terminal_reply =
  tr_pid :: int
  tr_bootid :: string
  tr_resumeOffset :: string
  tr_gap :: bool
  tr_reason :: string
  tr_exitCode :: "int option"
  tr_signal :: string

datatype runner_answer = NoDial | Refused | Answered "terminal_reply option"

record attach =
  ha_session :: string
  ha_conn :: string
  ha_resume :: u64
  ha_gap :: bool
  ha_window :: window
  ha_stream :: sink
  ha_open :: bool

record session_state =
  sst_session :: host_session
  sst_seq :: nat
  sst_lease :: lease
  sst_live :: "nat list"
  sst_outputBytes :: u64
  sst_inputBytes :: u64
  sst_inputSeq :: u64

record options =
  op_maxReplay :: int
  op_maxInflight :: int
  op_writerLease :: int

record term_registry =
  tg_opts :: options
  tg_sessions :: "(string \<times> session_state) list"
  tg_nextSeq :: nat
  tg_atts :: "(nat \<times> attach) list"
  tg_nextAtt :: nat

definition NewTermRegistry :: "options \<Rightarrow> term_registry" where
  "NewTermRegistry o' =
     \<lparr>tg_opts =
        \<lparr>op_maxReplay = (if op_maxReplay o' \<le> 0 then 256 * 2 ^ 10 else op_maxReplay o'),
         op_maxInflight = (if op_maxInflight o' \<le> 0 then 2 ^ 20 else op_maxInflight o'),
         op_writerLease = (if op_writerLease o' \<le> 0 then 30 * 10 ^ 9 else op_writerLease o')\<rparr>,
      tg_sessions = [], tg_nextSeq = 0, tg_atts = [], tg_nextAtt = 0\<rparr>"

definition session_snapshot :: "int \<Rightarrow> session_state \<Rightarrow> host_session" where
  "session_snapshot now st =
     (sst_session st)\<lparr>hs_outputBytes := sst_outputBytes st, hs_inputBytes := sst_inputBytes st,
        hs_writerHolder := snd (Lease_Holder now (sst_lease st))\<rparr>"

definition do_verb :: "runner_answer \<Rightarrow> terminal_error + terminal_reply option" where
  "do_verb a = (case a of NoDial \<Rightarrow> Inl RunnerUnreachable | Refused \<Rightarrow> Inl RunnerRefused | Answered r \<Rightarrow> Inr r)"

definition Registry_Create ::
  "term_registry \<Rightarrow> int \<Rightarrow> string \<Rightarrow> runner_answer \<Rightarrow> string \<Rightarrow> host_spec
   \<Rightarrow> term_registry \<times> (terminal_error + host_session)" where
  "Registry_Create r now newID ans vmID spec =
     (case do_verb ans of
        Inl e \<Rightarrow> (r, Inl e)
      | Inr reply \<Rightarrow>
          let s = \<lparr>hs_id = newID, hs_vmid = vmID,
                   hs_bootid = (case reply of None \<Rightarrow> [] | Some t \<Rightarrow> tr_bootid t),
                   hs_owner = hsp_owner spec, hs_createdAt = now, hs_state = StateOpen,
                   hs_rows = hsp_rows spec, hs_cols = hsp_cols spec, hs_argv = hsp_argv spec,
                   hs_pid = (case reply of None \<Rightarrow> 0 | Some t \<Rightarrow> tr_pid t),
                   hs_outputBytes = 0, hs_inputBytes = 0, hs_writerHolder = [],
                   hs_closedAt = None, hs_reason = [], hs_exitCode = None, hs_signal = []\<rparr>;
              n = Suc (tg_nextSeq r);
              st = \<lparr>sst_session = s, sst_seq = n, sst_lease = NewLease (op_writerLease (tg_opts r)),
                    sst_live = [], sst_outputBytes = 0, sst_inputBytes = 0, sst_inputSeq = 0\<rparr>
          in (r\<lparr>tg_nextSeq := n, tg_sessions := AList.update newID st (tg_sessions r)\<rparr>, Inr s))"

definition Registry_Get :: "term_registry \<Rightarrow> int \<Rightarrow> string \<Rightarrow> host_session option" where
  "Registry_Get r now i = map_option (session_snapshot now) (map_of (tg_sessions r) i)"

definition ListForVM :: "term_registry \<Rightarrow> int \<Rightarrow> string \<Rightarrow> host_session list" where
  "ListForVM r now vmID =
     map (session_snapshot now)
       (sort_key sst_seq (filter (\<lambda>st. hs_vmid (sst_session st) = vmID) (map snd (tg_sessions r))))"

text \<open>\<open>closeStream\<close> runs once per attachment.\<close>

definition closeStream :: "nat \<Rightarrow> term_registry \<Rightarrow> term_registry" where
  "closeStream a r =
     (case map_of (tg_atts r) a of
        None \<Rightarrow> r
      | Some t \<Rightarrow> r\<lparr>tg_atts := AList.update a (t\<lparr>ha_open := False\<rparr>) (tg_atts r)\<rparr>)"

definition Registry_Close :: "term_registry \<Rightarrow> int \<Rightarrow> runner_answer \<Rightarrow> string \<Rightarrow> term_registry \<times> terminal_error option" where
  "Registry_Close r now ans i =
     (case map_of (tg_sessions r) i of
        None \<Rightarrow> (r, None)
      | Some st \<Rightarrow>
          if hs_state (sst_session st) = StateClosed then (r, None)
          else (case do_verb ans of
                  Inl e \<Rightarrow> (r, Some e)
                | Inr reply \<Rightarrow>
                    let s = (sst_session st)\<lparr>hs_state := StateClosed, hs_closedAt := Some now\<rparr>;
                        s' = (case reply of None \<Rightarrow> s
                              | Some t \<Rightarrow> s\<lparr>hs_reason := tr_reason t, hs_exitCode := tr_exitCode t,
                                            hs_signal := tr_signal t\<rparr>);
                        r1 = r\<lparr>tg_sessions :=
                                AList.update i (st\<lparr>sst_session := s', sst_live := []\<rparr>) (tg_sessions r)\<rparr>
                    in (fold closeStream (sst_live st) r1, None)))"

section \<open>Attachments\<close>

record attach_request =
  ar_session :: string
  ar_afterOffset :: u64
  ar_bootid :: string
  ar_conn :: string
  ar_steal :: bool

definition parseOffset :: "string \<Rightarrow> u64 option" where
  "parseOffset s = (if s = [] then Some 0 else map_option of_nat (parse_uint64 s))"

text \<open>
  The attach in two parts, because the registry's lock is not held over the runner's round trip: the
  checks before it, and what happens with the answer. The registry may have changed in between.
\<close>

definition attach_check :: "term_registry \<Rightarrow> attach_request \<Rightarrow> terminal_error + host_session" where
  "attach_check r req =
     (case map_of (tg_sessions r) (ar_session req) of
        None \<Rightarrow> Inl SessionNotFound
      | Some st \<Rightarrow>
          let s = sst_session st in
          if hs_state s = StateClosed then Inl SessionClosed
          else if ar_bootid req \<noteq> [] \<and> hs_bootid s \<noteq> ar_bootid req then Inl SessionStale
          else Inr s)"

definition attach_reply :: "host_session \<Rightarrow> runner_answer \<Rightarrow> terminal_error + (bool \<times> u64)" where
  "attach_reply s ans =
     (case ans of
        NoDial \<Rightarrow> Inl RunnerUnreachable
      | Refused \<Rightarrow> Inl AttachRefused
      | Answered None \<Rightarrow> Inr (False, 0)
      | Answered (Some t) \<Rightarrow>
          (case parseOffset (tr_resumeOffset t) of
             None \<Rightarrow> Inl AttachRefused
           | Some off \<Rightarrow>
               if tr_bootid t \<noteq> [] \<and> hs_bootid s \<noteq> [] \<and> tr_bootid t \<noteq> hs_bootid s
               then Inl SessionStale else Inr (tr_gap t, off)))"

definition attach_register ::
  "term_registry \<Rightarrow> int \<Rightarrow> attach_request \<Rightarrow> bool \<times> u64 \<Rightarrow> sink \<Rightarrow> term_registry \<times> (terminal_error + nat)" where
  "attach_register r now req go stream =
     (case map_of (tg_sessions r) (ar_session req) of
        None \<Rightarrow> (r, Inl SessionNotFound)
      | Some st \<Rightarrow>
          let l = (if ar_steal req then fst (Lease_Steal now (ar_conn req) (sst_lease st))
                   else fst (Lease_Acquire now (ar_conn req) (sst_lease st)));
              st1 = st\<lparr>sst_lease := l\<rparr>
          in if hs_state (sst_session st) = StateClosed then
               (r\<lparr>tg_sessions := AList.update (ar_session req) st1 (tg_sessions r)\<rparr>, Inl SessionClosed)
             else
               let a = tg_nextAtt r;
                   att = \<lparr>ha_session = ar_session req, ha_conn = ar_conn req, ha_resume = snd go, ha_gap = fst go,
                          ha_window = NewWindow (op_maxInflight (tg_opts r)) (snd go),
                          ha_stream = stream, ha_open = True\<rparr>
               in (r\<lparr>tg_sessions := AList.update (ar_session req) (st1\<lparr>sst_live := a # sst_live st\<rparr>) (tg_sessions r),
                     tg_atts := AList.update a att (tg_atts r), tg_nextAtt := Suc a\<rparr>, Inr a))"

definition Registry_Attach ::
  "term_registry \<Rightarrow> int \<Rightarrow> attach_request \<Rightarrow> runner_answer \<Rightarrow> sink \<Rightarrow> term_registry \<times> (terminal_error + nat)" where
  "Registry_Attach r now req ans stream =
     (case attach_check r req of
        Inl e \<Rightarrow> (r, Inl e)
      | Inr s \<Rightarrow>
          (case attach_reply s ans of
             Inl e \<Rightarrow> (r, Inl e)
           | Inr go \<Rightarrow> attach_register r now req go stream))"

definition ptyHeaderBytes :: nat where "ptyHeaderBytes = 8"

definition maxPTYInputBytes :: nat where
  "maxPTYInputBytes = unat MaxBinaryFrame - ptyHeaderBytes"

text \<open>
  The loop of \<open>WriteInput\<close>: at least one frame, each with the session's next sequence number and at most
  \<open>maxPTYInputBytes\<close> keystrokes. It returns the stream, the sequence number and byte count reached, and
  the write error if one stopped it.
\<close>

lemma maxPTYInputBytes_value: "maxPTYInputBytes = 262136"
  by (simp add: maxPTYInputBytes_def ptyHeaderBytes_def MaxBinaryFrame_def push_bit_eq_mult)

function input_loop :: "sink \<Rightarrow> u64 \<Rightarrow> u64 \<Rightarrow> byte list \<Rightarrow> sink \<times> u64 \<times> u64 \<times> frame_error option" where
  "input_loop w seq bytes b =
     (let chunk = take maxPTYInputBytes b;
          seq' = seq + 1;
          (w', e) = WriteFrame w FramePTY (PutUint64 seq' @ chunk)
      in case e of
           Some err \<Rightarrow> (w', seq', bytes, Some err)
         | None \<Rightarrow>
             let b' = drop (length chunk) b; bytes' = bytes + of_nat (length chunk)
             in if b' = [] then (w', seq', bytes', None) else input_loop w' seq' bytes' b')"
  by pat_completeness auto
termination
  by (relation "measure (\<lambda>(w, seq, bytes, b). length b)") (auto simp: maxPTYInputBytes_value)

declare input_loop.simps [simp del]

text \<open>The state of an attachment's session, for the operations below.\<close>

definition att_session :: "term_registry \<Rightarrow> nat \<Rightarrow> (attach \<times> session_state) option" where
  "att_session r a =
     (case map_of (tg_atts r) a of
        None \<Rightarrow> None
      | Some t \<Rightarrow> map_option (\<lambda>st. (t, st)) (map_of (tg_sessions r) (ha_session t)))"

definition put_att :: "nat \<Rightarrow> attach \<Rightarrow> session_state \<Rightarrow> term_registry \<Rightarrow> term_registry" where
  "put_att a t st r =
     r\<lparr>tg_sessions := AList.update (ha_session t) st (tg_sessions r), tg_atts := AList.update a t (tg_atts r)\<rparr>"

definition WriteInput :: "term_registry \<Rightarrow> int \<Rightarrow> nat \<Rightarrow> byte list \<Rightarrow> term_registry \<times> terminal_error option" where
  "WriteInput r now a b =
     (case att_session r a of
        None \<Rightarrow> (r, Some SessionNotFound)
      | Some (t, st) \<Rightarrow>
          let (l, writer) = Lease_IsWriter now (ha_conn t) (sst_lease st) in
          if \<not> writer then (put_att a t (st\<lparr>sst_lease := l\<rparr>) r, Some ErrReadOnly)
          else
            let (w, seq, bytes, e) = input_loop (ha_stream t) (sst_inputSeq st) (sst_inputBytes st) b
            in (put_att a (t\<lparr>ha_stream := w\<rparr>)
                  (st\<lparr>sst_lease := l, sst_inputSeq := seq, sst_inputBytes := bytes\<rparr>) r,
                map_option StreamBroken e))"

definition WriteControl :: "term_registry \<Rightarrow> int \<Rightarrow> nat \<Rightarrow> byte list \<Rightarrow> term_registry \<times> terminal_error option" where
  "WriteControl r now a payload =
     (case att_session r a of
        None \<Rightarrow> (r, Some SessionNotFound)
      | Some (t, st) \<Rightarrow>
          let (l, writer) = Lease_IsWriter now (ha_conn t) (sst_lease st) in
          if \<not> writer then (put_att a t (st\<lparr>sst_lease := l\<rparr>) r, Some ErrReadOnly)
          else let (w, e) = WriteFrame (ha_stream t) FrameControl payload
               in (put_att a (t\<lparr>ha_stream := w\<rparr>) (st\<lparr>sst_lease := l\<rparr>) r, map_option StreamBroken e))"

definition Attachment_ReadFrame ::
  "term_registry \<Rightarrow> nat \<Rightarrow> byte list \<Rightarrow> term_registry \<times> (frame_error + (byte \<times> byte list \<times> byte list))" where
  "Attachment_ReadFrame r a inp =
     (let res = ReadFrame inp in
      case (res, att_session r a) of
        (Inr (ty, payload, rest), Some (t, st)) \<Rightarrow>
          if ty = FramePTY \<and> ptyHeaderBytes \<le> length payload
          then (put_att a t (st\<lparr>sst_outputBytes := sst_outputBytes st
                                 + of_nat (length payload - ptyHeaderBytes)\<rparr>) r, res)
          else (r, res)
      | _ \<Rightarrow> (r, res))"

definition forget :: "string \<Rightarrow> nat \<Rightarrow> term_registry \<Rightarrow> term_registry" where
  "forget i a r =
     (case map_of (tg_sessions r) i of
        None \<Rightarrow> r
      | Some st \<Rightarrow> r\<lparr>tg_sessions := AList.update i (st\<lparr>sst_live := removeAll a (sst_live st)\<rparr>) (tg_sessions r)\<rparr>)"

definition Attachment_Close :: "term_registry \<Rightarrow> int \<Rightarrow> nat \<Rightarrow> term_registry" where
  "Attachment_Close r now a =
     (case att_session r a of
        None \<Rightarrow> r
      | Some (t, st) \<Rightarrow>
          let r1 = put_att a t (st\<lparr>sst_lease := Lease_Release now (ha_conn t) (sst_lease st)\<rparr>) r
          in closeStream a (forget (ha_session t) a r1))"

section \<open>Lease requests\<close>

datatype lease_mode = LeaseAcquire | LeaseSteal | LeaseRelease | LeaseOther string

datatype lease_reason = Acquired | HeldByOther | Took | TookFrom string | Released

record lease_result =
  lr_writer :: bool
  lr_holder :: string
  lr_reason :: lease_reason

definition RequestLease ::
  "term_registry \<Rightarrow> int \<Rightarrow> string \<Rightarrow> string \<Rightarrow> lease_mode \<Rightarrow> term_registry \<times> (terminal_error + lease_result)" where
  "RequestLease r now i connID mode =
     (case map_of (tg_sessions r) i of
        None \<Rightarrow> (r, Inl SessionNotFound)
      | Some st \<Rightarrow>
          if hs_state (sst_session st) = StateClosed then (r, Inl SessionClosed)
          else
            let put = (\<lambda>l. r\<lparr>tg_sessions := AList.update i (st\<lparr>sst_lease := l\<rparr>) (tg_sessions r)\<rparr>)
            in case mode of
                 LeaseAcquire \<Rightarrow>
                   (let (l, ok, holder) = Lease_Acquire now connID (sst_lease st)
                    in (put l, Inr \<lparr>lr_writer = ok, lr_holder = holder,
                                    lr_reason = (if ok then Acquired else HeldByOther)\<rparr>))
               | LeaseSteal \<Rightarrow>
                   (let (l, previous) = Lease_Steal now connID (sst_lease st)
                    in (put l, Inr \<lparr>lr_writer = True, lr_holder = connID,
                                    lr_reason = (if previous \<noteq> [] then TookFrom previous else Took)\<rparr>))
               | LeaseRelease \<Rightarrow>
                   (let (l, holder) = Lease_Holder now (Lease_Release now connID (sst_lease st))
                    in (put l, Inr \<lparr>lr_writer = False, lr_holder = holder, lr_reason = Released\<rparr>))
               | LeaseOther m \<Rightarrow> (r, Inl InvalidLeaseMode))"

section \<open>The browser's side of the relay\<close>

datatype browser_msg = BrowserInput "byte list" | BrowserAckMsg string | BrowserLease lease_mode
  | BrowserResize u16 u16 | BrowserMalformed

datatype relay_answer = NoAnswer | MalformedInput | MalformedMessage | LeaseNotice | LeaseReply lease_result
  | LeaseError terminal_error | RelayEnds terminal_error

definition handleInput ::
  "term_registry \<Rightarrow> int \<Rightarrow> nat \<Rightarrow> u64 \<Rightarrow> byte list \<Rightarrow> term_registry \<times> u64 \<times> relay_answer" where
  "handleInput r now a lastClientSeq data =
     (if length data < 8 then (r, lastClientSeq, MalformedInput)
      else case Uint64 (take 8 data) of
             None \<Rightarrow> (r, lastClientSeq, MalformedInput)
           | Some seq \<Rightarrow>
               if seq \<le> lastClientSeq then (r, lastClientSeq, NoAnswer)
               else
                 (case WriteInput r now a (drop 8 data) of
                    (r', None) \<Rightarrow> (r', seq, NoAnswer)
                  | (r', Some ErrReadOnly) \<Rightarrow> (r', seq, LeaseNotice)
                  | (r', Some e) \<Rightarrow> (r', seq, RelayEnds e)))"

definition Attachment_Ack :: "term_registry \<Rightarrow> nat \<Rightarrow> u64 \<Rightarrow> term_registry" where
  "Attachment_Ack r a off =
     (case map_of (tg_atts r) a of
        None \<Rightarrow> r
      | Some t \<Rightarrow> r\<lparr>tg_atts := AList.update a (t\<lparr>ha_window := Window_Ack (ha_window t) off\<rparr>) (tg_atts r)\<rparr>)"

text \<open>The encoding of the resize message is the JSON library's; it is the argument \<open>enc\<close>.\<close>

definition handleBrowserControl ::
  "(u16 \<Rightarrow> u16 \<Rightarrow> byte list) \<Rightarrow> term_registry \<Rightarrow> int \<Rightarrow> nat \<Rightarrow> browser_msg \<Rightarrow> term_registry \<times> relay_answer" where
  "handleBrowserControl enc r now a m =
     (case m of
        BrowserAckMsg off \<Rightarrow>
          (case parse_uint64 off of
             None \<Rightarrow> (r, MalformedMessage)
           | Some n \<Rightarrow> (Attachment_Ack r a (of_nat n), NoAnswer))
      | BrowserResize rows cols \<Rightarrow>
          (case WriteControl r now a (enc rows cols) of
             (r', None) \<Rightarrow> (r', NoAnswer)
           | (r', Some ErrReadOnly) \<Rightarrow> (r', LeaseNotice)
           | (r', Some e) \<Rightarrow> (r', RelayEnds e))
      | BrowserLease mode \<Rightarrow>
          (case att_session r a of
             None \<Rightarrow> (r, LeaseError SessionNotFound)
           | Some (t, st) \<Rightarrow>
               let before = snd (Lease_IsWriter now (ha_conn t) (sst_lease st)) in
               (case RequestLease r now (ha_session t) (ha_conn t) mode of
                  (r', Inl e) \<Rightarrow> (r', LeaseError e)
                | (r', Inr res) \<Rightarrow>
                    (case att_session r' a of
                       None \<Rightarrow> (r', NoAnswer)
                     | Some (t', st') \<Rightarrow>
                         if snd (Lease_IsWriter now (ha_conn t') (sst_lease st')) = before
                         then (r', LeaseReply res) else (r', NoAnswer))))
      | _ \<Rightarrow> (r, MalformedMessage))"

section \<open>Every stream has one owner\<close>

text \<open>
  The registry's invariant: ids are unique, every session is filed under its own id with a
  well-formed lease, a closed session has no live attachment, and an attachment's stream is open
  exactly when its session lists it as live.
\<close>

definition session_wf :: "string \<Rightarrow> session_state \<Rightarrow> bool" where
  "session_wf i st \<longleftrightarrow> hs_id (sst_session st) = i \<and> lease_wf (sst_lease st)
     \<and> (hs_state (sst_session st) = StateClosed \<longrightarrow> sst_live st = [])"

definition live_in :: "term_registry \<Rightarrow> nat \<Rightarrow> string \<Rightarrow> bool" where
  "live_in r a i \<longleftrightarrow> (\<exists>st. map_of (tg_sessions r) i = Some st \<and> a \<in> set (sst_live st))"

definition treg_inv :: "term_registry \<Rightarrow> bool" where
  "treg_inv r \<longleftrightarrow>
     distinct (map fst (tg_sessions r))
     \<and> (\<forall>i st. map_of (tg_sessions r) i = Some st \<longrightarrow> session_wf i st \<and> sst_seq st \<le> tg_nextSeq r)
     \<and> (\<forall>i j st st'. map_of (tg_sessions r) i = Some st \<longrightarrow> map_of (tg_sessions r) j = Some st' \<longrightarrow>
          sst_seq st = sst_seq st' \<longrightarrow> i = j)
     \<and> (\<forall>a t. map_of (tg_atts r) a = Some t \<longrightarrow> a < tg_nextAtt r \<and> ha_conn t \<noteq> []
          \<and> (ha_open t \<longleftrightarrow> live_in r a (ha_session t)))
     \<and> (\<forall>a i. live_in r a i \<longrightarrow> (\<exists>t. map_of (tg_atts r) a = Some t \<and> ha_session t = i))"

text \<open>
  The steps of the registry, with any runner answer and clock reading. A new id is one not in use
  (ids are UUIDs), connections have names, and the two halves of an attach are separate steps.
\<close>

inductive treg_step :: "term_registry \<Rightarrow> term_registry \<Rightarrow> bool" where
  create: "map_of (tg_sessions r) i = None \<Longrightarrow> treg_step r (fst (Registry_Create r now i ans vm spec))"
| close: "treg_step r (fst (Registry_Close r now ans i))"
| attach: "ar_conn req \<noteq> [] \<Longrightarrow> treg_step r (fst (attach_register r now req go stream))"
| input: "treg_step r (fst (WriteInput r now a b))"
| control: "treg_step r (fst (WriteControl r now a p))"
| read: "treg_step r (fst (Attachment_ReadFrame r a inp))"
| detach: "treg_step r (Attachment_Close r now a)"
| lease: "c \<noteq> [] \<Longrightarrow> treg_step r (fst (RequestLease r now i c mode))"
| ack: "treg_step r (Attachment_Ack r a off)"

inductive treg_reachable :: "options \<Rightarrow> term_registry \<Rightarrow> bool" for opts where
  start: "treg_reachable opts (NewTermRegistry opts)"
| step: "treg_reachable opts r \<Longrightarrow> treg_step r r' \<Longrightarrow> treg_reachable opts r'"

lemma alist_update_map_of [simp]: "map_of (AList.update k v xs) = (map_of xs)(k \<mapsto> v)"
  by (rule update_conv')

text \<open>
  Replacing a session's record by one with the same id, order and live set, and an attachment by one
  of the same session and stream state, keeps the invariant.
\<close>

lemma treg_inv_put:
  assumes inv: "treg_inv r" and st: "map_of (tg_sessions r) i = Some st"
    and wf: "session_wf i st'" "sst_seq st' = sst_seq st" "set (sst_live st') = set (sst_live st)"
  shows "treg_inv (r\<lparr>tg_sessions := AList.update i st' (tg_sessions r)\<rparr>)"
proof -
  have live: "live_in (r\<lparr>tg_sessions := AList.update i st' (tg_sessions r)\<rparr>) = live_in r"
    using st wf(3) by (auto simp: live_in_def fun_eq_iff)
  show ?thesis
    using inv st wf unfolding treg_inv_def live
    by (auto simp: distinct_update split: if_splits)
qed

lemma treg_inv_put_att:
  assumes inv: "treg_inv r" and t: "map_of (tg_atts r) a = Some t"
    and same: "ha_session t' = ha_session t" "ha_open t' = ha_open t" "ha_conn t' = ha_conn t"
  shows "treg_inv (r\<lparr>tg_atts := AList.update a t' (tg_atts r)\<rparr>)"
proof -
  have live: "live_in (r\<lparr>tg_atts := AList.update a t' (tg_atts r)\<rparr>) = live_in r"
    by (simp add: live_in_def fun_eq_iff)
  have "\<forall>i. live_in r a i \<longrightarrow> ha_session t = i"
    using inv t unfolding treg_inv_def by (metis option.inject)
  then show ?thesis
    using inv t same unfolding treg_inv_def live by (auto split: if_splits)
qed

lemma expireLocked_wf [inv_intros]: "lease_wf l \<Longrightarrow> lease_wf (expireLocked now l)"
  by (auto simp: lease_wf_def expireLocked_def notifyLocked_def split: option.splits)

lemma lease_ops_wf [inv_intros]:
  assumes "lease_wf l"
  shows "c \<noteq> [] \<Longrightarrow> lease_wf (fst (Lease_Acquire now c l))" and "c \<noteq> [] \<Longrightarrow> lease_wf (fst (Lease_Steal now c l))"
    and "lease_wf (fst (Lease_IsWriter now c' l))" and "lease_wf (fst (Lease_Holder now l))"
    and "c \<noteq> [] \<Longrightarrow> lease_wf (Lease_Release now c l)"
  using assms expireLocked_wf [OF assms, of now]
  by (auto simp: lease_ops lease_wf_def)

lemma treg_inv_session: "treg_inv r \<Longrightarrow> map_of (tg_sessions r) i = Some st \<Longrightarrow> session_wf i st"
  by (simp add: treg_inv_def)

lemma put_att_inv:
  assumes inv: "treg_inv r" and a: "att_session r a = Some (t, st)"
    and st': "lease_wf (sst_lease st')" "sst_session st' = sst_session st" "sst_seq st' = sst_seq st"
      "sst_live st' = sst_live st"
    and t': "ha_session t' = ha_session t" "ha_open t' = ha_open t" "ha_conn t' = ha_conn t"
  shows "treg_inv (put_att a t' st' r)"
proof -
  have t: "map_of (tg_atts r) a = Some t" and st: "map_of (tg_sessions r) (ha_session t) = Some st"
    using a by (auto simp: att_session_def split: option.splits)
  have "session_wf (ha_session t) st'"
    using treg_inv_session [OF inv st] st' by (simp add: session_wf_def)
  then have "treg_inv (r\<lparr>tg_sessions := AList.update (ha_session t) st' (tg_sessions r)\<rparr>)"
    using treg_inv_put [OF inv st] st' by simp
  from treg_inv_put_att [OF this, of a t t'] show ?thesis
    using t t' by (simp add: put_att_def)
qed

lemma att_session_wf: "treg_inv r \<Longrightarrow> att_session r a = Some (t, st) \<Longrightarrow> session_wf (ha_session t) st"
  by (auto simp: att_session_def dest: treg_inv_session split: option.splits)

lemma WriteInput_inv [inv_intros]: "treg_inv r \<Longrightarrow> treg_inv (fst (WriteInput r now a b))"
  using lease_ops_wf(3)
  by (auto simp: WriteInput_def case_prod_beta Let_def session_wf_def split: option.splits
      intro!: put_att_inv dest: att_session_wf)

lemma WriteControl_inv [inv_intros]: "treg_inv r \<Longrightarrow> treg_inv (fst (WriteControl r now a p))"
  using lease_ops_wf(3)
  by (auto simp: WriteControl_def case_prod_beta Let_def session_wf_def split: option.splits
      intro!: put_att_inv dest: att_session_wf)

lemma Attachment_ReadFrame_inv [inv_intros]: "treg_inv r \<Longrightarrow> treg_inv (fst (Attachment_ReadFrame r a inp))"
  by (auto simp: Attachment_ReadFrame_def Let_def session_wf_def split: option.splits sum.splits prod.splits
      intro!: put_att_inv dest: att_session_wf)

lemma Attachment_Ack_inv [inv_intros]: "treg_inv r \<Longrightarrow> treg_inv (Attachment_Ack r a off)"
  by (auto simp: Attachment_Ack_def split: option.splits intro: treg_inv_put_att)

lemma RequestLease_inv [inv_intros]:
  assumes inv: "treg_inv r" and c: "c \<noteq> []"
  shows "treg_inv (fst (RequestLease r now i c mode))"
proof (cases "map_of (tg_sessions r) i")
  case (Some st)
  have put: "lease_wf l \<Longrightarrow> treg_inv (r\<lparr>tg_sessions := AList.update i (st\<lparr>sst_lease := l\<rparr>) (tg_sessions r)\<rparr>)" for l
    using treg_inv_session [OF inv Some]
    by (intro treg_inv_put [OF inv Some]) (simp_all add: session_wf_def)
  have "lease_wf (sst_lease st)" using treg_inv_session [OF inv Some] by (simp add: session_wf_def)
  note wf = lease_ops_wf [OF this]
  show ?thesis
    using Some inv c put [OF wf(1) [OF c]] put [OF wf(2) [OF c]] put [OF lease_ops_wf(4) [OF wf(5) [OF c]]]
    by (cases mode) (simp_all add: RequestLease_def Let_def case_prod_beta)
qed (simp add: RequestLease_def inv)

lemma Registry_Create_inv [inv_intros]:
  assumes inv: "treg_inv r" and fresh: "map_of (tg_sessions r) i = None"
  shows "treg_inv (fst (Registry_Create r now i ans vm spec))"
proof (cases "do_verb ans")
  case (Inr reply)
  obtain st where st: "fst (Registry_Create r now i ans vm spec) =
      r\<lparr>tg_nextSeq := Suc (tg_nextSeq r), tg_sessions := AList.update i st (tg_sessions r)\<rparr>"
    "session_wf i st" "sst_seq st = Suc (tg_nextSeq r)" "sst_live st = []"
    using NewLease_wf by (force simp: Registry_Create_def Inr Let_def session_wf_def)
  have live: "live_in (r\<lparr>tg_nextSeq := n, tg_sessions := AList.update i st (tg_sessions r)\<rparr>) = live_in r" for n
    using fresh st(4) by (auto simp: live_in_def fun_eq_iff)
  have le: "\<forall>j st'. map_of (tg_sessions r) j = Some st' \<longrightarrow> sst_seq st' \<le> tg_nextSeq r"
    using inv by (simp add: treg_inv_def)
  show ?thesis
    unfolding st(1) using inv st(2,3) le unfolding treg_inv_def live
    by (fastforce simp: distinct_update split: if_splits)
qed (simp add: Registry_Create_def inv)

lemma fold_closeStream:
  "tg_sessions (fold closeStream as r) = tg_sessions r"
  "tg_nextSeq (fold closeStream as r) = tg_nextSeq r"
  "tg_nextAtt (fold closeStream as r) = tg_nextAtt r"
  "map_of (tg_atts (fold closeStream as r)) b =
     (if b \<in> set as then map_option (\<lambda>t. t\<lparr>ha_open := False\<rparr>) (map_of (tg_atts r) b) else map_of (tg_atts r) b)"
  by (induction as arbitrary: r) (auto simp: closeStream_def split: option.splits)

lemma treg_inv_reshape:
  assumes inv: "treg_inv r" and st: "map_of (tg_sessions r) i = Some st"
    and wf: "session_wf i st'" "sst_seq st' = sst_seq st"
    and r': "tg_sessions r' = AList.update i st' (tg_sessions r)" "tg_nextSeq r' = tg_nextSeq r"
    and atts: "\<And>b t. map_of (tg_atts r') b = Some t \<Longrightarrow> b < tg_nextAtt r' \<and> ha_conn t \<noteq> [] \<and> (ha_open t \<longleftrightarrow> live_in r' b (ha_session t))"
      "\<And>b j. live_in r' b j \<Longrightarrow> \<exists>t. map_of (tg_atts r') b = Some t \<and> ha_session t = j"
  shows "treg_inv r'"
proof -
  have seq: "\<forall>i j st st'. map_of (tg_sessions r) i = Some st \<longrightarrow> map_of (tg_sessions r) j = Some st' \<longrightarrow>
          sst_seq st = sst_seq st' \<longrightarrow> i = j"
    and rest: "distinct (map fst (tg_sessions r))"
      "\<forall>i st. map_of (tg_sessions r) i = Some st \<longrightarrow> session_wf i st \<and> sst_seq st \<le> tg_nextSeq r"
    using inv unfolding treg_inv_def by blast+
  have "\<forall>k j s s'. map_of (tg_sessions r') k = Some s \<longrightarrow> map_of (tg_sessions r') j = Some s' \<longrightarrow>
          sst_seq s = sst_seq s' \<longrightarrow> k = j"
    using seq st wf(2) by (auto simp: r' split: if_splits)
  moreover have "\<forall>j s. map_of (tg_sessions r') j = Some s \<longrightarrow> session_wf j s \<and> sst_seq s \<le> tg_nextSeq r'"
    using rest(2) st wf by (auto simp: r' split: if_splits)
  moreover have "distinct (map fst (tg_sessions r'))" using rest(1) by (simp add: r' distinct_update)
  ultimately show ?thesis
    unfolding treg_inv_def using atts by blast
qed

lemma treg_inv_atts:
  assumes "treg_inv r"
  shows "map_of (tg_atts r) a = Some t \<Longrightarrow> a < tg_nextAtt r \<and> ha_conn t \<noteq> [] \<and> (ha_open t \<longleftrightarrow> live_in r a (ha_session t))"
    and "live_in r a i \<Longrightarrow> \<exists>t. map_of (tg_atts r) a = Some t \<and> ha_session t = i"
    and "live_in r a i \<Longrightarrow> a < tg_nextAtt r"
  using assms unfolding treg_inv_def by blast+

lemma attach_register_inv [inv_intros]:
  assumes inv: "treg_inv r" and c: "ar_conn req \<noteq> []"
  shows "treg_inv (fst (attach_register r now req go stream))"
proof (cases "map_of (tg_sessions r) (ar_session req)")
  case (Some st)
  define l where "l = (if ar_steal req then fst (Lease_Steal now (ar_conn req) (sst_lease st))
      else fst (Lease_Acquire now (ar_conn req) (sst_lease st)))"
  have wf: "session_wf (ar_session req) st" by (rule treg_inv_session [OF inv Some])
  then have l: "lease_wf l" using c lease_ops_wf by (simp add: l_def session_wf_def)
  show ?thesis
  proof (cases "hs_state (sst_session st) = StateClosed")
    case True
    then show ?thesis
      using treg_inv_put [OF inv Some, of "st\<lparr>sst_lease := l\<rparr>"] wf l
      by (simp add: attach_register_def Some Let_def l_def session_wf_def)
  next
    case False
    let ?a = "tg_nextAtt r" and ?st = "st\<lparr>sst_lease := l, sst_live := tg_nextAtt r # sst_live st\<rparr>"
    obtain t where r': "fst (attach_register r now req go stream) =
        r\<lparr>tg_sessions := AList.update (ar_session req) ?st (tg_sessions r),
          tg_atts := AList.update ?a t (tg_atts r), tg_nextAtt := Suc ?a\<rparr>"
      and t: "ha_session t = ar_session req" "ha_open t" "ha_conn t \<noteq> []"
      using False c by (force simp: attach_register_def Some Let_def l_def)
    have live: "live_in (fst (attach_register r now req go stream)) b j
        \<longleftrightarrow> live_in r b j \<or> b = ?a \<and> j = ar_session req" for b j
      unfolding r' using Some by (auto simp: live_in_def)
    show ?thesis
    proof (rule treg_inv_reshape [OF inv Some, of ?st])
      show "session_wf (ar_session req) ?st" using wf l False by (simp add: session_wf_def)
    next
      fix b t'
      assume "map_of (tg_atts (fst (attach_register r now req go stream))) b = Some t'"
      then have "b = ?a \<and> t' = t \<or> b \<noteq> ?a \<and> map_of (tg_atts r) b = Some t'"
        by (auto simp: r' split: if_splits)
      then show "b < tg_nextAtt (fst (attach_register r now req go stream)) \<and> ha_conn t' \<noteq> []
          \<and> (ha_open t' \<longleftrightarrow> live_in (fst (attach_register r now req go stream)) b (ha_session t'))"
        unfolding live using t treg_inv_atts(1) [OF inv, of b t'] by (auto simp: r')
    next
      fix b j
      assume "live_in (fst (attach_register r now req go stream)) b j"
      then show "\<exists>t. map_of (tg_atts (fst (attach_register r now req go stream))) b = Some t \<and> ha_session t = j"
        unfolding live using t treg_inv_atts(2,3) [OF inv, of b j] by (auto simp: r')
    qed (simp_all add: r')
  qed
qed (simp add: attach_register_def inv)

text \<open>Taking attachments out of a session's live set and closing exactly those streams.\<close>

lemma treg_inv_close:
  assumes inv: "treg_inv r" and st: "map_of (tg_sessions r) i = Some st"
    and wf: "session_wf i st'" "sst_seq st' = sst_seq st"
    and live: "set (sst_live st') = set (sst_live st) - set gone"
    and gone: "\<And>a t. a \<in> set gone \<Longrightarrow> map_of (tg_atts r) a = Some t \<Longrightarrow> ha_session t = i"
  shows "treg_inv (fold closeStream gone (r\<lparr>tg_sessions := AList.update i st' (tg_sessions r)\<rparr>))"
proof (rule treg_inv_reshape [OF inv st wf])
  let ?r = "fold closeStream gone (r\<lparr>tg_sessions := AList.update i st' (tg_sessions r)\<rparr>)"
  have lv: "live_in ?r b j \<longleftrightarrow> live_in r b j \<and> \<not> (j = i \<and> b \<in> set gone)" for b j
    using st live by (auto simp: live_in_def fold_closeStream)
  have att: "map_of (tg_atts ?r) b =
      (if b \<in> set gone then map_option (\<lambda>t. t\<lparr>ha_open := False\<rparr>) (map_of (tg_atts r) b) else map_of (tg_atts r) b)" for b
    by (simp add: fold_closeStream)
  show "b < tg_nextAtt ?r \<and> ha_conn t \<noteq> [] \<and> (ha_open t \<longleftrightarrow> live_in ?r b (ha_session t))"
    if t: "map_of (tg_atts ?r) b = Some t" for b t
  proof (cases "b \<in> set gone")
    case True
    then obtain t0 where "map_of (tg_atts r) b = Some t0" "t = t0\<lparr>ha_open := False\<rparr>"
      using t unfolding att by auto
    then show ?thesis
      using True treg_inv_atts(1) [OF inv, of b t0] gone [of b t0] unfolding lv by (simp add: fold_closeStream)
  next
    case False
    then show ?thesis
      using t treg_inv_atts(1) [OF inv, of b t] unfolding lv att by (simp add: fold_closeStream)
  qed
  show "\<exists>t. map_of (tg_atts ?r) b = Some t \<and> ha_session t = j" if "live_in ?r b j" for b j
    using that treg_inv_atts(2) [OF inv, of b j] unfolding lv att by auto
qed (simp_all add: fold_closeStream)

lemma Registry_Close_inv [inv_intros]:
  assumes inv: "treg_inv r"
  shows "treg_inv (fst (Registry_Close r now ans i))"
proof (cases "map_of (tg_sessions r) i")
  case (Some st)
  have wf: "session_wf i st" by (rule treg_inv_session [OF inv Some])
  have gone: "\<And>a t. a \<in> set (sst_live st) \<Longrightarrow> map_of (tg_atts r) a = Some t \<Longrightarrow> ha_session t = i"
    using treg_inv_atts(2) [OF inv, of _ i] Some by (fastforce simp: live_in_def)
  have close: "treg_inv (fold closeStream (sst_live st)
      (r\<lparr>tg_sessions := AList.update i (st\<lparr>sst_session := s, sst_live := []\<rparr>) (tg_sessions r)\<rparr>))"
    if "hs_id s = i" for s
    using wf that by (intro treg_inv_close [OF inv Some _ _ _ gone]) (auto simp: session_wf_def)
  have "hs_id (sst_session st) = i" using wf by (simp add: session_wf_def)
  with close inv Some show ?thesis
    by (simp add: Registry_Close_def Let_def split: sum.splits option.splits)
qed (simp add: Registry_Close_def inv)

lemma Attachment_Close_inv [inv_intros]:
  assumes inv: "treg_inv r"
  shows "treg_inv (Attachment_Close r now a)"
proof (cases "att_session r a")
  case (Some p)
  obtain t st where a: "att_session r a = Some (t, st)" using Some by (cases p) simp
  define st1 where "st1 = st\<lparr>sst_lease := Lease_Release now (ha_conn t) (sst_lease st)\<rparr>"
  define r1 where "r1 = put_att a t st1 r"
  have wf: "session_wf (ha_session t) st" by (rule att_session_wf [OF inv a])
  have l: "lease_wf (Lease_Release now (ha_conn t) (sst_lease st))"
  proof -
    have "ha_conn t \<noteq> []"
      using a treg_inv_atts(1) [OF inv, of a t] by (auto simp: att_session_def split: option.splits)
    then show ?thesis using wf lease_ops_wf(5) by (simp add: session_wf_def)
  qed
  have r1: "treg_inv r1"
    unfolding r1_def using l by (intro put_att_inv [OF inv a]) (simp_all add: st1_def)
  have st1: "map_of (tg_sessions r1) (ha_session t) = Some st1" "map_of (tg_atts r1) a = Some t"
    by (simp_all add: r1_def put_att_def)
  have "Attachment_Close r now a = fold closeStream [a]
      (r1\<lparr>tg_sessions := AList.update (ha_session t) (st1\<lparr>sst_live := removeAll a (sst_live st1)\<rparr>) (tg_sessions r1)\<rparr>)"
    using a st1 by (simp add: Attachment_Close_def Let_def forget_def r1_def st1_def)
  also have "treg_inv \<dots>"
    using wf l st1(2) by (intro treg_inv_close [OF r1 st1(1)]) (auto simp: session_wf_def st1_def)
  finally show ?thesis .
qed (simp add: Attachment_Close_def inv)

lemma treg_step_inv: "treg_step r r' \<Longrightarrow> treg_inv r \<Longrightarrow> treg_inv r'"
  by (induction rule: treg_step.induct) (auto intro: inv_intros)

lemma NewTermRegistry_inv: "treg_inv (NewTermRegistry opts)"
  by (simp add: treg_inv_def NewTermRegistry_def live_in_def)

lemma treg_reachable_inv: "treg_reachable opts r \<Longrightarrow> treg_inv r"
  by (induction rule: treg_reachable.induct) (auto intro: treg_step_inv NewTermRegistry_inv)

section \<open>Keystroke frames\<close>

text \<open>The keystrokes of one message as \<open>WriteInput\<close> cuts them, and the frames that carry them.\<close>

function input_chunks :: "byte list \<Rightarrow> byte list list" where
  "input_chunks b =
     (if length b \<le> maxPTYInputBytes then [b]
      else take maxPTYInputBytes b # input_chunks (drop maxPTYInputBytes b))"
  by pat_completeness auto
termination
  by (relation "measure length") (auto simp: maxPTYInputBytes_value)

declare input_chunks.simps [simp del]

fun number_frames :: "u64 \<Rightarrow> byte list list \<Rightarrow> (byte \<times> byte list) list" where
  "number_frames seq [] = []"
| "number_frames seq (c # cs) = (FramePTY, PutUint64 (seq + 1) @ c) # number_frames (seq + 1) cs"

lemma input_chunks_concat: "concat (input_chunks b) = b"
  by (induction b rule: input_chunks.induct) (subst input_chunks.simps, simp)

lemma input_chunks_small: "c \<in> set (input_chunks b) \<Longrightarrow> length c \<le> maxPTYInputBytes"
  by (induction b rule: input_chunks.induct) (subst (asm) (2) input_chunks.simps, auto split: if_splits)

lemma number_frames_ok:
  "\<forall>c \<in> set cs. length c \<le> maxPTYInputBytes \<Longrightarrow> \<forall>(ty, p) \<in> set (number_frames seq cs). frame_ok ty p"
proof (induction cs arbitrary: seq)
  case (Cons c cs)
  have "frame_ok FramePTY (PutUint64 (seq + 1) @ c)"
    using Cons.prems maxLen_values(2) unat_0_iff [of "maxLen FramePTY"]
    by (simp add: frame_ok_def maxPTYInputBytes_value)
  then show ?case using Cons by simp
qed simp

lemma input_loop_frames:
  assumes "length (frames_bytes (number_frames seq (input_chunks b))) \<le> sink_room w"
  shows "input_loop w seq bytes b =
    (w\<lparr>sink_out := sink_out w @ frames_bytes (number_frames seq (input_chunks b)),
       sink_room := sink_room w - length (frames_bytes (number_frames seq (input_chunks b)))\<rparr>,
     seq + of_nat (length (input_chunks b)), bytes + of_nat (length b), None)"
  using assms
proof (induction b arbitrary: w seq bytes rule: input_chunks.induct)
  case (1 b)
  let ?c = "take maxPTYInputBytes b"
  have ok: "frame_ok FramePTY (PutUint64 (seq + 1) @ ?c)"
    using number_frames_ok [of "[?c]" seq] by simp
  show ?case
  proof (cases "length b \<le> maxPTYInputBytes")
    case True
    then have ch: "input_chunks b = [b]" by (subst input_chunks.simps) simp
    show ?thesis
      using 1(2) ok True unfolding ch
      by (subst input_loop.simps) (simp add: WriteFrame_ok frames_bytes_def Let_def)
  next
    case False
    then have ch: "input_chunks b = ?c # input_chunks (drop maxPTYInputBytes b)"
      by (subst input_chunks.simps) simp
    have len: "length ?c = maxPTYInputBytes" using False by simp
    define w1 where "w1 = fst (WriteFrame w FramePTY (PutUint64 (seq + 1) @ ?c))"
    have room: "5 + length (PutUint64 (seq + 1) @ ?c) \<le> sink_room w"
      using 1(2) unfolding ch by (simp add: frames_bytes_def)
    have w1: "WriteFrame w FramePTY (PutUint64 (seq + 1) @ ?c) = (w1, None)"
      "w1 = w\<lparr>sink_out := sink_out w @ frame_bytes FramePTY (PutUint64 (seq + 1) @ ?c),
              sink_room := sink_room w - (5 + length (PutUint64 (seq + 1) @ ?c))\<rparr>"
      using WriteFrame_ok [OF ok room] by (simp_all add: w1_def)
    have bytes: "bytes + of_nat maxPTYInputBytes + of_nat (length (drop maxPTYInputBytes b)) = bytes + of_nat (length b)"
      using False by (simp add: add.assoc flip: of_nat_add)
    have "input_loop w seq bytes b =
        input_loop w1 (seq + 1) (bytes + of_nat maxPTYInputBytes) (drop maxPTYInputBytes b)"
      using False w1(1) len by (subst input_loop.simps) (simp add: Let_def)
    also have "\<dots> = (w1\<lparr>sink_out := sink_out w1 @ frames_bytes (number_frames (seq + 1) (input_chunks (drop maxPTYInputBytes b))),
        sink_room := sink_room w1 - length (frames_bytes (number_frames (seq + 1) (input_chunks (drop maxPTYInputBytes b))))\<rparr>,
        seq + 1 + of_nat (length (input_chunks (drop maxPTYInputBytes b))),
        bytes + of_nat maxPTYInputBytes + of_nat (length (drop maxPTYInputBytes b)), None)"
      using 1(2) False unfolding ch by (intro 1(1)) (simp_all add: w1(2) frames_bytes_def)
    finally show ?thesis
      unfolding ch bytes using w1(2) by (simp add: frames_bytes_def add.assoc)
  qed
qed

section \<open>Properties\<close>

text \<open>
  C26: No stream outlives its session. In every state the registry can reach, with closes and attaches in any
  order and any runner answers, an attachment whose stream is open belongs to an open session that
  lists it as live; and closing a session, once the runner has answered, leaves all of the session's
  attachments closed and the session refusing every later attach, while a repeated close changes nothing.
\<close>

theorem registry_owns_every_stream:
  assumes "treg_reachable opts r"
  shows "(\<forall>a t. map_of (tg_atts r) a = Some t \<and> ha_open t \<longrightarrow>
           (\<exists>st. map_of (tg_sessions r) (ha_session t) = Some st \<and> a \<in> set (sst_live st)
              \<and> hs_state (sst_session st) = StateOpen))
    \<and> (\<forall>st. map_of (tg_sessions r) i = Some st \<longrightarrow>
         (let r' = fst (Registry_Close r now (Answered reply) i) in
          (\<forall>a t. map_of (tg_atts r') a = Some t \<and> ha_session t = i \<longrightarrow> \<not> ha_open t)
          \<and> Registry_Close r' now' ans i = (r', None)
          \<and> (\<forall>req. ar_session req = i \<longrightarrow> Registry_Attach r' now' req ans stream = (r', Inl SessionClosed))))"
proof (intro conjI allI impI)
  fix a t
  assume "map_of (tg_atts r) a = Some t \<and> ha_open t"
  then obtain st where "map_of (tg_sessions r) (ha_session t) = Some st" "a \<in> set (sst_live st)"
    using treg_inv_atts(1) [OF treg_reachable_inv [OF assms], of a t] by (auto simp: live_in_def)
  moreover from this have "hs_state (sst_session st) = StateOpen"
    using treg_inv_session [OF treg_reachable_inv [OF assms]]
    by (cases "hs_state (sst_session st)") (auto simp: session_wf_def)
  ultimately show "\<exists>st. map_of (tg_sessions r) (ha_session t) = Some st \<and> a \<in> set (sst_live st)
      \<and> hs_state (sst_session st) = StateOpen" by blast
next
  fix st
  assume st: "map_of (tg_sessions r) i = Some st"
  define r' where "r' = fst (Registry_Close r now (Answered reply) i)"
  obtain st' where st': "map_of (tg_sessions r') i = Some st'" "hs_state (sst_session st') = StateClosed"
    using st by (cases "hs_state (sst_session st)")
      (auto simp: r'_def Registry_Close_def Let_def do_verb_def fold_closeStream split: option.splits)
  have inv: "treg_inv r'"
    unfolding r'_def by (rule Registry_Close_inv [OF treg_reachable_inv [OF assms]])
  have "\<not> live_in r' a i" for a
    using treg_inv_session [OF inv st'(1)] st' by (auto simp: live_in_def session_wf_def)
  then have "\<forall>a t. map_of (tg_atts r') a = Some t \<and> ha_session t = i \<longrightarrow> \<not> ha_open t"
    using treg_inv_atts(1) [OF inv] by blast
  moreover have "Registry_Close r' now' ans i = (r', None)"
    "\<forall>req. ar_session req = i \<longrightarrow> Registry_Attach r' now' req ans stream = (r', Inl SessionClosed)"
    using st' by (simp_all add: Registry_Close_def Registry_Attach_def attach_check_def Let_def)
  ultimately show "let r' = fst (Registry_Close r now (Answered reply) i) in
          (\<forall>a t. map_of (tg_atts r') a = Some t \<and> ha_session t = i \<longrightarrow> \<not> ha_open t)
          \<and> Registry_Close r' now' ans i = (r', None)
          \<and> (\<forall>req. ar_session req = i \<longrightarrow> Registry_Attach r' now' req ans stream = (r', Inl SessionClosed))"
    unfolding Let_def r'_def [symmetric] by blast
qed

definition demo_opts :: options where
  "demo_opts = \<lparr>op_maxReplay = 0, op_maxInflight = 64, op_writerLease = 30\<rparr>"

definition demo_host_spec :: host_spec where
  "demo_host_spec = \<lparr>hsp_owner = ''o'', hsp_user = ''root'', hsp_cwd = ''/'', hsp_argv = [''sh''], hsp_term = ''xterm'',
     hsp_rows = 24, hsp_cols = 80\<rparr>"

definition demo_req :: "string \<Rightarrow> attach_request" where
  "demo_req c = \<lparr>ar_session = ''s'', ar_afterOffset = 0, ar_bootid = [], ar_conn = c, ar_steal = False\<rparr>"

definition demo_sink :: sink where
  "demo_sink = \<lparr>sink_out = [], sink_room = 1000\<rparr>"

definition demo_treg :: term_registry where
  "demo_treg =
     fst (attach_register (fst (Registry_Create (NewTermRegistry demo_opts) 0 ''s'' (Answered None) ''v'' demo_host_spec))
       5 (demo_req ''c1'') (False, 0) demo_sink)"

lemma demo_treg_reachable: "treg_reachable demo_opts demo_treg"
  unfolding demo_treg_def
  by (intro treg_reachable.step [OF treg_reachable.step [OF treg_reachable.start treg_step.create] treg_step.attach])
    (simp_all add: NewTermRegistry_def demo_req_def)

theorem registry_owns_every_stream_witness:
  "ha_open (the (map_of (tg_atts demo_treg) 0))
   \<and> \<not> ha_open (the (map_of (tg_atts (fst (Registry_Close demo_treg 9 (Answered None) ''s''))) 0))"
proof -
  have s: "map_of (tg_sessions demo_treg) ''s'' \<noteq> None" by code_simp
  have a: "map_option (\<lambda>t. (ha_open t, ha_session t)) (map_of (tg_atts demo_treg) 0) = Some (True, ''s'')" by code_simp
  have b: "map_option ha_session (map_of (tg_atts (fst (Registry_Close demo_treg 9 (Answered None) ''s''))) 0) = Some ''s''"
    by code_simp
  obtain t where t: "map_of (tg_atts (fst (Registry_Close demo_treg 9 (Answered None) ''s''))) 0 = Some t"
      "ha_session t = ''s''"
    using b by auto
  have "\<not> ha_open t"
    using registry_owns_every_stream [OF demo_treg_reachable, of "''s''" 9 None 0 NoDial demo_sink] s t
    unfolding Let_def by blast
  with a t show ?thesis by auto
qed

text \<open>
  Two consequences of the lease for the browser. Every stream connection gets a fresh connection id, so a
  reload within the grace window comes back as a bystander and may not type: the window kept the
  shell for an id that nobody will present again. And a holder that releases through a lease request
  is told it is no longer the writer, while its keystrokes are still delivered until the window ends.
\<close>

lemma reload_is_read_only:
  "let r1 = Attachment_Close demo_treg 10 0;
       (r2, res) = Registry_Attach r1 12 (demo_req ''c2'') (Answered None) demo_sink
   in res = Inr 1 \<and> snd (WriteInput r2 13 1 [97]) = Some ErrReadOnly"
  by code_simp

lemma released_holder_still_types:
  "let (r1, res) = RequestLease demo_treg 10 ''s'' ''c1'' LeaseRelease
   in map_sum id lr_writer res = Inr False
      \<and> map_option (\<lambda>(t, st). snd (Lease_IsWriter 11 (ha_conn t) (sst_lease st))) (att_session r1 0) = Some True"
  by code_simp

end
