(* ===== verification/Keystroke_Path.thy ===== *)
theory Keystroke_Path
  imports Pty_Broker Terminal_Registry
begin

text \<open>
  The path of a keystroke across components: the host's \<open>WriteInput\<close> frames it with the session's next
  sequence number, the frame codec carries it, and the guest's \<open>streamIn\<close> hands it to the session, which
  drops what it has already applied.
\<close>

section \<open>The host's end\<close>

fun typed_frames :: "u64 \<Rightarrow> byte list list \<Rightarrow> (byte \<times> byte list) list" where
  "typed_frames seq [] = []"
| "typed_frames seq (b # bs) =
     number_frames seq (input_chunks b) @ typed_frames (seq + of_nat (length (input_chunks b))) bs"

definition type_keys :: "nat \<Rightarrow> term_registry \<Rightarrow> (int \<times> byte list) list \<Rightarrow> term_registry" where
  "type_keys a r ins = foldl (\<lambda>r (now, b). fst (WriteInput r now a b)) r ins"

lemma frames_bytes_append [simp]: "frames_bytes (fs @ gs) = frames_bytes fs @ frames_bytes gs"
  by (simp add: frames_bytes_def)

lemma WriteInput_writer:
  assumes a: "att_session r a = Some (t, st)"
    and w: "ha_conn t \<noteq> []" "ls_holder (sst_lease st) = ha_conn t" "ls_releasedAt (sst_lease st) = None"
    and room: "length (frames_bytes (number_frames (sst_inputSeq st) (input_chunks b))) \<le> sink_room (ha_stream t)"
  shows "\<exists>st' w'. att_session (fst (WriteInput r now a b)) a = Some (t\<lparr>ha_stream := w'\<rparr>, st')
    \<and> sst_lease st' = sst_lease st \<and> sst_inputSeq st' = sst_inputSeq st + of_nat (length (input_chunks b))
    \<and> sink_out w' = sink_out (ha_stream t) @ frames_bytes (number_frames (sst_inputSeq st) (input_chunks b))
    \<and> sink_room w' = sink_room (ha_stream t) - length (frames_bytes (number_frames (sst_inputSeq st) (input_chunks b)))"
proof -
  have l: "Lease_IsWriter now (ha_conn t) (sst_lease st) = (sst_lease st, True)"
    using w by (simp add: Lease_IsWriter_def expireLocked_def)
  show ?thesis
    using a by (simp add: WriteInput_def l input_loop_frames [OF room] put_att_def att_session_def)
      (intro exI [of _ "ha_stream t\<lparr>sink_out := sink_out (ha_stream t) @ frames_bytes (number_frames (sst_inputSeq st) (input_chunks b)),
         sink_room := sink_room (ha_stream t) - length (frames_bytes (number_frames (sst_inputSeq st) (input_chunks b)))\<rparr>"], simp)
qed

lemma type_keys_wire:
  assumes "att_session r a = Some (t, st)" "ha_conn t \<noteq> []" "ls_holder (sst_lease st) = ha_conn t"
    "ls_releasedAt (sst_lease st) = None"
    "length (frames_bytes (typed_frames (sst_inputSeq st) (map snd ins))) \<le> sink_room (ha_stream t)"
  shows "\<exists>t' st'. att_session (type_keys a r ins) a = Some (t', st')
    \<and> sink_out (ha_stream t') = sink_out (ha_stream t) @ frames_bytes (typed_frames (sst_inputSeq st) (map snd ins))"
  using assms
proof (induction ins arbitrary: r t st)
  case Nil
  then show ?case by (simp add: type_keys_def frames_bytes_def)
next
  case (Cons x ins)
  obtain now b where x: "x = (now, b)" by force
  have "length (frames_bytes (number_frames (sst_inputSeq st) (input_chunks b))) \<le> sink_room (ha_stream t)"
    using Cons.prems(5) x by simp
  from WriteInput_writer [OF Cons.prems(1-4) this, of now] obtain st1 w where
    st1: "att_session (fst (WriteInput r now a b)) a = Some (t\<lparr>ha_stream := w\<rparr>, st1)"
      "sst_lease st1 = sst_lease st" "sst_inputSeq st1 = sst_inputSeq st + of_nat (length (input_chunks b))"
      "sink_out w = sink_out (ha_stream t) @ frames_bytes (number_frames (sst_inputSeq st) (input_chunks b))"
      "sink_room w = sink_room (ha_stream t) - length (frames_bytes (number_frames (sst_inputSeq st) (input_chunks b)))"
    by blast
  from Cons.IH [OF st1(1)] Cons.prems st1(2-5) x show ?case by (simp add: type_keys_def)
qed

section \<open>The guest's end\<close>

definition master_takes_all :: "byte list \<Rightarrow> nat \<times> bool" where
  "master_takes_all b = (length b, True)"

lemma streamIn_number:
  assumes "ss_lastSeq s \<le> seq" "unat seq + length cs < 2 ^ 64"
  shows "streamIn master_takes_all dec ioctl s (number_frames seq cs @ fs) =
    streamIn master_takes_all dec ioctl
      (s\<lparr>ss_master := ss_master s @ concat cs,
         ss_lastSeq := (if cs = [] then ss_lastSeq s else seq + of_nat (length cs))\<rparr>) fs"
  using assms
proof (induction cs arbitrary: s seq)
  case (Cons c cs)
  have n: "unat (seq + 1) = unat seq + 1" using Cons.prems(2) by (simp add: unat_u64_add)
  then have new: "\<not> seq + 1 \<le> ss_lastSeq s" using Cons.prems(1) by (simp add: word_le_nat_alt)
  have "streamIn master_takes_all dec ioctl s (number_frames seq (c # cs) @ fs) =
      streamIn master_takes_all dec ioctl (s\<lparr>ss_master := ss_master s @ c, ss_lastSeq := seq + 1\<rparr>)
        (number_frames (seq + 1) cs @ fs)"
    using new Uint64_PutUint64 [of "seq + 1" "[]"]
    by (simp add: Session_Input_def Let_def master_takes_all_def)
  then show ?case
    using Cons.IH [of "s\<lparr>ss_master := ss_master s @ c, ss_lastSeq := seq + 1\<rparr>" "seq + 1"] n Cons.prems(2)
    by (simp add: add.assoc)
qed simp

lemma streamIn_typed:
  assumes "ss_lastSeq s \<le> seq" "unat seq + sum_list (map (length \<circ> input_chunks) bs) < 2 ^ 64"
  shows "ss_master (fst (streamIn master_takes_all dec ioctl s (typed_frames seq bs))) = ss_master s @ concat bs"
  using assms
proof (induction bs arbitrary: s seq)
  case (Cons b bs)
  have ne: "input_chunks b \<noteq> []" by (subst input_chunks.simps) simp
  have n: "unat (seq + of_nat (length (input_chunks b))) = unat seq + length (input_chunks b)"
    using Cons.prems(2) by (simp add: unat_u64_add unat_u64_of_nat)
  have l: "unat seq + length (input_chunks b) < 2 ^ 64" using Cons.prems(2) by simp
  show ?case
    using Cons.IH [of "s\<lparr>ss_master := ss_master s @ concat (input_chunks b),
         ss_lastSeq := seq + of_nat (length (input_chunks b))\<rparr>" "seq + of_nat (length (input_chunks b))"]
      Cons.prems n ne streamIn_number [OF Cons.prems(1) l]
    by (simp add: input_chunks_concat)
qed simp

lemma typed_frames_ok: "\<forall>(ty, p) \<in> set (typed_frames seq bs). frame_ok ty p"
proof (induction bs arbitrary: seq)
  case (Cons b bs)
  have "\<forall>(ty, p) \<in> set (number_frames seq (input_chunks b)). frame_ok ty p"
    by (rule number_frames_ok) (simp add: input_chunks_small)
  with Cons show ?case by auto
qed simp

section \<open>Properties\<close>

text \<open>
  C6: What a writer types is what the shell receives, once and in order. Let an attached writer send any
  sequence of messages, at any times and of any length, over a stream that carried nothing before;
  read the bytes on the wire as frames and hand them to the guest session, whose last applied number
  is not ahead of the host's. Then the shell's input grows by exactly the concatenated messages, and
  the reader stops only at the end of the stream.
\<close>

theorem keystrokes_end_to_end:
  assumes "att_session r a = Some (t, st)" "ha_conn t \<noteq> []" "ls_holder (sst_lease st) = ha_conn t"
    "ls_releasedAt (sst_lease st) = None" "sink_out (ha_stream t) = []"
    "length (frames_bytes (typed_frames (sst_inputSeq st) (map snd ins))) \<le> sink_room (ha_stream t)"
    "ss_lastSeq s \<le> sst_inputSeq st"
    "unat (sst_inputSeq st) + sum_list (map (length \<circ> input_chunks) (map snd ins)) < 2 ^ 64"
  shows "\<exists>t' st' fs. att_session (type_keys a r ins) a = Some (t', st')
    \<and> read_frames (sink_out (ha_stream t')) = (fs, ReadHeader)
    \<and> ss_master (fst (streamIn master_takes_all dec ioctl s fs)) = ss_master s @ concat (map snd ins)"
proof -
  obtain t' st' where t': "att_session (type_keys a r ins) a = Some (t', st')"
      "sink_out (ha_stream t') = frames_bytes (typed_frames (sst_inputSeq st) (map snd ins))"
    using type_keys_wire [OF assms(1-4,6)] assms(5) by auto
  have "ReadFrame [] = Inl ReadHeader" by (simp add: ReadFrame_def read_full_def)
  then have "read_frames (sink_out (ha_stream t')) = (typed_frames (sst_inputSeq st) (map snd ins), ReadHeader)"
    using read_frames_concat [of "typed_frames (sst_inputSeq st) (map snd ins)" "[]"] typed_frames_ok
    by (simp add: t'(2) list_all_iff)
  with t'(1) streamIn_typed [OF assms(7,8)] show ?thesis by blast
qed

theorem keystrokes_end_to_end_witness:
  "\<exists>t' st' fs. att_session (type_keys 0 demo_treg [(6, [108, 115]), (7, [10])]) 0 = Some (t', st')
    \<and> read_frames (sink_out (ha_stream t')) = (fs, ReadHeader)
    \<and> ss_master (fst (streamIn master_takes_all (\<lambda>_. None) True demo_session fs)) = ss_master demo_session @ [108, 115, 10]"
proof -
  obtain t st where a: "att_session demo_treg 0 = Some (t, st)"
    "ha_conn t = ''c1''" "sst_lease st = \<lparr>ls_grace = 30, ls_holder = ''c1'', ls_releasedAt = None, ls_changed = 1\<rparr>"
    "ha_stream t = demo_sink" "sst_inputSeq st = 0"
  proof -
    have "map_option (\<lambda>(t, st). (ha_conn t, sst_lease st, ha_stream t, sst_inputSeq st)) (att_session demo_treg 0)
        = Some (''c1'', \<lparr>ls_grace = 30, ls_holder = ''c1'', ls_releasedAt = None, ls_changed = 1\<rparr>, demo_sink, 0)"
      by code_simp
    then show thesis by (auto intro: that)
  qed
  have ch: "input_chunks [108, 115] = [[108, 115]]" "input_chunks [10] = [[10]]"
    by (simp_all add: input_chunks.simps maxPTYInputBytes_value)
  show ?thesis
    using keystrokes_end_to_end [OF a(1), of "[(6, [108, 115]), (7, [10])]" demo_session "\<lambda>_. None" True] a(2-5) ch
    by (simp add: demo_sink_def demo_session_def frames_bytes_def)
qed

end
