(* ===== verification/Telemetry_Ring.thy ===== *)
theory Telemetry_Ring
  imports Obs_Prelude
begin

text \<open>
  The guest's telemetry queue (\<open>src/internal/guest/telemetry/ring.go\<close>), the sensor registry and the
  heartbeat reporter (\<open>health.go\<close>), and the loop that drains the queue to the host
  (\<open>drainTelemetry\<close> and \<open>readAcks\<close> in \<open>src/internal/guest/telemetry.go\<close>).

  An event gets its sequence number when it is pushed. It leaves the queue when the host
  acknowledges it or when the queue is full and drops its oldest entry, which is counted.
  The locale \<open>send_queue\<close> is the interface the drain loop uses; \<open>tq\<close> interprets it with the ring.
\<close>

section \<open>The ring\<close>

record item =
  it_seq :: string
  it_kind :: string
  it_data :: string
  it_wall :: string
  it_mono :: string

record tring =
  tr_items :: "item list"
  tr_sent :: nat
  tr_cap :: nat
  tr_seq :: u64
  tr_dropped :: u64
  tr_epoch :: string
  tr_notify :: bool

definition TRing_New :: "int \<Rightarrow> string \<Rightarrow> tring" where
  "TRing_New capacity epoch =
     \<lparr>tr_items = [], tr_sent = 0, tr_cap = nat (if capacity < 1 then 1 else capacity), tr_seq = 0,
      tr_dropped = 0, tr_epoch = epoch, tr_notify = False\<rparr>"

text \<open>\<open>wall\<close> and \<open>monons\<close> are the clock readings taken at the push.\<close>

definition TRing_Push :: "tring \<Rightarrow> string \<Rightarrow> string \<Rightarrow> string \<Rightarrow> string \<Rightarrow> tring" where
  "TRing_Push r kind data wall monons =
     (let r1 = r\<lparr>tr_seq := tr_seq r + 1\<rparr>;
          r2 = (if length (tr_items r1) = tr_cap r1
                then r1\<lparr>tr_items := tl (tr_items r1), tr_dropped := tr_dropped r1 + 1,
                        tr_sent := (if 0 < tr_sent r1 then tr_sent r1 - 1 else tr_sent r1)\<rparr>
                else r1)
      in r2\<lparr>tr_items := tr_items r2 @
               [\<lparr>it_seq = format_uint (unat (tr_seq r2)), it_kind = kind, it_data = data,
                 it_wall = wall, it_mono = monons\<rparr>],
            tr_notify := True\<rparr>)"

definition TRing_Next :: "tring \<Rightarrow> item option" where
  "TRing_Next r =
     (if length (tr_items r) \<le> tr_sent r then None else Some (tr_items r ! tr_sent r))"

definition TRing_Advance :: "tring \<Rightarrow> tring" where
  "TRing_Advance r =
     (if tr_sent r < length (tr_items r) then r\<lparr>tr_sent := tr_sent r + 1\<rparr> else r)"

definition TRing_Rewind :: "tring \<Rightarrow> tring" where
  "TRing_Rewind r = r\<lparr>tr_sent := 0, tr_notify := True\<rparr>"

fun ack_prefix :: "nat \<Rightarrow> item list \<Rightarrow> nat" where
  "ack_prefix n [] = 0"
| "ack_prefix n (i # is) =
     (case parse_uint64 (it_seq i) of
        None \<Rightarrow> 0
      | Some q \<Rightarrow> if n < q then 0 else Suc (ack_prefix n is))"

definition TRing_AckThrough :: "tring \<Rightarrow> string \<Rightarrow> tring" where
  "TRing_AckThrough r s =
     (case parse_uint64 s of
        None \<Rightarrow> r
      | Some n \<Rightarrow>
          let kept = ack_prefix n (tr_items r)
          in if kept = 0 then r
             else r\<lparr>tr_items := drop kept (tr_items r), tr_sent := tr_sent r - kept\<rparr>)"

record ring_stats =
  st_capacity :: nat
  st_queued :: nat
  st_dropped :: string

definition TRing_Stats :: "tring \<Rightarrow> ring_stats" where
  "TRing_Stats r =
     \<lparr>st_capacity = tr_cap r, st_queued = length (tr_items r),
      st_dropped = format_uint (unat (tr_dropped r))\<rparr>"

section \<open>Registry and heartbeat\<close>

record sensor =
  se_id :: string
  se_state :: string
  se_lastEventAt :: string
  se_dropped :: string
  se_lossIntervals :: int
  se_captureMode :: string
  se_exclusions :: "string list"

record registry =
  rg_sensors :: "string \<rightharpoonup> sensor"
  rg_order :: "string list"

definition NewRegistry :: registry where
  "NewRegistry = \<lparr>rg_sensors = Map.empty, rg_order = []\<rparr>"

definition Registry_Set :: "registry \<Rightarrow> sensor \<Rightarrow> registry" where
  "Registry_Set g s =
     (let g1 = (if rg_sensors g (se_id s) = None then g\<lparr>rg_order := rg_order g @ [se_id s]\<rparr> else g)
      in g1\<lparr>rg_sensors := (rg_sensors g1)(se_id s \<mapsto> s)\<rparr>)"

definition Registry_Snapshot :: "registry \<Rightarrow> sensor list" where
  "Registry_Snapshot g = map (\<lambda>i. the (rg_sensors g i)) (rg_order g)"

record health =
  hl_version :: string
  hl_startedAt :: int
  hl_uptime :: string
  hl_interval :: string
  hl_ring :: ring_stats
  hl_sensors :: "sensor list"

record reporter =
  rp_version :: string
  rp_interval :: int
  rp_started :: int
  rp_ring :: tring
  rp_sensors :: registry

definition Reporter_Health :: "reporter \<Rightarrow> int \<Rightarrow> health" where
  "Reporter_Health r now =
     \<lparr>hl_version = rp_version r, hl_startedAt = rp_started r,
      hl_uptime = format_int (now - rp_started r), hl_interval = format_int (rp_interval r), hl_ring = TRing_Stats (rp_ring r),
      hl_sensors = Registry_Snapshot (rp_sensors r)\<rparr>"

text \<open>\<open>marshal\<close> is the JSON encoder; \<open>None\<close> when it fails.\<close>

definition Reporter_Beat ::
  "(health \<Rightarrow> string option) \<Rightarrow> reporter \<Rightarrow> int \<Rightarrow> string \<Rightarrow> string \<Rightarrow> reporter" where
  "Reporter_Beat marshal r now wall monons =
     (case marshal (Reporter_Health r now) of
        None \<Rightarrow> r
      | Some d \<Rightarrow> r\<lparr>rp_ring := TRing_Push (rp_ring r) ''guest.sensor_health'' d wall monons\<rparr>)"

section \<open>Invariant\<close>

text \<open>
  At most \<open>tr_cap\<close> items, the send cursor among them, and the items carry consecutive sequence
  numbers up to the last one assigned.
\<close>

definition tring_inv :: "tring \<Rightarrow> bool" where
  "tring_inv r \<longleftrightarrow> 1 \<le> tr_cap r \<and> length (tr_items r) \<le> tr_cap r \<and> tr_sent r \<le> length (tr_items r)
     \<and> length (tr_items r) \<le> unat (tr_seq r)
     \<and> (\<forall>i<length (tr_items r). it_seq (tr_items r ! i) =
          format_uint (Suc (unat (tr_seq r) - length (tr_items r) + i)))"

lemma TRing_New_inv [inv_intros]: "tring_inv (TRing_New c e)"
  by (simp add: tring_inv_def TRing_New_def) arith

lemma TRing_Push_fields:
  assumes "tring_inv r" and "unat (tr_seq r) + 1 < 2 ^ 64"
  shows "unat (tr_seq (TRing_Push r k d w m)) = Suc (unat (tr_seq r))"
    and "tr_cap (TRing_Push r k d w m) = tr_cap r"
    and "length (tr_items (TRing_Push r k d w m)) = min (tr_cap r) (Suc (length (tr_items r)))"
    and "tr_dropped (TRing_Push r k d w m) =
           tr_dropped r + (if length (tr_items r) = tr_cap r then 1 else 0)"
    and "tr_items (TRing_Push r k d w m) =
           (if length (tr_items r) = tr_cap r then tl (tr_items r) else tr_items r) @
           [\<lparr>it_seq = format_uint (Suc (unat (tr_seq r))), it_kind = k, it_data = d, it_wall = w, it_mono = m\<rparr>]"
proof -
  have seq: "unat (tr_seq r + 1) = Suc (unat (tr_seq r))"
    using assms(2) unat_u64_add [of "tr_seq r" 1] by simp
  show "unat (tr_seq (TRing_Push r k d w m)) = Suc (unat (tr_seq r))"
    and "tr_cap (TRing_Push r k d w m) = tr_cap r"
    and "tr_dropped (TRing_Push r k d w m) =
           tr_dropped r + (if length (tr_items r) = tr_cap r then 1 else 0)"
    by (simp_all add: TRing_Push_def Let_def seq)
  show items: "tr_items (TRing_Push r k d w m) =
           (if length (tr_items r) = tr_cap r then tl (tr_items r) else tr_items r) @
           [\<lparr>it_seq = format_uint (Suc (unat (tr_seq r))), it_kind = k, it_data = d, it_wall = w, it_mono = m\<rparr>]"
    by (simp add: TRing_Push_def Let_def seq)
  show "length (tr_items (TRing_Push r k d w m)) = min (tr_cap r) (Suc (length (tr_items r)))"
    using assms(1) by (simp add: items tring_inv_def)
qed

lemma TRing_Push_inv [inv_intros]:
  assumes inv: "tring_inv r" and room: "unat (tr_seq r) + 1 < 2 ^ 64"
  shows "tring_inv (TRing_Push r k d w m)"
proof -
  let ?p = "TRing_Push r k d w m" and ?n = "length (tr_items r)" and ?q = "unat (tr_seq r)"
  note f = TRing_Push_fields [OF assms, of k d w m]
  have base: "1 \<le> tr_cap r" "?n \<le> tr_cap r" "tr_sent r \<le> ?n" "?n \<le> ?q"
    and nth: "\<And>i. i < ?n \<Longrightarrow> it_seq (tr_items r ! i) = format_uint (Suc (?q - ?n + i))"
    using inv by (auto simp: tring_inv_def)
  have sent: "tr_sent ?p \<le> length (tr_items ?p)"
    using base by (auto simp: f(3) TRing_Push_def Let_def)
  have "it_seq (tr_items ?p ! i) = format_uint (Suc (Suc ?q - length (tr_items ?p) + i))"
    if i: "i < length (tr_items ?p)" for i
  proof (cases "?n = tr_cap r")
    case True
    then have len: "length (tr_items ?p) = ?n" using base by (simp add: f(3))
    show ?thesis
    proof (cases "Suc i < ?n")
      case lt: True
      then have "tr_items ?p ! i = tr_items r ! Suc i"
        using True by (simp add: f(5) nth_append nth_tl)
      moreover have "?q - ?n + Suc i = Suc ?q - ?n + i" using base by arith
      ultimately show ?thesis using nth [OF lt] len by metis
    next
      case last: False
      then have i': "i = ?n - 1" using i len by linarith
      then have "it_seq (tr_items ?p ! i) = format_uint (Suc ?q)"
        using True by (simp add: f(5) nth_append)
      moreover have "Suc ?q - ?n + i = ?q" using base i' True by arith
      ultimately show ?thesis using len by metis
    qed
  next
    case False
    with i base nth [of i] show ?thesis
      by (auto simp: f(3,5) nth_append less_Suc_eq)
  qed
  with base sent show ?thesis by (simp add: tring_inv_def f(1,2,3))
qed

lemma TRing_Advance_inv [inv_intros]: "tring_inv r \<Longrightarrow> tring_inv (TRing_Advance r)"
  by (simp add: tring_inv_def TRing_Advance_def)

lemma TRing_Rewind_inv [inv_intros]: "tring_inv r \<Longrightarrow> tring_inv (TRing_Rewind r)"
  by (simp add: tring_inv_def TRing_Rewind_def)

text \<open>Items with consecutive sequence numbers above \<open>lo\<close>: an acknowledgement takes a prefix.\<close>

lemma ack_prefix_consecutive:
  assumes "\<forall>i<length is. it_seq (is ! i) = format_uint (Suc (lo + i))" and "lo + length is < 2 ^ 64"
  shows "ack_prefix n is = min (length is) (n - lo)"
  using assms
proof (induction "is" arbitrary: lo)
  case Nil
  then show ?case by simp
next
  case (Cons x xs)
  have x: "parse_uint64 (it_seq x) = Some (Suc lo)"
    using Cons.prems by (auto dest: spec [of _ 0])
  have "ack_prefix n xs = min (length xs) (n - Suc lo)"
    using Cons.prems by (intro Cons.IH) (auto dest: spec [of _ "Suc _"])
  with x show ?case by (auto simp: min_def)
qed

lemma TRing_AckThrough_items:
  assumes "tring_inv r" and "parse_uint64 s = Some n"
  shows "tr_items (TRing_AckThrough r s) =
           drop (n - (unat (tr_seq r) - length (tr_items r))) (tr_items r)"
proof -
  have "ack_prefix n (tr_items r) =
      min (length (tr_items r)) (n - (unat (tr_seq r) - length (tr_items r)))"
    using assms(1) unat_u64_lt [of "tr_seq r"]
    by (intro ack_prefix_consecutive) (auto simp: tring_inv_def)
  then show ?thesis using assms(2) by (auto simp: TRing_AckThrough_def Let_def min_def)
qed

lemma TRing_AckThrough_frame [simp]:
  "tr_cap (TRing_AckThrough r s) = tr_cap r" "tr_seq (TRing_AckThrough r s) = tr_seq r"
  "tr_dropped (TRing_AckThrough r s) = tr_dropped r"
  by (simp_all add: TRing_AckThrough_def Let_def split: option.splits)

lemma ack_prefix_le: "ack_prefix n is \<le> length is"
  by (induction "is") (auto split: option.splits)

lemma ack_drops:
  "\<exists>k\<le>length (tr_items r). tr_items (TRing_AckThrough r s) = drop k (tr_items r)
     \<and> tr_sent (TRing_AckThrough r s) = tr_sent r - k"
proof (cases "parse_uint64 s")
  case None
  then show ?thesis by (intro exI [of _ 0]) (simp add: TRing_AckThrough_def)
next
  case (Some n)
  then show ?thesis
    using ack_prefix_le [of n "tr_items r"]
    by (intro exI [of _ "ack_prefix n (tr_items r)"]) (simp add: TRing_AckThrough_def Let_def)
qed

lemma TRing_AckThrough_inv [inv_intros]:
  assumes "tring_inv r"
  shows "tring_inv (TRing_AckThrough r s)"
  using assms ack_drops [of r s] by (auto simp: tring_inv_def add.assoc)

section \<open>The queue the drain loop uses\<close>

text \<open>
  What the sender needs to know of a queue: the items not yet acknowledged, in order, and a cursor
  into them that only the sender moves.
\<close>

locale send_queue =
  fixes inv :: "'q \<Rightarrow> bool"
    and pending :: "'q \<Rightarrow> 'i list"
    and cursor :: "'q \<Rightarrow> nat"
    and nextq :: "'q \<Rightarrow> 'i option"
    and advance :: "'q \<Rightarrow> 'q"
    and rewind :: "'q \<Rightarrow> 'q"
  assumes next_law: "inv q \<Longrightarrow>
      nextq q = (if cursor q < length (pending q) then Some (pending q ! cursor q) else None)"
    and advance_law: "inv q \<Longrightarrow> pending (advance q) = pending q
      \<and> cursor (advance q) = min (length (pending q)) (Suc (cursor q)) \<and> inv (advance q)"
    and rewind_law: "inv q \<Longrightarrow> pending (rewind q) = pending q \<and> cursor (rewind q) = 0 \<and> inv (rewind q)"
begin

text \<open>The drain loop while nothing else touches the queue: at most \<open>n\<close> writes succeed.\<close>

fun drain :: "nat \<Rightarrow> 'q \<Rightarrow> 'i list \<times> 'q" where
  "drain 0 q = ([], q)"
| "drain (Suc n) q =
     (case nextq q of
        None \<Rightarrow> ([], q)
      | Some i \<Rightarrow> (let (out, q') = drain n (advance q) in (i # out, q')))"

lemma drain_sends:
  "inv q \<Longrightarrow> fst (drain n q) = take n (drop (cursor q) (pending q))
     \<and> pending (snd (drain n q)) = pending q \<and> inv (snd (drain n q))"
proof (induction n arbitrary: q)
  case 0
  then show ?case by simp
next
  case (Suc n)
  show ?case
  proof (cases "cursor q < length (pending q)")
    case True
    have "inv (advance q)" and "pending (advance q) = pending q" and "cursor (advance q) = Suc (cursor q)"
      using advance_law [OF Suc.prems] True by auto
    with Suc.IH [of "advance q"] True show ?thesis
      by (simp add: next_law [OF Suc.prems] case_prod_beta Cons_nth_drop_Suc [symmetric])
  next
    case False
    then show ?thesis using Suc.prems by (simp add: next_law)
  qed
qed

lemma reconnect_resends:
  "inv q \<Longrightarrow> length (pending q) \<le> n \<Longrightarrow> fst (drain n (rewind q)) = pending q"
  using rewind_law [of q] drain_sends [of "rewind q" n] by simp

end

interpretation tq: send_queue tring_inv tr_items tr_sent TRing_Next TRing_Advance TRing_Rewind
  by unfold_locales
    (auto simp: TRing_Next_def TRing_Advance_def TRing_Rewind_def tring_inv_def not_le)

section \<open>A queue in use\<close>

text \<open>One pass of the drain loop: the item written, if any; \<open>ok\<close> is whether the write succeeded.\<close>

definition drainTelemetry_pass :: "tring \<Rightarrow> bool \<Rightarrow> tring \<times> item option" where
  "drainTelemetry_pass r ok =
     (case TRing_Next r of
        None \<Rightarrow> (r, None)
      | Some i \<Rightarrow> if \<not> ok then (r, None) else (TRing_Advance r, Some i))"

text \<open>
  Sensors push, the drain loop writes, a new connection rewinds, acknowledgements arrive. \<open>tc_log\<close> is
  what the current connection carried, \<open>tc_acked\<close> counts the items acknowledgements removed.
\<close>

datatype tel_action =
    TPush string string string string
  | TWrite bool
  | TReconnect
  | TAck string

record tel_state =
  tc_ring :: tring
  tc_log :: "item list"
  tc_acked :: nat

fun tel_step :: "tel_state \<Rightarrow> tel_action \<Rightarrow> tel_state" where
  "tel_step t (TPush k d w m) = t\<lparr>tc_ring := TRing_Push (tc_ring t) k d w m\<rparr>"
| "tel_step t (TWrite ok) =
     (case drainTelemetry_pass (tc_ring t) ok of
        (r, None) \<Rightarrow> t\<lparr>tc_ring := r\<rparr>
      | (r, Some i) \<Rightarrow> t\<lparr>tc_ring := r, tc_log := tc_log t @ [i]\<rparr>)"
| "tel_step t TReconnect = t\<lparr>tc_ring := TRing_Rewind (tc_ring t), tc_log := []\<rparr>"
| "tel_step t (TAck s) =
     t\<lparr>tc_ring := TRing_AckThrough (tc_ring t) s,
       tc_acked := tc_acked t + (length (tr_items (tc_ring t)) - length (tr_items (TRing_AckThrough (tc_ring t) s)))\<rparr>"

definition tel_start :: "int \<Rightarrow> string \<Rightarrow> tel_state" where
  "tel_start c e = \<lparr>tc_ring = TRing_New c e, tc_log = [], tc_acked = 0\<rparr>"

fun pushes :: "tel_action list \<Rightarrow> nat" where
  "pushes [] = 0"
| "pushes (TPush _ _ _ _ # as) = Suc (pushes as)"
| "pushes (_ # as) = pushes as"

definition item_no :: "item \<Rightarrow> nat" where
  "item_no i = the (parse_uint64 (it_seq i))"

text \<open>
  Every number handed out is accounted for, and what the connection carried is in ascending order and
  not beyond the send cursor.
\<close>

definition tel_inv :: "nat \<Rightarrow> tel_state \<Rightarrow> bool" where
  "tel_inv n t \<longleftrightarrow> tring_inv (tc_ring t) \<and> unat (tr_seq (tc_ring t)) = n
     \<and> n = tc_acked t + unat (tr_dropped (tc_ring t)) + length (tr_items (tc_ring t))
     \<and> sorted_wrt (<) (map item_no (tc_log t))
     \<and> (\<forall>i\<in>set (tc_log t). item_no i + length (tr_items (tc_ring t)) \<le> n + tr_sent (tc_ring t))"

lemma tring_item_no:
  assumes "tring_inv r" and "i < length (tr_items r)"
  shows "item_no (tr_items r ! i) + length (tr_items r) = Suc (unat (tr_seq r) + i)"
proof -
  let ?q = "Suc (unat (tr_seq r) - length (tr_items r) + i)"
  have "it_seq (tr_items r ! i) = format_uint ?q" and "length (tr_items r) \<le> unat (tr_seq r)"
    using assms by (auto simp: tring_inv_def)
  moreover have "?q < 2 ^ 64" using assms unat_u64_lt [of "tr_seq r"] by (auto simp: tring_inv_def)
  ultimately show ?thesis by (simp add: item_no_def)
qed

lemma tel_step_push:
  assumes "tel_inv n t" and "n + 1 < 2 ^ 64"
  shows "tel_inv (Suc n) (tel_step t (TPush k d w m))"
proof -
  let ?r = "tc_ring t" and ?r' = "TRing_Push (tc_ring t) k d w m"
  have inv: "tring_inv ?r" and room: "unat (tr_seq ?r) + 1 < 2 ^ 64"
    using assms by (auto simp: tel_inv_def)
  note f = TRing_Push_fields [OF inv room, of k d w m]
  have d: "unat (tr_dropped ?r') = unat (tr_dropped ?r) + (if length (tr_items ?r) = tr_cap ?r then 1 else 0)"
    using assms unat_u64_add [of "tr_dropped ?r" 1] by (auto simp: f(4) tel_inv_def)
  have "length (tr_items ?r') + tr_sent ?r \<le> Suc (length (tr_items ?r)) + tr_sent ?r'"
    using inv by (auto simp: f(3) tring_inv_def TRing_Push_def Let_def)
  with assms show ?thesis
    using TRing_Push_inv [OF inv room, of k d w m] f d inv
    by (fastforce simp: tel_inv_def tring_inv_def)
qed

lemma tel_step_write:
  assumes "tel_inv n t"
  shows "tel_inv n (tel_step t (TWrite ok))"
proof -
  let ?r = "tc_ring t"
  have inv: "tring_inv ?r" using assms by (simp add: tel_inv_def)
  show ?thesis
  proof (cases "tr_sent ?r < length (tr_items ?r) \<and> ok")
    case True
    then have "tel_step t (TWrite ok) =
        t\<lparr>tc_ring := ?r\<lparr>tr_sent := Suc (tr_sent ?r)\<rparr>, tc_log := tc_log t @ [tr_items ?r ! tr_sent ?r]\<rparr>"
      by (simp add: drainTelemetry_pass_def TRing_Next_def TRing_Advance_def)
    moreover have "item_no (tr_items ?r ! tr_sent ?r) + length (tr_items ?r) = Suc (n + tr_sent ?r)"
      using tring_item_no [OF inv] True assms by (simp add: tel_inv_def)
    ultimately show ?thesis
      using assms True TRing_Advance_inv [OF inv]
      by (fastforce simp: tel_inv_def sorted_wrt_append TRing_Advance_def)
  next
    case False
    then have "tel_step t (TWrite ok) = t"
      by (auto simp: drainTelemetry_pass_def TRing_Next_def)
    with assms show ?thesis by simp
  qed
qed

lemma tel_step_other:
  assumes "tel_inv n t"
  shows "tel_inv n (tel_step t TReconnect)" and "tel_inv n (tel_step t (TAck s))"
proof -
  let ?r = "tc_ring t"
  have inv: "tring_inv ?r" using assms by (simp add: tel_inv_def)
  show "tel_inv n (tel_step t TReconnect)"
    using assms TRing_Rewind_inv [OF inv] by (simp add: tel_inv_def TRing_Rewind_def)
  obtain k where le: "k \<le> length (tr_items ?r)"
    and "tr_items (TRing_AckThrough ?r s) = drop k (tr_items ?r)"
    and "tr_sent (TRing_AckThrough ?r s) = tr_sent ?r - k"
    using ack_drops [of ?r s] by blast
  moreover have "x + (length (tr_items ?r) - k) \<le> n + (tr_sent ?r - k)"
    if "x + length (tr_items ?r) \<le> n + tr_sent ?r" for x
    using that le by arith
  ultimately show "tel_inv n (tel_step t (TAck s))"
    using assms TRing_AckThrough_inv [OF inv, of s] by (auto simp: tel_inv_def)
qed

lemma tel_run_inv:
  "tel_inv n t \<Longrightarrow> n + pushes as < 2 ^ 64 \<Longrightarrow> tel_inv (n + pushes as) (foldl tel_step t as)"
proof (induction as arbitrary: n t)
  case Nil
  then show ?case by simp
next
  case (Cons a as)
  show ?case
  proof (cases a)
    case (TPush k d w m)
    with Cons show ?thesis using tel_step_push [of n t k d w m] Cons.IH [of "Suc n"] by simp
  qed (use Cons tel_step_write tel_step_other in auto)
qed

lemma Registry_Set_fields:
  "rg_sensors (Registry_Set g s) = (rg_sensors g)(se_id s \<mapsto> s)"
  "rg_order (Registry_Set g s) =
     (if rg_sensors g (se_id s) = None then rg_order g @ [se_id s] else rg_order g)"
  by (simp_all add: Registry_Set_def Let_def)

lemma registry_state:
  "rg_order (foldl Registry_Set NewRegistry ss) = rev (remdups (rev (map se_id ss)))"
  "rg_sensors (foldl Registry_Set NewRegistry ss) = (\<lambda>i. find (\<lambda>s. se_id s = i) (rev ss))"
proof (induction ss rule: rev_induct)
  case Nil
  show "rg_order (foldl Registry_Set NewRegistry []) = rev (remdups (rev (map se_id [])))"
    and "rg_sensors (foldl Registry_Set NewRegistry []) = (\<lambda>i. find (\<lambda>s. se_id s = i) (rev []))"
    by (simp_all add: NewRegistry_def)
next
  case (snoc s ss)
  show "rg_sensors (foldl Registry_Set NewRegistry (ss @ [s])) = (\<lambda>i. find (\<lambda>s. se_id s = i) (rev (ss @ [s])))"
    using snoc by (auto simp: Registry_Set_fields)
  have "find (\<lambda>x. se_id x = se_id s) (rev ss) = None \<longleftrightarrow> se_id s \<notin> se_id ` set ss"
    by (simp add: find_None_iff image_iff) metis
  then show "rg_order (foldl Registry_Set NewRegistry (ss @ [s])) = rev (remdups (rev (map se_id (ss @ [s]))))"
    using snoc by (simp add: Registry_Set_fields)
qed

section \<open>Properties\<close>

text \<open>
  C36: No event leaves the queue unaccounted for. After any sequence of pushes, writes, reconnections and
  acknowledgements, the number of events pushed equals those acknowledged, plus those counted as
  dropped, plus those still queued; the queue holds the newest events under consecutive sequence
  numbers and never more than its capacity; and each connection carried strictly ascending numbers.
\<close>

theorem telemetry_accounting:
  assumes "pushes as < 2 ^ 64" and "foldl tel_step (tel_start c e) as = t"
  shows "pushes as = tc_acked t + unat (tr_dropped (tc_ring t)) + length (tr_items (tc_ring t))
    \<and> length (tr_items (tc_ring t)) \<le> tr_cap (tc_ring t)
    \<and> (\<forall>i<length (tr_items (tc_ring t)).
         item_no (tr_items (tc_ring t) ! i) + length (tr_items (tc_ring t)) = Suc (pushes as + i))
    \<and> sorted_wrt (<) (map item_no (tc_log t))"
proof -
  have "tel_inv 0 (tel_start c e)"
    by (simp add: tel_inv_def tel_start_def TRing_New_inv) (simp add: TRing_New_def)
  from tel_run_inv [OF this, of as] assms have inv: "tel_inv (pushes as) t" by simp
  then have ring: "tring_inv (tc_ring t)" and q: "unat (tr_seq (tc_ring t)) = pushes as"
    by (auto simp: tel_inv_def)
  from inv ring tring_item_no [OF ring] show ?thesis
    unfolding q by (auto simp: tel_inv_def tring_inv_def)
qed

definition demo_tel_actions :: "tel_action list" where
  "demo_tel_actions = [TPush ''k'' [] [] [], TPush ''k'' [] [] [], TPush ''k'' [] [] [], TWrite True, TAck ''2'']"

theorem telemetry_accounting_witness:
  "3 = tc_acked (foldl tel_step (tel_start 2 ''e'') demo_tel_actions)
     + unat (tr_dropped (tc_ring (foldl tel_step (tel_start 2 ''e'') demo_tel_actions)))
     + length (tr_items (tc_ring (foldl tel_step (tel_start 2 ''e'') demo_tel_actions)))"
  using telemetry_accounting [of demo_tel_actions 2 "''e''", OF _ refl]
  by (simp add: demo_tel_actions_def)



text \<open>
  The registry reports every sensor once, in the order of first registration and with its latest
  self-report.
\<close>

theorem registry_snapshot_latest:
  "map se_id (Registry_Snapshot (foldl Registry_Set NewRegistry ss)) = rev (remdups (rev (map se_id ss)))
   \<and> Registry_Snapshot (foldl Registry_Set NewRegistry ss) =
       map (\<lambda>i. the (find (\<lambda>s. se_id s = i) (rev ss))) (rev (remdups (rev (map se_id ss))))"
proof -
  let ?g = "foldl Registry_Set NewRegistry ss" and ?ids = "rev (remdups (rev (map se_id ss)))"
  have g: "rg_order ?g = ?ids" "rg_sensors ?g = (\<lambda>i. find (\<lambda>s. se_id s = i) (rev ss))"
    by (rule registry_state)+
  have "se_id (the (find (\<lambda>s. se_id s = i) (rev ss))) = i" if "i \<in> set ?ids" for i
  proof -
    from that obtain s where "find (\<lambda>s. se_id s = i) (rev ss) = Some s"
      by (fastforce simp: find_None_iff)
    then show ?thesis by (simp, auto simp: find_Some_iff)
  qed
  then have "map (\<lambda>i. se_id (the (find (\<lambda>s. se_id s = i) (rev ss)))) ?ids = ?ids"
    by (intro map_idI) blast
  then show ?thesis by (simp add: Registry_Snapshot_def g comp_def)
qed

end
