(* ===== verification/Event_Model.thy ===== *)
theory Event_Model
  imports Obs_Prelude "HOL-Library.Char_ord" "HOL-Library.List_Lexorder" "HOL-Library.Multiset"
begin

text \<open>
  The event envelope, its validation and the table of event kinds (\<open>src/internal/events/envelope.go\<close>,
  \<open>validate.go\<close>, \<open>registry.go\<close>). Strings are lists of bytes. The regular expressions are executable matchers;
  a validation error is the list of the rules broken, in the order the code reports them. The free-form
  data object is a list of fields; the prose of the kind table (semantics and caveats) is left out.
\<close>

section \<open>Envelopes\<close>

datatype provenance = HostObserved | GuestReported | Derived | OtherProvenance string

datatype path_resolution = PathExactAtCapture | PathInferred | PathUnresolved | PathNotApplicable
  | OtherPath string

datatype attribution = AttributionExact | AttributionInferred | AttributionUnknown
  | AttributionNotApplicable | OtherAttribution string

datatype jval = JNull | JStr string | JNum int | JBool bool | JObj "(string \<times> jval) list" | JArr "jval list"

record quality =
  ql_path :: path_resolution
  ql_attribution :: attribution
  ql_truncated :: bool
  ql_redacted :: bool
  ql_policy :: string
  ql_notes :: "string list"

record envelope =
  en_schemaVersion :: int
  en_eventID :: "string option"
  en_vmID :: "string option"
  en_bootID :: "string option"
  en_source :: string
  en_seq :: string
  en_kind :: string
  en_provenance :: provenance
  en_sensor :: string
  en_receivedAt :: "int option"
  en_hostBootID :: string
  en_hostMonotonicNS :: string
  en_guestWallAt :: "int option"
  en_guestMonotonicNS :: "string option"
  en_processKey :: "string option"
  en_runID :: "string option"
  en_related :: "string list"
  en_quality :: quality
  en_data :: "(string \<times> jval) list option"

section \<open>Patterns\<close>

definition is_digit :: "char \<Rightarrow> bool" where
  "is_digit c \<longleftrightarrow> CHR ''0'' \<le> c \<and> c \<le> CHR ''9''"

definition is_lower :: "char \<Rightarrow> bool" where
  "is_lower c \<longleftrightarrow> CHR ''a'' \<le> c \<and> c \<le> CHR ''z''"

definition is_hex :: "char \<Rightarrow> bool" where
  "is_hex c \<longleftrightarrow> is_digit c \<or> (CHR ''a'' \<le> c \<and> c \<le> CHR ''f'')"

definition DecimalString :: "string \<Rightarrow> bool" where
  "DecimalString s \<longleftrightarrow> s = ''0'' \<or> (s \<noteq> [] \<and> hd s \<noteq> CHR ''0'' \<and> list_all is_digit s)"

definition UUIDString :: "string \<Rightarrow> bool" where
  "UUIDString s \<longleftrightarrow> length s = 36 \<and>
     list_all (\<lambda>(i, c). if i \<in> {8, 13, 18, 23} then c = CHR ''-'' else is_hex c) (enumerate 0 s)"

text \<open>The segments of a kind: what stands between its dots.\<close>

fun segments :: "string \<Rightarrow> string list" where
  "segments [] = [[]]"
| "segments (c # cs) =
     (if c = CHR ''.'' then [] # segments cs
      else case segments cs of [] \<Rightarrow> [[c]] | w # ws \<Rightarrow> (c # w) # ws)"

definition segment_ok :: "string \<Rightarrow> bool" where
  "segment_ok w \<longleftrightarrow> w \<noteq> [] \<and> is_lower (hd w)
     \<and> list_all (\<lambda>c. is_lower c \<or> is_digit c \<or> c = CHR ''_'') (tl w)"

definition kindPattern :: "string \<Rightarrow> bool" where
  "kindPattern s \<longleftrightarrow> 2 \<le> length (segments s) \<and> list_all segment_ok (segments s)"

section \<open>Validation\<close>

datatype problem = PSchema | PEventID | PVMID | PBootID | PBootNeedsVM | PSource | PSeq | PKind
  | PProvenance | PSensor | PReceivedAt | PHostBoot | PHostMonotonic | PGuestMonotonic | PProcessKey
  | PRunID | PRelatedMany | PRelatedForm string | PRelatedRepeat string | PPath | PAttribution | PNotes | PData

fun related_problems :: "string list \<Rightarrow> string list \<Rightarrow> problem list" where
  "related_problems seen [] = []"
| "related_problems seen (i # is) =
     (if \<not> DecimalString i then [PRelatedForm i] else []) @ (if i \<in> set seen then [PRelatedRepeat i] else [])
     @ related_problems (i # seen) is"

definition flag :: "bool \<Rightarrow> problem \<Rightarrow> problem list" where
  "flag b p = (if b then [p] else [])"

definition bad_opt :: "(string \<Rightarrow> bool) \<Rightarrow> string option \<Rightarrow> bool" where
  "bad_opt ok v = (case v of None \<Rightarrow> False | Some s \<Rightarrow> \<not> ok s)"

definition Validate :: "envelope \<Rightarrow> problem list" where
  "Validate e =
     flag (en_schemaVersion e \<noteq> 1) PSchema
     @ flag (bad_opt DecimalString (en_eventID e)) PEventID
     @ flag (bad_opt UUIDString (en_vmID e)) PVMID
     @ flag (bad_opt UUIDString (en_bootID e)) PBootID
     @ flag (en_vmID e = None \<and> en_bootID e \<noteq> None) PBootNeedsVM
     @ flag (\<not> UUIDString (en_source e)) PSource
     @ flag (\<not> DecimalString (en_seq e)) PSeq
     @ flag (length (en_kind e) < 3 \<or> 96 < length (en_kind e) \<or> \<not> kindPattern (en_kind e)) PKind
     @ flag (case en_provenance e of OtherProvenance _ \<Rightarrow> True | _ \<Rightarrow> False) PProvenance
     @ flag (length (en_sensor e) < 1 \<or> 64 < length (en_sensor e)) PSensor
     @ flag (en_receivedAt e = None) PReceivedAt
     @ flag (en_hostBootID e \<noteq> [] \<and> \<not> UUIDString (en_hostBootID e)) PHostBoot
     @ flag (en_hostMonotonicNS e \<noteq> [] \<and> \<not> DecimalString (en_hostMonotonicNS e)) PHostMonotonic
     @ flag (bad_opt DecimalString (en_guestMonotonicNS e)) PGuestMonotonic
     @ flag (bad_opt (\<lambda>k. 1 \<le> length k \<and> length k \<le> 256) (en_processKey e)) PProcessKey
     @ flag (bad_opt UUIDString (en_runID e)) PRunID
     @ flag (64 < length (en_related e)) PRelatedMany
     @ related_problems [] (en_related e)
     @ flag (case ql_path (en_quality e) of OtherPath _ \<Rightarrow> True | _ \<Rightarrow> False) PPath
     @ flag (case ql_attribution (en_quality e) of OtherAttribution _ \<Rightarrow> True | _ \<Rightarrow> False) PAttribution
     @ flag (16 < length (ql_notes (en_quality e))) PNotes
     @ flag (en_data e = None) PData"

section \<open>The table of kinds\<close>

record kind_info =
  ki_kind :: string
  ki_family :: string
  ki_schemaVersion :: int
  ki_provenance :: provenance

definition mk_kind :: "string \<Rightarrow> string \<Rightarrow> provenance \<Rightarrow> kind_info" where
  "mk_kind k f p = \<lparr>ki_kind = k, ki_family = f, ki_schemaVersion = 1, ki_provenance = p\<rparr>"

definition kind_registry :: "kind_info list" where
  "kind_registry =
     [mk_kind ''fs.modify'' ''fs'' GuestReported,
      mk_kind ''telemetry.loss'' ''telemetry'' HostObserved,
      mk_kind ''telemetry.integrity_failure'' ''telemetry'' HostObserved,
      mk_kind ''telemetry.unregistered_kind'' ''telemetry'' HostObserved,
      mk_kind ''attention.raised'' ''attention'' HostObserved,
      mk_kind ''attention.queue_overflow'' ''attention'' HostObserved,
      mk_kind ''annotation.created'' ''annotation'' HostObserved,
      mk_kind ''vm.created'' ''vm'' HostObserved,
      mk_kind ''vm.state_changed'' ''vm'' HostObserved,
      mk_kind ''vm.cleanup_failed'' ''vm'' HostObserved,
      mk_kind ''vm.reconcile_ambiguous'' ''vm'' HostObserved,
      mk_kind ''vm.deleted'' ''vm'' HostObserved,
      mk_kind ''operation.state_changed'' ''operation'' HostObserved,
      mk_kind ''run.created'' ''run'' HostObserved,
      mk_kind ''run.state_changed'' ''run'' HostObserved,
      mk_kind ''run.progress'' ''run'' GuestReported,
      mk_kind ''run.result_recorded'' ''run'' HostObserved,
      mk_kind ''run.submission_rejected'' ''run'' HostObserved,
      mk_kind ''auth.session_created'' ''auth'' HostObserved,
      mk_kind ''auth.session_ended'' ''auth'' HostObserved,
      mk_kind ''auth.login_failed'' ''auth'' HostObserved,
      mk_kind ''auth.token_created'' ''auth'' HostObserved,
      mk_kind ''auth.token_revoked'' ''auth'' HostObserved,
      mk_kind ''guest.channel_established'' ''guest'' HostObserved,
      mk_kind ''guest.channel_lost'' ''guest'' HostObserved,
      mk_kind ''guest.sensor_health'' ''guest'' GuestReported,
      mk_kind ''vm.vmm_exited'' ''vm'' HostObserved,
      mk_kind ''spool.recovery_gap'' ''spool'' HostObserved,
      mk_kind ''net.flow.observed'' ''net.flow'' HostObserved,
      mk_kind ''dns.query'' ''dns'' HostObserved,
      mk_kind ''policy.denial'' ''policy'' HostObserved,
      mk_kind ''terminal.session_opened'' ''terminal'' HostObserved,
      mk_kind ''terminal.session_closed'' ''terminal'' HostObserved,
      mk_kind ''terminal.output_dropped'' ''terminal'' HostObserved]"

definition LookupKind :: "string \<Rightarrow> kind_info option" where
  "LookupKind k = find (\<lambda>i. ki_kind i = k) kind_registry"

definition Kinds :: "kind_info list" where
  "Kinds = sort_key ki_kind kind_registry"

definition KindsByFamily :: "string \<Rightarrow> string list" where
  "KindsByFamily f = map ki_kind (filter (\<lambda>i. ki_family i = f) kind_registry)"

definition Families :: "string list" where
  "Families = sort (remdups (map ki_family kind_registry))"

section \<open>The table is well formed\<close>

definition kind_row_ok :: "kind_info \<Rightarrow> bool" where
  "kind_row_ok i \<longleftrightarrow> kindPattern (ki_kind i) \<and> 3 \<le> length (ki_kind i) \<and> length (ki_kind i) \<le> 96
     \<and> take (Suc (length (ki_family i))) (ki_kind i) = ki_family i @ ''.''
     \<and> (case ki_provenance i of OtherProvenance _ \<Rightarrow> False | _ \<Rightarrow> True)"

lemma kind_registry_distinct: "distinct (map ki_kind kind_registry)"
  by code_simp

lemma kind_registry_rows: "list_all kind_row_ok kind_registry"
  by code_simp

lemma find_distinct:
  "distinct (map f xs) \<Longrightarrow> find (\<lambda>x. f x = k) xs = Some x \<longleftrightarrow> x \<in> set xs \<and> f x = k"
  by (induction xs) auto

lemma LookupKind_iff: "LookupKind k = Some i \<longleftrightarrow> i \<in> set kind_registry \<and> ki_kind i = k"
  unfolding LookupKind_def by (rule find_distinct [OF kind_registry_distinct])


end
