(* ===== verification/Event_Store.thy ===== *)
theory Event_Store
  imports Event_Model
begin

text \<open>
  Trusted ingress and the event log (\<open>src/internal/store/append.go\<close>, \<open>query.go\<close>). The SQLite tables are lists of
  rows in insertion order: \<open>events\<close> with its AUTOINCREMENT cursor and \<open>streams\<close>. A payload is the envelope it
  encodes, and its SHA-256 digest is the argument \<open>digest\<close>; what is shown holds for any digest function,
  except where equal digests are said to mean equal payloads. A transaction that fails leaves the
  tables as they were; the counter that numbers the store's own events is not part of them.
\<close>

section \<open>The log\<close>

record event_row =
  er_id :: nat
  er_env :: envelope
  er_hash :: string

record event_store =
  es_events :: "event_row list"
  es_streams :: "(string \<times> string option) list"
  es_nextId :: nat
  es_instance :: string
  es_systemSeq :: nat

datatype append_error = ErrEventIDPreset | ErrInvalid "problem list" | ErrUnregisteredKind
  | ErrProvenanceMismatch | ErrIntegrityFailure nat | ErrStreamScopeMismatch

record append_result =
  ap_eventID :: nat
  ap_deduped :: bool

definition OpenStore :: "string \<Rightarrow> event_store" where
  "OpenStore uuid = \<lparr>es_events = [], es_streams = [], es_nextId = 1, es_instance = uuid, es_systemSeq = 0\<rparr>"

definition sameScope :: "string option \<Rightarrow> string option \<Rightarrow> bool" where
  "sameScope bound vm = (case bound of None \<Rightarrow> vm = None | Some b \<Rightarrow> vm = Some b)"

definition find_event :: "event_store \<Rightarrow> string \<Rightarrow> string \<Rightarrow> event_row option" where
  "find_event s src seq = find (\<lambda>r. en_source (er_env r) = src \<and> en_seq (er_env r) = seq) (es_events s)"

definition appendInTx ::
  "(envelope \<Rightarrow> string) \<Rightarrow> event_store \<Rightarrow> envelope \<Rightarrow> event_store \<times> (append_error + append_result)" where
  "appendInTx digest s env =
     (let known = map_of (es_streams s) (en_source env) in
      if (case known of None \<Rightarrow> False | Some bound \<Rightarrow> \<not> sameScope bound (en_vmID env))
      then (s, Inl ErrStreamScopeMismatch)
      else case find_event s (en_source env) (en_seq env) of
             Some r \<Rightarrow>
               if er_hash r = digest env then (s, Inr \<lparr>ap_eventID = er_id r, ap_deduped = True\<rparr>)
               else (s, Inl (ErrIntegrityFailure (er_id r)))
           | None \<Rightarrow>
               (s\<lparr>es_streams := (if known = None then es_streams s @ [(en_source env, en_vmID env)] else es_streams s),
                  es_events := es_events s @ [\<lparr>er_id = es_nextId s, er_env = env, er_hash = digest env\<rparr>],
                  es_nextId := Suc (es_nextId s)\<rparr>,
                Inr \<lparr>ap_eventID = es_nextId s, ap_deduped = False\<rparr>))"

definition notApplicableQuality :: quality where
  "notApplicableQuality = \<lparr>ql_path = PathNotApplicable, ql_attribution = AttributionNotApplicable,
     ql_truncated = False, ql_redacted = False, ql_policy = [], ql_notes = []\<rparr>"

definition systemEnvelope ::
  "event_store \<Rightarrow> int \<Rightarrow> string \<Rightarrow> string \<Rightarrow> quality \<Rightarrow> (string \<times> jval) list \<Rightarrow> event_store \<times> envelope" where
  "systemEnvelope s now kind sensor q data =
     (let n = Suc (es_systemSeq s) in
      (s\<lparr>es_systemSeq := n\<rparr>,
       \<lparr>en_schemaVersion = 1, en_eventID = None, en_vmID = None, en_bootID = None, en_source = es_instance s,
        en_seq = format_uint n, en_kind = kind, en_provenance = HostObserved, en_sensor = sensor,
        en_receivedAt = Some now, en_hostBootID = [], en_hostMonotonicNS = [], en_guestWallAt = None,
        en_guestMonotonicNS = None, en_processKey = None, en_runID = None, en_related = [],
        en_quality = q, en_data = Some data\<rparr>))"

definition appendSystemInTx ::
  "(envelope \<Rightarrow> string) \<Rightarrow> event_store \<Rightarrow> envelope \<Rightarrow> event_store \<times> (append_error + nat)" where
  "appendSystemInTx digest s env =
     (if Validate env \<noteq> [] then (s, Inl (ErrInvalid (Validate env)))
      else case appendInTx digest s env of
             (s', Inl e) \<Rightarrow> (s', Inl e)
           | (s', Inr r) \<Rightarrow> (s', Inr (ap_eventID r)))"

text \<open>\<open>append\<close> without health events, as the health events themselves are appended.\<close>

definition append_plain ::
  "(envelope \<Rightarrow> string) \<Rightarrow> event_store \<Rightarrow> envelope \<Rightarrow> event_store \<times> (append_error + append_result)" where
  "append_plain digest s env =
     (if en_eventID env \<noteq> None then (s, Inl ErrEventIDPreset)
      else if Validate env \<noteq> [] then (s, Inl (ErrInvalid (Validate env)))
      else case LookupKind (en_kind env) of
             None \<Rightarrow> (s, Inl ErrUnregisteredKind)
           | Some info \<Rightarrow>
               if en_provenance env \<noteq> ki_provenance info then (s, Inl ErrProvenanceMismatch)
               else appendInTx digest s env)"

definition withHealth ::
  "(envelope \<Rightarrow> string) \<Rightarrow> int \<Rightarrow> event_store \<Rightarrow> string \<Rightarrow> (string \<times> jval) list \<Rightarrow> event_store" where
  "withHealth digest now s kind data =
     (let (s1, env) = systemEnvelope s now kind ''store'' notApplicableQuality data
      in fst (append_plain digest s1 env))"

definition Append ::
  "(envelope \<Rightarrow> string) \<Rightarrow> int \<Rightarrow> event_store \<Rightarrow> envelope \<Rightarrow> event_store \<times> (append_error + append_result)" where
  "Append digest now s env =
     (case append_plain digest s env of
        (s', Inl ErrUnregisteredKind) \<Rightarrow>
          (withHealth digest now s' ''telemetry.unregistered_kind''
             [(''kind'', JStr (en_kind env)), (''source_instance_id'', JStr (en_source env)), (''source_seq'', JStr (en_seq env))],
           Inl ErrUnregisteredKind)
      | (s', Inl (ErrIntegrityFailure i)) \<Rightarrow>
          (withHealth digest now s' ''telemetry.integrity_failure''
             [(''failure'', JStr ''seq_payload_conflict''), (''source_instance_id'', JStr (en_source env)),
              (''source_seq'', JStr (en_seq env)), (''existing_event_id'', JStr (format_uint i))],
           Inl (ErrIntegrityFailure i))
      | (s', Inl ErrStreamScopeMismatch) \<Rightarrow>
          (withHealth digest now s' ''telemetry.integrity_failure''
             [(''failure'', JStr ''stream_scope_rebind''), (''source_instance_id'', JStr (en_source env)),
              (''source_seq'', JStr (en_seq env))],
           Inl ErrStreamScopeMismatch)
      | (s', r) \<Rightarrow> (s', r))"

section \<open>Queries\<close>

definition DefaultPageLimit :: int where "DefaultPageLimit = 200"
definition MaxPageLimit :: int where "MaxPageLimit = 1000"

record query =
  qr_vmID :: "string option"
  qr_kind :: string
  qr_family :: string
  qr_after :: string
  qr_until :: string
  qr_limit :: int
  qr_tail :: bool

datatype query_error = ErrInvalidCursor | ErrUnknownFamily | ErrConflictingFilters | BoundError int

record query_result =
  qs_events :: "envelope list"
  qs_nextAfter :: string
  qs_latest :: string

text \<open>A decimal cursor within 63 bits, as \<open>strconv.ParseInt\<close> reads a string without a sign.\<close>

definition parse_cursor :: "string \<Rightarrow> nat option" where
  "parse_cursor s =
     (if DecimalString s then
        (case parse_uint64 s of None \<Rightarrow> None | Some n \<Rightarrow> if n < 2 ^ 63 then Some n else None)
      else None)"

definition data_vm :: "envelope \<Rightarrow> string option" where
  "data_vm e = (case en_data e of None \<Rightarrow> None
     | Some d \<Rightarrow> (case map_of d ''vm_id'' of Some (JStr v) \<Rightarrow> Some v | _ \<Rightarrow> None))"

definition row_matches :: "nat \<Rightarrow> nat option \<Rightarrow> query \<Rightarrow> event_row \<Rightarrow> bool" where
  "row_matches after until q r \<longleftrightarrow>
     after < er_id r \<and> (case until of None \<Rightarrow> True | Some u \<Rightarrow> er_id r \<le> u)
     \<and> (case qr_vmID q of None \<Rightarrow> True
        | Some v \<Rightarrow> en_vmID (er_env r) = Some v \<or> data_vm (er_env r) = Some v)
     \<and> (qr_kind q \<noteq> [] \<longrightarrow> en_kind (er_env r) = qr_kind q)
     \<and> (qr_family q \<noteq> [] \<longrightarrow> en_kind (er_env r) \<in> set (KindsByFamily (qr_family q)))"

definition with_cursor :: "event_row \<Rightarrow> envelope" where
  "with_cursor r = (er_env r)\<lparr>en_eventID := Some (format_uint (er_id r))\<rparr>"

definition Store_Query :: "event_store \<Rightarrow> query \<Rightarrow> query_error + query_result" where
  "Store_Query s q =
     (if qr_kind q \<noteq> [] \<and> qr_family q \<noteq> [] then Inl ErrConflictingFilters
      else let limit = (if qr_limit q = 0 then DefaultPageLimit else qr_limit q) in
      if limit < 1 \<or> MaxPageLimit < limit then Inl (BoundError (qr_limit q))
      else case (if qr_after q = [] then Some 0 else parse_cursor (qr_after q)) of
        None \<Rightarrow> Inl ErrInvalidCursor
      | Some after \<Rightarrow>
      case (if qr_until q = [] then Some None else map_option Some (parse_cursor (qr_until q))) of
        None \<Rightarrow> Inl ErrInvalidCursor
      | Some until \<Rightarrow>
      if qr_family q \<noteq> [] \<and> KindsByFamily (qr_family q) = [] then Inl ErrUnknownFamily
      else let rows = sort_key er_id (filter (row_matches after until q) (es_events s));
               page = (if qr_tail q then rev (take (nat limit) (rev rows)) else take (nat limit) rows);
               latest = foldr max (map er_id (es_events s)) 0
           in Inr \<lparr>qs_events = map with_cursor page,
                   qs_nextAfter = (if page = [] then qr_after q else format_uint (er_id (last page))),
                   qs_latest = (if 0 < latest then format_uint latest else [])\<rparr>)"

definition LatestForBoot :: "event_store \<Rightarrow> string \<Rightarrow> string \<Rightarrow> string \<Rightarrow> envelope option" where
  "LatestForBoot s vmID bootID kind =
     (case rev (sort_key er_id (filter (\<lambda>r. en_vmID (er_env r) = Some vmID \<and> en_bootID (er_env r) = Some bootID
              \<and> en_kind (er_env r) = kind) (es_events s))) of
        [] \<Rightarrow> None
      | r # _ \<Rightarrow> Some (with_cursor r))"

section \<open>The log's invariant\<close>

definition row_ok :: "(envelope \<Rightarrow> string) \<Rightarrow> event_row \<Rightarrow> bool" where
  "row_ok digest r \<longleftrightarrow> Validate (er_env r) = [] \<and> en_eventID (er_env r) = None \<and> er_hash r = digest (er_env r)"

definition row_key :: "event_row \<Rightarrow> string \<times> string" where
  "row_key r = (en_source (er_env r), en_seq (er_env r))"

definition store_inv :: "(envelope \<Rightarrow> string) \<Rightarrow> event_store \<Rightarrow> bool" where
  "store_inv digest s \<longleftrightarrow>
     sorted_wrt (<) (map er_id (es_events s)) \<and> (\<forall>r \<in> set (es_events s). 0 < er_id r \<and> er_id r < es_nextId s)
     \<and> 0 < es_nextId s
     \<and> distinct (map row_key (es_events s)) \<and> list_all (row_ok digest) (es_events s)
     \<and> (\<forall>r \<in> set (es_events s). map_of (es_streams s) (en_source (er_env r)) = Some (en_vmID (er_env r)))
     \<and> UUIDString (es_instance s)
     \<and> map_of (es_streams s) (es_instance s) \<in> {None, Some None}
     \<and> (\<forall>r \<in> set (es_events s). en_source (er_env r) = es_instance s \<longrightarrow>
          (\<exists>n \<le> es_systemSeq s. en_seq (er_env r) = format_uint n))"

lemma OpenStore_inv [inv_intros]: "UUIDString uuid \<Longrightarrow> store_inv digest (OpenStore uuid)"
  by (simp add: store_inv_def OpenStore_def)

lemma find_event_None: "find_event s src seq = None \<longleftrightarrow> (\<forall>r \<in> set (es_events s). row_key r \<noteq> (src, seq))"
  by (auto simp: find_event_def find_None_iff row_key_def)

lemma find_event_Some:
  "find_event s src seq = Some r \<Longrightarrow> r \<in> set (es_events s) \<and> row_key r = (src, seq)"
  by (auto simp: find_event_def find_Some_iff row_key_def)

lemma sameScope_eq: "sameScope b v \<longleftrightarrow> b = v"
  by (auto simp: sameScope_def split: option.splits)

text \<open>The four outcomes of the bind, dedup and insert protocol.\<close>

lemma appendInTx_cases:
  obtains (inserted) "find_event s (en_source env) (en_seq env) = None"
      "\<forall>bound. map_of (es_streams s) (en_source env) = Some bound \<longrightarrow> bound = en_vmID env"
      "appendInTx digest s env =
         (s\<lparr>es_streams := (if map_of (es_streams s) (en_source env) = None then es_streams s @ [(en_source env, en_vmID env)]
                            else es_streams s),
            es_events := es_events s @ [\<lparr>er_id = es_nextId s, er_env = env, er_hash = digest env\<rparr>],
            es_nextId := Suc (es_nextId s)\<rparr>, Inr \<lparr>ap_eventID = es_nextId s, ap_deduped = False\<rparr>)"
    | (deduped) r where "r \<in> set (es_events s)" "row_key r = (en_source env, en_seq env)" "er_hash r = digest env"
      "appendInTx digest s env = (s, Inr \<lparr>ap_eventID = er_id r, ap_deduped = True\<rparr>)"
    | (conflict) r where "r \<in> set (es_events s)" "row_key r = (en_source env, en_seq env)" "er_hash r \<noteq> digest env"
      "appendInTx digest s env = (s, Inl (ErrIntegrityFailure (er_id r)))"
    | (rebind) bound where "map_of (es_streams s) (en_source env) = Some bound" "bound \<noteq> en_vmID env"
      "appendInTx digest s env = (s, Inl ErrStreamScopeMismatch)"
proof (cases "\<exists>bound. map_of (es_streams s) (en_source env) = Some bound \<and> bound \<noteq> en_vmID env")
  case True
  then obtain b where b: "map_of (es_streams s) (en_source env) = Some b" "b \<noteq> en_vmID env" by blast
  show thesis
    by (rule rebind [OF b]) (use b in \<open>simp add: appendInTx_def sameScope_eq Let_def\<close>)
next
  case False
  then have same: "\<not> (case map_of (es_streams s) (en_source env) of None \<Rightarrow> False | Some bound \<Rightarrow> \<not> sameScope bound (en_vmID env))"
    by (auto simp: sameScope_eq split: option.splits)
  show thesis
  proof (cases "find_event s (en_source env) (en_seq env)")
    case None
    show thesis by (rule inserted) (use None False same in \<open>auto simp: appendInTx_def Let_def\<close>)
  next
    case (Some r)
    then show thesis
      using find_event_Some [OF Some] same deduped [of r] conflict [of r]
      by (cases "er_hash r = digest env") (auto simp: appendInTx_def Let_def)
  qed
qed

lemma map_of_snoc_other: "map_of xs k = None \<Longrightarrow> map_of (xs @ [(k, v)]) = (map_of xs)(k \<mapsto> v)"
  by (induction xs) (auto simp: fun_eq_iff)

lemma appendInTx_inv [inv_intros]:
  assumes inv: "store_inv digest s" and ok: "Validate env = []" "en_eventID env = None"
    and sys: "en_source env = es_instance s \<Longrightarrow> en_vmID env = None \<and> (\<exists>n \<le> es_systemSeq s. en_seq env = format_uint n)"
  shows "store_inv digest (fst (appendInTx digest s env))"
proof (cases rule: appendInTx_cases [of s env digest])
  case inserted
  have key: "\<forall>r \<in> set (es_events s). row_key r \<noteq> (en_source env, en_seq env)"
    using inserted(1) by (simp add: find_event_None)
  have streams: "\<forall>r \<in> set (es_events s). map_of (es_streams s) (en_source (er_env r)) = Some (en_vmID (er_env r))"
    using inv by (simp add: store_inv_def)
  show ?thesis
  proof (cases "map_of (es_streams s) (en_source env)")
    case None
    then have "\<forall>r \<in> set (es_events s). en_source (er_env r) \<noteq> en_source env" using streams by fastforce
    then show ?thesis
      using inv ok key sys None unfolding inserted(3) store_inv_def
      by (auto simp: map_of_snoc_other sorted_wrt_append row_ok_def row_key_def simp del: map_of_append)
  next
    case (Some b)
    then show ?thesis
      using inv ok key sys inserted(2) unfolding inserted(3) store_inv_def
      by (auto simp: sorted_wrt_append row_ok_def row_key_def)
  qed
qed (use inv in simp_all)

lemma DecimalString_format_uint [simp]: "DecimalString (format_uint n)"
proof -
  have d: "is_digit (digit_char k)" if "k < 10" for k
  proof -
    have "k \<in> {0, 1, 2, 3, 4, 5, 6, 7, 8, 9}" using that by auto
    then show ?thesis by (auto simp: is_digit_def digit_char_def less_eq_char_def)
  qed
  have z: "digit_char k = CHR ''0'' \<longleftrightarrow> k = 0" if "k < 10" for k
  proof -
    have "of_char (digit_char k) = (48 + k :: nat)" using that by (simp add: digit_char_def of_char_of)
    moreover have "of_char (CHR ''0'') = (48 :: nat)" by simp
    moreover have "digit_char k = CHR ''0'' \<longleftrightarrow> of_char (digit_char k) = (of_char (CHR ''0'') :: nat)"
      by (simp only: of_char_eq_iff)
    ultimately show ?thesis by simp
  qed
  have "list_all is_digit (format_uint n) \<and> (n \<noteq> 0 \<longrightarrow> hd (format_uint n) \<noteq> CHR ''0'')"
  proof (induction n rule: format_uint.induct)
    case (1 n)
    show ?case
    proof (cases "n < 10")
      case True
      then show ?thesis by (simp add: format_uint.simps [of n] d z)
    next
      case False
      then have "n div 10 \<noteq> 0" by auto
      with 1 False show ?thesis by (simp add: format_uint.simps [of n] d)
    qed
  qed
  moreover have "format_uint 0 = ''0''" by (simp add: format_uint.simps [of 0] z)
  ultimately show ?thesis by (cases "n = 0") (auto simp: DecimalString_def)
qed

text \<open>The store's own events: kinds, sensors and qualities the code uses.\<close>

definition system_ok :: "string \<Rightarrow> string \<Rightarrow> quality \<Rightarrow> bool" where
  "system_ok kind sensor q \<longleftrightarrow>
     (case LookupKind kind of None \<Rightarrow> False | Some i \<Rightarrow> ki_provenance i = HostObserved)
     \<and> 1 \<le> length sensor \<and> length sensor \<le> 64
     \<and> (case ql_path q of OtherPath _ \<Rightarrow> False | _ \<Rightarrow> True)
     \<and> (case ql_attribution q of OtherAttribution _ \<Rightarrow> False | _ \<Rightarrow> True) \<and> length (ql_notes q) \<le> 16"

lemma system_kinds_ok:
  "list_all (\<lambda>k. system_ok k ''registry'' notApplicableQuality \<and> system_ok k ''store'' notApplicableQuality)
     [''vm.created'', ''vm.state_changed'', ''vm.deleted'', ''operation.state_changed'', ''run.created'',
      ''run.state_changed'', ''run.result_recorded'', ''run.submission_rejected'', ''vm.cleanup_failed'',
      ''telemetry.integrity_failure'', ''telemetry.unregistered_kind'']"
  by code_simp

lemma systemEnvelope_valid:
  assumes "store_inv digest s" "system_ok kind sensor q"
  shows "Validate (snd (systemEnvelope s now kind sensor q data)) = []"
proof -
  obtain i where i: "i \<in> set kind_registry" "ki_kind i = kind"
    using assms(2) LookupKind_iff by (fastforce simp: system_ok_def split: option.splits)
  then have "kind_row_ok i" using kind_registry_rows by (simp add: list_all_iff)
  with i have "kindPattern kind" "3 \<le> length kind" "length kind \<le> 96" by (auto simp: kind_row_ok_def)
  then show ?thesis
    using assms unfolding store_inv_def system_ok_def
    by (auto simp: Validate_def systemEnvelope_def Let_def flag_def bad_opt_def
        split: path_resolution.splits attribution.splits)
qed

text \<open>
  A system event is always inserted: its number is fresh and the store's stream has host-wide scope.
\<close>

lemma system_append:
  fixes now :: int and data :: "(string \<times> jval) list"
  assumes inv: "store_inv digest s" and ok: "system_ok kind sensor q"
  defines "p \<equiv> systemEnvelope s now kind sensor q data"
  shows "find_event (fst p) (en_source (snd p)) (en_seq (snd p)) = None"
    and "store_inv digest (fst p)"
    and "snd (appendInTx digest (fst p) (snd p)) = Inr \<lparr>ap_eventID = es_nextId s, ap_deduped = False\<rparr>
      \<and> es_events (fst (appendInTx digest (fst p) (snd p))) =
          es_events s @ [\<lparr>er_id = es_nextId s, er_env = snd p, er_hash = digest (snd p)\<rparr>]
      \<and> es_nextId (fst (appendInTx digest (fst p) (snd p))) = Suc (es_nextId s)
      \<and> es_instance (fst (appendInTx digest (fst p) (snd p))) = es_instance s"
    and "store_inv digest (fst (appendInTx digest (fst p) (snd p)))"
proof -
  let ?n = "Suc (es_systemSeq s)"
  have fields: "en_source (snd p) = es_instance s" "en_seq (snd p) = format_uint ?n" "en_vmID (snd p) = None"
      "en_eventID (snd p) = None" "fst p = s\<lparr>es_systemSeq := ?n\<rparr>"
    by (simp_all add: p_def systemEnvelope_def Let_def)
  show fresh: "find_event (fst p) (en_source (snd p)) (en_seq (snd p)) = None"
    using inv unfolding find_event_None fields store_inv_def
    by (fastforce simp: row_key_def format_uint_inject)
  show inv1: "store_inv digest (fst p)"
  proof -
    have "\<forall>r \<in> set (es_events s). en_source (er_env r) = es_instance s \<longrightarrow>
        (\<exists>n \<le> ?n. en_seq (er_env r) = format_uint n)"
      using inv unfolding store_inv_def by (meson le_SucI)
    then show ?thesis unfolding fields(5) using inv unfolding store_inv_def by simp
  qed
  have "map_of (es_streams s) (es_instance s) \<in> {None, Some None}" using inv by (simp add: store_inv_def)
  then show "snd (appendInTx digest (fst p) (snd p)) = Inr \<lparr>ap_eventID = es_nextId s, ap_deduped = False\<rparr>
      \<and> es_events (fst (appendInTx digest (fst p) (snd p))) =
          es_events s @ [\<lparr>er_id = es_nextId s, er_env = snd p, er_hash = digest (snd p)\<rparr>]
      \<and> es_nextId (fst (appendInTx digest (fst p) (snd p))) = Suc (es_nextId s)
      \<and> es_instance (fst (appendInTx digest (fst p) (snd p))) = es_instance s"
    using fresh by (cases rule: appendInTx_cases [of "fst p" "snd p" digest])
      (auto simp: fields find_event_None)
  show "store_inv digest (fst (appendInTx digest (fst p) (snd p)))"
    by (rule appendInTx_inv [OF inv1])
      (use systemEnvelope_valid [OF inv ok, of now data] fields in \<open>auto simp: p_def\<close>)
qed

section \<open>Ingress\<close>

text \<open>What a producer may append: a valid envelope of a registered kind with that kind's provenance.\<close>

definition admissible :: "envelope \<Rightarrow> bool" where
  "admissible env \<longleftrightarrow> en_eventID env = None \<and> Validate env = []
     \<and> (case LookupKind (en_kind env) of None \<Rightarrow> False | Some i \<Rightarrow> en_provenance env = ki_provenance i)"

lemma append_plain_admissible: "admissible env \<Longrightarrow> append_plain digest s env = appendInTx digest s env"
  by (auto simp: admissible_def append_plain_def split: option.splits)

lemma append_plain_refused:
  "\<not> admissible env \<Longrightarrow> \<exists>e. append_plain digest s env = (s, Inl e)
     \<and> e \<in> {ErrEventIDPreset, ErrInvalid (Validate env), ErrUnregisteredKind, ErrProvenanceMismatch}"
  by (auto simp: admissible_def append_plain_def split: option.splits)

lemma system_ok_health: "system_ok ''telemetry.unregistered_kind'' ''store'' notApplicableQuality"
    "system_ok ''telemetry.integrity_failure'' ''store'' notApplicableQuality"
  using system_kinds_ok by simp_all

text \<open>Recording a health event adds one row, of that kind, on the store's own stream.\<close>

lemma withHealth_row:
  assumes inv: "store_inv digest s" and ok: "system_ok kind ''store'' notApplicableQuality"
  shows "\<exists>r. es_events (withHealth digest now s kind data) = es_events s @ [r]
      \<and> en_kind (er_env r) = kind \<and> en_source (er_env r) = es_instance s \<and> en_data (er_env r) = Some data"
    and "store_inv digest (withHealth digest now s kind data)"
    and "es_instance (withHealth digest now s kind data) = es_instance s"
proof -
  let ?p = "systemEnvelope s now kind ''store'' notApplicableQuality data"
  have env: "en_kind (snd ?p) = kind" "en_source (snd ?p) = es_instance s" "en_data (snd ?p) = Some data"
      "en_eventID (snd ?p) = None" "en_provenance (snd ?p) = HostObserved"
    by (simp_all add: systemEnvelope_def Let_def)
  have "admissible (snd ?p)"
    using systemEnvelope_valid [OF inv ok, of now data] ok env
    by (auto simp: admissible_def system_ok_def split: option.splits)
  then have eq: "withHealth digest now s kind data = fst (appendInTx digest (fst ?p) (snd ?p))"
    by (simp add: withHealth_def case_prod_beta append_plain_admissible)
  note sys = system_append [OF inv ok, of now data]
  show "\<exists>r. es_events (withHealth digest now s kind data) = es_events s @ [r]
      \<and> en_kind (er_env r) = kind \<and> en_source (er_env r) = es_instance s \<and> en_data (er_env r) = Some data"
    unfolding eq using sys(3) env by (intro exI) auto
  show "store_inv digest (withHealth digest now s kind data)"
    unfolding eq by (rule sys(4))
  show "es_instance (withHealth digest now s kind data) = es_instance s"
    unfolding eq using sys(3) by simp
qed

definition evidence_kind :: "append_error \<Rightarrow> string option" where
  "evidence_kind e = (case e of
      ErrUnregisteredKind \<Rightarrow> Some ''telemetry.unregistered_kind''
    | ErrIntegrityFailure _ \<Rightarrow> Some ''telemetry.integrity_failure''
    | ErrStreamScopeMismatch \<Rightarrow> Some ''telemetry.integrity_failure''
    | _ \<Rightarrow> None)"

lemma Append_plain_ok: "append_plain digest s env = (s', Inr r) \<Longrightarrow> Append digest now s env = (s', Inr r)"
  by (simp add: Append_def)

lemma Append_plain_err:
  assumes "append_plain digest s env = (s', Inl e)"
  shows "snd (Append digest now s env) = Inl e"
    and "case evidence_kind e of None \<Rightarrow> fst (Append digest now s env) = s'
         | Some k \<Rightarrow> \<exists>data. fst (Append digest now s env) = withHealth digest now s' k data"
  using assms by (cases e; auto simp: Append_def evidence_kind_def)+

lemma append_plain_inv:
  assumes "store_inv digest s" "en_source env \<noteq> es_instance s"
  shows "store_inv digest (fst (append_plain digest s env))"
    and "es_instance (fst (append_plain digest s env)) = es_instance s"
proof -
  have "store_inv digest (fst (append_plain digest s env)) \<and> es_instance (fst (append_plain digest s env)) = es_instance s"
  proof (cases "admissible env")
    case True
    then have "store_inv digest (fst (appendInTx digest s env))"
      using assms by (intro appendInTx_inv) (auto simp: admissible_def)
    moreover have "es_instance (fst (appendInTx digest s env)) = es_instance s"
      by (cases rule: appendInTx_cases [of s env digest]) auto
    ultimately show ?thesis using True by (simp add: append_plain_admissible)
  next
    case False
    then show ?thesis using append_plain_refused [OF False, of digest s] assms by auto
  qed
  then show "store_inv digest (fst (append_plain digest s env))"
    and "es_instance (fst (append_plain digest s env)) = es_instance s" by auto
qed

lemma Append_inv [inv_intros]:
  assumes "store_inv digest s" "en_source env \<noteq> es_instance s"
  shows "store_inv digest (fst (Append digest now s env))" and "es_instance (fst (Append digest now s env)) = es_instance s"
proof -
  obtain s' r where p: "append_plain digest s env = (s', r)" by force
  have s': "store_inv digest s'" "es_instance s' = es_instance s" using append_plain_inv [OF assms] p by auto
  have "store_inv digest (fst (Append digest now s env)) \<and> es_instance (fst (Append digest now s env)) = es_instance s"
  proof (cases r)
    case (Inl e)
    note err = Append_plain_err [OF p [unfolded Inl], of now]
    show ?thesis
    proof (cases "evidence_kind e")
      case (Some k)
      have "system_ok k ''store'' notApplicableQuality"
        using Some system_ok_health by (auto simp: evidence_kind_def split: append_error.splits)
      with withHealth_row(2,3) [OF s'(1) this] err(2) Some s' show ?thesis by auto
    qed (use err s' in auto)
  qed (use Append_plain_ok [of digest s env] p s' in auto)
  then show "store_inv digest (fst (Append digest now s env))" and "es_instance (fst (Append digest now s env)) = es_instance s"
    by auto
qed

section \<open>Properties of ingress\<close>

text \<open>
  C19: The log is append-only evidence. For any producer other than the store itself, appending an envelope to a
  consistent log keeps every stored event as it was and the log consistent (cursors increase, one
  event per source and number, one scope per source, every event valid). An accepted new event is
  the one row added, under a fresh cursor; a resend is answered with the cursor of the stored event
  and changes nothing; an unregistered kind, a conflicting resend or a scope change adds exactly one
  health event about it, and any other refusal adds nothing.
\<close>

theorem ingress_log:
  assumes inv: "store_inv digest s" and src: "en_source env \<noteq> es_instance s"
  shows "case Append digest now s env of
      (s', Inr a) \<Rightarrow> admissible env \<and>
         (if ap_deduped a
          then s' = s \<and> (\<exists>r \<in> set (es_events s). er_id r = ap_eventID a \<and> row_key r = (en_source env, en_seq env)
                 \<and> digest (er_env r) = digest env)
          else es_events s' = es_events s @ [\<lparr>er_id = ap_eventID a, er_env = env, er_hash = digest env\<rparr>]
               \<and> (\<forall>r \<in> set (es_events s). er_id r < ap_eventID a)) \<and> store_inv digest s'
    | (s', Inl e) \<Rightarrow> store_inv digest s' \<and>
         (case evidence_kind e of
            None \<Rightarrow> s' = s
          | Some k \<Rightarrow> \<exists>r. es_events s' = es_events s @ [r] \<and> en_kind (er_env r) = k \<and> en_source (er_env r) = es_instance s)"
proof -
  obtain s1 res where p: "append_plain digest s env = (s1, res)" by force
  note Ainv = Append_inv(1) [OF assms, of now]
  show ?thesis
  proof (cases res)
    case (Inr a)
    then have adm: "admissible env" using p append_plain_refused [of env digest s] by force
    then have tx: "appendInTx digest s env = (s1, Inr a)" using p Inr by (simp add: append_plain_admissible)
    have A: "Append digest now s env = (s1, Inr a)" using Append_plain_ok p Inr by simp
    have hash: "\<forall>r \<in> set (es_events s). er_hash r = digest (er_env r)" "\<forall>r \<in> set (es_events s). er_id r < es_nextId s"
      using inv by (auto simp: store_inv_def list_all_iff row_ok_def)
    have "if ap_deduped a
          then s1 = s \<and> (\<exists>r \<in> set (es_events s). er_id r = ap_eventID a \<and> row_key r = (en_source env, en_seq env)
                 \<and> digest (er_env r) = digest env)
          else es_events s1 = es_events s @ [\<lparr>er_id = ap_eventID a, er_env = env, er_hash = digest env\<rparr>]
               \<and> (\<forall>r \<in> set (es_events s). er_id r < ap_eventID a)"
      using tx hash by (cases rule: appendInTx_cases [of s env digest]) auto
    then show ?thesis using A adm Ainv by simp
  next
    case (Inl e)
    have s1: "s1 = s"
    proof (cases "admissible env")
      case True
      then have "appendInTx digest s env = (s1, Inl e)" using p Inl by (simp add: append_plain_admissible)
      then show ?thesis by (cases rule: appendInTx_cases [of s env digest]) auto
    next
      case False
      then show ?thesis using append_plain_refused [OF False, of digest s] p by auto
    qed
    note err = Append_plain_err [OF p [unfolded Inl s1], of now]
    obtain s' where A: "Append digest now s env = (s', Inl e)" using err(1) by (cases "Append digest now s env") auto
    have "\<exists>r. es_events s' = es_events s @ [r] \<and> en_kind (er_env r) = k \<and> en_source (er_env r) = es_instance s"
      if k: "evidence_kind e = Some k" for k
    proof -
      have "system_ok k ''store'' notApplicableQuality"
        using k system_ok_health by (auto simp: evidence_kind_def split: append_error.splits)
      moreover obtain data where "s' = withHealth digest now s k data" using err(2) k A by auto
      ultimately show ?thesis using withHealth_row(1) [OF inv, of k now data] by auto
    qed
    then show ?thesis using A Ainv err(2) by (auto split: option.splits)
  qed
qed

text \<open>A well-formed envelope for concrete runs: an agent's report, by sequence number.\<close>

definition demo_uuid :: string where "demo_uuid = ''00000000-0000-0000-0000-0000000000aa''"
definition demo_agent :: string where "demo_agent = ''00000000-0000-0000-0000-0000000000bb''"

definition demo_env :: "nat \<Rightarrow> string \<Rightarrow> envelope" where
  "demo_env n p =
     \<lparr>en_schemaVersion = 1, en_eventID = None, en_vmID = Some demo_agent, en_bootID = None, en_source = demo_agent,
      en_seq = format_uint n, en_kind = ''guest.sensor_health'', en_provenance = GuestReported, en_sensor = ''agent'',
      en_receivedAt = Some 0, en_hostBootID = [], en_hostMonotonicNS = [], en_guestWallAt = None,
      en_guestMonotonicNS = None, en_processKey = None, en_runID = None, en_related = [],
      en_quality = notApplicableQuality, en_data = Some [(''p'', JStr p)]\<rparr>"

definition demo_digest :: "envelope \<Rightarrow> string" where
  "demo_digest e = en_seq e @ ''/'' @ (case en_data e of Some [(k, JStr v)] \<Rightarrow> v | _ \<Rightarrow> [])"

lemma demo_admissible: "admissible (demo_env 1 p)" "admissible (demo_env 2 p)"
proof -
  have f: "format_uint 1 = ''1''" "format_uint 2 = ''2''" by code_simp+
  have u: "UUIDString demo_agent" "kindPattern ''guest.sensor_health''"
    "LookupKind ''guest.sensor_health'' = Some (mk_kind ''guest.sensor_health'' ''guest'' GuestReported)" by code_simp+
  then show "admissible (demo_env 1 p)" "admissible (demo_env 2 p)"
    by (simp_all add: admissible_def demo_env_def Validate_def flag_def bad_opt_def notApplicableQuality_def mk_kind_def)
qed

lemma demo_uuid_ok: "UUIDString demo_uuid" "demo_agent \<noteq> demo_uuid"
  by code_simp+

theorem ingress_log_witness:
  "ap_deduped (projr (snd (Append demo_digest 5 (fst (Append demo_digest 4 (OpenStore demo_uuid) (demo_env 1 ''x''))) (demo_env 1 ''x''))))
   \<and> store_inv demo_digest (fst (Append demo_digest 4 (OpenStore demo_uuid) (demo_env 1 ''x'')))"
proof -
  have "snd (Append demo_digest 5 (fst (Append demo_digest 4 (OpenStore demo_uuid) (demo_env 1 ''x''))) (demo_env 1 ''x'')) =
      Inr \<lparr>ap_eventID = 1, ap_deduped = True\<rparr>" by code_simp
  moreover have "en_source (demo_env 1 ''x'') \<noteq> es_instance (OpenStore demo_uuid)"
    using demo_uuid_ok by (simp add: demo_env_def OpenStore_def)
  ultimately show ?thesis
    using ingress_log [OF OpenStore_inv [OF demo_uuid_ok(1), of demo_digest], of "demo_env 1 ''x''" 4]
    by (auto split: prod.splits sum.splits)
qed

section \<open>Exactly once\<close>

fun ingest :: "(envelope \<Rightarrow> string) \<Rightarrow> int \<Rightarrow> event_store \<Rightarrow> envelope list \<Rightarrow> event_store" where
  "ingest digest now s [] = s"
| "ingest digest now s (e # es) = ingest digest now (fst (Append digest now s e)) es"

fun firsts :: "'a set \<Rightarrow> 'a list \<Rightarrow> 'a list" where
  "firsts seen [] = []"
| "firsts seen (x # xs) = (if x \<in> seen then firsts seen xs else x # firsts (insert x seen) xs)"

definition streams_backed :: "event_store \<Rightarrow> bool" where
  "streams_backed s \<longleftrightarrow> (\<forall>src b. map_of (es_streams s) src = Some b \<longrightarrow>
     (\<exists>r \<in> set (es_events s). en_source (er_env r) = src \<and> en_vmID (er_env r) = b))"

text \<open>Producers that number their events and keep to one scope.\<close>

definition honest :: "envelope set \<Rightarrow> bool" where
  "honest E \<longleftrightarrow> (\<forall>e \<in> E. admissible e)
     \<and> (\<forall>e \<in> E. \<forall>e' \<in> E. en_source e = en_source e' \<longrightarrow>
          en_vmID e = en_vmID e' \<and> (en_seq e = en_seq e' \<longrightarrow> e = e'))"

lemma honest_mono: "honest E \<Longrightarrow> D \<subseteq> E \<Longrightarrow> honest D"
  unfolding honest_def by blast

lemma Append_honest:
  assumes inv: "store_inv digest s" and bk: "streams_backed s"
    and hon: "honest (insert e (er_env ` set (es_events s)))"
  shows "er_env ` set (es_events (fst (Append digest now s e))) = insert e (er_env ` set (es_events s))"
    and "map er_env (es_events (fst (Append digest now s e))) =
      map er_env (es_events s) @ (if e \<in> er_env ` set (es_events s) then [] else [e])"
    and "streams_backed (fst (Append digest now s e))"
    and "\<exists>a. snd (Append digest now s e) = Inr a"
proof -
  have adm: "admissible e" using hon by (simp add: honest_def)
  have rows: "\<forall>r \<in> set (es_events s). er_hash r = digest (er_env r)"
    using inv by (simp add: store_inv_def list_all_iff row_ok_def)
  have same: "er_env r = e" if "r \<in> set (es_events s)" "row_key r = (en_source e, en_seq e)" for r
    using hon that unfolding honest_def row_key_def by blast
  have A: "appendInTx digest s e = (s', Inr a) \<Longrightarrow> Append digest now s e = (s', Inr a)" for s' a
    using Append_plain_ok adm by (simp add: append_plain_admissible)
  have "er_env ` set (es_events (fst (Append digest now s e))) = insert e (er_env ` set (es_events s))
    \<and> map er_env (es_events (fst (Append digest now s e))) =
      map er_env (es_events s) @ (if e \<in> er_env ` set (es_events s) then [] else [e])
    \<and> streams_backed (fst (Append digest now s e)) \<and> (\<exists>a. snd (Append digest now s e) = Inr a)"
  proof (cases rule: appendInTx_cases [of s e digest])
    case inserted
    then have new: "e \<notin> er_env ` set (es_events s)" by (auto simp: find_event_None row_key_def)
    have "streams_backed (fst (appendInTx digest s e))"
      using bk unfolding inserted(3) streams_backed_def
      by (auto simp: map_of_snoc_other simp del: map_of_append)
    then show ?thesis using A [OF inserted(3)] new unfolding inserted(3) by simp
  next
    case (deduped r)
    then show ?thesis using A [OF deduped(4)] same [of r] bk by auto
  next
    case (conflict r)
    then show ?thesis using same [of r] rows by auto
  next
    case (rebind b)
    then obtain r where "r \<in> set (es_events s)" "en_source (er_env r) = en_source e" "en_vmID (er_env r) = b"
      using bk unfolding streams_backed_def by blast
    then show ?thesis using hon rebind(2) unfolding honest_def by blast
  qed
  then show "er_env ` set (es_events (fst (Append digest now s e))) = insert e (er_env ` set (es_events s))"
    and "map er_env (es_events (fst (Append digest now s e))) =
      map er_env (es_events s) @ (if e \<in> er_env ` set (es_events s) then [] else [e])"
    and "streams_backed (fst (Append digest now s e))" and "\<exists>a. snd (Append digest now s e) = Inr a" by blast+
qed

lemma ingest_firsts:
  assumes "store_inv digest s" "streams_backed s" "honest (set es \<union> er_env ` set (es_events s))"
    "\<forall>e \<in> set es. en_source e \<noteq> es_instance s"
  shows "map er_env (es_events (ingest digest now s es)) =
    map er_env (es_events s) @ firsts (er_env ` set (es_events s)) es"
  using assms
proof (induction es arbitrary: s)
  case (Cons e es)
  have src: "en_source e \<noteq> es_instance s" using Cons.prems(4) by simp
  have hon: "honest (insert e (er_env ` set (es_events s)))" by (rule honest_mono [OF Cons.prems(3)]) auto
  note A = Append_honest [OF Cons.prems(1,2) hon, of now]
  note I = Append_inv [OF Cons.prems(1) src, of now]
  have "map er_env (es_events (ingest digest now (fst (Append digest now s e)) es)) =
      map er_env (es_events (fst (Append digest now s e)))
      @ firsts (er_env ` set (es_events (fst (Append digest now s e)))) es"
  proof (rule Cons.IH [OF I(1) A(3)])
    have "set (e # es) \<union> er_env ` set (es_events s) = set es \<union> insert e (er_env ` set (es_events s))" by simp
    then show "honest (set es \<union> er_env ` set (es_events (fst (Append digest now s e))))"
      using Cons.prems(3) unfolding A(1) by metis
    show "\<forall>e' \<in> set es. en_source e' \<noteq> es_instance (fst (Append digest now s e))"
      using Cons.prems(4) by (simp add: I(2))
  qed
  then show ?case using A(1,2) by (auto simp: insert_absorb)
qed simp

text \<open>
  C17: Ingest is exactly once. Feed an empty store any sequence of envelopes from producers that number their
  events and keep to one scope, with any events sent again any number of times, in any order: the log
  holds each event once, in the order of its first arrival, and nothing else.
\<close>

theorem ingest_exactly_once:
  assumes "UUIDString uuid" "honest (set es)" "uuid \<notin> en_source ` set es"
  shows "map er_env (es_events (ingest digest now (OpenStore uuid) es)) = firsts {} es
    \<and> set (firsts {} es) = set es \<and> distinct (firsts {} es)"
proof -
  have "map er_env (es_events (ingest digest now (OpenStore uuid) es)) = firsts {} es"
    using ingest_firsts [OF OpenStore_inv [OF assms(1)], of es digest now] assms(2,3)
    by (force simp: streams_backed_def OpenStore_def)
  moreover have "set (firsts seen xs) = set xs - seen" "distinct (firsts seen xs)" for seen :: "envelope set" and xs
    by (induction xs arbitrary: seen) auto
  ultimately show ?thesis by simp
qed

theorem ingest_exactly_once_witness:
  "map er_env (es_events (ingest demo_digest 0 (OpenStore demo_uuid)
     [demo_env 2 ''a'', demo_env 1 ''b'', demo_env 2 ''a''])) = [demo_env 2 ''a'', demo_env 1 ''b'']"
proof -
  have f: "format_uint 1 \<noteq> format_uint 2" by code_simp
  have "honest (set [demo_env 2 ''a'', demo_env 1 ''b'', demo_env 2 ''a''])"
    using f demo_admissible unfolding honest_def by (auto simp: demo_env_def)
  moreover have "demo_uuid \<notin> en_source ` set [demo_env 2 ''a'', demo_env 1 ''b'', demo_env 2 ''a'']"
    using demo_uuid_ok(2) by (auto simp: demo_env_def)
  ultimately show ?thesis
    using ingest_exactly_once [OF demo_uuid_ok(1), of "[demo_env 2 ''a'', demo_env 1 ''b'', demo_env 2 ''a'']" demo_digest 0] f
    by (auto simp: demo_env_def)
qed

section \<open>Reading by cursor\<close>

lemma store_inv_sorted: "store_inv digest s \<Longrightarrow> sorted_wrt (<) (map er_id (es_events s))"
  by (simp add: store_inv_def)

lemma sort_key_sorted: "sorted_wrt (<) (map (f :: 'a \<Rightarrow> nat) xs) \<Longrightarrow> sort_key f (filter P xs) = filter P xs"
  by (rule sort_key_id_if_sorted)
    (metis sorted_filter sorted_wrt_mono_rel less_imp_le)

fun walk :: "nat \<Rightarrow> event_store \<Rightarrow> query \<Rightarrow> envelope list" where
  "walk 0 s q = []"
| "walk (Suc n) s q =
     (case Store_Query s q of
        Inl e \<Rightarrow> []
      | Inr r \<Rightarrow> if qs_events r = [] then [] else qs_events r @ walk n s (q\<lparr>qr_after := qs_nextAfter r\<rparr>))"

definition all_matches :: "event_store \<Rightarrow> query \<Rightarrow> nat \<Rightarrow> event_row list" where
  "all_matches s q after = filter (row_matches after None q) (es_events s)"

lemma parse_cursor_format [simp]: "n < 2 ^ 63 \<Longrightarrow> parse_cursor (format_uint n) = Some n"
  by (simp add: parse_cursor_def)

lemma Store_Query_page:
  assumes inv: "store_inv digest s" and q: "\<not> (qr_kind q \<noteq> [] \<and> qr_family q \<noteq> [])" "qr_until q = []"
      "1 \<le> qr_limit q" "qr_limit q \<le> 1000" "qr_family q = [] \<or> KindsByFamily (qr_family q) \<noteq> []"
    and after: "(if qr_after q = [] then Some 0 else parse_cursor (qr_after q)) = Some a"
  shows "\<exists>latest. Store_Query s q =
    Inr \<lparr>qs_events = map with_cursor (if qr_tail q then lastn (nat (qr_limit q)) (all_matches s q a)
                                       else take (nat (qr_limit q)) (all_matches s q a)),
         qs_nextAfter = (let page = (if qr_tail q then lastn (nat (qr_limit q)) (all_matches s q a)
                                     else take (nat (qr_limit q)) (all_matches s q a))
                         in if page = [] then qr_after q else format_uint (er_id (last page))),
         qs_latest = latest\<rparr>"
proof -
  have "sort_key er_id (filter (row_matches a None q) (es_events s)) = all_matches s q a"
    unfolding all_matches_def by (rule sort_key_sorted [OF store_inv_sorted [OF inv]])
  moreover have "rev (take n (rev xs)) = lastn n xs" for n and xs :: "event_row list"
    by (simp add: lastn_def take_rev)
  ultimately show ?thesis
    using q after by (auto simp: Store_Query_def Let_def MaxPageLimit_def)
qed

lemma sorted_last: "sorted_wrt (<) (map f xs) \<Longrightarrow> x \<in> set xs \<Longrightarrow> (f x :: nat) \<le> f (last xs)"
  by (induction xs rule: rev_induct) (auto simp: sorted_wrt_append)

lemma filter_after_take:
  fixes f :: "'a \<Rightarrow> nat"
  assumes "sorted_wrt (<) (map f xs)" "0 < n" "filter P xs \<noteq> []"
  shows "filter (\<lambda>x. f (last (take n (filter P xs))) < f x \<and> P x) xs = drop n (filter P xs)"
proof -
  let ?ys = "filter P xs"
  have srt: "sorted_wrt (<) (map f ?ys)" using assms(1) by (induction xs) auto
  let ?l = "last (take n ?ys)"
  have "filter (\<lambda>x. f ?l < f x) ?ys = drop n ?ys"
  proof -
    have ys: "?ys = take n ?ys @ drop n ?ys" by simp
    have "\<forall>x \<in> set (take n ?ys). \<forall>y \<in> set (drop n ?ys). f x < f y"
      using srt by (subst (asm) ys) (simp add: sorted_wrt_append del: append_take_drop_id)
    moreover have "?l \<in> set (take n ?ys)" using assms(2,3) by (intro last_in_set) simp
    moreover have "\<forall>x \<in> set (take n ?ys). f x \<le> f ?l"
      using srt by (auto intro!: sorted_last simp: take_map [symmetric] sorted_wrt_take)
    ultimately show ?thesis
      by (subst ys) (auto simp: filter_empty_conv not_less simp del: append_take_drop_id intro!: filter_True)
  qed
  then show ?thesis by (simp add: filter_filter conj_commute)
qed

text \<open>A query a reader can walk: one axis at most, no upper bound, oldest first, a page of at least one.\<close>

definition walkable :: "query \<Rightarrow> bool" where
  "walkable q \<longleftrightarrow> \<not> (qr_kind q \<noteq> [] \<and> qr_family q \<noteq> []) \<and> qr_until q = [] \<and> \<not> qr_tail q
     \<and> 1 \<le> qr_limit q \<and> qr_limit q \<le> 1000 \<and> (qr_family q = [] \<or> KindsByFamily (qr_family q) \<noteq> [])"

lemma all_matches_after: "all_matches s (q\<lparr>qr_after := x\<rparr>) a = all_matches s q a"
  by (simp add: all_matches_def row_matches_def cong: filter_cong)

lemma last_take_in: "0 < n \<Longrightarrow> xs \<noteq> [] \<Longrightarrow> last (take n xs) \<in> set xs"
  by (rule in_set_takeD [of _ n]) (rule last_in_set, simp)

lemma all_matches_next:
  assumes inv: "store_inv digest s" and n: "0 < n" "all_matches s q a \<noteq> []"
  shows "all_matches s q (er_id (last (take n (all_matches s q a)))) = drop n (all_matches s q a)"
proof -
  let ?l = "last (take n (all_matches s q a))"
  have "?l \<in> set (all_matches s q a)" by (rule last_take_in [OF n])
  then have "a < er_id ?l" by (auto simp: all_matches_def row_matches_def)
  then have "row_matches (er_id ?l) None q = (\<lambda>r. er_id ?l < er_id r \<and> row_matches a None q r)"
    by (auto simp: row_matches_def fun_eq_iff)
  then show ?thesis
    using filter_after_take [OF store_inv_sorted [OF inv] n(1), of "row_matches a None q"] n(2)
    by (simp add: all_matches_def)
qed

lemma walk_all:
  assumes inv: "store_inv digest s" and q: "walkable q" and big: "es_nextId s \<le> 2 ^ 63"
    and after: "(if qr_after q = [] then Some 0 else parse_cursor (qr_after q)) = Some a"
    and fuel: "length (all_matches s q a) \<le> n"
  shows "walk n s q = map with_cursor (all_matches s q a)"
  using q after fuel
proof (induction n arbitrary: q a)
  case (Suc n)
  let ?m = "all_matches s q a" and ?k = "nat (qr_limit q)"
  have k: "0 < ?k" using Suc.prems(1) by (simp add: walkable_def)
  obtain latest where page: "Store_Query s q = Inr \<lparr>qs_events = map with_cursor (take ?k ?m),
      qs_nextAfter = (if take ?k ?m = [] then qr_after q else format_uint (er_id (last (take ?k ?m)))), qs_latest = latest\<rparr>"
    using Store_Query_page [OF inv _ _ _ _ _ Suc.prems(2)] Suc.prems(1) by (auto simp: walkable_def Let_def)
  show ?case
  proof (cases "?m = []")
    case True
    then show ?thesis using page by simp
  next
    case False
    let ?l = "last (take ?k ?m)" and ?q = "q\<lparr>qr_after := format_uint (er_id (last (take ?k ?m)))\<rparr>"
    have "?l \<in> set (es_events s)"
      using last_take_in [OF k False] by (simp add: all_matches_def)
    then have "er_id ?l < 2 ^ 63" using inv big by (auto simp: store_inv_def)
    moreover have rest: "all_matches s ?q (er_id ?l) = drop ?k ?m"
      unfolding all_matches_after by (rule all_matches_next [OF inv k False])
    ultimately have "walk n s ?q = map with_cursor (drop ?k ?m)"
      using Suc.IH [of ?q "er_id ?l"] Suc.prems(1,3) k False by (auto simp: walkable_def)
    then show ?thesis using page False k by (simp flip: map_append)
  qed
qed simp

text \<open>
  C18: Paging loses nothing and repeats nothing. Over any consistent log, a reader that follows the returned
  cursor from page to page, with any filter on VM, kind or family and any page size, sees exactly the
  matching events after its starting cursor, oldest first; a tail query returns exactly the newest
  page of them, in the same order.
\<close>

theorem paging_complete:
  assumes "store_inv digest s" "walkable q" "es_nextId s \<le> 2 ^ 63"
    "(if qr_after q = [] then Some 0 else parse_cursor (qr_after q)) = Some a"
    "length (es_events s) \<le> n"
  shows "walk n s q = map with_cursor (filter (row_matches a None q) (es_events s))
    \<and> map_sum id qs_events (Store_Query s (q\<lparr>qr_tail := True\<rparr>)) =
        Inr (map with_cursor (lastn (nat (qr_limit q)) (filter (row_matches a None q) (es_events s))))"
proof -
  have "length (all_matches s q a) \<le> n"
    unfolding all_matches_def by (rule order_trans [OF length_filter_le assms(5)])
  moreover have "all_matches s (q\<lparr>qr_tail := True\<rparr>) a = all_matches s q a"
    by (simp add: all_matches_def row_matches_def cong: filter_cong)
  moreover have "(if qr_after (q\<lparr>qr_tail := True\<rparr>) = [] then Some 0 else parse_cursor (qr_after (q\<lparr>qr_tail := True\<rparr>))) = Some a"
    using assms(4) by (cases "qr_after q = []") simp_all
  from Store_Query_page [OF assms(1) _ _ _ _ _ this] assms(2)
  have "\<exists>n l. Store_Query s (q\<lparr>qr_tail := True\<rparr>) =
      Inr \<lparr>qs_events = map with_cursor (lastn (nat (qr_limit q)) (all_matches s (q\<lparr>qr_tail := True\<rparr>) a)),
           qs_nextAfter = n, qs_latest = l\<rparr>"
    unfolding walkable_def by fastforce
  ultimately show ?thesis
    using walk_all [OF assms(1-4)] by (auto simp: all_matches_def)
qed

theorem paging_complete_witness:
  "map en_eventID (walk 3 (ingest demo_digest 0 (OpenStore demo_uuid) [demo_env 2 ''a'', demo_env 1 ''b''])
     \<lparr>qr_vmID = Some demo_agent, qr_kind = [], qr_family = ''guest'', qr_after = [], qr_until = [], qr_limit = 1, qr_tail = False\<rparr>)
   = [Some ''1'', Some ''2'']"
proof -
  let ?s = "ingest demo_digest 0 (OpenStore demo_uuid) [demo_env 2 ''a'', demo_env 1 ''b'']"
  let ?q = "\<lparr>qr_vmID = Some demo_agent, qr_kind = [], qr_family = ''guest'', qr_after = [], qr_until = [], qr_limit = 1, qr_tail = False\<rparr>"
  have src: "en_source (demo_env k p) \<noteq> demo_uuid" for k p using demo_uuid_ok(2) by (simp add: demo_env_def)
  have i: "es_instance (OpenStore demo_uuid) = demo_uuid" by (simp add: OpenStore_def)
  have "store_inv demo_digest ?s"
    using Append_inv [OF OpenStore_inv [OF demo_uuid_ok(1), of demo_digest], of "demo_env 2 ''a''" 0] src
    by (simp add: i Append_inv(1))
  moreover have "walkable ?q" by code_simp
  moreover have "es_nextId ?s = 3" "length (es_events ?s) = 2" by code_simp+
  moreover have "map (en_eventID \<circ> with_cursor) (filter (row_matches 0 None ?q) (es_events ?s)) = [Some ''1'', Some ''2'']"
    by code_simp
  ultimately show ?thesis
    using paging_complete [of demo_digest ?s ?q 0 3] by simp
qed

end
