(* ===== verification/Store_Tables.thy ===== *)
theory Store_Tables
  imports Event_Store
begin

text \<open>
  The relational half of the store (\<open>src/internal/store/store.go\<close> and the row types of \<open>vms.go\<close>, \<open>runs.go\<close>
  and \<open>batches.go\<close>): its tables, its writer transactions and the events a transaction appends.

  A table is a list of rows in row-id order. A writer transaction is a function on the whole database
  that either commits its result or is rolled back; what survives a rollback is the number the store's
  own events have reached, which lives in memory. Clock readings are the argument \<open>now\<close>; timestamps
  are integers, and an empty timestamp column is \<open>None\<close>. SQLite's 64-bit sums are taken as integers.
\<close>

section \<open>Rows\<close>

datatype vm_state = Provisioning | Starting | Running | Paused | Stopping | Stopped | Failed
  | Deleting | Deleted

definition state_name :: "vm_state \<Rightarrow> string" where
  "state_name s = (case s of Provisioning \<Rightarrow> ''provisioning'' | Starting \<Rightarrow> ''starting'' | Running \<Rightarrow> ''running''
     | Paused \<Rightarrow> ''paused'' | Stopping \<Rightarrow> ''stopping'' | Stopped \<Rightarrow> ''stopped'' | Failed \<Rightarrow> ''failed''
     | Deleting \<Rightarrow> ''deleting'' | Deleted \<Rightarrow> ''deleted'')"

definition validTransitions :: "vm_state \<Rightarrow> vm_state list" where
  "validTransitions s = (case s of
      Provisioning \<Rightarrow> [Starting, Failed, Stopping]
    | Starting \<Rightarrow> [Running, Failed, Stopping]
    | Running \<Rightarrow> [Paused, Stopping, Failed]
    | Paused \<Rightarrow> [Running, Stopping, Failed]
    | Stopping \<Rightarrow> [Stopped, Failed]
    | Stopped \<Rightarrow> [Starting, Deleting]
    | Failed \<Rightarrow> [Deleting]
    | Deleting \<Rightarrow> [Deleted]
    | Deleted \<Rightarrow> [])"

definition transitionAllowed :: "vm_state \<Rightarrow> vm_state \<Rightarrow> bool" where
  "transitionAllowed from to \<longleftrightarrow> to \<in> set (validTransitions from)"

record kernel_entry =
  gk_version :: string
  gk_sourceURL :: string
  gk_sourceSHA256 :: string
  gk_configSHA256 :: string
  gk_vmlinuxSHA256 :: string
  gk_vmlinuxPath :: string
  gk_vmlinuxURL :: string

record root_entry =
  ri_sha256 :: string
  ri_path :: string
  ri_baseImageRef :: string
  ri_aptSnapshot :: string
  ri_inventory :: string
  ri_url :: string

record images =
  im_kernel :: kernel_entry
  im_root :: root_entry

record vm =
  vm_rowID :: nat
  vm_id :: string
  vm_name :: string
  vm_owner :: string
  vm_templateID :: string
  vm_templateDigest :: string
  vm_desired :: vm_state
  vm_observed :: vm_state
  vm_revision :: int
  vm_vcpu :: int
  vm_memory :: int
  vm_rootDisk :: int
  vm_workspaceDisk :: int
  vm_networkProfile :: string
  vm_networkPolicy :: string
  vm_labels :: "(string \<times> string) list"
  vm_failureStage :: "string option"
  vm_failureReason :: "string option"
  vm_bootID :: string
  vm_images :: "images option"
  vm_createdAt :: int
  vm_updatedAt :: int
  vm_lastEvent :: nat

datatype op_state = OpPending | OpRunning | OpSucceeded | OpFailed

definition op_state_name :: "op_state \<Rightarrow> string" where
  "op_state_name s = (case s of OpPending \<Rightarrow> ''pending'' | OpRunning \<Rightarrow> ''running''
     | OpSucceeded \<Rightarrow> ''succeeded'' | OpFailed \<Rightarrow> ''failed'')"

record operation =
  opn_id :: nat
  opn_owner :: string
  opn_kind :: string
  opn_key :: "string option"
  opn_hash :: string
  opn_vmID :: "string option"
  opn_phase :: string
  opn_state :: op_state
  opn_cause :: "string option"
  opn_message :: "string option"
  opn_attempt :: nat
  opn_createdAt :: int
  opn_updatedAt :: int

record reservation =
  rv_vmID :: string
  rv_memory :: int
  rv_vcpu :: int
  rv_disk :: int
  rv_computeReleased :: bool
  rv_released :: bool
  rv_createdAt :: int
  rv_updatedAt :: int

record totals =
  rt_disks :: "(string \<times> int) list"
  rt_memory :: int
  rt_vcpu :: int
  rt_disk :: int
  rt_active :: nat

datatype run_phase = RPending | RRunning | RConcluding | RSucceeded | RFailed | RInconclusive | RAborted

record run =
  rn_rowID :: nat
  rn_id :: string
  rn_vmID :: string
  rn_owner :: string
  rn_goal :: string
  rn_criteria :: string
  rn_onCompletion :: string
  rn_progressEvents :: bool
  rn_phase :: run_phase
  rn_evaluatedBy :: string
  rn_reason :: string
  rn_resultJSON :: string
  rn_resultStatus :: string
  rn_resultAt :: "int option"
  rn_progressSeq :: nat
  rn_key :: "string option"
  rn_hash :: string
  rn_createdEvent :: nat
  rn_concludedEvent :: nat
  rn_createdAt :: int
  rn_startedAt :: "int option"
  rn_concludedAt :: "int option"
  rn_updatedAt :: int

record run_report =
  rp_runID :: string
  rp_json :: string
  rp_digest :: string
  rp_op :: nat
  rp_at :: int

record batch =
  bt_id :: nat
  bt_owner :: string
  bt_key :: "string option"
  bt_hash :: string
  bt_mode :: string
  bt_onFailure :: string
  bt_op :: "nat option"
  bt_createdAt :: int
  bt_updatedAt :: int

record batch_member =
  bm_batch :: nat
  bm_position :: nat
  bm_name :: string
  bm_vmID :: "string option"
  bm_op :: "nat option"
  bm_refusal :: "(string \<times> string) option"

record vmdb =
  db_ev :: event_store
  db_vms :: "vm list"
  db_nextRow :: nat
  db_ops :: "operation list"
  db_nextOp :: nat
  db_res :: "reservation list"
  db_debt :: "string list"
  db_runs :: "run list"
  db_nextRun :: nat
  db_reports :: "run_report list"
  db_batches :: "batch list"
  db_members :: "batch_member list"
  db_nextBatch :: nat

datatype store_error =
    ErrVMUnknown | ErrOperationUnknown | ErrIdempotencyConflict | ErrOperationStale
  | AdmissionRefusal string string | RevisionMismatch int | InvalidTransition vm_state vm_state
  | AdmitMissing | AdmitInternal | ErrActiveRunExists | ErrRunNotFound | InvalidRunTransition run_phase run_phase
  | ErrSubmissionRejected string | ErrRunNotAccepting | ErrReportImmutable | ErrReportNotFound
  | ErrBatchUnknown | UnknownMode | BadRecord | PageBound int | StorageError string | NilDereference | EventError append_error

datatype admit_answer = Admitted | Refuse string string | AdmitBroken

section \<open>Transactions\<close>

definition OpenDB :: "string \<Rightarrow> vmdb" where
  "OpenDB uuid = \<lparr>db_ev = OpenStore uuid, db_vms = [], db_nextRow = 1, db_ops = [], db_nextOp = 1, db_res = [],
     db_debt = [], db_runs = [], db_nextRun = 1, db_reports = [], db_batches = [], db_members = [], db_nextBatch = 1\<rparr>"

text \<open>A rolled-back transaction leaves the tables alone; the event counter it advanced stays advanced.\<close>

definition roll_back :: "vmdb \<Rightarrow> vmdb \<Rightarrow> vmdb" where
  "roll_back db db' = db\<lparr>db_ev := (db_ev db)\<lparr>es_systemSeq := es_systemSeq (db_ev db')\<rparr>\<rparr>"

definition in_tx :: "(vmdb \<Rightarrow> vmdb \<times> (store_error + 'a)) \<Rightarrow> vmdb \<Rightarrow> vmdb \<times> (store_error + 'a)" where
  "in_tx body db = (case body db of
      (db', Inl e) \<Rightarrow> (roll_back db db', Inl e)
    | (db', Inr x) \<Rightarrow> (db', Inr x))"

text \<open>
  The events a transaction appends are on the store's own stream. All but the guest's progress are
  host observations.
\<close>

definition own_env ::
  "provenance \<Rightarrow> int \<Rightarrow> string \<Rightarrow> (string \<times> jval) list \<Rightarrow> event_store \<Rightarrow> envelope" where
  "own_env prov now kind data s =
     (snd (systemEnvelope s now kind ''registry'' notApplicableQuality data))\<lparr>en_provenance := prov\<rparr>"

definition emit_as ::
  "(envelope \<Rightarrow> string) \<Rightarrow> provenance \<Rightarrow> int \<Rightarrow> string \<Rightarrow> (string \<times> jval) list \<Rightarrow> vmdb \<Rightarrow> vmdb \<times> (store_error + nat)" where
  "emit_as digest prov now kind data db =
     (let s1 = fst (systemEnvelope (db_ev db) now kind ''registry'' notApplicableQuality data);
          (s2, r) = appendSystemInTx digest s1 (own_env prov now kind data (db_ev db))
      in (db\<lparr>db_ev := s2\<rparr>, case r of Inl e \<Rightarrow> Inl (EventError e) | Inr i \<Rightarrow> Inr i))"

definition emit ::
  "(envelope \<Rightarrow> string) \<Rightarrow> int \<Rightarrow> string \<Rightarrow> (string \<times> jval) list \<Rightarrow> vmdb \<Rightarrow> vmdb \<times> (store_error + nat)" where
  "emit digest = emit_as digest HostObserved"

definition bind_tx ::
  "(vmdb \<Rightarrow> vmdb \<times> (store_error + 'a)) \<Rightarrow> ('a \<Rightarrow> vmdb \<Rightarrow> vmdb \<times> (store_error + 'b)) \<Rightarrow> vmdb \<Rightarrow> vmdb \<times> (store_error + 'b)" where
  "bind_tx m f db = (case m db of (db', Inl e) \<Rightarrow> (db', Inl e) | (db', Inr x) \<Rightarrow> f x db')"

definition find_vm :: "vmdb \<Rightarrow> string \<Rightarrow> vm option" where
  "find_vm db i = find (\<lambda>v. vm_id v = i) (db_vms db)"

definition find_op :: "vmdb \<Rightarrow> nat \<Rightarrow> operation option" where
  "find_op db i = find (\<lambda>p. opn_id p = i) (db_ops db)"

definition find_res :: "vmdb \<Rightarrow> string \<Rightarrow> reservation option" where
  "find_res db i = find (\<lambda>r. rv_vmID r = i) (db_res db)"

definition set_vm :: "string \<Rightarrow> (vm \<Rightarrow> vm) \<Rightarrow> vmdb \<Rightarrow> vmdb" where
  "set_vm i f db = db\<lparr>db_vms := map (\<lambda>v. if vm_id v = i then f v else v) (db_vms db)\<rparr>"

definition set_op :: "nat \<Rightarrow> (operation \<Rightarrow> operation) \<Rightarrow> vmdb \<Rightarrow> vmdb" where
  "set_op i f db = db\<lparr>db_ops := map (\<lambda>p. if opn_id p = i then f p else p) (db_ops db)\<rparr>"

definition set_res :: "string \<Rightarrow> (reservation \<Rightarrow> reservation) \<Rightarrow> vmdb \<Rightarrow> vmdb" where
  "set_res i f db = db\<lparr>db_res := map (\<lambda>r. if rv_vmID r = i then f r else r) (db_res db)\<rparr>"

text \<open>The published form of an operation id: \<open>op-\<close> and at least six digits.\<close>

definition FormatOperationID :: "nat \<Rightarrow> string" where
  "FormatOperationID i =
     (let d = format_uint i in ''op-'' @ replicate (6 - length d) (CHR ''0'') @ d)"

definition reservationTotalsInTx :: "vmdb \<Rightarrow> totals" where
  "reservationTotalsInTx db =
     (let live = filter (\<lambda>r. \<not> rv_released r) (db_res db);
          hold = filter (\<lambda>r. \<not> rv_computeReleased r) live
      in \<lparr>rt_disks = sort_key fst (map (\<lambda>r. (rv_vmID r, rv_disk r)) live),
          rt_memory = sum_list (map rv_memory hold), rt_vcpu = sum_list (map rv_vcpu hold),
          rt_disk = sum_list (map rv_disk live), rt_active = length live\<rparr>)"

text \<open>The reader's totals are the same sums; it does not list the owners of the disks.\<close>

definition ReservationTotals :: "vmdb \<Rightarrow> totals" where
  "ReservationTotals db = (reservationTotalsInTx db)\<lparr>rt_disks := []\<rparr>"

section \<open>What a transaction appends\<close>

definition own_row ::
  "(envelope \<Rightarrow> string) \<Rightarrow> provenance \<Rightarrow> int \<Rightarrow> string \<Rightarrow> (string \<times> jval) list \<Rightarrow> event_store \<Rightarrow> event_row" where
  "own_row digest prov now kind data s =
     \<lparr>er_id = es_nextId s, er_env = own_env prov now kind data s, er_hash = digest (own_env prov now kind data s)\<rparr>"

text \<open>The log after one more event of the store's own.\<close>

definition logged ::
  "(envelope \<Rightarrow> string) \<Rightarrow> provenance \<Rightarrow> int \<Rightarrow> string \<Rightarrow> (string \<times> jval) list \<Rightarrow> event_store \<Rightarrow> event_store" where
  "logged digest prov now kind data s =
     fst (appendInTx digest (s\<lparr>es_systemSeq := Suc (es_systemSeq s)\<rparr>) (own_env prov now kind data s))"

definition own_kind :: "provenance \<Rightarrow> string \<Rightarrow> bool" where
  "own_kind prov kind \<longleftrightarrow> (case LookupKind kind of None \<Rightarrow> False | Some i \<Rightarrow> ki_provenance i = prov)
     \<and> (prov = HostObserved \<or> prov = GuestReported)"

lemma own_kinds [simp]:
  "own_kind HostObserved ''vm.created''" "own_kind HostObserved ''vm.state_changed''" "own_kind HostObserved ''vm.deleted''"
  "own_kind HostObserved ''operation.state_changed''" "own_kind HostObserved ''run.created''"
  "own_kind HostObserved ''run.state_changed''" "own_kind HostObserved ''run.result_recorded''"
  "own_kind HostObserved ''run.submission_rejected''" "own_kind HostObserved ''vm.cleanup_failed''"
  "own_kind HostObserved ''vm.reconcile_ambiguous''" "own_kind GuestReported ''run.progress''"
  by code_simp+

lemma own_env_fields [simp]:
  "en_source (own_env prov now kind data s) = es_instance s"
  "en_seq (own_env prov now kind data s) = format_uint (Suc (es_systemSeq s))"
  "en_vmID (own_env prov now kind data s) = None" "en_eventID (own_env prov now kind data s) = None"
  "en_kind (own_env prov now kind data s) = kind" "en_data (own_env prov now kind data s) = Some data"
  "en_provenance (own_env prov now kind data s) = prov"
  by (simp_all add: own_env_def systemEnvelope_def Let_def)

lemma own_env_valid:
  assumes "store_inv digest s" "own_kind prov kind"
  shows "Validate (own_env prov now kind data s) = []"
proof -
  obtain i where i: "i \<in> set kind_registry" "ki_kind i = kind"
    using assms(2) LookupKind_iff by (fastforce simp: own_kind_def split: option.splits)
  then have "kind_row_ok i" using kind_registry_rows by (simp add: list_all_iff)
  with i have "kindPattern kind" "3 \<le> length kind" "length kind \<le> 96" by (auto simp: kind_row_ok_def)
  then show ?thesis
    using assms unfolding store_inv_def own_kind_def
    by (auto simp: Validate_def own_env_def systemEnvelope_def notApplicableQuality_def Let_def flag_def bad_opt_def)
qed

text \<open>The number is fresh and the store's stream is host-wide, so the event is always inserted.\<close>

lemma own_fresh:
  assumes inv: "store_inv digest s" and ok: "own_kind prov kind"
  defines "s1 \<equiv> s\<lparr>es_systemSeq := Suc (es_systemSeq s)\<rparr>"
  shows "store_inv digest s1"
    and "find_event s1 (es_instance s) (format_uint (Suc (es_systemSeq s))) = None"
proof -
  have "\<forall>r \<in> set (es_events s). en_source (er_env r) = es_instance s \<longrightarrow>
      (\<exists>n \<le> Suc (es_systemSeq s). en_seq (er_env r) = format_uint n)"
    using inv unfolding store_inv_def by (meson le_SucI)
  then show "store_inv digest s1" using inv unfolding s1_def store_inv_def by simp
  show "find_event s1 (es_instance s) (format_uint (Suc (es_systemSeq s))) = None"
    using inv unfolding find_event_None s1_def store_inv_def
    by (fastforce simp: row_key_def format_uint_inject)
qed

lemma logged_facts:
  assumes inv: "store_inv digest s" and ok: "own_kind prov kind"
  shows "appendSystemInTx digest (s\<lparr>es_systemSeq := Suc (es_systemSeq s)\<rparr>) (own_env prov now kind data s)
       = (logged digest prov now kind data s, Inr (es_nextId s))"
    and "es_events (logged digest prov now kind data s) = es_events s @ [own_row digest prov now kind data s]"
    and "es_nextId (logged digest prov now kind data s) = Suc (es_nextId s)"
    and "es_instance (logged digest prov now kind data s) = es_instance s"
    and "es_systemSeq (logged digest prov now kind data s) = Suc (es_systemSeq s)"
    and "store_inv digest (logged digest prov now kind data s)"
proof -
  let ?s1 = "s\<lparr>es_systemSeq := Suc (es_systemSeq s)\<rparr>" and ?e = "own_env prov now kind data s"
  have "map_of (es_streams s) (es_instance s) \<in> {None, Some None}" using inv by (simp add: store_inv_def)
  then have res: "snd (appendInTx digest ?s1 ?e) = Inr \<lparr>ap_eventID = es_nextId s, ap_deduped = False\<rparr>
      \<and> es_events (fst (appendInTx digest ?s1 ?e)) = es_events s @ [own_row digest prov now kind data s]
      \<and> es_nextId (fst (appendInTx digest ?s1 ?e)) = Suc (es_nextId s)
      \<and> es_instance (fst (appendInTx digest ?s1 ?e)) = es_instance s
      \<and> es_systemSeq (fst (appendInTx digest ?s1 ?e)) = Suc (es_systemSeq s)"
    using own_fresh(2) [OF inv ok]
    by (cases rule: appendInTx_cases [of ?s1 ?e digest]) (auto simp: find_event_None own_row_def)
  then show "es_events (logged digest prov now kind data s) = es_events s @ [own_row digest prov now kind data s]"
    "es_nextId (logged digest prov now kind data s) = Suc (es_nextId s)"
    "es_instance (logged digest prov now kind data s) = es_instance s"
    "es_systemSeq (logged digest prov now kind data s) = Suc (es_systemSeq s)"
    by (simp_all add: logged_def)
  show "appendSystemInTx digest ?s1 ?e = (logged digest prov now kind data s, Inr (es_nextId s))"
    using res own_env_valid [OF inv ok] by (cases "appendInTx digest ?s1 ?e") (simp add: appendSystemInTx_def logged_def)
  show "store_inv digest (logged digest prov now kind data s)"
    unfolding logged_def
    by (rule appendInTx_inv [OF own_fresh(1) [OF inv ok]]) (use own_env_valid [OF inv ok] in auto)
qed

lemmas logged_simps = logged_facts(2-6)

lemma emit_as_eq:
  "store_inv digest (db_ev db) \<Longrightarrow> own_kind prov kind \<Longrightarrow>
   emit_as digest prov now kind data db = (db\<lparr>db_ev := logged digest prov now kind data (db_ev db)\<rparr>, Inr (es_nextId (db_ev db)))"
  using logged_facts(1) [of digest "db_ev db" prov kind now data]
  by (simp add: emit_as_def systemEnvelope_def Let_def)

lemma emit_eq:
  "store_inv digest (db_ev db) \<Longrightarrow> own_kind HostObserved kind \<Longrightarrow>
   emit digest now kind data db = (db\<lparr>db_ev := logged digest HostObserved now kind data (db_ev db)\<rparr>, Inr (es_nextId (db_ev db)))"
  by (simp add: emit_def emit_as_eq)

text \<open>A rolled-back transaction: same tables, same log, a counter that may have moved on.\<close>

lemma roll_back_fields [simp]:
  "db_vms (roll_back db db') = db_vms db" "db_nextRow (roll_back db db') = db_nextRow db"
  "db_ops (roll_back db db') = db_ops db" "db_nextOp (roll_back db db') = db_nextOp db"
  "db_res (roll_back db db') = db_res db" "db_debt (roll_back db db') = db_debt db"
  "db_runs (roll_back db db') = db_runs db" "db_nextRun (roll_back db db') = db_nextRun db"
  "db_reports (roll_back db db') = db_reports db" "db_batches (roll_back db db') = db_batches db"
  "db_members (roll_back db db') = db_members db" "db_nextBatch (roll_back db db') = db_nextBatch db"
  "es_events (db_ev (roll_back db db')) = es_events (db_ev db)"
  "es_instance (db_ev (roll_back db db')) = es_instance (db_ev db)"
  "es_nextId (db_ev (roll_back db db')) = es_nextId (db_ev db)"
  "es_streams (db_ev (roll_back db db')) = es_streams (db_ev db)"
  "es_systemSeq (db_ev (roll_back db db')) = es_systemSeq (db_ev db')"
  by (simp_all add: roll_back_def)

lemma roll_back_inv:
  assumes inv: "store_inv digest (db_ev db)" and le: "es_systemSeq (db_ev db) \<le> es_systemSeq (db_ev db')"
  shows "store_inv digest (db_ev (roll_back db db'))"
proof -
  have "\<forall>r \<in> set (es_events (db_ev db)). en_source (er_env r) = es_instance (db_ev db) \<longrightarrow>
      (\<exists>n \<le> es_systemSeq (db_ev db'). en_seq (er_env r) = format_uint n)"
    using inv le unfolding store_inv_def by (meson le_trans)
  then show ?thesis using inv unfolding store_inv_def by simp
qed

lemma roll_back_self [simp]: "roll_back db db = db"
  by (simp add: roll_back_def)

text \<open>Reading a row that an update may have touched.\<close>

lemma find_map_update:
  "(\<And>x. key (f x) = key x) \<Longrightarrow>
   find (\<lambda>x. key x = i) (map (\<lambda>x. if key x = k then f x else x) xs) =
     map_option (\<lambda>x. if i = k then f x else x) (find (\<lambda>x. key x = i) xs)"
  by (induction xs) auto

lemma map_key_update: "(\<And>x. key (f x) = key x) \<Longrightarrow> map key (map (\<lambda>x. if key x = k then f x else x) xs) = map key xs"
  by (induction xs) auto

lemma find_key_Some: "find (\<lambda>x. key x = i) xs = Some x \<Longrightarrow> x \<in> set xs \<and> key x = i"
  by (induction xs) (auto split: if_splits)

lemma find_key_None: "find (\<lambda>x. key x = i) xs = None \<longleftrightarrow> i \<notin> key ` set xs"
  by (induction xs) auto

lemma find_key_distinct: "distinct (map key xs) \<Longrightarrow> x \<in> set xs \<Longrightarrow> find (\<lambda>y. key y = key x) xs = Some x"
  by (induction xs) (fastforce split: if_splits)+

lemma find_snoc: "find P (xs @ [x]) = (case find P xs of None \<Rightarrow> if P x then Some x else None | r \<Rightarrow> r)"
  by (induction xs) auto

end
