(* ===== verification/Run_Store.thy ===== *)
theory Run_Store
  imports Store_Tables
begin

text \<open>
  The runs registry (\<open>src/internal/store/runs.go\<close>): creation with an idempotency key, the guarded phase
  machine, the guest's progress and result submissions, and the immutable reports.

  Minted run ids are arguments. What \<open>encoding/json\<close> makes of a guest's bytes is the argument
  \<open>decode\<close> (\<open>None\<close>: not valid JSON), and how \<open>fmt\<close> quotes a rejected status is \<open>quote\<close>. The lemmas show
  that a run moves only along the phase machine, that what was decided or recorded is never rewritten,
  and that a VM never has two active runs.
\<close>

section \<open>The phase machine\<close>

definition phase_name :: "run_phase \<Rightarrow> string" where
  "phase_name p = (case p of RPending \<Rightarrow> ''pending'' | RRunning \<Rightarrow> ''running'' | RConcluding \<Rightarrow> ''concluding''
     | RSucceeded \<Rightarrow> ''succeeded'' | RFailed \<Rightarrow> ''failed'' | RInconclusive \<Rightarrow> ''inconclusive'' | RAborted \<Rightarrow> ''aborted'')"

definition validRunTransitions :: "run_phase \<Rightarrow> run_phase list" where
  "validRunTransitions p = (case p of
      RPending \<Rightarrow> [RRunning, RConcluding]
    | RRunning \<Rightarrow> [RConcluding]
    | RConcluding \<Rightarrow> [RSucceeded, RFailed, RInconclusive, RAborted]
    | _ \<Rightarrow> [])"

definition runTransitionAllowed :: "run_phase \<Rightarrow> run_phase \<Rightarrow> bool" where
  "runTransitionAllowed from to \<longleftrightarrow> to \<in> set (validRunTransitions from)"

definition terminalRunPhases :: "run_phase list" where
  "terminalRunPhases = [RSucceeded, RFailed, RInconclusive, RAborted]"

text \<open>The phases of the partial unique index \<open>idx_runs_active\<close>.\<close>

definition activeRunPhases :: "run_phase list" where
  "activeRunPhases = [RPending, RRunning, RConcluding]"

definition accepts :: "run_phase \<Rightarrow> bool" where
  "accepts p \<longleftrightarrow> p = RPending \<or> p = RRunning"

section \<open>Creating a run\<close>

record create_run_input =
  cr_vmID :: string
  cr_owner :: string
  cr_goal :: string
  cr_criteria :: string
  cr_onCompletion :: string
  cr_progressEvents :: bool
  cr_key :: "string option"
  cr_hash :: string
  cr_phase :: run_phase

definition GetRun :: "vmdb \<Rightarrow> string \<Rightarrow> store_error + run" where
  "GetRun db i = (case find (\<lambda>r. rn_id r = i) (db_runs db) of None \<Rightarrow> Inl ErrRunNotFound | Some r \<Rightarrow> Inr r)"

definition set_run :: "string \<Rightarrow> (run \<Rightarrow> run) \<Rightarrow> vmdb \<Rightarrow> vmdb" where
  "set_run i f db = db\<lparr>db_runs := map (\<lambda>r. if rn_id r = i then f r else r) (db_runs db)\<rparr>"

text \<open>The row an insert adds. A run created running has also started.\<close>

definition new_run :: "int \<Rightarrow> string \<Rightarrow> create_run_input \<Rightarrow> nat \<Rightarrow> bool \<Rightarrow> nat \<Rightarrow> run" where
  "new_run now runID i event started row =
     \<lparr>rn_rowID = row, rn_id = runID, rn_vmID = cr_vmID i, rn_owner = cr_owner i, rn_goal = cr_goal i,
      rn_criteria = cr_criteria i, rn_onCompletion = cr_onCompletion i, rn_progressEvents = cr_progressEvents i,
      rn_phase = cr_phase i, rn_evaluatedBy = [], rn_reason = [], rn_resultJSON = [], rn_resultStatus = [],
      rn_resultAt = None, rn_progressSeq = 0, rn_key = cr_key i, rn_hash = cr_hash i, rn_createdEvent = event,
      rn_concludedEvent = 0, rn_createdAt = now, rn_startedAt = (if started then Some now else None),
      rn_concludedAt = None, rn_updatedAt = now\<rparr>"

definition insert_run :: "(nat \<Rightarrow> run) \<Rightarrow> vmdb \<Rightarrow> vmdb \<times> (store_error + unit)" where
  "insert_run mk db =
     (let r = mk (db_nextRun db) in
      if rn_id r \<in> rn_id ` set (db_runs db) then (db, Inl (StorageError ''insert run''))
      else if rn_key r \<noteq> None \<and> (rn_owner r, rn_key r) \<in> (\<lambda>x. (rn_owner x, rn_key x)) ` set (db_runs db)
        then (db, Inl (StorageError ''insert run''))
      else if rn_phase r \<in> set activeRunPhases
              \<and> (\<exists>x \<in> set (db_runs db). rn_vmID x = rn_vmID r \<and> rn_phase x \<in> set activeRunPhases)
        then (db, Inl ErrActiveRunExists)
      else (db\<lparr>db_runs := db_runs db @ [r], db_nextRun := Suc (db_nextRun db)\<rparr>, Inr ()))"

definition run_created_data :: "string \<Rightarrow> create_run_input \<Rightarrow> (string \<times> jval) list" where
  "run_created_data runID i =
     [(''run_id'', JStr runID), (''vm_id'', JStr (cr_vmID i)), (''owner'', JStr (cr_owner i)), (''goal'', JStr (cr_goal i)),
      (''success_criteria'', JStr (cr_criteria i)), (''on_completion'', JStr (cr_onCompletion i)),
      (''progress_events'', JNum (if cr_progressEvents i then 1 else 0)), (''phase'', JStr (phase_name (cr_phase i)))]"

definition touch_vm :: "string \<Rightarrow> nat \<Rightarrow> vmdb \<Rightarrow> vmdb" where
  "touch_vm i ev = set_vm i (\<lambda>v. v\<lparr>vm_lastEvent := ev\<rparr>)"

definition createRunInTx ::
  "(envelope \<Rightarrow> string) \<Rightarrow> int \<Rightarrow> string \<Rightarrow> create_run_input \<Rightarrow> vmdb \<Rightarrow> vmdb \<times> (store_error + unit)" where
  "createRunInTx digest now runID i =
     bind_tx (emit digest now ''run.created'' (run_created_data runID i)) (\<lambda>ev.
     bind_tx (insert_run (new_run now runID (i\<lparr>cr_key := None, cr_hash := []\<rparr>) ev False)) (\<lambda>_ db.
       (touch_vm (cr_vmID i) ev db, Inr ())))"

definition lookupRunByIdempotencyKey :: "vmdb \<Rightarrow> string \<Rightarrow> string option \<Rightarrow> string \<Rightarrow> store_error + run option" where
  "lookupRunByIdempotencyKey db owner key hash =
     (case key of None \<Rightarrow> Inr None
      | Some k \<Rightarrow>
          (case find (\<lambda>r. rn_owner r = owner \<and> rn_key r = Some k) (db_runs db) of
             None \<Rightarrow> Inr None
           | Some r \<Rightarrow> if rn_hash r \<noteq> hash then Inl ErrIdempotencyConflict
                       else map_sum id Some (GetRun db (rn_id r))))"

text \<open>
  The key is looked up before the transaction and again inside it; a replay answers the run as it is
  and \<open>True\<close>.
\<close>

definition CreateRun ::
  "(envelope \<Rightarrow> string) \<Rightarrow> int \<Rightarrow> string \<Rightarrow> create_run_input \<Rightarrow> vmdb \<Rightarrow> vmdb \<times> (store_error + run \<times> bool)" where
  "CreateRun digest now runID i db0 =
     (case lookupRunByIdempotencyKey db0 (cr_owner i) (cr_key i) (cr_hash i) of
        Inl e \<Rightarrow> (db0, Inl e)
      | Inr (Some r) \<Rightarrow> (db0, Inr (r, True))
      | Inr None \<Rightarrow>
          in_tx (\<lambda>db. case lookupRunByIdempotencyKey db (cr_owner i) (cr_key i) (cr_hash i) of
              Inl e \<Rightarrow> (db, Inl e)
            | Inr (Some r) \<Rightarrow> (db, Inr (r, True))
            | Inr None \<Rightarrow>
                bind_tx (emit digest now ''run.created'' (run_created_data runID i)) (\<lambda>ev.
                bind_tx (insert_run (new_run now runID i ev (cr_phase i = RRunning))) (\<lambda>_ db1.
                  (case GetRun (touch_vm (cr_vmID i) ev db1) runID of
                     Inl e \<Rightarrow> (touch_vm (cr_vmID i) ev db1, Inl (StorageError ''read run back''))
                   | Inr r \<Rightarrow> (touch_vm (cr_vmID i) ev db1, Inr (r, False))))) db) db0)"

section \<open>Moving a run\<close>

record run_transition =
  tr_runID :: string
  tr_from :: "run_phase option"
  tr_to :: run_phase
  tr_reason :: string
  tr_evaluatedBy :: string

definition advance_run :: "int \<Rightarrow> run_transition \<Rightarrow> run_phase \<Rightarrow> nat \<Rightarrow> run \<Rightarrow> run" where
  "advance_run now t from ev r =
     (let r1 = r\<lparr>rn_phase := tr_to t, rn_updatedAt := now\<rparr>;
          r2 = (if tr_to t = RRunning \<and> from = RPending then r1\<lparr>rn_startedAt := Some now\<rparr> else r1)
      in if tr_to t \<in> set terminalRunPhases
         then r2\<lparr>rn_evaluatedBy := tr_evaluatedBy t, rn_reason := tr_reason t, rn_concludedAt := Some now,
                 rn_concludedEvent := ev\<rparr>
         else r2)"

definition TransitionRun ::
  "(envelope \<Rightarrow> string) \<Rightarrow> int \<Rightarrow> run_transition \<Rightarrow> vmdb \<Rightarrow> vmdb \<times> (store_error + run)" where
  "TransitionRun digest now t =
     in_tx (\<lambda>db. case GetRun db (tr_runID t) of
         Inl e \<Rightarrow> (db, Inl e)
       | Inr r \<Rightarrow>
           if tr_from t \<noteq> None \<and> tr_from t \<noteq> Some (rn_phase r) then (db, Inl (InvalidRunTransition (rn_phase r) (tr_to t)))
           else if \<not> runTransitionAllowed (rn_phase r) (tr_to t) then (db, Inl (InvalidRunTransition (rn_phase r) (tr_to t)))
           else
             bind_tx (emit digest now ''run.state_changed''
                 ([(''run_id'', JStr (tr_runID t)), (''vm_id'', JStr (rn_vmID r)),
                   (''from'', JStr (phase_name (rn_phase r))), (''to'', JStr (phase_name (tr_to t)))]
                  @ (if tr_to t \<in> set terminalRunPhases
                     then [(''evaluated_by'', JStr (tr_evaluatedBy t)), (''reason'', JStr (tr_reason t))] else [])))
               (\<lambda>ev db1.
                  let db2 = touch_vm (rn_vmID r) ev (set_run (tr_runID t) (advance_run now t (rn_phase r) ev) db1)
                  in (db2, GetRun db2 (tr_runID t))) db)"

section \<open>Reading runs\<close>

record run_query =
  rq_vmID :: string
  rq_phase :: "run_phase option"
  rq_owner :: string
  rq_after :: string
  rq_limit :: int

text \<open>
  \<open>fmt.Sscanf(s, "%d")\<close> into an \<open>int64\<close>: leading blanks, a sign, digits; what follows the digits is not
  looked at.
\<close>

definition scan_d :: "string \<Rightarrow> int option" where
  "scan_d s =
     (let t = dropWhile (\<lambda>c. c = CHR '' '' \<or> c = CHR 0x09) s;
          neg = (t \<noteq> [] \<and> hd t = CHR ''-'');
          u = (if t \<noteq> [] \<and> (hd t = CHR ''-'' \<or> hd t = CHR ''+'') then tl t else t)
      in case parse_uint64 (takeWhile is_digit u) of
           None \<Rightarrow> None
         | Some n \<Rightarrow> if neg then (if n \<le> 2 ^ 63 then Some (- int n) else None)
                     else (if n < 2 ^ 63 then Some (int n) else None))"

definition ListRuns :: "vmdb \<Rightarrow> run_query \<Rightarrow> query_error + run list \<times> string" where
  "ListRuns db q =
     (let limit = (if rq_limit q = 0 then DefaultPageLimit else rq_limit q) in
      if limit < 0 \<or> MaxPageLimit < limit then Inl (BoundError (rq_limit q))
      else case (if rq_after q = [] then Some 0
                 else case scan_d (rq_after q) of None \<Rightarrow> None | Some a \<Rightarrow> if a \<le> 0 then None else Some a) of
        None \<Rightarrow> Inl ErrInvalidCursor
      | Some after \<Rightarrow>
          let page = take (nat limit) (filter (\<lambda>r. after < int (rn_rowID r)
                       \<and> (rq_vmID q \<noteq> [] \<longrightarrow> rn_vmID r = rq_vmID q)
                       \<and> (case rq_phase q of None \<Rightarrow> True | Some p \<Rightarrow> rn_phase r = p)
                       \<and> (rq_owner q \<noteq> [] \<longrightarrow> rn_owner r = rq_owner q)) (db_runs db))
          in Inr (page, if page = [] then rq_after q else format_uint (rn_rowID (last page))))"

definition ActiveRunForVM :: "vmdb \<Rightarrow> string \<Rightarrow> run option" where
  "ActiveRunForVM db vmID = find (\<lambda>r. rn_vmID r = vmID \<and> rn_phase r \<in> set activeRunPhases) (db_runs db)"

definition ListRunsInPhases :: "vmdb \<Rightarrow> run_phase list \<Rightarrow> run list" where
  "ListRunsInPhases db ps = filter (\<lambda>r. rn_phase r \<in> set ps) (db_runs db)"

definition RunForVM :: "vmdb \<Rightarrow> string \<Rightarrow> store_error + run" where
  "RunForVM db vmID =
     (case find (\<lambda>r. rn_vmID r = vmID) (rev (db_runs db)) of None \<Rightarrow> Inl ErrRunNotFound | Some r \<Rightarrow> Inr r)"

section \<open>Guest submissions\<close>

text \<open>The rejection is recorded on a best effort: the answer is the rejection either way.\<close>

definition recordSubmissionRejected ::
  "(envelope \<Rightarrow> string) \<Rightarrow> int \<Rightarrow> run \<Rightarrow> string \<Rightarrow> string \<Rightarrow> int \<Rightarrow> vmdb \<Rightarrow> vmdb \<times> (store_error + 'a)" where
  "recordSubmissionRejected digest now r submission reason bytes db =
     (let (s1, env) = systemEnvelope (db_ev db) now ''run.submission_rejected'' ''registry'' notApplicableQuality
            [(''run_id'', JStr (rn_id r)), (''vm_id'', JStr (rn_vmID r)), (''submission'', JStr submission),
             (''reason'', JStr reason), (''size_bytes'', JNum bytes)]
      in (db\<lparr>db_ev := fst (append_plain digest s1 env)\<rparr>, Inl (ErrSubmissionRejected reason)))"

definition too_large :: "int \<Rightarrow> int \<Rightarrow> string" where
  "too_large n m = ''payload exceeds max_bytes limit ('' @ format_int n @ '' > '' @ format_int m @ '')''"

definition SubmitRunProgress ::
  "(envelope \<Rightarrow> string) \<Rightarrow> (string \<Rightarrow> jval option) \<Rightarrow> int \<Rightarrow> string \<Rightarrow> string \<Rightarrow> int \<Rightarrow> vmdb \<Rightarrow> vmdb \<times> (store_error + nat)" where
  "SubmitRunProgress digest decode now runID payload maxBytes db0 =
     (case GetRun db0 runID of
        Inl e \<Rightarrow> (db0, Inl e)
      | Inr r \<Rightarrow>
          let bytes = int (length payload) in
          if \<not> accepts (rn_phase r) then (db0, Inl ErrRunNotAccepting)
          else if maxBytes < bytes
            then recordSubmissionRejected digest now r ''progress'' (too_large bytes maxBytes) bytes db0
          else if decode payload = None
            then recordSubmissionRejected digest now r ''progress'' ''payload is not valid JSON'' bytes db0
          else if \<not> rn_progressEvents r
            then recordSubmissionRejected digest now r ''progress'' ''progress_events disabled for this run'' bytes db0
          else in_tx (\<lambda>db. case GetRun db runID of
                 Inl e \<Rightarrow> (db, Inl (StorageError ''read run for progress''))
               | Inr r1 \<Rightarrow>
                   if \<not> accepts (rn_phase r1) then (db, Inl ErrRunNotAccepting)
                   else
                     let next = Suc (rn_progressSeq r1) in
                     bind_tx (emit_as digest GuestReported now ''run.progress''
                         [(''run_id'', JStr runID), (''vm_id'', JStr (rn_vmID r)), (''seq'', JNum (int next)),
                          (''payload'', the (decode payload))])
                       (\<lambda>ev db1.
                          (touch_vm (rn_vmID r) ev
                             (set_run runID (\<lambda>x. x\<lparr>rn_progressSeq := next, rn_updatedAt := now\<rparr>) db1), Inr next)) db) db0)"

text \<open>The checks on a result's fields, in order; \<open>Inr\<close> carries the accepted status.\<close>

definition check_result :: "(jval \<Rightarrow> string) \<Rightarrow> jval option \<Rightarrow> string + string" where
  "check_result quote j =
     (case (case j of Some (JObj m) \<Rightarrow> Some m | Some JNull \<Rightarrow> Some [] | _ \<Rightarrow> None) of
        None \<Rightarrow> Inl ''result is not valid JSON''
      | Some m \<Rightarrow>
          (case map_of m ''status'' of
             None \<Rightarrow> Inl ''result missing required field: status''
           | Some st \<Rightarrow>
               if st \<noteq> JStr ''succeeded'' \<and> st \<noteq> JStr ''failed''
               then Inl ((''status must be '' @ [CHR 0x27] @ ''succeeded'' @ [CHR 0x27] @ '' or '' @ [CHR 0x27] @ ''failed'' @ [CHR 0x27] @ '', got '') @ quote st)
               else (case map_of m ''detail'' of
                       Some (JStr d) \<Rightarrow>
                         if 1024 < length d then Inl (''detail exceeds 1024 bytes ('' @ format_uint (length d) @ '')'')
                         else Inr (if st = JStr ''failed'' then ''failed'' else ''succeeded'')
                     | _ \<Rightarrow> Inr (if st = JStr ''failed'' then ''failed'' else ''succeeded''))))"

definition SubmitRunResult ::
  "(envelope \<Rightarrow> string) \<Rightarrow> (string \<Rightarrow> jval option) \<Rightarrow> (jval \<Rightarrow> string) \<Rightarrow> int \<Rightarrow> string \<Rightarrow> string \<Rightarrow> int \<Rightarrow> vmdb
   \<Rightarrow> vmdb \<times> (store_error + run)" where
  "SubmitRunResult digest decode quote now runID result maxBytes db0 =
     (case GetRun db0 runID of
        Inl e \<Rightarrow> (db0, Inl e)
      | Inr r \<Rightarrow>
          let bytes = int (length result) in
          if \<not> accepts (rn_phase r) then (db0, Inl ErrRunNotAccepting)
          else if maxBytes < bytes
            then recordSubmissionRejected digest now r ''result'' (too_large bytes maxBytes) bytes db0
          else case check_result quote (decode result) of
            Inl reason \<Rightarrow> recordSubmissionRejected digest now r ''result'' reason bytes db0
          | Inr status \<Rightarrow>
              (case GetRun db0 runID of
                 Inl e \<Rightarrow> (db0, Inl (StorageError ''read run for result''))
               | Inr r1 \<Rightarrow>
                   if \<not> accepts (rn_phase r1) then (db0, Inl ErrRunNotAccepting)
                   else if rn_resultStatus r1 \<noteq> []
                     then recordSubmissionRejected digest now r ''result'' ''result already recorded'' bytes db0
                   else in_tx (bind_tx (emit digest now ''run.result_recorded''
                            [(''run_id'', JStr runID), (''vm_id'', JStr (rn_vmID r)), (''status'', JStr status),
                             (''size_bytes'', JNum bytes)])
                          (\<lambda>ev db1.
                             let db2 = touch_vm (rn_vmID r) ev (set_run runID
                                   (\<lambda>x. x\<lparr>rn_resultJSON := result, rn_resultStatus := status, rn_resultAt := Some now,
                                            rn_updatedAt := now\<rparr>) db1)
                             in (db2, GetRun db2 runID))) db0))"

section \<open>Reports\<close>

definition PutRunReport ::
  "int \<Rightarrow> string \<Rightarrow> string \<Rightarrow> string \<Rightarrow> nat \<Rightarrow> vmdb \<Rightarrow> vmdb \<times> (store_error + unit)" where
  "PutRunReport now runID json dig opID =
     in_tx (\<lambda>db. if runID \<in> rp_runID ` set (db_reports db) then (db, Inl ErrReportImmutable)
       else (db\<lparr>db_reports := db_reports db @
               [\<lparr>rp_runID = runID, rp_json = json, rp_digest = dig, rp_op = opID, rp_at = now\<rparr>]\<rparr>, Inr ()))"

definition GetRunReport :: "vmdb \<Rightarrow> string \<Rightarrow> store_error + run_report" where
  "GetRunReport db runID =
     (case find (\<lambda>p. rp_runID p = runID) (db_reports db) of None \<Rightarrow> Inl ErrReportNotFound | Some p \<Rightarrow> Inr p)"

section \<open>What the registry of runs keeps\<close>

definition active :: "run \<Rightarrow> bool" where
  "active r \<longleftrightarrow> rn_phase r \<in> set activeRunPhases"

definition run_inv :: "vmdb \<Rightarrow> bool" where
  "run_inv db \<longleftrightarrow>
     distinct (map rn_id (db_runs db))
     \<and> distinct (map (\<lambda>r. (rn_owner r, rn_key r)) (filter (\<lambda>r. rn_key r \<noteq> None) (db_runs db)))
     \<and> distinct (map rn_vmID (filter active (db_runs db)))
     \<and> distinct (map rp_runID (db_reports db))"

definition run_edges :: "(run_phase \<times> run_phase) set" where
  "run_edges = {(p, q). runTransitionAllowed p q}"

text \<open>What may become of a run: its identity stays, and so does everything that has been decided.\<close>

definition run_le :: "run \<Rightarrow> run \<Rightarrow> bool" where
  "run_le r r' \<longleftrightarrow>
     rn_id r' = rn_id r \<and> rn_rowID r' = rn_rowID r \<and> rn_vmID r' = rn_vmID r \<and> rn_owner r' = rn_owner r
     \<and> rn_goal r' = rn_goal r \<and> rn_criteria r' = rn_criteria r \<and> rn_key r' = rn_key r \<and> rn_hash r' = rn_hash r
     \<and> (rn_phase r, rn_phase r') \<in> run_edges\<^sup>*
     \<and> rn_progressSeq r \<le> rn_progressSeq r'
     \<and> (rn_resultStatus r \<noteq> [] \<longrightarrow> rn_resultStatus r' = rn_resultStatus r \<and> rn_resultJSON r' = rn_resultJSON r
          \<and> rn_resultAt r' = rn_resultAt r)
     \<and> (rn_phase r \<in> set terminalRunPhases \<longrightarrow> r' = r)"

definition runs_le :: "vmdb \<Rightarrow> vmdb \<Rightarrow> bool" where
  "runs_le db db' \<longleftrightarrow> (\<forall>r \<in> set (db_runs db). \<exists>r' \<in> set (db_runs db'). run_le r r')
     \<and> (\<exists>more. db_reports db' = db_reports db @ more)"

definition run_kept :: "vmdb \<Rightarrow> vmdb \<Rightarrow> bool" where
  "run_kept db db' \<longleftrightarrow> (run_inv db \<longrightarrow> run_inv db' \<and> runs_le db db')"

lemma run_le_refl [simp]: "run_le r r"
  by (simp add: run_le_def)

lemma run_le_trans: "run_le a b \<Longrightarrow> run_le b c \<Longrightarrow> run_le a c"
  unfolding run_le_def by (auto intro: rtrancl_trans)

lemma runs_le_refl [simp]: "runs_le db db"
  unfolding runs_le_def by (metis append_Nil2 run_le_refl)

lemma runs_le_trans: "runs_le a b \<Longrightarrow> runs_le b c \<Longrightarrow> runs_le a c"
  unfolding runs_le_def by (metis append_assoc run_le_trans)

lemma run_kept_same:
  "db_runs db' = db_runs db \<Longrightarrow> db_reports db' = db_reports db \<Longrightarrow> run_kept db db'"
  unfolding run_kept_def run_inv_def runs_le_def by (simp, metis run_le_refl)

lemma run_kept_refl [simp]: "run_kept db db"
  by (simp add: run_kept_same)

lemma run_kept_trans: "run_kept a b \<Longrightarrow> run_kept b c \<Longrightarrow> run_kept a c"
  unfolding run_kept_def using runs_le_trans by blast

lemma run_kept_cong:
  "run_kept db db1 \<Longrightarrow> db_runs db' = db_runs db1 \<Longrightarrow> db_reports db' = db_reports db1 \<Longrightarrow> run_kept db db'"
  using run_kept_trans run_kept_same by blast

lemma emit_as_shape: "\<exists>s r. emit_as digest prov now kind data db = (db\<lparr>db_ev := s\<rparr>, r)"
  by (auto simp: emit_as_def Let_def split: prod.splits)

lemma emit_shape: "\<exists>s r. emit digest now kind data db = (db\<lparr>db_ev := s\<rparr>, r)"
  by (simp add: emit_def emit_as_shape)

lemma touch_vm_fields [simp]:
  "db_runs (touch_vm i e db) = db_runs db" "db_reports (touch_vm i e db) = db_reports db"
  "db_ev (touch_vm i e db) = db_ev db" "db_res (touch_vm i e db) = db_res db" "db_ops (touch_vm i e db) = db_ops db"
  "db_debt (touch_vm i e db) = db_debt db" "db_nextRow (touch_vm i e db) = db_nextRow db"
  "db_nextOp (touch_vm i e db) = db_nextOp db" "db_nextRun (touch_vm i e db) = db_nextRun db"
  "db_batches (touch_vm i e db) = db_batches db" "db_members (touch_vm i e db) = db_members db"
  "db_nextBatch (touch_vm i e db) = db_nextBatch db"
  "db_vms (touch_vm i e db) = map (\<lambda>v. if vm_id v = i then v\<lparr>vm_lastEvent := e\<rparr> else v) (db_vms db)"
  by (simp_all add: touch_vm_def set_vm_def)

lemma set_run_fields [simp]:
  "db_reports (set_run i f db) = db_reports db" "db_ev (set_run i f db) = db_ev db" "db_vms (set_run i f db) = db_vms db"
  "db_res (set_run i f db) = db_res db" "db_ops (set_run i f db) = db_ops db" "db_debt (set_run i f db) = db_debt db"
  "db_nextRow (set_run i f db) = db_nextRow db" "db_nextOp (set_run i f db) = db_nextOp db"
  "db_nextRun (set_run i f db) = db_nextRun db" "db_batches (set_run i f db) = db_batches db"
  "db_members (set_run i f db) = db_members db" "db_nextBatch (set_run i f db) = db_nextBatch db"
  "db_runs (set_run i f db) = map (\<lambda>r. if rn_id r = i then f r else r) (db_runs db)"
  by (simp_all add: set_run_def)

lemma GetRun_Inr: "GetRun db i = Inr r \<Longrightarrow> r \<in> set (db_runs db) \<and> rn_id r = i"
  using find_key_Some [of rn_id i "db_runs db" r] by (auto simp: GetRun_def split: option.splits)

lemma distinct_map_filter_mono:
  "(\<And>x. x \<in> set xs \<Longrightarrow> k (f x) = k x) \<Longrightarrow> (\<And>x. x \<in> set xs \<Longrightarrow> Q (f x) \<Longrightarrow> P x) \<Longrightarrow>
   distinct (map k (filter P xs)) \<Longrightarrow> distinct (map k (filter Q (map f xs)))"
  by (induction xs) (auto split: if_splits)

text \<open>The two ways the table changes: one row rewritten, one row added.\<close>

lemma run_kept_update:
  assumes runs: "db_runs db' = map (\<lambda>r. if rn_id r = i then f r else r) (db_runs db)"
    and reps: "db_reports db' = db_reports db"
    and le: "\<And>r. r \<in> set (db_runs db) \<Longrightarrow> rn_id r = i \<Longrightarrow> run_le r (f r) \<and> (active (f r) \<longrightarrow> active r)"
  shows "run_kept db db'"
proof -
  let ?g = "\<lambda>r. if rn_id r = i then f r else r"
  have same: "rn_id (?g r) = rn_id r \<and> rn_vmID (?g r) = rn_vmID r \<and> rn_owner (?g r) = rn_owner r \<and> rn_key (?g r) = rn_key r
      \<and> run_le r (?g r) \<and> (active (?g r) \<longrightarrow> active r)" if "r \<in> set (db_runs db)" for r
    using le [OF that] by (auto simp: run_le_def)
  have ids: "map rn_id (map ?g (db_runs db)) = map rn_id (db_runs db)" using same by (simp cong: map_cong)
  have inv: "run_inv db'" if i: "run_inv db"
    unfolding run_inv_def runs reps
  proof (intro conjI)
    show "distinct (map rn_id (map ?g (db_runs db)))" using i unfolding ids by (simp add: run_inv_def)
    show "distinct (map (\<lambda>r. (rn_owner r, rn_key r)) (filter (\<lambda>r. rn_key r \<noteq> None) (map ?g (db_runs db))))"
      by (rule distinct_map_filter_mono [where P = "\<lambda>r. rn_key r \<noteq> None"]) (use same i in \<open>auto simp: run_inv_def\<close>)
    show "distinct (map rn_vmID (filter active (map ?g (db_runs db))))"
      by (rule distinct_map_filter_mono [where P = active]) (use same i in \<open>auto simp: run_inv_def\<close>)
    show "distinct (map rp_runID (db_reports db))" using i by (simp add: run_inv_def)
  qed
  have "\<exists>r' \<in> set (db_runs db'). run_le r r'" if "r \<in> set (db_runs db)" for r
    unfolding runs using same [OF that] by (intro bexI [of _ "?g r"]) (blast, use that in simp)
  with inv show ?thesis unfolding run_kept_def runs_le_def reps by simp
qed

lemma run_inv_insert:
  "run_inv db \<Longrightarrow> rn_id r \<notin> rn_id ` set (db_runs db) \<Longrightarrow>
   \<not> (rn_key r \<noteq> None \<and> (rn_owner r, rn_key r) \<in> (\<lambda>x. (rn_owner x, rn_key x)) ` set (db_runs db)) \<Longrightarrow>
   \<not> (rn_phase r \<in> set activeRunPhases
      \<and> (\<exists>x \<in> set (db_runs db). rn_vmID x = rn_vmID r \<and> rn_phase x \<in> set activeRunPhases)) \<Longrightarrow>
   run_inv (db\<lparr>db_runs := db_runs db @ [r], db_nextRun := n\<rparr>)"
  by (auto simp: run_inv_def active_def)

lemma insert_run_kept: "run_kept db (fst (insert_run mk db))"
proof -
  have "runs_le db (db\<lparr>db_runs := db_runs db @ [r], db_nextRun := n\<rparr>)" for r n
    by (auto simp: runs_le_def intro: run_le_refl)
  then show ?thesis
    unfolding insert_run_def Let_def by (simp only: split: if_split) (simp add: run_kept_def run_inv_insert)
qed

lemma in_tx_kept: "run_kept db (fst (body db)) \<Longrightarrow> run_kept db (fst (in_tx body db))"
  by (auto simp: in_tx_def run_kept_same split: prod.splits sum.splits)

lemma bind_tx_kept:
  "run_kept db (fst (m db)) \<Longrightarrow> (\<And>x db'. m db = (db', Inr x) \<Longrightarrow> run_kept db' (fst (f x db'))) \<Longrightarrow>
   run_kept db (fst (bind_tx m f db))"
  by (auto simp: bind_tx_def intro: run_kept_trans split: prod.splits sum.splits)

lemma emit_kept [simp]: "run_kept db (fst (emit_as digest prov now kind data db))" "run_kept db (fst (emit digest now kind data db))"
  using emit_as_shape [of digest prov now kind data db] emit_shape [of digest now kind data db]
  by (auto intro!: run_kept_same)

lemma touch_vm_kept [simp]: "run_kept db (touch_vm i e db)"
  by (simp add: run_kept_same)

lemma createRunInTx_kept: "run_kept db (fst (createRunInTx digest now runID i db))"
  unfolding createRunInTx_def by (intro bind_tx_kept) (simp_all add: insert_run_kept)

lemma CreateRun_kept: "run_kept db (fst (CreateRun digest now runID i db))"
proof -
  have tx: "run_kept db (fst (bind_tx (emit digest now k d) (\<lambda>ev. bind_tx (insert_run (mk ev)) (\<lambda>_ db1.
       (case g ev db1 of Inl e \<Rightarrow> (touch_vm v ev db1, Inl (h e)) | Inr r \<Rightarrow> (touch_vm v ev db1, Inr (r, False))))) db))"
    for db k d mk v and g :: "nat \<Rightarrow> vmdb \<Rightarrow> store_error + run" and h :: "store_error \<Rightarrow> store_error"
    by (intro bind_tx_kept) (simp_all add: insert_run_kept split: sum.splits)
  show ?thesis
    unfolding CreateRun_def
    by (auto split: sum.splits option.splits intro!: in_tx_kept tx)
qed

lemma run_edge_step: "runTransitionAllowed p q \<Longrightarrow> (p, q) \<in> run_edges\<^sup>*"
  by (auto simp: run_edges_def)

lemma advance_run_le:
  assumes "runTransitionAllowed (rn_phase r) (tr_to t)"
  shows "run_le r (advance_run now t p ev r) \<and> (active (advance_run now t p ev r) \<longrightarrow> active r)"
proof -
  have "rn_phase r \<notin> set terminalRunPhases" "active r"
    using assms by (auto simp: runTransitionAllowed_def validRunTransitions_def terminalRunPhases_def active_def
        activeRunPhases_def split: run_phase.splits)
  with run_edge_step [OF assms] show ?thesis
    by (auto simp: run_le_def advance_run_def Let_def)
qed

text \<open>Every row with the id of a row just read is that row.\<close>

lemma GetRun_unique:
  "run_inv db \<Longrightarrow> GetRun db i = Inr r \<Longrightarrow> x \<in> set (db_runs db) \<Longrightarrow> rn_id x = i \<Longrightarrow> x = r"
  using find_key_distinct [of rn_id "db_runs db" x] by (auto simp: run_inv_def GetRun_def)

text \<open>A transaction that emits an event and then rewrites the run it has read.\<close>

lemma emit_update_kept:
  assumes read: "GetRun db i = Inr r"
    and le: "\<And>ev. run_le r (f ev r) \<and> (active (f ev r) \<longrightarrow> active r)"
    and res: "\<And>ev db1. fst (g ev db1) = touch_vm v ev (set_run i (f ev) db1)"
  shows "run_kept db (fst (bind_tx (emit_as digest prov now k d) g db))"
proof -
  obtain s x where e: "emit_as digest prov now k d db = (db\<lparr>db_ev := s\<rparr>, x)" using emit_as_shape by blast
  have "run_kept db (touch_vm v ev (set_run i (f ev) (db\<lparr>db_ev := s\<rparr>)))" if "run_inv db" for ev
    by (rule run_kept_update [where i = i and f = "f ev"])
      (use le GetRun_unique [OF that read] in auto)
  then have "run_kept db (touch_vm v ev (set_run i (f ev) (db\<lparr>db_ev := s\<rparr>)))" for ev
    unfolding run_kept_def by blast
  then show ?thesis
    unfolding bind_tx_def e by (cases x) (simp_all add: res run_kept_same)
qed

lemma TransitionRun_kept: "run_kept db (fst (TransitionRun digest now t db))"
proof (cases "GetRun db (tr_runID t)")
  case (Inr r)
  show ?thesis
    unfolding TransitionRun_def
    by (rule in_tx_kept) (auto simp: Inr emit_def Let_def advance_run_le
        intro!: emit_update_kept [where f = "advance_run now t (rn_phase r)"])
qed (auto simp: TransitionRun_def intro: in_tx_kept)

lemma rejected_kept [simp]: "run_kept db (fst (recordSubmissionRejected digest now r w reason n db))"
  by (simp add: recordSubmissionRejected_def run_kept_same split: prod.splits)

lemma accepts_open: "accepts (rn_phase r) \<Longrightarrow> rn_phase r \<notin> set terminalRunPhases \<and> active r"
  by (auto simp: accepts_def terminalRunPhases_def active_def activeRunPhases_def)

lemma SubmitRunProgress_kept: "run_kept db (fst (SubmitRunProgress digest decode now runID payload m db))"
proof (cases "GetRun db runID")
  case (Inr r)
  then show ?thesis
    using accepts_open [of r]
    by (auto simp: SubmitRunProgress_def Let_def run_le_def active_def
        intro!: in_tx_kept emit_update_kept [where f = "\<lambda>_ x. x\<lparr>rn_progressSeq := Suc (rn_progressSeq r), rn_updatedAt := now\<rparr>"])
qed (simp add: SubmitRunProgress_def)

lemma SubmitRunResult_kept: "run_kept db (fst (SubmitRunResult digest decode quote now runID result m db))"
proof (cases "GetRun db runID")
  case (Inr r)
  then show ?thesis
    using accepts_open [of r]
    by (auto simp: SubmitRunResult_def Let_def run_le_def active_def emit_def split: sum.splits
        intro!: in_tx_kept emit_update_kept [where i = runID and v = "rn_vmID r"
          and f = "\<lambda>_ x. x\<lparr>rn_resultJSON := result, rn_resultStatus := projr (check_result quote (decode result)),
                           rn_resultAt := Some now, rn_updatedAt := now\<rparr>"])
qed (simp add: SubmitRunResult_def)

lemma PutRunReport_kept: "run_kept db (fst (PutRunReport now runID json dig opID db))"
  unfolding PutRunReport_def
  by (rule in_tx_kept) (auto simp: run_kept_def run_inv_def runs_le_def intro: run_le_refl)

end
