(* ===== verification/VM_Store.thy ===== *)
theory VM_Store
  imports Run_Store
begin

text \<open>
  The VM registry, the operations log and the admission reservations (\<open>src/internal/store/vms.go\<close>) and the
  statements a row makes about a cleanup (\<open>cleanup.go\<close>).

  Every write is one transaction over the tables of \<open>Store_Tables\<close>. The admission decision is a
  function of the reservation totals read in the same transaction, as the \<open>Admit\<close> callbacks are.
  Minted run ids and clock readings are arguments; \<open>redact\<close> stands for the redaction of host text.
  The lemmas give each write's result in closed form; the properties over sequences of calls are in
  \<open>Store_History\<close>.
\<close>

section \<open>Creating a VM\<close>

record run_attachment =
  ra_goal :: string
  ra_criteria :: string
  ra_onCompletion :: string
  ra_progressEvents :: bool

record member_input =
  mi_name :: string
  mi_vmID :: string
  mi_templateID :: string
  mi_templateDigest :: string
  mi_vcpu :: int
  mi_memory :: int
  mi_rootDisk :: int
  mi_workspaceDisk :: int
  mi_memoryTotal :: int
  mi_networkProfile :: string
  mi_networkPolicy :: string
  mi_labels :: "(string \<times> string) list"
  mi_run :: "run_attachment option"

record create_vm_input = member_input +
  ci_owner :: string
  ci_kind :: string
  ci_key :: "string option"
  ci_hash :: string
  ci_admit :: "totals \<Rightarrow> admit_answer"

definition GetVM :: "vmdb \<Rightarrow> string \<Rightarrow> store_error + vm" where
  "GetVM db i = (case find_vm db i of None \<Rightarrow> Inl ErrVMUnknown | Some v \<Rightarrow> Inr v)"

definition GetOperation :: "vmdb \<Rightarrow> nat \<Rightarrow> store_error + operation" where
  "GetOperation db i = (case find_op db i of None \<Rightarrow> Inl ErrOperationUnknown | Some p \<Rightarrow> Inr p)"

definition GetReservation :: "vmdb \<Rightarrow> string \<Rightarrow> store_error + reservation" where
  "GetReservation db i = (case find_res db i of None \<Rightarrow> Inl ErrVMUnknown | Some r \<Rightarrow> Inr r)"

definition insert_vm :: "int \<Rightarrow> string \<Rightarrow> 'a member_input_scheme \<Rightarrow> vmdb \<Rightarrow> vmdb \<times> (store_error + unit)" where
  "insert_vm now owner m db =
     (if mi_vmID m \<in> vm_id ` set (db_vms db) then (db, Inl (StorageError ''insert vm''))
      else (db\<lparr>db_vms := db_vms db @
                [\<lparr>vm_rowID = db_nextRow db, vm_id = mi_vmID m, vm_name = mi_name m, vm_owner = owner,
                  vm_templateID = mi_templateID m, vm_templateDigest = mi_templateDigest m, vm_desired = Running,
                  vm_observed = Provisioning, vm_revision = 1, vm_vcpu = mi_vcpu m, vm_memory = mi_memory m,
                  vm_rootDisk = mi_rootDisk m, vm_workspaceDisk = mi_workspaceDisk m,
                  vm_networkProfile = mi_networkProfile m, vm_networkPolicy = mi_networkPolicy m,
                  vm_labels = mi_labels m, vm_failureStage = None, vm_failureReason = None, vm_bootID = [],
                  vm_images = None, vm_createdAt = now, vm_updatedAt = now, vm_lastEvent = 0\<rparr>],
              db_nextRow := Suc (db_nextRow db)\<rparr>, Inr ()))"

text \<open>The unique index on owner, kind and key holds for the rows that carry a key.\<close>

definition insert_op ::
  "int \<Rightarrow> string \<Rightarrow> string \<Rightarrow> string option \<Rightarrow> string \<Rightarrow> string option \<Rightarrow> string \<Rightarrow> op_state
   \<Rightarrow> (string \<times> string) option \<Rightarrow> vmdb \<Rightarrow> vmdb \<times> (store_error + nat)" where
  "insert_op now owner kind key hash vmID phase st err db =
     (if key \<noteq> None \<and> (owner, kind, key) \<in> (\<lambda>p. (opn_owner p, opn_kind p, opn_key p)) ` set (db_ops db)
      then (db, Inl (StorageError ''insert operation''))
      else (db\<lparr>db_ops := db_ops db @ [\<lparr>opn_id = db_nextOp db, opn_owner = owner, opn_kind = kind, opn_key = key, opn_hash = hash,
                 opn_vmID = vmID, opn_phase = phase, opn_state = st, opn_cause = map_option fst err,
                 opn_message = map_option snd err, opn_attempt = 1, opn_createdAt = now, opn_updatedAt = now\<rparr>],
               db_nextOp := Suc (db_nextOp db)\<rparr>, Inr (db_nextOp db)))"

definition insert_res :: "int \<Rightarrow> 'a member_input_scheme \<Rightarrow> vmdb \<Rightarrow> vmdb \<times> (store_error + unit)" where
  "insert_res now m db =
     (if mi_vmID m \<in> rv_vmID ` set (db_res db) then (db, Inl (StorageError ''insert reservation''))
      else (db\<lparr>db_res := db_res db @
                [\<lparr>rv_vmID = mi_vmID m, rv_memory = mi_memoryTotal m, rv_vcpu = mi_vcpu m,
                  rv_disk = mi_rootDisk m + mi_workspaceDisk m, rv_computeReleased = False, rv_released = False,
                  rv_createdAt = now, rv_updatedAt = now\<rparr>]\<rparr>, Inr ()))"

definition vm_created_data :: "string \<Rightarrow> nat \<Rightarrow> 'a member_input_scheme \<Rightarrow> (string \<times> jval) list" where
  "vm_created_data owner opID m =
     [(''vm_id'', JStr (mi_vmID m)), (''name'', JStr (mi_name m)), (''template_id'', JStr (mi_templateID m)),
      (''template_digest'', JStr (mi_templateDigest m)), (''operation_id'', JStr (FormatOperationID opID)),
      (''owner'', JStr owner),
      (''resources'', JObj [(''vcpu'', JNum (mi_vcpu m)), (''memory_mib'', JNum (mi_memory m)),
         (''root_disk_mib'', JNum (mi_rootDisk m)), (''workspace_disk_mib'', JNum (mi_workspaceDisk m))])]"

definition op_event ::
  "nat \<Rightarrow> string \<Rightarrow> string option \<Rightarrow> string \<Rightarrow> op_state \<Rightarrow> (string \<times> string) option \<Rightarrow> (string \<times> jval) list" where
  "op_event i kind vmID phase st err =
     [(''operation_id'', JStr (FormatOperationID i)), (''kind'', JStr kind),
      (''vm_id'', case vmID of None \<Rightarrow> JNull | Some v \<Rightarrow> JStr v), (''phase'', JStr phase),
      (''state'', JStr (op_state_name st)), (''attempt'', JNum 1)]
     @ (case err of None \<Rightarrow> [] | Some (c, m) \<Rightarrow> [(''error'', JObj [(''cause'', JStr c), (''message'', JStr m)])])"

text \<open>
  The admitted half of a create, shared by single and batch creation: the VM, its operation and its
  reservation with the event that announces them; then the operation's event and the run attached to
  the launch.
\<close>

definition insert_rows ::
  "(envelope \<Rightarrow> string) \<Rightarrow> int \<Rightarrow> string \<Rightarrow> string \<Rightarrow> string option \<Rightarrow> string \<Rightarrow> 'a member_input_scheme
   \<Rightarrow> vmdb \<Rightarrow> vmdb \<times> (store_error + nat)" where
  "insert_rows digest now owner kind key hash m =
     bind_tx (insert_vm now owner m) (\<lambda>_.
     bind_tx (insert_op now owner kind key hash (Some (mi_vmID m)) ''admitted'' OpRunning None) (\<lambda>opID.
     bind_tx (insert_res now m) (\<lambda>_.
     bind_tx (emit digest now ''vm.created'' (vm_created_data owner opID m)) (\<lambda>ev db.
       (touch_vm (mi_vmID m) ev db, Inr opID)))))"

definition attach_run ::
  "(envelope \<Rightarrow> string) \<Rightarrow> int \<Rightarrow> string \<Rightarrow> string \<Rightarrow> 'a member_input_scheme \<Rightarrow> vmdb \<Rightarrow> vmdb \<times> (store_error + unit)" where
  "attach_run digest now runID owner m =
     (case mi_run m of None \<Rightarrow> (\<lambda>db. (db, Inr ()))
      | Some a \<Rightarrow> createRunInTx digest now runID
          \<lparr>cr_vmID = mi_vmID m, cr_owner = owner, cr_goal = ra_goal a, cr_criteria = ra_criteria a,
           cr_onCompletion = ra_onCompletion a, cr_progressEvents = ra_progressEvents a, cr_key = None,
           cr_hash = [], cr_phase = RPending\<rparr>)"

definition insert_admitted ::
  "(envelope \<Rightarrow> string) \<Rightarrow> int \<Rightarrow> string \<Rightarrow> string \<Rightarrow> string \<Rightarrow> string option \<Rightarrow> string \<Rightarrow> 'a member_input_scheme
   \<Rightarrow> vmdb \<Rightarrow> vmdb \<times> (store_error + nat)" where
  "insert_admitted digest now runID owner kind key hash m =
     bind_tx (insert_rows digest now owner kind key hash m) (\<lambda>opID.
     bind_tx (emit digest now ''operation.state_changed'' (op_event opID kind (Some (mi_vmID m)) ''admitted'' OpRunning None)) (\<lambda>_.
     bind_tx (attach_run digest now runID owner m) (\<lambda>_ db.
       (db, Inr opID))))"

definition find_key :: "vmdb \<Rightarrow> string \<Rightarrow> string \<Rightarrow> string option \<Rightarrow> operation option" where
  "find_key db owner kind key =
     (case key of None \<Rightarrow> None
      | Some k \<Rightarrow> find (\<lambda>p. opn_owner p = owner \<and> opn_kind p = kind \<and> opn_key p = Some k) (db_ops db))"

text \<open>
  The outcomes of a create that reach the caller: a VM with its operation (fresh or replayed), or a
  refusal with its durable operation (fresh or replayed).
\<close>

datatype create_outcome = Created vm operation bool | Refused operation bool string string

definition replayedRefusal :: "operation \<Rightarrow> store_error + create_outcome" where
  "replayedRefusal p =
     (case (opn_state p, opn_cause p) of
        (OpFailed, Some c) \<Rightarrow> Inr (Refused p True c (case opn_message p of None \<Rightarrow> [] | Some m \<Rightarrow> m))
      | _ \<Rightarrow> Inl (StorageError ''operation has no vm and no recorded refusal''))"

definition lookupByIdempotencyKey ::
  "vmdb \<Rightarrow> string \<Rightarrow> string \<Rightarrow> string option \<Rightarrow> string \<Rightarrow> store_error + (vm option \<times> operation) option" where
  "lookupByIdempotencyKey db owner kind key hash =
     (case find_key db owner kind key of
        None \<Rightarrow> Inr None
      | Some p0 \<Rightarrow>
          if opn_hash p0 \<noteq> hash then Inl ErrIdempotencyConflict
          else case GetOperation db (opn_id p0) of
            Inl e \<Rightarrow> Inl e
          | Inr p \<Rightarrow>
              (case opn_vmID p of
                 None \<Rightarrow> Inr (Some (None, p))
               | Some v \<Rightarrow> (case GetVM db v of Inl e \<Rightarrow> Inl e | Inr vm \<Rightarrow> Inr (Some (Some vm, p)))))"

definition create_fresh ::
  "(envelope \<Rightarrow> string) \<Rightarrow> int \<Rightarrow> string \<Rightarrow> create_vm_input \<Rightarrow> vmdb \<Rightarrow> vmdb \<times> (store_error + create_outcome)" where
  "create_fresh digest now runID i db =
     (case ci_admit i (reservationTotalsInTx db) of
        AdmitBroken \<Rightarrow> (db, Inl AdmitInternal)
      | Refuse c m \<Rightarrow>
          bind_tx (insert_op now (ci_owner i) (ci_kind i) (ci_key i) (ci_hash i) None ''admission'' OpFailed (Some (c, m))) (\<lambda>opID.
          bind_tx (emit digest now ''operation.state_changed''
                     (op_event opID (ci_kind i) None ''admission'' OpFailed (Some (c, m)))) (\<lambda>_ db1.
            (db1, map_sum id (\<lambda>p. Refused p False c m) (GetOperation db1 opID)))) db
      | Admitted \<Rightarrow>
          bind_tx (insert_admitted digest now runID (ci_owner i) (ci_kind i) (ci_key i) (ci_hash i) i) (\<lambda>opID db1.
            (db1, case GetVM db1 (mi_vmID i) of Inl e \<Rightarrow> Inl e
                  | Inr v \<Rightarrow> map_sum id (\<lambda>p. Created v p False) (GetOperation db1 opID))) db)"

text \<open>
  The key is looked up before the transaction and again inside it. Only a replay that has a VM is
  answered by the first lookup; the replay of a refusal is answered inside.
\<close>

definition CreateVMWithOperation ::
  "(envelope \<Rightarrow> string) \<Rightarrow> int \<Rightarrow> string \<Rightarrow> create_vm_input \<Rightarrow> vmdb \<Rightarrow> vmdb \<times> (store_error + create_outcome)" where
  "CreateVMWithOperation digest now runID i db0 =
     (case lookupByIdempotencyKey db0 (ci_owner i) (ci_kind i) (ci_key i) (ci_hash i) of
        Inl e \<Rightarrow> (db0, Inl e)
      | Inr (Some (Some v, p)) \<Rightarrow> (db0, Inr (Created v p True))
      | Inr _ \<Rightarrow>
          in_tx (\<lambda>db. case lookupByIdempotencyKey db (ci_owner i) (ci_kind i) (ci_key i) (ci_hash i) of
              Inl e \<Rightarrow> (db, Inl e)
            | Inr (Some (None, p)) \<Rightarrow> (db, replayedRefusal p)
            | Inr (Some (Some v, p)) \<Rightarrow> (db, Inr (Created v p True))
            | Inr None \<Rightarrow> create_fresh digest now runID i db) db0)"

section \<open>Moving a VM\<close>

record transition_input =
  ti_vmID :: string
  ti_expectedRevision :: "int option"
  ti_from :: "vm_state option"
  ti_to :: vm_state
  ti_reason :: string
  ti_opID :: nat
  ti_desired :: "vm_state option"
  ti_failureStage :: "string option"
  ti_failureReason :: "string option"
  ti_releaseCompute :: bool
  ti_acquireCompute :: bool
  ti_releaseAll :: bool
  ti_bootID :: "string option"
  ti_images :: "images option"
  ti_admit :: "(totals \<Rightarrow> admit_answer) option"

definition moved_vm :: "int \<Rightarrow> transition_input \<Rightarrow> vm \<Rightarrow> vm" where
  "moved_vm now t v = v\<lparr>vm_observed := ti_to t,
     vm_desired := (case ti_desired t of None \<Rightarrow> vm_desired v | Some d \<Rightarrow> d),
     vm_revision := vm_revision v + 1, vm_failureStage := ti_failureStage t, vm_failureReason := ti_failureReason t,
     vm_bootID := (case ti_bootID t of None \<Rightarrow> vm_bootID v | Some b \<Rightarrow> b),
     vm_images := (case ti_images t of Some im \<Rightarrow> Some im
                   | None \<Rightarrow> if ti_bootID t = None then vm_images v else None),
     vm_updatedAt := now\<rparr>"

definition reservation_flags :: "int \<Rightarrow> transition_input \<Rightarrow> reservation \<Rightarrow> reservation" where
  "reservation_flags now t r =
     (if ti_releaseAll t then r\<lparr>rv_released := True, rv_computeReleased := True, rv_updatedAt := now\<rparr>
      else if ti_releaseCompute t then r\<lparr>rv_computeReleased := True, rv_updatedAt := now\<rparr>
      else if ti_acquireCompute t then r\<lparr>rv_computeReleased := False, rv_updatedAt := now\<rparr>
      else r)"

definition acquire_check :: "transition_input \<Rightarrow> vmdb \<Rightarrow> store_error option" where
  "acquire_check t db =
     (if ti_acquireCompute t then
        (case ti_admit t of None \<Rightarrow> Some AdmitMissing
         | Some admit \<Rightarrow> (case admit (reservationTotalsInTx db) of
              Admitted \<Rightarrow> None | Refuse c m \<Rightarrow> Some (AdmissionRefusal c m) | AdmitBroken \<Rightarrow> Some AdmitInternal))
      else None)"

definition state_changed_data :: "transition_input \<Rightarrow> vm \<Rightarrow> (string \<times> jval) list" where
  "state_changed_data t v =
     [(''vm_id'', JStr (ti_vmID t)), (''from'', JStr (state_name (vm_observed v))), (''to'', JStr (state_name (ti_to t))),
      (''reason'', JStr (ti_reason t)), (''operation_id'', JStr (FormatOperationID (ti_opID t))),
      (''revision'', JStr (format_int (vm_revision v + 1)))]
     @ (case ti_bootID t of None \<Rightarrow> [] | Some b \<Rightarrow> [(''boot_id'', JStr b)])"

definition transition_check :: "transition_input \<Rightarrow> vmdb \<Rightarrow> vm \<Rightarrow> store_error option" where
  "transition_check t db v =
     (if ti_expectedRevision t \<noteq> None \<and> ti_expectedRevision t \<noteq> Some (vm_revision v)
        then Some (RevisionMismatch (vm_revision v))
      else if ti_from t \<noteq> None \<and> ti_from t \<noteq> Some (vm_observed v) then Some (InvalidTransition (vm_observed v) (ti_to t))
      else if \<not> transitionAllowed (vm_observed v) (ti_to t) then Some (InvalidTransition (vm_observed v) (ti_to t))
      else acquire_check t db)"

definition TransitionVM ::
  "(envelope \<Rightarrow> string) \<Rightarrow> int \<Rightarrow> transition_input \<Rightarrow> vmdb \<Rightarrow> vmdb \<times> (store_error + vm)" where
  "TransitionVM digest now t =
     in_tx (\<lambda>db. case find_vm db (ti_vmID t) of
         None \<Rightarrow> (db, Inl ErrVMUnknown)
       | Some v \<Rightarrow>
           (case transition_check t db v of
              Some e \<Rightarrow> (db, Inl e)
            | None \<Rightarrow>
                let db1 = set_vm (ti_vmID t) (moved_vm now t) db;
                    db2 = (if ti_to t \<noteq> Stopped then db1\<lparr>db_debt := filter (\<lambda>i. i \<noteq> ti_vmID t) (db_debt db1)\<rparr> else db1);
                    db3 = set_res (ti_vmID t) (reservation_flags now t) db2
                in bind_tx (emit digest now ''vm.state_changed'' (state_changed_data t v)) (\<lambda>ev.
                   bind_tx (\<lambda>x. (touch_vm (ti_vmID t) ev x, Inr ())) (\<lambda>_.
                   bind_tx (if ti_to t = Deleted
                            then emit digest now ''vm.deleted'' [(''vm_id'', JStr (ti_vmID t)),
                                   (''operation_id'', JStr (FormatOperationID (ti_opID t)))]
                            else (\<lambda>x. (x, Inr 0))) (\<lambda>_ x.
                     (x, GetVM x (ti_vmID t))))) db3))"

section \<open>Operations\<close>

record op_update =
  ou_id :: nat
  ou_phase :: string
  ou_state :: op_state
  ou_ifState :: "op_state option"
  ou_cause :: "string option"
  ou_message :: "string option"

text \<open>
  The event quotes the message whenever there is a cause, without asking whether there is a message.
\<close>

definition op_update_data :: "operation \<Rightarrow> store_error + (string \<times> jval) list" where
  "op_update_data p =
     (let base = [(''operation_id'', JStr (FormatOperationID (opn_id p))), (''kind'', JStr (opn_kind p)),
                  (''phase'', JStr (opn_phase p)), (''state'', JStr (op_state_name (opn_state p))),
                  (''attempt'', JNum (int (opn_attempt p)))]
                 @ (case opn_vmID p of None \<Rightarrow> [] | Some v \<Rightarrow> [(''vm_id'', JStr v)])
      in case opn_cause p of
           None \<Rightarrow> Inr base
         | Some c \<Rightarrow> (case opn_message p of
              None \<Rightarrow> Inl NilDereference
            | Some m \<Rightarrow> Inr (base @ [(''error'', JObj [(''cause'', JStr c), (''message'', JStr m)])])))"

definition UpdateOperation ::
  "(envelope \<Rightarrow> string) \<Rightarrow> int \<Rightarrow> op_update \<Rightarrow> vmdb \<Rightarrow> vmdb \<times> (store_error + operation)" where
  "UpdateOperation digest now u =
     in_tx (\<lambda>db. case find_op db (ou_id u) of
         None \<Rightarrow> (db, Inl ErrOperationUnknown)
       | Some p0 \<Rightarrow>
           if ou_ifState u \<noteq> None \<and> ou_ifState u \<noteq> Some (opn_state p0) then (db, Inl ErrOperationStale)
           else
             let db1 = set_op (ou_id u) (\<lambda>p. p\<lparr>opn_phase := ou_phase u, opn_state := ou_state u, opn_cause := ou_cause u,
                         opn_message := ou_message u, opn_updatedAt := now\<rparr>) db
             in case GetOperation db1 (ou_id u) of
                  Inl e \<Rightarrow> (db1, Inl e)
                | Inr p \<Rightarrow>
                    (case op_update_data p of
                       Inl e \<Rightarrow> (db1, Inl e)
                     | Inr data \<Rightarrow>
                         bind_tx (emit digest now ''operation.state_changed'' data) (\<lambda>_ x. (x, Inr p)) db1))"

definition InsertActionOperation ::
  "(envelope \<Rightarrow> string) \<Rightarrow> int \<Rightarrow> string \<Rightarrow> string \<Rightarrow> string \<Rightarrow> string \<Rightarrow> vmdb \<Rightarrow> vmdb \<times> (store_error + nat)" where
  "InsertActionOperation digest now owner vmID phase hash =
     in_tx (bind_tx (insert_op now owner ''vm.action'' None hash (Some vmID) phase OpRunning None) (\<lambda>opID.
            bind_tx (emit digest now ''operation.state_changed'' (op_event opID ''vm.action'' (Some vmID) phase OpRunning None)) (\<lambda>_ db.
              (db, Inr opID))))"

definition ListOperationsByState :: "vmdb \<Rightarrow> op_state \<Rightarrow> operation list" where
  "ListOperationsByState db st = filter (\<lambda>p. opn_state p = st) (db_ops db)"

section \<open>Reading VMs\<close>

record vm_query =
  vq_includeStoppedCleanup :: bool
  vq_after :: int
  vq_limit :: int
  vq_states :: "vm_state list"
  vq_owner :: string

definition vm_matches :: "vmdb \<Rightarrow> vm_query \<Rightarrow> vm \<Rightarrow> bool" where
  "vm_matches db q v \<longleftrightarrow> vq_after q < int (vm_rowID v)
     \<and> (vq_states q \<noteq> [] \<longrightarrow> vm_observed v \<in> set (vq_states q)
          \<or> (vq_includeStoppedCleanup q \<and> vm_observed v = Stopped \<and> vm_id v \<in> set (db_debt db)))
     \<and> (vq_owner q \<noteq> [] \<longrightarrow> vm_owner v = vq_owner q)"

definition ListVMs :: "vmdb \<Rightarrow> vm_query \<Rightarrow> query_error + vm list" where
  "ListVMs db q =
     (let limit = (if vq_limit q = 0 then DefaultPageLimit else vq_limit q) in
      if limit < 0 \<or> MaxPageLimit < limit then Inl (BoundError (vq_limit q))
      else Inr (take (nat limit) (filter (vm_matches db q) (db_vms db))))"

text \<open>The states that occur, each with the number of its rows.\<close>

definition CountVMsByObservedState :: "vmdb \<Rightarrow> (vm_state \<times> nat) list" where
  "CountVMsByObservedState db =
     map (\<lambda>st. (st, length (filter (\<lambda>v. vm_observed v = st) (db_vms db)))) (remdups (map vm_observed (db_vms db)))"

definition ChangedVMs :: "vmdb \<Rightarrow> int \<Rightarrow> int \<Rightarrow> vm list" where
  "ChangedVMs db since limit =
     (let n = (if limit \<le> 0 then DefaultPageLimit else if MaxPageLimit < limit then MaxPageLimit else limit)
      in take (nat n) (sort_key vm_lastEvent (filter (\<lambda>v. since < int (vm_lastEvent v)) (db_vms db))))"

section \<open>Cleanup records\<close>

text \<open>\<open>utf8.ValidString\<close> on bytes, with the accept ranges of the second byte.\<close>

definition cont :: "nat \<Rightarrow> bool" where
  "cont b \<longleftrightarrow> 0x80 \<le> b \<and> b \<le> 0xBF"

definition second_ok :: "nat \<Rightarrow> nat \<Rightarrow> bool" where
  "second_ok a b \<longleftrightarrow>
     (if a = 0xE0 then 0xA0 \<le> b \<and> b \<le> 0xBF else if a = 0xED then 0x80 \<le> b \<and> b \<le> 0x9F
      else if a = 0xF0 then 0x90 \<le> b \<and> b \<le> 0xBF else if a = 0xF4 then 0x80 \<le> b \<and> b \<le> 0x8F
      else cont b)"

fun utf8_valid :: "nat list \<Rightarrow> bool" where
  "utf8_valid [] = True"
| "utf8_valid (a # s) =
     (if a < 0x80 then utf8_valid s
      else if 0xC2 \<le> a \<and> a \<le> 0xDF then 1 \<le> length s \<and> second_ok a (s ! 0) \<and> utf8_valid (drop 1 s)
      else if 0xE0 \<le> a \<and> a \<le> 0xEF then 2 \<le> length s \<and> second_ok a (s ! 0) \<and> cont (s ! 1) \<and> utf8_valid (drop 2 s)
      else if 0xF0 \<le> a \<and> a \<le> 0xF4
        then 3 \<le> length s \<and> second_ok a (s ! 0) \<and> cont (s ! 1) \<and> cont (s ! 2) \<and> utf8_valid (drop 3 s)
      else False)"

definition bytes_of :: "string \<Rightarrow> nat list" where
  "bytes_of s = map (\<lambda>c. of_char c) s"

function trim_utf8 :: "string \<Rightarrow> string" where
  "trim_utf8 s = (if utf8_valid (bytes_of s) then s else trim_utf8 (butlast s))"
  by auto
termination
  by (relation "measure length") (auto simp: bytes_of_def intro!: diff_less)

declare trim_utf8.simps [simp del]

definition bound_reason :: "string \<Rightarrow> string" where
  "bound_reason s = (if 2048 < length s then trim_utf8 (take 2045 s) @ ''...'' else s)"

definition recordVMStatement ::
  "(envelope \<Rightarrow> string) \<Rightarrow> int \<Rightarrow> string \<Rightarrow> string \<Rightarrow> string \<Rightarrow> (string \<times> jval) list \<Rightarrow> vmdb \<Rightarrow> vmdb \<times> (store_error + unit)" where
  "recordVMStatement digest now kind vmID state data =
     in_tx (bind_tx (emit digest now kind data) (\<lambda>_ db.
       (if kind = ''vm.cleanup_failed'' \<and> state = ''stopped''
           \<and> (\<exists>v \<in> set (db_vms db). vm_id v = vmID \<and> vm_observed v \<in> {Stopping, Stopped}) \<and> vmID \<notin> set (db_debt db)
        then db\<lparr>db_debt := db_debt db @ [vmID]\<rparr> else db, Inr ())))"

definition RecordCleanupFailure ::
  "(envelope \<Rightarrow> string) \<Rightarrow> (string \<Rightarrow> string) \<Rightarrow> int \<Rightarrow> string \<Rightarrow> string \<Rightarrow> string \<Rightarrow> vmdb \<Rightarrow> vmdb \<times> (store_error + unit)" where
  "RecordCleanupFailure digest redact now vmID state reason db =
     (if vmID = [] \<or> state = [] \<or> reason = [] then (db, Inl BadRecord)
      else recordVMStatement digest now ''vm.cleanup_failed'' vmID state
             [(''vm_id'', JStr vmID), (''state'', JStr state), (''reason'', JStr (bound_reason (redact reason)))] db)"

definition RecordReconcileAmbiguity ::
  "(envelope \<Rightarrow> string) \<Rightarrow> (string \<Rightarrow> string) \<Rightarrow> int \<Rightarrow> string \<Rightarrow> string \<Rightarrow> string \<Rightarrow> vmdb \<Rightarrow> vmdb \<times> (store_error + unit)" where
  "RecordReconcileAmbiguity digest redact now vmID state detail db =
     (if vmID = [] \<or> state = [] \<or> detail = [] then (db, Inl BadRecord)
      else recordVMStatement digest now ''vm.reconcile_ambiguous'' vmID state
             [(''vm_id'', JStr vmID), (''state'', JStr state), (''detail'', JStr (redact detail))] db)"

definition ReleaseVMReservations :: "int \<Rightarrow> string \<Rightarrow> vmdb \<Rightarrow> vmdb" where
  "ReleaseVMReservations now vmID db =
     (if \<exists>v \<in> set (db_vms db). vm_id v = vmID \<and> vm_observed v = Failed
      then set_res vmID (\<lambda>r. r\<lparr>rv_released := True, rv_computeReleased := True, rv_updatedAt := now\<rparr>) db else db)"

definition ClearCleanupDebt :: "string \<Rightarrow> vmdb \<Rightarrow> vmdb" where
  "ClearCleanupDebt vmID db = db\<lparr>db_debt := filter (\<lambda>i. i \<noteq> vmID) (db_debt db)\<rparr>"

definition HasCleanupDebt :: "vmdb \<Rightarrow> string \<Rightarrow> bool" where
  "HasCleanupDebt db vmID \<longleftrightarrow> vmID \<in> set (db_debt db)"

section \<open>Closed forms\<close>

lemma trim_utf8_prefix: "\<exists>n \<le> length s. trim_utf8 s = take n s \<and> utf8_valid (bytes_of (take n s))"
proof (induction s rule: trim_utf8.induct)
  case (1 s)
  show ?case
  proof (cases "utf8_valid (bytes_of s)")
    case True
    then show ?thesis by (intro exI [of _ "length s"]) (simp add: trim_utf8.simps [of s])
  next
    case False
    from 1 [OF False] obtain n where "n \<le> length s - 1" "trim_utf8 (butlast s) = take n (butlast s)"
      "utf8_valid (bytes_of (take n (butlast s)))" by auto
    then show ?thesis
      using False by (intro exI [of _ n]) (simp add: trim_utf8.simps [of s] butlast_conv_take min_def)
  qed
qed

lemma bound_reason_length: "length (bound_reason s) \<le> 2048"
  using trim_utf8_prefix [of "take 2045 s"] by (auto simp: bound_reason_def)

lemma find_vm_distinct:
  "distinct (map vm_id (db_vms db)) \<Longrightarrow> v \<in> set (db_vms db) \<Longrightarrow> find_vm db (vm_id v) = Some v"
  by (simp add: find_vm_def find_key_distinct)

text \<open>A transition: refused without a trace in the tables, or the row moved and one event for it.\<close>

definition final_events ::
  "(envelope \<Rightarrow> string) \<Rightarrow> int \<Rightarrow> transition_input \<Rightarrow> vm \<Rightarrow> event_store \<Rightarrow> event_store" where
  "final_events digest now t v s =
     (let s1 = logged digest HostObserved now ''vm.state_changed'' (state_changed_data t v) s
      in if ti_to t = Deleted
         then logged digest HostObserved now ''vm.deleted'' [(''vm_id'', JStr (ti_vmID t)),
                (''operation_id'', JStr (FormatOperationID (ti_opID t)))] s1
         else s1)"

lemma TransitionVM_refused:
  "find_vm db (ti_vmID t) = None \<Longrightarrow> TransitionVM digest now t db = (db, Inl ErrVMUnknown)"
  "find_vm db (ti_vmID t) = Some v \<Longrightarrow> transition_check t db v = Some e \<Longrightarrow> TransitionVM digest now t db = (db, Inl e)"
  by (simp_all add: TransitionVM_def in_tx_def)

lemma TransitionVM_moved:
  assumes inv: "store_inv digest (db_ev db)" and v: "find_vm db (ti_vmID t) = Some v"
    and ok: "transition_check t db v = None"
  shows "TransitionVM digest now t db =
     (db\<lparr>db_ev := final_events digest now t v (db_ev db),
         db_vms := map (\<lambda>x. if vm_id x = ti_vmID t then (moved_vm now t x)\<lparr>vm_lastEvent := es_nextId (db_ev db)\<rparr> else x) (db_vms db),
         db_res := map (\<lambda>r. if rv_vmID r = ti_vmID t then reservation_flags now t r else r) (db_res db),
         db_debt := (if ti_to t \<noteq> Stopped then filter (\<lambda>i. i \<noteq> ti_vmID t) (db_debt db) else db_debt db)\<rparr>,
      Inr ((moved_vm now t v)\<lparr>vm_lastEvent := es_nextId (db_ev db)\<rparr>))"
proof -
  let ?f = "\<lambda>x. (moved_vm now t x)\<lparr>vm_lastEvent := es_nextId (db_ev db)\<rparr>"
  have ids: "vm_id (moved_vm now t x) = vm_id x" for x by (simp add: moved_vm_def)
  have comp: "map (\<lambda>x. if vm_id x = ti_vmID t then x\<lparr>vm_lastEvent := es_nextId (db_ev db)\<rparr> else x)
      (map (\<lambda>x. if vm_id x = ti_vmID t then moved_vm now t x else x) (db_vms db))
      = map (\<lambda>x. if vm_id x = ti_vmID t then ?f x else x) (db_vms db)"
    by (simp add: ids)
  have found: "find (\<lambda>x. vm_id x = ti_vmID t) (map (\<lambda>x. if vm_id x = ti_vmID t then ?f x else x) (db_vms db)) = Some (?f v)"
    using v by (subst find_map_update) (simp_all add: ids find_vm_def)
  show ?thesis
    by (cases "ti_to t = Deleted"; cases "ti_to t = Stopped")
      (simp_all add: TransitionVM_def in_tx_def bind_tx_def v [unfolded find_vm_def] ok Let_def set_vm_def set_res_def touch_vm_def
        emit_eq inv logged_simps final_events_def GetVM_def find_vm_def found comp del: map_map)
qed

end
