(* ===== verification/Batch_Store.thy ===== *)
theory Batch_Store
  imports VM_Store
begin

text \<open>
  Batch creation (\<open>src/internal/store/batches.go\<close>): one transaction that admits the whole batch or none of it
  (\<open>atomic_reservation\<close>), or admits member by member against totals that include the members already
  taken (\<open>best_effort\<close>), with the batch's own idempotency key and operation.

  Each member carries the run id that would be minted for it. A batch id is fresh, so the primary key
  of the member rows is never violated.
\<close>

record member_result =
  mr_position :: nat
  mr_name :: string
  mr_vm :: "vm option"
  mr_op :: "operation option"
  mr_refusal :: "(string \<times> string) option"

datatype reservation_mode = AtomicReservation | BestEffort | OtherMode string

definition mode_name :: "reservation_mode \<Rightarrow> string" where
  "mode_name m = (case m of AtomicReservation \<Rightarrow> ''atomic_reservation'' | BestEffort \<Rightarrow> ''best_effort'' | OtherMode s \<Rightarrow> s)"

record batch_input =
  bi_owner :: string
  bi_key :: "string option"
  bi_hash :: string
  bi_mode :: reservation_mode
  bi_onFailure :: string
  bi_members :: "(string \<times> member_input) list"
  bi_admitBatch :: "totals \<Rightarrow> admit_answer"
  bi_admitMember :: "totals \<Rightarrow> int \<Rightarrow> int \<Rightarrow> int \<Rightarrow> admit_answer"

record batch_result =
  br_batch :: batch
  br_op :: "operation option"
  br_members :: "member_result list"
  br_replay :: bool

definition add_member :: "batch_member \<Rightarrow> vmdb \<Rightarrow> vmdb" where
  "add_member m db = db\<lparr>db_members := db_members db @ [m]\<rparr>"

definition refused_row :: "nat \<Rightarrow> nat \<Rightarrow> string \<Rightarrow> string \<times> string \<Rightarrow> batch_member" where
  "refused_row batchID pos name r =
     \<lparr>bm_batch = batchID, bm_position = pos, bm_name = name, bm_vmID = None, bm_op = None, bm_refusal = Some r\<rparr>"

definition refused_result :: "nat \<Rightarrow> string \<Rightarrow> string \<times> string \<Rightarrow> member_result" where
  "refused_result pos name r =
     \<lparr>mr_position = pos, mr_name = name, mr_vm = None, mr_op = None, mr_refusal = Some r\<rparr>"

definition insertOneMember ::
  "(envelope \<Rightarrow> string) \<Rightarrow> int \<Rightarrow> nat \<Rightarrow> nat \<Rightarrow> string \<Rightarrow> string \<times> member_input \<Rightarrow> vmdb \<Rightarrow> vmdb \<times> (store_error + member_result)" where
  "insertOneMember digest now batchID pos owner rm =
     (let (runID, m) = rm in
      bind_tx (insert_admitted digest now runID owner ''vm.create'' None [] m) (\<lambda>opID db.
        let db1 = add_member \<lparr>bm_batch = batchID, bm_position = pos, bm_name = mi_name m, bm_vmID = Some (mi_vmID m),
                              bm_op = Some opID, bm_refusal = None\<rparr> db
        in (db1, case GetVM db1 (mi_vmID m) of Inl e \<Rightarrow> Inl e
                 | Inr v \<Rightarrow> map_sum id (\<lambda>p. \<lparr>mr_position = pos, mr_name = mi_name m, mr_vm = Some v, mr_op = Some p,
                              mr_refusal = None\<rparr>) (GetOperation db1 opID))))"

fun insertAdmittedMembers ::
  "(envelope \<Rightarrow> string) \<Rightarrow> int \<Rightarrow> nat \<Rightarrow> nat \<Rightarrow> string \<Rightarrow> (string \<times> member_input) list \<Rightarrow> vmdb
   \<Rightarrow> vmdb \<times> (store_error + member_result list)" where
  "insertAdmittedMembers digest now batchID pos owner [] = (\<lambda>db. (db, Inr []))"
| "insertAdmittedMembers digest now batchID pos owner (m # ms) =
     bind_tx (insertOneMember digest now batchID pos owner m) (\<lambda>r.
     bind_tx (insertAdmittedMembers digest now batchID (Suc pos) owner ms) (\<lambda>rs db.
       (db, Inr (r # rs))))"

fun refuse_members :: "nat \<Rightarrow> nat \<Rightarrow> string \<times> string \<Rightarrow> (string \<times> member_input) list \<Rightarrow> vmdb \<Rightarrow> vmdb \<times> member_result list" where
  "refuse_members batchID pos r [] db = (db, [])"
| "refuse_members batchID pos r (m # ms) db =
     (let (db', rs) = refuse_members batchID (Suc pos) r ms (add_member (refused_row batchID pos (mi_name (snd m)) r) db)
      in (db', refused_result pos (mi_name (snd m)) r # rs))"

text \<open>Both modes answer the members' results, the state of the batch's operation and its refusal.\<close>

definition processAtomicBatch ::
  "(envelope \<Rightarrow> string) \<Rightarrow> int \<Rightarrow> nat \<Rightarrow> batch_input \<Rightarrow> vmdb
   \<Rightarrow> vmdb \<times> (store_error + member_result list \<times> op_state \<times> (string \<times> string) option)" where
  "processAtomicBatch digest now batchID i db =
     (case bi_admitBatch i (reservationTotalsInTx db) of
        AdmitBroken \<Rightarrow> (db, Inl AdmitInternal)
      | Refuse c m \<Rightarrow>
          (let (db', rs) = refuse_members batchID 0 (c, m) (bi_members i) db in (db', Inr (rs, OpFailed, Some (c, m))))
      | Admitted \<Rightarrow>
          bind_tx (insertAdmittedMembers digest now batchID 0 (bi_owner i) (bi_members i)) (\<lambda>rs db'.
            (db', Inr (rs, OpRunning, None))) db)"

fun best_effort_loop ::
  "(envelope \<Rightarrow> string) \<Rightarrow> int \<Rightarrow> nat \<Rightarrow> batch_input \<Rightarrow> nat \<Rightarrow> bool \<Rightarrow> (string \<times> string) option \<Rightarrow> (string \<times> member_input) list
   \<Rightarrow> vmdb \<Rightarrow> vmdb \<times> (store_error + member_result list \<times> bool \<times> (string \<times> string) option)" where
  "best_effort_loop digest now batchID i pos admitted lastRefusal [] db = (db, Inr ([], admitted, lastRefusal))"
| "best_effort_loop digest now batchID i pos admitted lastRefusal (m # ms) db =
     (case bi_admitMember i (reservationTotalsInTx db) (mi_memoryTotal (snd m)) (mi_vcpu (snd m))
             (mi_rootDisk (snd m) + mi_workspaceDisk (snd m)) of
        AdmitBroken \<Rightarrow> (db, Inl AdmitInternal)
      | Refuse c msg \<Rightarrow>
          bind_tx (best_effort_loop digest now batchID i (Suc pos) admitted (Some (c, msg)) ms) (\<lambda>(rs, a, l) db'.
            (db', Inr (refused_result pos (mi_name (snd m)) (c, msg) # rs, a, l)))
            (add_member (refused_row batchID pos (mi_name (snd m)) (c, msg)) db)
      | Admitted \<Rightarrow>
          bind_tx (insertOneMember digest now batchID pos (bi_owner i) m) (\<lambda>r.
          bind_tx (best_effort_loop digest now batchID i (Suc pos) True lastRefusal ms) (\<lambda>(rs, a, l) db'.
            (db', Inr (r # rs, a, l)))) db)"

definition processBestEffortBatch ::
  "(envelope \<Rightarrow> string) \<Rightarrow> int \<Rightarrow> nat \<Rightarrow> batch_input \<Rightarrow> vmdb
   \<Rightarrow> vmdb \<times> (store_error + member_result list \<times> op_state \<times> (string \<times> string) option)" where
  "processBestEffortBatch digest now batchID i =
     bind_tx (best_effort_loop digest now batchID i 0 False None (bi_members i)) (\<lambda>(rs, admitted, l) db.
       (db, Inr (rs, if admitted then OpRunning else OpFailed, if admitted then None else l)))"

definition getBatchRow :: "vmdb \<Rightarrow> nat \<Rightarrow> store_error + batch" where
  "getBatchRow db i = (case find (\<lambda>b. bt_id b = i) (db_batches db) of None \<Rightarrow> Inl ErrBatchUnknown | Some b \<Rightarrow> Inr b)"

text \<open>Member rows in order of position, each with its VM and operation as they are now.\<close>

definition load_member :: "vmdb \<Rightarrow> batch_member \<Rightarrow> member_result" where
  "load_member db m = \<lparr>mr_position = bm_position m, mr_name = bm_name m,
     mr_vm = (case bm_vmID m of None \<Rightarrow> None | Some v \<Rightarrow> find_vm db v),
     mr_op = (case bm_op m of None \<Rightarrow> None | Some p \<Rightarrow> find_op db p), mr_refusal = bm_refusal m\<rparr>"

definition GetVMBatch :: "vmdb \<Rightarrow> nat \<Rightarrow> store_error + batch_result" where
  "GetVMBatch db i =
     (case getBatchRow db i of
        Inl e \<Rightarrow> Inl e
      | Inr b \<Rightarrow>
          (case (case bt_op b of None \<Rightarrow> Inr None | Some p \<Rightarrow> map_sum id Some (GetOperation db p)) of
             Inl e \<Rightarrow> Inl e
           | Inr p \<Rightarrow> Inr \<lparr>br_batch = b, br_op = p,
                br_members = map (load_member db) (sort_key bm_position (filter (\<lambda>m. bm_batch m = i) (db_members db))),
                br_replay = False\<rparr>))"

definition lookupBatch :: "vmdb \<Rightarrow> string \<Rightarrow> string option \<Rightarrow> string \<Rightarrow> store_error + batch_result option" where
  "lookupBatch db owner key hash =
     (case key of None \<Rightarrow> Inr None
      | Some k \<Rightarrow>
          (case find (\<lambda>b. bt_owner b = owner \<and> bt_key b = Some k) (db_batches db) of
             None \<Rightarrow> Inr None
           | Some b \<Rightarrow> if bt_hash b \<noteq> hash then Inl ErrIdempotencyConflict
                       else map_sum id (\<lambda>r. Some (r\<lparr>br_replay := True\<rparr>)) (GetVMBatch db (bt_id b))))"

definition insert_batch :: "int \<Rightarrow> batch_input \<Rightarrow> vmdb \<Rightarrow> vmdb \<times> (store_error + nat)" where
  "insert_batch now i db =
     (if bi_key i \<noteq> None \<and> (bi_owner i, bi_key i) \<in> (\<lambda>b. (bt_owner b, bt_key b)) ` set (db_batches db)
      then (db, Inl (StorageError ''insert batch''))
      else (db\<lparr>db_batches := db_batches db @ [\<lparr>bt_id = db_nextBatch db, bt_owner = bi_owner i, bt_key = bi_key i,
                 bt_hash = bi_hash i, bt_mode = mode_name (bi_mode i), bt_onFailure = bi_onFailure i, bt_op = None,
                 bt_createdAt = now, bt_updatedAt = now\<rparr>],
               db_nextBatch := Suc (db_nextBatch db)\<rparr>, Inr (db_nextBatch db)))"

definition set_batch_op :: "nat \<Rightarrow> nat \<Rightarrow> vmdb \<Rightarrow> vmdb" where
  "set_batch_op batchID opID db =
     db\<lparr>db_batches := map (\<lambda>b. if bt_id b = batchID then b\<lparr>bt_op := Some opID\<rparr> else b) (db_batches db)\<rparr>"

definition batch_phase :: "op_state \<Rightarrow> string" where
  "batch_phase st = (if st = OpFailed then ''admission'' else ''admitted'')"

definition batch_fresh ::
  "(envelope \<Rightarrow> string) \<Rightarrow> int \<Rightarrow> batch_input \<Rightarrow> vmdb \<Rightarrow> vmdb \<times> (store_error + batch_result)" where
  "batch_fresh digest now i =
     bind_tx (insert_batch now i) (\<lambda>batchID.
     bind_tx (case bi_mode i of
                AtomicReservation \<Rightarrow> processAtomicBatch digest now batchID i
              | BestEffort \<Rightarrow> processBestEffortBatch digest now batchID i
              | OtherMode _ \<Rightarrow> (\<lambda>db. (db, Inl UnknownMode))) (\<lambda>(rs, st, refusal).
     bind_tx (insert_op now (bi_owner i) ''vm_batch.create'' (bi_key i) (bi_hash i) None (batch_phase st) st refusal) (\<lambda>opID.
     bind_tx (\<lambda>db. (set_batch_op batchID opID db, Inr ())) (\<lambda>_.
     bind_tx (emit digest now ''operation.state_changed''
                (op_event opID ''vm_batch.create'' None (batch_phase st) st refusal)) (\<lambda>_ db.
       (db, case GetOperation db opID of Inl e \<Rightarrow> Inl e
            | Inr p \<Rightarrow> map_sum id (\<lambda>b. \<lparr>br_batch = b, br_op = Some p, br_members = rs, br_replay = False\<rparr>)
                         (getBatchRow db batchID)))))))"

definition CreateVMBatch ::
  "(envelope \<Rightarrow> string) \<Rightarrow> int \<Rightarrow> batch_input \<Rightarrow> vmdb \<Rightarrow> vmdb \<times> (store_error + batch_result)" where
  "CreateVMBatch digest now i db0 =
     (case lookupBatch db0 (bi_owner i) (bi_key i) (bi_hash i) of
        Inl e \<Rightarrow> (db0, Inl e)
      | Inr (Some r) \<Rightarrow> (db0, Inr r)
      | Inr None \<Rightarrow>
          in_tx (\<lambda>db. case lookupBatch db (bi_owner i) (bi_key i) (bi_hash i) of
              Inl e \<Rightarrow> (db, Inl e)
            | Inr (Some r) \<Rightarrow> (db, Inr r)
            | Inr None \<Rightarrow> batch_fresh digest now i db) db0)"

definition UpdateBatchOp ::
  "(envelope \<Rightarrow> string) \<Rightarrow> int \<Rightarrow> nat \<Rightarrow> op_state \<Rightarrow> string \<Rightarrow> string \<Rightarrow> vmdb \<Rightarrow> vmdb \<times> (store_error + unit)" where
  "UpdateBatchOp digest now opID st cause msg db =
     (let (db', r) = UpdateOperation digest now
            \<lparr>ou_id = opID, ou_phase = ''complete'', ou_state = st, ou_ifState = None,
             ou_cause = (if cause \<noteq> [] then Some cause else None), ou_message = (if cause \<noteq> [] then Some msg else None)\<rparr> db
      in (db', map_sum id (\<lambda>_. ()) r))"

end
