(* ===== verification/Store_History.thy ===== *)
theory Store_History
  imports Batch_Store
begin

text \<open>
  What the registry promises over any sequence of store calls. Every call of \<open>vms.go\<close>, \<open>cleanup.go\<close>,
  \<open>runs.go\<close>, \<open>batches.go\<close> and \<open>append.go\<close> is shown to be a sequence of a few elementary writes; the
  invariant of the tables and the relation between a database and its future are proved once per
  elementary write and hold for every call, committed or rolled back.
\<close>

section \<open>The registry as the log tells it\<close>

text \<open>
  Reading the store's own events oldest first: a creation announces a VM, a change of state replaces
  its state and revision, everything else is silent about them.
\<close>

definition quiet :: "string \<Rightarrow> event_row \<Rightarrow> bool" where
  "quiet inst r \<longleftrightarrow> en_source (er_env r) \<noteq> inst \<or> en_kind (er_env r) \<notin> {''vm.created'', ''vm.state_changed''}"

definition data_str :: "envelope \<Rightarrow> string \<Rightarrow> string option" where
  "data_str e k = (case en_data e of None \<Rightarrow> None
     | Some d \<Rightarrow> (case map_of d k of Some (JStr x) \<Rightarrow> Some x | _ \<Rightarrow> None))"

definition log_step :: "string \<Rightarrow> string \<Rightarrow> event_row \<Rightarrow> (string \<times> string) option \<Rightarrow> (string \<times> string) option" where
  "log_step inst i r acc =
     (if quiet inst r \<or> data_str (er_env r) ''vm_id'' \<noteq> Some i then acc
      else if en_kind (er_env r) = ''vm.created'' then Some (''provisioning'', ''1'')
      else (case (data_str (er_env r) ''to'', data_str (er_env r) ''revision'') of
              (Some st, Some n) \<Rightarrow> Some (st, n) | _ \<Rightarrow> None))"

definition log_vm :: "event_store \<Rightarrow> string \<Rightarrow> (string \<times> string) option" where
  "log_vm s i = fold (log_step (es_instance s) i) (es_events s) None"

definition registry_logged :: "vmdb \<Rightarrow> bool" where
  "registry_logged db \<longleftrightarrow> (\<forall>i. log_vm (db_ev db) i =
     map_option (\<lambda>v. (state_name (vm_observed v), format_int (vm_revision v))) (find_vm db i))"

lemma fold_quiet: "\<forall>r \<in> set new. quiet inst r \<Longrightarrow> fold (log_step inst i) new acc = acc"
  by (induction new arbitrary: acc) (auto simp: log_step_def)

lemma log_vm_quiet:
  "es_instance s' = es_instance s \<Longrightarrow> es_events s' = es_events s @ new \<Longrightarrow> \<forall>r \<in> set new. quiet (es_instance s) r \<Longrightarrow>
   log_vm s' i = log_vm s i"
  by (simp add: log_vm_def fold_quiet)

section \<open>Invariant and history\<close>

definition vm_inv :: "vmdb \<Rightarrow> bool" where
  "vm_inv db \<longleftrightarrow>
     distinct (map vm_id (db_vms db))
     \<and> sorted_wrt (<) (map vm_rowID (db_vms db)) \<and> (\<forall>v \<in> set (db_vms db). vm_rowID v < db_nextRow db)
     \<and> map rv_vmID (db_res db) = map vm_id (db_vms db)
     \<and> distinct (map opn_id (db_ops db)) \<and> (\<forall>p \<in> set (db_ops db). opn_id p < db_nextOp db)
     \<and> distinct (map (\<lambda>p. (opn_owner p, opn_kind p, opn_key p)) (filter (\<lambda>p. opn_key p \<noteq> None) (db_ops db)))
     \<and> distinct (db_debt db)
     \<and> (\<forall>i \<in> set (db_debt db). \<exists>v \<in> set (db_vms db). vm_id v = i \<and> vm_observed v \<in> {Stopping, Stopped})"

definition db_inv :: "(envelope \<Rightarrow> string) \<Rightarrow> vmdb \<Rightarrow> bool" where
  "db_inv digest db \<longleftrightarrow> store_inv digest (db_ev db) \<and> vm_inv db \<and> run_inv db \<and> registry_logged db"

definition vm_edges :: "(vm_state \<times> vm_state) set" where
  "vm_edges = {(a, b). transitionAllowed a b}"

text \<open>A VM's future: the same VM, moved along the state machine, one revision per edge.\<close>

definition vm_le :: "vm \<Rightarrow> vm \<Rightarrow> bool" where
  "vm_le v v' \<longleftrightarrow>
     vm_id v' = vm_id v \<and> vm_rowID v' = vm_rowID v \<and> vm_name v' = vm_name v \<and> vm_owner v' = vm_owner v
     \<and> vm_templateID v' = vm_templateID v \<and> vm_templateDigest v' = vm_templateDigest v
     \<and> vm_vcpu v' = vm_vcpu v \<and> vm_memory v' = vm_memory v \<and> vm_rootDisk v' = vm_rootDisk v
     \<and> vm_workspaceDisk v' = vm_workspaceDisk v \<and> vm_labels v' = vm_labels v \<and> vm_createdAt v' = vm_createdAt v
     \<and> (\<exists>k. (vm_observed v, vm_observed v') \<in> vm_edges ^^ k \<and> vm_revision v' = vm_revision v + int k)"

definition op_le :: "operation \<Rightarrow> operation \<Rightarrow> bool" where
  "op_le p p' \<longleftrightarrow> opn_id p' = opn_id p \<and> opn_owner p' = opn_owner p \<and> opn_kind p' = opn_kind p
     \<and> opn_key p' = opn_key p \<and> opn_hash p' = opn_hash p \<and> opn_vmID p' = opn_vmID p"

definition res_le :: "reservation \<Rightarrow> reservation \<Rightarrow> bool" where
  "res_le r r' \<longleftrightarrow> rv_vmID r' = rv_vmID r \<and> rv_memory r' = rv_memory r \<and> rv_vcpu r' = rv_vcpu r \<and> rv_disk r' = rv_disk r
     \<and> (rv_released r \<longrightarrow> rv_released r')"

definition history :: "vmdb \<Rightarrow> vmdb \<Rightarrow> bool" where
  "history db db' \<longleftrightarrow>
     (\<forall>v \<in> set (db_vms db). \<exists>v' \<in> set (db_vms db'). vm_le v v')
     \<and> (\<forall>p \<in> set (db_ops db). \<exists>p' \<in> set (db_ops db'). op_le p p')
     \<and> (\<forall>r \<in> set (db_res db). \<exists>r' \<in> set (db_res db'). res_le r r')
     \<and> runs_le db db' \<and> (\<exists>new. es_events (db_ev db') = es_events (db_ev db) @ new)
     \<and> es_instance (db_ev db') = es_instance (db_ev db) \<and> es_systemSeq (db_ev db) \<le> es_systemSeq (db_ev db')"

lemma vm_le_refl [simp]: "vm_le v v"
proof -
  have "(vm_observed v, vm_observed v) \<in> vm_edges ^^ 0 \<and> vm_revision v = vm_revision v + int 0" by simp
  then show ?thesis unfolding vm_le_def by blast
qed

lemma vm_le_trans: "vm_le a b \<Longrightarrow> vm_le b c \<Longrightarrow> vm_le a c"
proof -
  assume ab: "vm_le a b" and bc: "vm_le b c"
  obtain k where k: "(vm_observed a, vm_observed b) \<in> vm_edges ^^ k" "vm_revision b = vm_revision a + int k"
    using ab by (auto simp: vm_le_def)
  obtain l where l: "(vm_observed b, vm_observed c) \<in> vm_edges ^^ l" "vm_revision c = vm_revision b + int l"
    using bc by (auto simp: vm_le_def)
  have "(vm_observed a, vm_observed c) \<in> vm_edges ^^ (k + l)" using k l by (auto simp: relpow_add)
  then have "\<exists>n. (vm_observed a, vm_observed c) \<in> vm_edges ^^ n \<and> vm_revision c = vm_revision a + int n"
    using k l by (intro exI [of _ "k + l"]) simp
  with ab bc show "vm_le a c" unfolding vm_le_def by simp
qed

lemma op_le_refl [simp]: "op_le p p" by (simp add: op_le_def)
lemma op_le_trans: "op_le a b \<Longrightarrow> op_le b c \<Longrightarrow> op_le a c" by (simp add: op_le_def)
lemma res_le_refl [simp]: "res_le p p" by (simp add: res_le_def)
lemma res_le_trans: "res_le a b \<Longrightarrow> res_le b c \<Longrightarrow> res_le a c" by (simp add: res_le_def)

lemma history_refl [simp]: "history db db"
  unfolding history_def by (auto intro: vm_le_refl op_le_refl res_le_refl)

lemma history_trans:
  assumes "history a b" "history b c"
  shows "history a c"
proof -
  have "\<forall>v \<in> set (db_vms a). \<exists>v' \<in> set (db_vms c). vm_le v v'"
    using assms vm_le_trans unfolding history_def by meson
  moreover have "\<forall>p \<in> set (db_ops a). \<exists>p' \<in> set (db_ops c). op_le p p'"
    using assms op_le_trans unfolding history_def by meson
  moreover have "\<forall>r \<in> set (db_res a). \<exists>r' \<in> set (db_res c). res_le r r'"
    using assms res_le_trans unfolding history_def by meson
  moreover have "runs_le a c" using assms runs_le_trans unfolding history_def by blast
  ultimately show ?thesis using assms unfolding history_def by force
qed

text \<open>
  An interface of steps with an invariant and a preorder each step respects; both carry over to any
  number of steps.
\<close>

locale step_history =
  fixes step :: "vmdb \<Rightarrow> vmdb \<Rightarrow> bool" and inv :: "vmdb \<Rightarrow> bool" and rel :: "vmdb \<Rightarrow> vmdb \<Rightarrow> bool"
  assumes rel_refl: "rel db db"
    and rel_trans: "rel a b \<Longrightarrow> rel b c \<Longrightarrow> rel a c"
    and step_ok: "inv db \<Longrightarrow> step db db' \<Longrightarrow> inv db' \<and> rel db db'"
begin

lemma steps_ok: "step\<^sup>*\<^sup>* db db' \<Longrightarrow> inv db \<Longrightarrow> inv db' \<and> rel db db'"
  by (induction rule: rtranclp_induct) (use rel_refl rel_trans step_ok in blast)+

end

section \<open>Elementary writes\<close>

inductive row_write :: "(envelope \<Rightarrow> string) \<Rightarrow> vmdb \<Rightarrow> vmdb \<Rightarrow> bool" for digest where
  w_log: "store_inv digest s \<Longrightarrow> es_instance s = es_instance (db_ev db) \<Longrightarrow> es_events s = es_events (db_ev db) @ new \<Longrightarrow>
    \<forall>r \<in> set new. quiet (es_instance (db_ev db)) r \<Longrightarrow> es_systemSeq (db_ev db) \<le> es_systemSeq s \<Longrightarrow>
    row_write digest db (db\<lparr>db_ev := s\<rparr>)"
| w_touch: "row_write digest db (touch_vm i e db)"
| w_runs: "run_kept db (db\<lparr>db_runs := rs, db_nextRun := n, db_reports := ps\<rparr>) \<Longrightarrow>
    row_write digest db (db\<lparr>db_runs := rs, db_nextRun := n, db_reports := ps\<rparr>)"
| w_batches: "row_write digest db (db\<lparr>db_batches := bs, db_members := ms, db_nextBatch := n\<rparr>)"
| w_op_new: "opn_id p = db_nextOp db \<Longrightarrow>
    \<not> (opn_key p \<noteq> None \<and> (opn_owner p, opn_kind p, opn_key p) \<in> (\<lambda>p. (opn_owner p, opn_kind p, opn_key p)) ` set (db_ops db)) \<Longrightarrow>
    row_write digest db (db\<lparr>db_ops := db_ops db @ [p], db_nextOp := Suc (db_nextOp db)\<rparr>)"
| w_op_set: "(\<And>p. op_le p (f p)) \<Longrightarrow> row_write digest db (set_op i f db)"
| w_create: "vm_id v \<notin> vm_id ` set (db_vms db) \<Longrightarrow> vm_rowID v = db_nextRow db \<Longrightarrow> vm_observed v = Provisioning \<Longrightarrow>
    vm_revision v = 1 \<Longrightarrow> rv_vmID r = vm_id v \<Longrightarrow> map_of data ''vm_id'' = Some (JStr (vm_id v)) \<Longrightarrow>
    row_write digest db (db\<lparr>db_ev := logged digest HostObserved now ''vm.created'' data (db_ev db),
        db_vms := db_vms db @ [v], db_nextRow := Suc (db_nextRow db), db_res := db_res db @ [r]\<rparr>)"
| w_move: "find_vm db (ti_vmID t) = Some v \<Longrightarrow> transition_check t db v = None \<Longrightarrow>
    row_write digest db (fst (TransitionVM digest now t db))"
| w_release: "row_write digest db (ReleaseVMReservations now i db)"
| w_debt: "v \<in> set (db_vms db) \<Longrightarrow> vm_observed v \<in> {Stopping, Stopped} \<Longrightarrow> vm_id v \<notin> set (db_debt db) \<Longrightarrow>
    row_write digest db (db\<lparr>db_debt := db_debt db @ [vm_id v]\<rparr>)"
| w_clear: "row_write digest db (ClearCleanupDebt i db)"

lemma registry_logged_cong:
  assumes "registry_logged db" "\<And>i. log_vm (db_ev db') i = log_vm (db_ev db) i"
    and "\<And>i. map_option (\<lambda>v. (vm_observed v, vm_revision v)) (find_vm db' i)
             = map_option (\<lambda>v. (vm_observed v, vm_revision v)) (find_vm db i)"
  shows "registry_logged db'"
  unfolding registry_logged_def
proof
  fix i
  let ?h = "\<lambda>p. (state_name (fst p), format_int (snd p))"
  have "map_option (\<lambda>v. (state_name (vm_observed v), format_int (vm_revision v))) x
      = map_option ?h (map_option (\<lambda>v. (vm_observed v, vm_revision v)) x)" for x :: "vm option"
    by (cases x) auto
  then show "log_vm (db_ev db') i = map_option (\<lambda>v. (state_name (vm_observed v), format_int (vm_revision v))) (find_vm db' i)"
    using assms by (simp add: registry_logged_def)
qed

text \<open>A write that leaves VMs, operations, reservations and the log as they are.\<close>

lemma vm_inv_cong:
  "vm_inv db \<Longrightarrow> db_vms db' = db_vms db \<Longrightarrow> db_nextRow db' = db_nextRow db \<Longrightarrow> db_res db' = db_res db \<Longrightarrow> db_ops db' = db_ops db \<Longrightarrow>
   db_nextOp db' = db_nextOp db \<Longrightarrow> db_debt db' = db_debt db \<Longrightarrow> vm_inv db'"
  by (simp add: vm_inv_def)

lemma run_inv_cong: "run_inv db \<Longrightarrow> db_runs db' = db_runs db \<Longrightarrow> db_reports db' = db_reports db \<Longrightarrow> run_inv db'"
  by (simp add: run_inv_def)

lemma runs_le_cong: "db_runs db' = db_runs db \<Longrightarrow> db_reports db' = db_reports db \<Longrightarrow> runs_le db db'"
  by (auto simp: runs_le_def intro: run_le_refl)

lemma find_vm_cong: "db_vms db' = db_vms db \<Longrightarrow> find_vm db' i = find_vm db i"
  by (simp add: find_vm_def)

lemma history_intro:
  assumes "\<And>v. v \<in> set (db_vms db) \<Longrightarrow> \<exists>v' \<in> set (db_vms db'). vm_le v v'"
    and "\<And>p. p \<in> set (db_ops db) \<Longrightarrow> \<exists>p' \<in> set (db_ops db'). op_le p p'"
    and "\<And>r. r \<in> set (db_res db) \<Longrightarrow> \<exists>r' \<in> set (db_res db'). res_le r r'"
    and "runs_le db db'" "es_events (db_ev db') = es_events (db_ev db) @ new" "es_instance (db_ev db') = es_instance (db_ev db)"
    and "es_systemSeq (db_ev db) \<le> es_systemSeq (db_ev db')"
  shows "history db db'"
  using assms unfolding history_def by blast

lemma update_le: "(\<And>x. le x x) \<Longrightarrow> (\<And>x. key x = i \<Longrightarrow> le x (f x)) \<Longrightarrow> v \<in> set xs \<Longrightarrow>
   \<exists>v' \<in> set (map (\<lambda>x. if key x = i then f x else x) xs). le v v'"
  by (rule bexI [of _ "if key v = i then f v else v"]) auto

lemma bex_map_keep: "(\<And>x. P (g x) = P x) \<Longrightarrow> (\<exists>x \<in> set (map g xs). P x) = (\<exists>x \<in> set xs. P x)"
  by simp

lemma ball_map_keep: "(\<And>x. P (g x) = P x) \<Longrightarrow> (\<forall>x \<in> set (map g xs). P x) = (\<forall>x \<in> set xs. P x)"
  by simp

lemma map_map_keep: "(\<And>x. k (g x) = k x) \<Longrightarrow> map k (map g xs) = map k xs"
  by simp

lemma find_map_keep:
  "(\<And>x. key (g x) = key x) \<Longrightarrow> (\<And>x. h (g x) = h x) \<Longrightarrow>
   map_option h (find (\<lambda>x. key x = i) (map g xs)) = map_option h (find (\<lambda>x. key x = i) xs)"
  by (induction xs) auto

lemma log_ok:
  assumes "db_inv digest db" "store_inv digest s" "es_instance s = es_instance (db_ev db)"
    "es_events s = es_events (db_ev db) @ new" "\<forall>r \<in> set new. quiet (es_instance (db_ev db)) r"
    "es_systemSeq (db_ev db) \<le> es_systemSeq s"
  shows "db_inv digest (db\<lparr>db_ev := s\<rparr>) \<and> history db (db\<lparr>db_ev := s\<rparr>)"
proof
  show "db_inv digest (db\<lparr>db_ev := s\<rparr>)"
    using assms registry_logged_cong [of db "db\<lparr>db_ev := s\<rparr>"] log_vm_quiet [OF assms(3,4,5)]
    by (auto simp: db_inv_def find_vm_def elim: vm_inv_cong run_inv_cong)
  show "history db (db\<lparr>db_ev := s\<rparr>)"
    by (rule history_intro [where new = new]) (use assms in \<open>auto intro: vm_le_refl op_le_refl res_le_refl runs_le_cong\<close>)
qed

lemma touch_ok:
  assumes inv: "db_inv digest db"
  shows "db_inv digest (touch_vm i e db) \<and> history db (touch_vm i e db)"
proof
  let ?f = "\<lambda>v. v\<lparr>vm_lastEvent := e\<rparr>" and ?g = "\<lambda>v. if vm_id v = i then v\<lparr>vm_lastEvent := e\<rparr> else v"
  have keep: "vm_id (?g v) = vm_id v" "vm_rowID (?g v) = vm_rowID v" "vm_observed (?g v) = vm_observed v" for v by simp_all
  have maps: "map vm_id (map ?g (db_vms db)) = map vm_id (db_vms db)" "map vm_rowID (map ?g (db_vms db)) = map vm_rowID (db_vms db)"
    by (rule map_map_keep, simp)+
  have ex: "(\<exists>v \<in> set (map ?g (db_vms db)). vm_id v = j \<and> vm_observed v \<in> S) \<longleftrightarrow> (\<exists>v \<in> set (db_vms db). vm_id v = j \<and> vm_observed v \<in> S)" for j S
    by (rule bex_map_keep) (simp only: keep)
  have all: "(\<forall>v \<in> set (map ?g (db_vms db)). vm_rowID v < n) \<longleftrightarrow> (\<forall>v \<in> set (db_vms db). vm_rowID v < n)" for n
    by (rule ball_map_keep) (simp only: keep)
  have "vm_inv (touch_vm i e db)"
    using inv unfolding db_inv_def vm_inv_def touch_vm_fields maps ex all by blast
  moreover have "registry_logged (touch_vm i e db)"
    by (rule registry_logged_cong [of db], use inv in \<open>simp_all only: db_inv_def touch_vm_fields find_vm_def\<close>)
      (rule find_map_keep, simp_all)
  ultimately show "db_inv digest (touch_vm i e db)"
    using inv by (auto simp: db_inv_def elim: run_inv_cong)
  have le: "vm_le v (?f v)" for v using vm_le_refl [of v] by (simp add: vm_le_def)
  show "history db (touch_vm i e db)"
    by (rule history_intro [where new = "[]"])
      (use le update_le [where le = vm_le and key = vm_id and f = ?f] in \<open>auto intro: op_le_refl res_le_refl runs_le_cong simp del: set_map\<close>)
qed

lemma other_ok:
  assumes inv: "db_inv digest db"
    and same: "db_ev db' = db_ev db" "db_vms db' = db_vms db" "db_nextRow db' = db_nextRow db" "db_res db' = db_res db"
      "db_ops db' = db_ops db" "db_nextOp db' = db_nextOp db" "db_debt db' = db_debt db"
    and runs: "run_kept db db'"
  shows "db_inv digest db' \<and> history db db'"
proof
  have r: "run_inv db'" "runs_le db db'" using inv runs by (auto simp: db_inv_def run_kept_def)
  have "registry_logged db'" by (rule registry_logged_cong [of db]) (use inv same in \<open>auto simp: db_inv_def find_vm_def\<close>)
  then show "db_inv digest db'" using inv same r by (auto simp: db_inv_def elim: vm_inv_cong)
  show "history db db'"
    by (rule history_intro [where new = "[]"]) (use same r in \<open>auto intro: vm_le_refl op_le_refl res_le_refl\<close>)
qed

lemma ops_ok:
  assumes inv: "db_inv digest db" and v: "vm_inv (db\<lparr>db_ops := ops, db_nextOp := n\<rparr>)"
    and le: "\<And>p. p \<in> set (db_ops db) \<Longrightarrow> \<exists>p' \<in> set ops. op_le p p'"
  shows "db_inv digest (db\<lparr>db_ops := ops, db_nextOp := n\<rparr>) \<and> history db (db\<lparr>db_ops := ops, db_nextOp := n\<rparr>)"
proof
  have "registry_logged (db\<lparr>db_ops := ops, db_nextOp := n\<rparr>)"
    by (rule registry_logged_cong [of db]) (use inv in \<open>auto simp: db_inv_def find_vm_def\<close>)
  then show "db_inv digest (db\<lparr>db_ops := ops, db_nextOp := n\<rparr>)"
    using inv v by (auto simp: db_inv_def elim: run_inv_cong)
  show "history db (db\<lparr>db_ops := ops, db_nextOp := n\<rparr>)"
    by (rule history_intro [where new = "[]"]) (use le in \<open>auto intro: vm_le_refl res_le_refl runs_le_cong\<close>)
qed

lemma op_new_ok:
  assumes inv: "db_inv digest db" and p: "opn_id p = db_nextOp db"
    "\<not> (opn_key p \<noteq> None \<and> (opn_owner p, opn_kind p, opn_key p) \<in> (\<lambda>p. (opn_owner p, opn_kind p, opn_key p)) ` set (db_ops db))"
  shows "db_inv digest (db\<lparr>db_ops := db_ops db @ [p], db_nextOp := Suc (db_nextOp db)\<rparr>)
    \<and> history db (db\<lparr>db_ops := db_ops db @ [p], db_nextOp := Suc (db_nextOp db)\<rparr>)"
proof (rule ops_ok [OF inv])
  have v: "vm_inv db" using inv by (simp add: db_inv_def)
  then have "opn_id p \<notin> opn_id ` set (db_ops db)" using p(1) by (auto simp: vm_inv_def)
  with v p show "vm_inv (db\<lparr>db_ops := db_ops db @ [p], db_nextOp := Suc (db_nextOp db)\<rparr>)"
    by (auto simp: vm_inv_def less_SucI)
qed (auto intro: op_le_refl)

lemma op_set_ok:
  assumes inv: "db_inv digest db" and f: "\<And>p. op_le p (f p)"
  shows "db_inv digest (set_op i f db) \<and> history db (set_op i f db)"
proof -
  let ?g = "\<lambda>p. if opn_id p = i then f p else p" and ?k = "\<lambda>p. (opn_owner p, opn_kind p, opn_key p)"
  have keep: "opn_id (?g p) = opn_id p" "?k (?g p) = ?k p" "opn_key (?g p) = opn_key p" for p using f [of p] by (auto simp: op_le_def)
  have maps: "map opn_id (map ?g (db_ops db)) = map opn_id (db_ops db)" by (rule map_map_keep) (rule keep)
  have all: "(\<forall>p \<in> set (map ?g (db_ops db)). opn_id p < n) = (\<forall>p \<in> set (db_ops db). opn_id p < n)" for n
    by (rule ball_map_keep) (simp only: keep)
  have "distinct (map ?k (filter (\<lambda>p. opn_key p \<noteq> None) (map ?g (db_ops db))))"
    by (rule distinct_map_filter_mono [where P = "\<lambda>p. opn_key p \<noteq> None"])
      (use keep inv in \<open>auto simp only: db_inv_def vm_inv_def\<close>)
  then have "vm_inv (db\<lparr>db_ops := map ?g (db_ops db), db_nextOp := db_nextOp db\<rparr>)"
    using inv maps all unfolding db_inv_def vm_inv_def by (simp del: map_map set_map)
  from ops_ok [OF inv this] update_le [where le = op_le and key = opn_id and f = f, OF op_le_refl f]
  show ?thesis by (simp add: set_op_def del: set_map)
qed

lemma log_vm_logged:
  assumes "store_inv digest s" "own_kind prov kind"
  shows "log_vm (logged digest prov now kind data s) i = log_step (es_instance s) i (own_row digest prov now kind data s) (log_vm s i)"
  using assms by (simp add: log_vm_def logged_simps)

lemma own_row_env [simp]: "er_env (own_row digest prov now kind data s) = own_env prov now kind data s"
  by (simp add: own_row_def)

lemma quiet_own_row [simp]:
  "quiet (es_instance s) (own_row digest prov now kind data s) \<longleftrightarrow> kind \<notin> {''vm.created'', ''vm.state_changed''}"
  by (simp add: quiet_def)

lemma format_one: "format_int 1 = ''1''"
  by code_simp

lemma create_ok:
  fixes now :: int
  assumes inv: "db_inv digest db"
    and v: "vm_id v \<notin> vm_id ` set (db_vms db)" "vm_rowID v = db_nextRow db" "vm_observed v = Provisioning" "vm_revision v = 1"
    and r: "rv_vmID r = vm_id v" and data: "map_of data ''vm_id'' = Some (JStr (vm_id v))"
  defines "db' \<equiv> db\<lparr>db_ev := logged digest HostObserved now ''vm.created'' data (db_ev db),
        db_vms := db_vms db @ [v], db_nextRow := Suc (db_nextRow db), db_res := db_res db @ [r]\<rparr>"
  shows "db_inv digest db' \<and> history db db'"
proof
  have s: "store_inv digest (db_ev db)" using inv by (simp add: db_inv_def)
  have "log_vm (db_ev db') i = map_option (\<lambda>v. (state_name (vm_observed v), format_int (vm_revision v))) (find_vm db' i)" for i
  proof -
    have "find_vm db (vm_id v) = None" using v(1) by (simp add: find_vm_def find_key_None)
    then have "find_vm db' i = (if i = vm_id v then Some v else find_vm db i)"
      by (auto simp: db'_def find_vm_def find_snoc split: option.splits)
    moreover have "log_vm (db_ev db') i = (if i = vm_id v then Some (''provisioning'', ''1'') else log_vm (db_ev db) i)"
      using s data by (auto simp: db'_def log_vm_logged log_step_def data_str_def)
    ultimately show ?thesis
      using inv v by (simp add: db_inv_def registry_logged_def format_one state_name_def)
  qed
  moreover have "vm_inv db'"
    using inv v r by (auto simp: db_inv_def vm_inv_def db'_def sorted_wrt_append less_SucI)
  moreover have "run_inv db'" using inv by (auto simp: db_inv_def db'_def elim: run_inv_cong)
  ultimately show "db_inv digest db'" using s by (simp add: db_inv_def registry_logged_def db'_def logged_simps)
  show "history db db'"
    by (rule history_intro [where new = "[own_row digest HostObserved now ''vm.created'' data (db_ev db)]"])
      (use s in \<open>auto simp: db'_def logged_simps intro: vm_le_refl op_le_refl res_le_refl runs_le_cong\<close>)
qed

lemma final_events_facts:
  assumes s: "store_inv digest s"
  shows "store_inv digest (final_events digest now t v s)" "es_instance (final_events digest now t v s) = es_instance s"
    "\<exists>new. es_events (final_events digest now t v s) = es_events s @ new"
    "es_systemSeq s \<le> es_systemSeq (final_events digest now t v s)"
    "log_vm (final_events digest now t v s) i =
       (if i = ti_vmID t then Some (state_name (ti_to t), format_int (vm_revision v + 1)) else log_vm s i)"
proof -
  show "store_inv digest (final_events digest now t v s)" "es_instance (final_events digest now t v s) = es_instance s"
    "\<exists>new. es_events (final_events digest now t v s) = es_events s @ new"
    "es_systemSeq s \<le> es_systemSeq (final_events digest now t v s)"
    using s by (simp_all add: final_events_def Let_def logged_simps)
  have "log_vm (final_events digest now t v s) i
      = log_vm (logged digest HostObserved now ''vm.state_changed'' (state_changed_data t v) s) i"
    using s by (simp add: final_events_def Let_def log_vm_logged [where kind = "''vm.deleted''"] logged_simps log_step_def quiet_def)
  then show "log_vm (final_events digest now t v s) i =
       (if i = ti_vmID t then Some (state_name (ti_to t), format_int (vm_revision v + 1)) else log_vm s i)"
    using s by (auto simp: log_vm_logged log_step_def data_str_def state_changed_data_def)
qed

lemma transition_check_edge: "transition_check t db v = None \<Longrightarrow> transitionAllowed (vm_observed v) (ti_to t)"
  by (auto simp: transition_check_def split: if_splits)

lemma moved_le:
  assumes "transitionAllowed (vm_observed v) (ti_to t)"
  shows "vm_le v ((moved_vm now t v)\<lparr>vm_lastEvent := e\<rparr>)"
proof -
  have "(vm_observed v, ti_to t) \<in> vm_edges ^^ 1 \<and> vm_revision v + 1 = vm_revision v + int 1"
    using assms by (simp add: vm_edges_def)
  then have "\<exists>k. (vm_observed v, ti_to t) \<in> vm_edges ^^ k \<and> vm_revision v + 1 = vm_revision v + int k" by blast
  then show ?thesis unfolding vm_le_def by (simp add: moved_vm_def)
qed

lemma flags_le: "res_le r (reservation_flags now t r)"
  by (simp add: res_le_def reservation_flags_def)

lemma debt_after_move:
  assumes debt: "\<forall>i \<in> set debt. \<exists>v \<in> set vms. vm_id v = i \<and> vm_observed v \<in> {Stopping, Stopped}"
    and g: "\<And>x. vm_id (g x) = vm_id x" "\<And>x. vm_observed (g x) = (if vm_id x = k then to else vm_observed x)"
  shows "\<forall>i \<in> set (if to \<noteq> Stopped then filter (\<lambda>i. i \<noteq> k) debt else debt).
     \<exists>x \<in> set (map g vms). vm_id x = i \<and> vm_observed x \<in> {Stopping, Stopped}"
proof
  fix i assume "i \<in> set (if to \<noteq> Stopped then filter (\<lambda>i. i \<noteq> k) debt else debt)"
  then have i: "i \<in> set debt" "i = k \<Longrightarrow> to = Stopped" by (auto split: if_splits)
  then obtain x where x: "x \<in> set vms" "vm_id x = i" "vm_observed x \<in> {Stopping, Stopped}" using debt by blast
  then show "\<exists>x \<in> set (map g vms). vm_id x = i \<and> vm_observed x \<in> {Stopping, Stopped}"
    using i g by (intro bexI [of _ "g x"]) auto
qed

lemma move_ok:
  fixes now :: int
  assumes inv: "db_inv digest db" and v: "find_vm db (ti_vmID t) = Some v" and ok: "transition_check t db v = None"
  defines "db' \<equiv> fst (TransitionVM digest now t db)"
  shows "db_inv digest db' \<and> history db db'"
proof
  let ?e = "es_nextId (db_ev db)"
  let ?f = "\<lambda>x. (moved_vm now t x)\<lparr>vm_lastEvent := ?e\<rparr>" and ?h = "reservation_flags now t"
  let ?g = "\<lambda>x. if vm_id x = ti_vmID t then ?f x else x" and ?rg = "\<lambda>r. if rv_vmID r = ti_vmID t then ?h r else r"
  have s: "store_inv digest (db_ev db)" and vi: "vm_inv db" using inv by (simp_all add: db_inv_def)
  note fin = final_events_facts [OF s, of now t v]
  have db': "db' = db\<lparr>db_ev := final_events digest now t v (db_ev db), db_vms := map ?g (db_vms db),
      db_res := map ?rg (db_res db),
      db_debt := (if ti_to t \<noteq> Stopped then filter (\<lambda>i. i \<noteq> ti_vmID t) (db_debt db) else db_debt db)\<rparr>"
    unfolding db'_def TransitionVM_moved [OF s v ok] by simp
  have ids: "vm_id (?g x) = vm_id x" "vm_rowID (?g x) = vm_rowID x" for x by (simp_all add: moved_vm_def)
  have rids: "rv_vmID (?rg r) = rv_vmID r" for r by (simp add: reservation_flags_def)
  have maps: "map vm_id (map ?g (db_vms db)) = map vm_id (db_vms db)" "map vm_rowID (map ?g (db_vms db)) = map vm_rowID (db_vms db)"
      "map rv_vmID (map ?rg (db_res db)) = map rv_vmID (db_res db)"
    by (rule map_map_keep, rule ids rids)+
  have all: "(\<forall>x \<in> set (map ?g (db_vms db)). vm_rowID x < n) = (\<forall>x \<in> set (db_vms db). vm_rowID x < n)" for n
    by (rule ball_map_keep) (simp only: ids)
  have debt: "\<forall>i \<in> set (db_debt db'). \<exists>x \<in> set (map ?g (db_vms db)). vm_id x = i \<and> vm_observed x \<in> {Stopping, Stopped}"
    using debt_after_move [of "db_debt db" "db_vms db" ?g "ti_vmID t" "ti_to t"] vi by (simp add: db' vm_inv_def moved_vm_def)
  have "distinct (db_debt db')" using vi by (simp add: db' vm_inv_def)
  then have "vm_inv db'"
    using vi debt unfolding vm_inv_def by (simp add: db' maps all del: map_map set_map)
  moreover have "log_vm (db_ev db') i = map_option (\<lambda>v. (state_name (vm_observed v), format_int (vm_revision v))) (find_vm db' i)" for i
  proof -
    have "find_vm db' i = map_option (\<lambda>x. if i = ti_vmID t then ?f x else x) (find_vm db i)"
      unfolding db' find_vm_def by (simp del: map_map, rule find_map_update) (simp add: moved_vm_def)
    then show ?thesis
      using inv v fin(5) [of i] by (auto simp: db' db_inv_def registry_logged_def moved_vm_def option.map_comp comp_def)
  qed
  moreover have "run_inv db'" using inv by (auto simp: db_inv_def db' elim: run_inv_cong)
  ultimately show "db_inv digest db'" using fin(1) by (simp add: db_inv_def registry_logged_def db')
  have "vm_le x (?f x)" if "x \<in> set (db_vms db)" "vm_id x = ti_vmID t" for x
  proof -
    have "x = v" using find_vm_distinct [of db x] v that vi by (auto simp: vm_inv_def)
    then show ?thesis using moved_le [OF transition_check_edge [OF ok]] by simp
  qed
  then have vle: "\<exists>x' \<in> set (map ?g (db_vms db)). vm_le x x'" if "x \<in> set (db_vms db)" for x
    using that by (intro bexI [of _ "?g x"]) (auto intro: vm_le_refl)
  obtain new where new: "es_events (final_events digest now t v (db_ev db)) = es_events (db_ev db) @ new" using fin(3) by blast
  show "history db db'"
    by (rule history_intro [where new = new])
      (use vle new fin(2,4) update_le [where le = res_le and key = rv_vmID and f = ?h, OF res_le_refl flags_le] in
        \<open>auto simp: db' intro: op_le_refl runs_le_cong simp del: set_map\<close>)
qed

lemma res_ok:
  assumes inv: "db_inv digest db" and h: "\<And>r. res_le r (h r)"
  shows "db_inv digest (set_res i h db) \<and> history db (set_res i h db)"
proof
  let ?g = "\<lambda>r. if rv_vmID r = i then h r else r"
  have "map rv_vmID (map ?g (db_res db)) = map rv_vmID (db_res db)" by (rule map_map_keep) (use h in \<open>simp add: res_le_def\<close>)
  then have "vm_inv (set_res i h db)" using inv unfolding db_inv_def vm_inv_def set_res_def by (simp del: map_map set_map)
  moreover have "registry_logged (set_res i h db)"
    by (rule registry_logged_cong [of db]) (use inv in \<open>auto simp: db_inv_def set_res_def find_vm_def\<close>)
  ultimately show "db_inv digest (set_res i h db)" using inv by (auto simp: db_inv_def set_res_def elim: run_inv_cong)
  show "history db (set_res i h db)"
    by (rule history_intro [where new = "[]"])
      (use update_le [where le = res_le and key = rv_vmID and f = h, OF res_le_refl h] in
        \<open>auto simp: set_res_def intro: vm_le_refl op_le_refl runs_le_cong simp del: set_map\<close>)
qed

lemma debt_ok:
  assumes inv: "db_inv digest db" and d: "distinct debt"
    "\<forall>i \<in> set debt. \<exists>v \<in> set (db_vms db). vm_id v = i \<and> vm_observed v \<in> {Stopping, Stopped}"
  shows "db_inv digest (db\<lparr>db_debt := debt\<rparr>) \<and> history db (db\<lparr>db_debt := debt\<rparr>)"
proof
  have "vm_inv (db\<lparr>db_debt := debt\<rparr>)" using inv d unfolding db_inv_def vm_inv_def by simp
  moreover have "registry_logged (db\<lparr>db_debt := debt\<rparr>)"
    by (rule registry_logged_cong [of db]) (use inv in \<open>auto simp: db_inv_def find_vm_def\<close>)
  ultimately show "db_inv digest (db\<lparr>db_debt := debt\<rparr>)" using inv by (auto simp: db_inv_def elim: run_inv_cong)
  show "history db (db\<lparr>db_debt := debt\<rparr>)"
    by (rule history_intro [where new = "[]"]) (auto intro: vm_le_refl op_le_refl res_le_refl runs_le_cong)
qed

lemma row_write_ok:
  assumes "db_inv digest db" "row_write digest db db'"
  shows "db_inv digest db' \<and> history db db'"
  using assms(2)
proof cases
  case (w_log s new)
  then show ?thesis using log_ok [OF assms(1)] by blast
next
  case (w_touch i e)
  then show ?thesis using touch_ok [OF assms(1)] by simp
next
  case (w_runs rs n ps)
  then show ?thesis using other_ok [OF assms(1)] by simp
next
  case (w_batches bs ms n)
  then show ?thesis using other_ok [OF assms(1)] by (simp add: run_kept_same)
next
  case (w_op_new p)
  then show ?thesis using op_new_ok [OF assms(1)] by blast
next
  case (w_op_set f i)
  then show ?thesis using op_set_ok [OF assms(1)] by simp
next
  case (w_create v r data now)
  then show ?thesis using create_ok [OF assms(1)] by simp
next
  case (w_move t v now)
  then show ?thesis using move_ok [OF assms(1)] by simp
next
  case (w_release now i)
  then show ?thesis using res_ok [OF assms(1)] assms(1) by (simp add: ReleaseVMReservations_def res_le_def)
next
  case (w_debt v)
  then show ?thesis using debt_ok [OF assms(1), of "db_debt db @ [vm_id v]"] assms(1)
    by (auto simp: db_inv_def vm_inv_def)
next
  case (w_clear i)
  then show ?thesis using debt_ok [OF assms(1), of "filter (\<lambda>j. j \<noteq> i) (db_debt db)"] assms(1)
    by (auto simp: ClearCleanupDebt_def db_inv_def vm_inv_def)
qed

interpretation rw: step_history "row_write digest" "db_inv digest" history for digest
  by unfold_locales (simp, fact history_trans, fact row_write_ok)

section \<open>Transactions as sequences of writes\<close>

text \<open>
  What a transaction's body did: writes if it succeeded; if it failed, nothing but the event counter
  will be left of it.
\<close>

definition tx_at :: "(envelope \<Rightarrow> string) \<Rightarrow> vmdb \<Rightarrow> vmdb \<times> (store_error + 'a) \<Rightarrow> bool" where
  "tx_at digest db res \<longleftrightarrow> (case res of
      (db', Inr _) \<Rightarrow> (row_write digest)\<^sup>*\<^sup>* db db'
    | (db', Inl _) \<Rightarrow> es_systemSeq (db_ev db) \<le> es_systemSeq (db_ev db'))"

lemma writes_seq:
  "db_inv digest db \<Longrightarrow> (row_write digest)\<^sup>*\<^sup>* db db' \<Longrightarrow> es_systemSeq (db_ev db) \<le> es_systemSeq (db_ev db')"
  using rw.steps_ok [of digest db db'] by (simp add: history_def)

lemma tx_writes: "db_inv digest db \<Longrightarrow> (row_write digest)\<^sup>*\<^sup>* db (fst res) \<Longrightarrow> tx_at digest db res"
  using writes_seq by (auto simp: tx_at_def split: prod.splits sum.splits)

lemma tx_fail [simp]: "tx_at digest db (db, Inl e)"
  by (simp add: tx_at_def)

lemma tx_done [simp]: "tx_at digest db (db, Inr x)"
  by (simp add: tx_at_def)

lemma tx_bind:
  assumes inv: "db_inv digest db" and m: "tx_at digest db (m db)"
    and f: "\<And>x db'. db_inv digest db' \<Longrightarrow> m db = (db', Inr x) \<Longrightarrow> tx_at digest db' (f x db')"
  shows "tx_at digest db (bind_tx m f db)"
proof (cases "m db")
  case (Pair db1 r)
  show ?thesis
  proof (cases r)
    case (Inl e)
    then show ?thesis using m Pair by (simp add: bind_tx_def tx_at_def)
  next
    case (Inr x)
    then have w: "(row_write digest)\<^sup>*\<^sup>* db db1" using m Pair by (simp add: tx_at_def)
    have "tx_at digest db1 (f x db1)" using f rw.steps_ok [OF w inv] Pair Inr by simp
    then show ?thesis
      using w writes_seq [OF inv w] Pair Inr by (auto simp: bind_tx_def tx_at_def split: prod.splits sum.splits)
  qed
qed

lemma in_tx_writes:
  assumes inv: "db_inv digest db" and tx: "tx_at digest db (body db)"
  shows "(row_write digest)\<^sup>*\<^sup>* db (fst (in_tx body db))"
proof (cases "body db")
  case (Pair db' r)
  show ?thesis
  proof (cases r)
    case (Inl e)
    then have le: "es_systemSeq (db_ev db) \<le> es_systemSeq (db_ev db')" using tx Pair by (simp add: tx_at_def)
    have "row_write digest db (db\<lparr>db_ev := db_ev (roll_back db db')\<rparr>)"
      by (rule w_log [where new = "[]"]) (use roll_back_inv [OF _ le] inv le in \<open>simp_all add: db_inv_def\<close>)
    then show ?thesis using Pair Inl by (simp add: in_tx_def roll_back_def r_into_rtranclp)
  next
    case (Inr x)
    then show ?thesis using tx Pair by (simp add: in_tx_def tx_at_def)
  qed
qed

lemma write_logged:
  assumes "db_inv digest db" "own_kind prov kind" "kind \<notin> {''vm.created'', ''vm.state_changed''}"
  shows "row_write digest db (db\<lparr>db_ev := logged digest prov now kind data (db_ev db)\<rparr>)"
  by (rule w_log [where new = "[own_row digest prov now kind data (db_ev db)]"])
    (use assms in \<open>simp_all add: db_inv_def logged_simps\<close>)

lemma tx_emit_as:
  assumes "db_inv digest db" "own_kind prov kind" "kind \<notin> {''vm.created'', ''vm.state_changed''}"
  shows "tx_at digest db (emit_as digest prov now kind data db)"
  using assms write_logged [OF assms] by (simp add: emit_as_eq db_inv_def tx_at_def r_into_rtranclp)

lemma tx_emit:
  assumes "db_inv digest db" "own_kind HostObserved kind" "kind \<notin> {''vm.created'', ''vm.state_changed''}"
  shows "tx_at digest db (emit digest now kind data db)"
  unfolding emit_def by (rule tx_emit_as [OF assms])

lemma tx_touch: "tx_at digest db (touch_vm i e db, Inr x)"
  using w_touch by (simp add: tx_at_def r_into_rtranclp)

section \<open>Every call is a sequence of writes\<close>

text \<open>Inserting a run, and rewriting the run that was read.\<close>

lemma write_runs:
  assumes "run_kept db db'" "db' = db\<lparr>db_runs := db_runs db', db_nextRun := db_nextRun db', db_reports := db_reports db'\<rparr>"
  shows "row_write digest db db'"
  by (subst assms(2), rule w_runs) (use assms in simp)

lemma tx_insert_run: "db_inv digest db \<Longrightarrow> tx_at digest db (insert_run mk db)"
  by (rule tx_writes, assumption, rule r_into_rtranclp, rule write_runs)
    (auto simp: insert_run_kept, simp add: insert_run_def Let_def)

lemma tx_createRun:
  assumes inv: "db_inv digest db"
  shows "tx_at digest db (createRunInTx digest now runID i db)"
  unfolding createRunInTx_def
  by (intro tx_bind inv tx_emit tx_insert_run tx_touch) simp_all

lemma CreateRun_writes:
  assumes inv: "db_inv digest db"
  shows "(row_write digest)\<^sup>*\<^sup>* db (fst (CreateRun digest now runID i db))"
proof -
  have tail: "tx_at digest db1 (case g of Inl e \<Rightarrow> (touch_vm v ev db1, Inl (h e)) | Inr r \<Rightarrow> (touch_vm v ev db1, Inr (r, False)))"
    for g :: "store_error + run" and h :: "store_error \<Rightarrow> store_error" and v ev db1
    using w_touch by (cases g) (simp_all add: tx_at_def r_into_rtranclp)
  have tx: "tx_at digest db1 (bind_tx (emit digest now ''run.created'' d) (\<lambda>ev. bind_tx (insert_run (mk ev)) (\<lambda>_ db1.
       (case g ev db1 of Inl e \<Rightarrow> (touch_vm v ev db1, Inl (h e)) | Inr r \<Rightarrow> (touch_vm v ev db1, Inr (r, False))))) db1)"
    if "db_inv digest db1" for db1 d mk v and g :: "nat \<Rightarrow> vmdb \<Rightarrow> store_error + run" and h :: "store_error \<Rightarrow> store_error"
    by (intro tx_bind that tx_emit tx_insert_run tail) simp_all
  show ?thesis
    unfolding CreateRun_def
    by (auto split: sum.splits option.splits intro!: in_tx_writes inv tx)
qed

text \<open>Emitting an event and rewriting the run that was read.\<close>

lemma tx_emit_update:
  assumes inv: "db_inv digest db" and read: "GetRun db i = Inr r"
    and kind: "own_kind prov k" "k \<notin> {''vm.created'', ''vm.state_changed''}"
    and le: "\<And>ev. run_le r (f ev r) \<and> (active (f ev r) \<longrightarrow> active r)"
    and res: "\<And>ev db1. fst (g ev db1) = touch_vm v ev (set_run i (f ev) db1)"
  shows "tx_at digest db (bind_tx (emit_as digest prov now k d) g db)"
proof -
  let ?db1 = "db\<lparr>db_ev := logged digest prov now k d (db_ev db)\<rparr>" and ?ev = "es_nextId (db_ev db)"
  have s: "store_inv digest (db_ev db)" "run_inv db" using inv by (simp_all add: db_inv_def)
  have "run_kept ?db1 (set_run i (f ?ev) ?db1)"
    by (rule run_kept_update [where i = i and f = "f ?ev"])
      (use le GetRun_unique [OF s(2) read] in auto)
  then have "row_write digest ?db1 (set_run i (f ?ev) ?db1)"
    by (rule write_runs) (simp add: set_run_def)
  then have "(row_write digest)\<^sup>*\<^sup>* db (touch_vm v ?ev (set_run i (f ?ev) ?db1))"
    using write_logged [OF inv kind] w_touch by (meson converse_rtranclp_into_rtranclp r_into_rtranclp)
  then have "(row_write digest)\<^sup>*\<^sup>* db (fst (bind_tx (emit_as digest prov now k d) g db))"
    using res by (simp add: bind_tx_def emit_as_eq s kind)
  then show ?thesis by (rule tx_writes [OF inv])
qed

lemma TransitionRun_writes:
  assumes inv: "db_inv digest db"
  shows "(row_write digest)\<^sup>*\<^sup>* db (fst (TransitionRun digest now t db))"
  unfolding TransitionRun_def
  by (rule in_tx_writes [OF inv])
    (auto simp: emit_def Let_def advance_run_le split: sum.splits
      intro!: tx_emit_update [OF inv, where f = "advance_run now t p" for p])

lemma append_plain_own:
  assumes s: "store_inv digest s" and k: "own_kind HostObserved kind"
  shows "fst (append_plain digest (fst (systemEnvelope s now kind ''registry'' notApplicableQuality data))
      (snd (systemEnvelope s now kind ''registry'' notApplicableQuality data))) = logged digest HostObserved now kind data s"
proof -
  let ?e = "snd (systemEnvelope s now kind ''registry'' notApplicableQuality data)"
  have e: "?e = own_env HostObserved now kind data s" by (simp add: own_env_def systemEnvelope_def Let_def)
  have "admissible ?e"
    using own_env_valid [OF s k] k unfolding e admissible_def by (auto simp: own_kind_def split: option.splits)
  then show ?thesis by (simp add: append_plain_admissible logged_def e) (simp add: systemEnvelope_def Let_def)
qed

lemma rejected_writes:
  assumes inv: "db_inv digest db"
  shows "(row_write digest)\<^sup>*\<^sup>* db (fst (recordSubmissionRejected digest now r w reason n db))"
proof -
  have "store_inv digest (db_ev db)" using inv by (simp add: db_inv_def)
  from append_plain_own [OF this] write_logged [OF inv, of HostObserved "''run.submission_rejected''"]
  show ?thesis by (simp add: recordSubmissionRejected_def case_prod_beta r_into_rtranclp)
qed

lemma SubmitRunProgress_writes:
  assumes inv: "db_inv digest db"
  shows "(row_write digest)\<^sup>*\<^sup>* db (fst (SubmitRunProgress digest decode now runID payload m db))"
proof (cases "GetRun db runID")
  case (Inr r)
  then show ?thesis
    using accepts_open [of r]
    by (auto simp: SubmitRunProgress_def Let_def run_le_def active_def
        intro!: rejected_writes inv in_tx_writes
          tx_emit_update [where f = "\<lambda>_ x. x\<lparr>rn_progressSeq := Suc (rn_progressSeq r), rn_updatedAt := now\<rparr>"])
qed (simp add: SubmitRunProgress_def)

lemma SubmitRunResult_writes:
  assumes inv: "db_inv digest db"
  shows "(row_write digest)\<^sup>*\<^sup>* db (fst (SubmitRunResult digest decode quote now runID result m db))"
proof (cases "GetRun db runID")
  case (Inr r)
  then show ?thesis
    using accepts_open [of r]
    by (auto simp: SubmitRunResult_def Let_def run_le_def active_def emit_def split: sum.splits
        intro!: rejected_writes inv in_tx_writes tx_emit_update [where i = runID and v = "rn_vmID r"
          and f = "\<lambda>_ x. x\<lparr>rn_resultJSON := result, rn_resultStatus := projr (check_result quote (decode result)),
                           rn_resultAt := Some now, rn_updatedAt := now\<rparr>"])
qed (simp add: SubmitRunResult_def)

lemma PutRunReport_writes: "(row_write digest)\<^sup>*\<^sup>* db (fst (PutRunReport now runID json dig opID db))"
  by (rule r_into_rtranclp, rule write_runs [OF PutRunReport_kept]) (simp add: PutRunReport_def in_tx_def)

text \<open>Operations.\<close>

lemma tx_insert_op: "db_inv digest db \<Longrightarrow> tx_at digest db (insert_op now owner kind key hash vmID phase st err db)"
  by (auto simp: insert_op_def tx_at_def intro!: r_into_rtranclp w_op_new)

lemma UpdateOperation_writes:
  assumes inv: "db_inv digest db"
  shows "(row_write digest)\<^sup>*\<^sup>* db (fst (UpdateOperation digest now u db))"
proof -
  let ?db1 = "set_op (ou_id u) (\<lambda>p. p\<lparr>opn_phase := ou_phase u, opn_state := ou_state u, opn_cause := ou_cause u,
                         opn_message := ou_message u, opn_updatedAt := now\<rparr>) db"
  have w: "row_write digest db ?db1" by (rule w_op_set) (simp add: op_le_def)
  then have inv1: "db_inv digest ?db1" and seq: "es_systemSeq (db_ev db) \<le> es_systemSeq (db_ev ?db1)"
    using row_write_ok [OF inv] by (blast, simp add: history_def set_op_def)
  have "tx_at digest db (bind_tx (emit digest now ''operation.state_changed'' data) (\<lambda>_ x. (x, Inr p)) ?db1)" for data and p :: operation
  proof -
    have "tx_at digest ?db1 (bind_tx (emit digest now ''operation.state_changed'' data) (\<lambda>_ x. (x, Inr p)) ?db1)"
      by (intro tx_bind inv1 tx_emit tx_done) simp_all
    then show ?thesis
      using w seq
      by (auto simp: tx_at_def split: prod.splits sum.splits intro: converse_rtranclp_into_rtranclp)
  qed
  moreover have "tx_at digest db (?db1, Inl e)" for e :: store_error
    using seq by (simp add: tx_at_def)
  ultimately show ?thesis
    unfolding UpdateOperation_def
    by (intro in_tx_writes inv) (auto simp: Let_def split: option.splits sum.splits)
qed

lemma InsertActionOperation_writes:
  assumes inv: "db_inv digest db"
  shows "(row_write digest)\<^sup>*\<^sup>* db (fst (InsertActionOperation digest now owner vmID phase hash db))"
  unfolding InsertActionOperation_def by (intro in_tx_writes inv tx_bind tx_insert_op tx_emit tx_done) simp_all

lemma UpdateBatchOp_writes:
  "db_inv digest db \<Longrightarrow> (row_write digest)\<^sup>*\<^sup>* db (fst (UpdateBatchOp digest now opID st cause msg db))"
  unfolding UpdateBatchOp_def by (simp add: case_prod_beta Let_def UpdateOperation_writes)

text \<open>Statements about a cleanup.\<close>

lemma statement_writes:
  assumes inv: "db_inv digest db" and k: "own_kind HostObserved kind" "kind \<notin> {''vm.created'', ''vm.state_changed''}"
  shows "(row_write digest)\<^sup>*\<^sup>* db (fst (recordVMStatement digest now kind vmID state data db))"
  unfolding recordVMStatement_def
  by (intro in_tx_writes inv tx_bind tx_emit k) (auto simp: tx_at_def intro!: r_into_rtranclp w_debt)

lemma TransitionVM_writes:
  assumes inv: "db_inv digest db"
  shows "(row_write digest)\<^sup>*\<^sup>* db (fst (TransitionVM digest now t db))"
proof (cases "find_vm db (ti_vmID t)")
  case (Some v)
  then show ?thesis
    using w_move [OF Some] TransitionVM_refused(2) [OF Some]
    by (cases "transition_check t db v") auto
qed (simp add: TransitionVM_refused)

text \<open>Creating VMs, one or many.\<close>

lemma tx_insert_rows:
  assumes inv: "db_inv digest db"
  shows "tx_at digest db (insert_rows digest now owner kind key hash m db)"
proof (cases "mi_vmID m \<in> vm_id ` set (db_vms db)
    \<or> (key \<noteq> None \<and> (owner, kind, key) \<in> (\<lambda>p. (opn_owner p, opn_kind p, opn_key p)) ` set (db_ops db))
    \<or> mi_vmID m \<in> rv_vmID ` set (db_res db)")
  case True
  then show ?thesis
    by (elim disjE) (auto simp: insert_rows_def bind_tx_def insert_vm_def insert_op_def insert_res_def tx_at_def)
next
  case False
  define p where "p = \<lparr>opn_id = db_nextOp db, opn_owner = owner, opn_kind = kind, opn_key = key, opn_hash = hash,
    opn_vmID = Some (mi_vmID m), opn_phase = ''admitted'', opn_state = OpRunning, opn_cause = None,
    opn_message = None, opn_attempt = 1, opn_createdAt = now, opn_updatedAt = now\<rparr>"
  define v where "v = \<lparr>vm_rowID = db_nextRow db, vm_id = mi_vmID m, vm_name = mi_name m, vm_owner = owner,
    vm_templateID = mi_templateID m, vm_templateDigest = mi_templateDigest m, vm_desired = Running,
    vm_observed = Provisioning, vm_revision = 1, vm_vcpu = mi_vcpu m, vm_memory = mi_memory m,
    vm_rootDisk = mi_rootDisk m, vm_workspaceDisk = mi_workspaceDisk m,
    vm_networkProfile = mi_networkProfile m, vm_networkPolicy = mi_networkPolicy m,
    vm_labels = mi_labels m, vm_failureStage = None, vm_failureReason = None, vm_bootID = [],
    vm_images = None, vm_createdAt = now, vm_updatedAt = now, vm_lastEvent = 0\<rparr>"
  define r where "r = \<lparr>rv_vmID = mi_vmID m, rv_memory = mi_memoryTotal m, rv_vcpu = mi_vcpu m,
    rv_disk = mi_rootDisk m + mi_workspaceDisk m, rv_computeReleased = False, rv_released = False,
    rv_createdAt = now, rv_updatedAt = now\<rparr>"
  let ?db1 = "db\<lparr>db_ops := db_ops db @ [p], db_nextOp := Suc (db_nextOp db)\<rparr>"
  let ?d = "vm_created_data owner (db_nextOp db) m"
  let ?db2 = "?db1\<lparr>db_ev := logged digest HostObserved now ''vm.created'' ?d (db_ev ?db1), db_vms := db_vms ?db1 @ [v],
    db_nextRow := Suc (db_nextRow ?db1), db_res := db_res ?db1 @ [r]\<rparr>"
  have "row_write digest db ?db1" by (rule w_op_new) (use False in \<open>auto simp: p_def\<close>)
  moreover have "row_write digest ?db1 ?db2"
    by (rule w_create) (use False in \<open>auto simp: v_def r_def vm_created_data_def\<close>)
  ultimately have "(row_write digest)\<^sup>*\<^sup>* db (touch_vm (mi_vmID m) (es_nextId (db_ev db)) ?db2)"
    using w_touch by (meson converse_rtranclp_into_rtranclp r_into_rtranclp)
  moreover have "insert_rows digest now owner kind key hash m db
      = (touch_vm (mi_vmID m) (es_nextId (db_ev db)) ?db2, Inr (db_nextOp db))"
    using False inv
    by (simp add: insert_rows_def bind_tx_def insert_vm_def insert_op_def insert_res_def emit_eq db_inv_def p_def v_def r_def)
  ultimately show ?thesis by (simp add: tx_at_def)
qed

lemma tx_insert_admitted:
  assumes inv: "db_inv digest db"
  shows "tx_at digest db (insert_admitted digest now runID owner kind key hash m db)"
proof -
  have "tx_at digest db1 (attach_run digest now runID owner m db1)" if "db_inv digest db1" for db1
    using tx_createRun [OF that] by (simp add: attach_run_def split: option.splits)
  then show ?thesis
    unfolding insert_admitted_def by (intro tx_bind inv tx_insert_rows tx_emit tx_done) simp_all
qed

lemma tx_answer: "tx_at digest db (db, x)"
  by (cases x) simp_all

lemma CreateVM_writes:
  assumes inv: "db_inv digest db"
  shows "(row_write digest)\<^sup>*\<^sup>* db (fst (CreateVMWithOperation digest now runID i db))"
proof -
  have "tx_at digest db (create_fresh digest now runID i db)"
    unfolding create_fresh_def
    by (cases "ci_admit i (reservationTotalsInTx db)"; simp; intro tx_bind inv tx_insert_admitted tx_insert_op tx_emit tx_answer)
      simp_all
  then show ?thesis
    unfolding CreateVMWithOperation_def
    by (auto split: sum.splits option.splits intro!: in_tx_writes inv tx_answer)
qed

lemma write_batches:
  "db' = db\<lparr>db_batches := db_batches db', db_members := db_members db', db_nextBatch := db_nextBatch db'\<rparr> \<Longrightarrow> row_write digest db db'"
  using w_batches by metis

lemma tx_member: "row_write digest db (add_member m db)"
  by (rule write_batches) (simp add: add_member_def)

lemma tx_after:
  assumes inv: "db_inv digest db" and w: "row_write digest db db1" and tx: "db_inv digest db1 \<Longrightarrow> tx_at digest db1 res"
  shows "tx_at digest db res"
proof -
  have i: "db_inv digest db1" "es_systemSeq (db_ev db) \<le> es_systemSeq (db_ev db1)"
    using row_write_ok [OF inv w] by (auto simp: history_def)
  then show ?thesis using tx [OF i(1)] w
    by (auto simp: tx_at_def split: prod.splits sum.splits intro: converse_rtranclp_into_rtranclp)
qed

lemma tx_insertOneMember:
  assumes inv: "db_inv digest db"
  shows "tx_at digest db (insertOneMember digest now batchID pos owner rm db)"
  unfolding insertOneMember_def Let_def case_prod_beta
  by (intro tx_bind inv tx_insert_admitted) (rule tx_after [OF _ tx_member], assumption, rule tx_answer)

lemma tx_insertAdmittedMembers:
  "db_inv digest db \<Longrightarrow> tx_at digest db (insertAdmittedMembers digest now batchID pos owner ms db)"
proof (induction ms arbitrary: pos db)
  case (Cons m ms)
  show ?case unfolding insertAdmittedMembers.simps
    by (intro tx_bind tx_insertOneMember Cons.IH tx_done) (simp_all add: Cons.prems)
qed simp

lemma refuse_members_writes:
  "(row_write digest)\<^sup>*\<^sup>* db (fst (refuse_members batchID pos r ms db))"
proof (induction ms arbitrary: pos db)
  case (Cons m ms)
  have "row_write digest db (add_member (refused_row batchID pos (mi_name (snd m)) r) db)" by (rule tx_member)
  with Cons show ?case by (auto simp: Let_def case_prod_beta intro: converse_rtranclp_into_rtranclp)
qed simp

lemma tx_best_effort:
  "db_inv digest db \<Longrightarrow> tx_at digest db (best_effort_loop digest now batchID i pos a l ms db)"
proof (induction ms arbitrary: pos a l db)
  case (Cons m ms)
  have tail: "tx_at digest db1 (bind_tx (best_effort_loop digest now batchID i (Suc pos) a' l' ms)
      (\<lambda>(rs, a, l) db'. (db', Inr (x # rs, a, l))) db1)" if "db_inv digest db1" for db1 a' l' x
    by (intro tx_bind that Cons.IH) (auto simp: tx_answer)
  have one: "tx_at digest db (bind_tx (insertOneMember digest now batchID pos (bi_owner i) m) (\<lambda>r.
      bind_tx (best_effort_loop digest now batchID i (Suc pos) True l ms) (\<lambda>(rs, a, l) db'. (db', Inr (r # rs, a, l)))) db)"
    by (rule tx_bind [OF Cons.prems]) (simp_all add: tx_insertOneMember Cons.prems tail)
  have refuse: "tx_at digest db (bind_tx (best_effort_loop digest now batchID i (Suc pos) a l' ms)
      (\<lambda>(rs, a, l) db'. (db', Inr (x # rs, a, l))) (add_member y db))" for l' x y
    by (rule tx_after [OF Cons.prems tx_member]) (rule tail)
  show ?case
    by (cases "bi_admitMember i (reservationTotalsInTx db) (mi_memoryTotal (snd m)) (mi_vcpu (snd m))
             (mi_rootDisk (snd m) + mi_workspaceDisk (snd m))")
      (simp_all add: one refuse)
qed simp

lemma CreateVMBatch_writes:
  assumes inv: "db_inv digest db"
  shows "(row_write digest)\<^sup>*\<^sup>* db (fst (CreateVMBatch digest now i db))"
proof -
  have atomic: "tx_at digest db1 (processAtomicBatch digest now b i db1)" if "db_inv digest db1" for b db1
  proof (cases "bi_admitBatch i (reservationTotalsInTx db1)")
    case Admitted
    then show ?thesis unfolding processAtomicBatch_def
      by simp (intro tx_bind that tx_insertAdmittedMembers tx_done)
  next
    case (Refuse c m)
    then show ?thesis using refuse_members_writes [of digest db1 b 0 "(c, m)" "bi_members i"]
      by (simp add: processAtomicBatch_def tx_at_def case_prod_beta)
  qed (simp add: processAtomicBatch_def)
  have best: "tx_at digest db1 (processBestEffortBatch digest now b i db1)" if "db_inv digest db1" for b db1
    unfolding processBestEffortBatch_def by (intro tx_bind that tx_best_effort) (simp add: tx_done split: prod.splits)
  have first: "tx_at digest db1 (insert_batch now i db1)" for db1
    by (auto simp: insert_batch_def tx_at_def intro!: r_into_rtranclp write_batches)
  have back_fill: "tx_at digest db1 (set_batch_op b p db1, Inr ())" for b p db1
    by (auto simp: set_batch_op_def tx_at_def intro!: r_into_rtranclp write_batches)
  have "tx_at digest db (batch_fresh digest now i db)"
    unfolding batch_fresh_def case_prod_beta
    by (intro tx_bind inv first tx_insert_op back_fill tx_emit tx_answer)
      (simp_all add: atomic best split: reservation_mode.splits)
  then show ?thesis
    unfolding CreateVMBatch_def
    by (auto split: sum.splits option.splits intro!: in_tx_writes inv)
qed

text \<open>Events of other producers.\<close>

lemma append_plain_seq: "es_systemSeq (fst (append_plain digest s env)) = es_systemSeq s"
proof (cases "admissible env")
  case True
  then show ?thesis
    by (cases rule: appendInTx_cases [of s env digest]) (simp_all add: append_plain_admissible)
next
  case False
  then show ?thesis using append_plain_refused [OF False, of digest s] by auto
qed

lemma withHealth_seq: "es_systemSeq s \<le> es_systemSeq (withHealth digest now s kind data)"
  by (simp add: withHealth_def systemEnvelope_def Let_def append_plain_seq)

lemma append_plain_rows:
  assumes src: "en_source env \<noteq> es_instance s"
  shows "\<exists>new. es_events (fst (append_plain digest s env)) = es_events s @ new \<and> (\<forall>r \<in> set new. quiet (es_instance s) r)"
proof (cases "admissible env")
  case True
  then show ?thesis
    using src by (cases rule: appendInTx_cases [of s env digest]) (auto simp: append_plain_admissible quiet_def)
next
  case False
  then show ?thesis using append_plain_refused [OF False, of digest s] by auto
qed

lemma Append_writes:
  assumes inv: "db_inv digest db" and src: "en_source env \<noteq> es_instance (db_ev db)"
  shows "row_write digest db (db\<lparr>db_ev := fst (Append digest now (db_ev db) env)\<rparr>)"
proof -
  let ?s = "db_ev db"
  have s: "store_inv digest ?s" using inv by (simp add: db_inv_def)
  obtain s1 res where p: "append_plain digest ?s env = (s1, res)" by force
  obtain new where new: "es_events s1 = es_events ?s @ new" "\<forall>r \<in> set new. quiet (es_instance ?s) r"
    using append_plain_rows [OF src, of digest] p by auto
  have s1: "store_inv digest s1" "es_instance s1 = es_instance ?s" "es_systemSeq s1 = es_systemSeq ?s"
    using append_plain_inv [OF s src] append_plain_seq [of digest ?s env] p by auto
  have "\<exists>new. es_events (fst (Append digest now ?s env)) = es_events ?s @ new \<and> (\<forall>r \<in> set new. quiet (es_instance ?s) r)
      \<and> es_systemSeq ?s \<le> es_systemSeq (fst (Append digest now ?s env))"
  proof (cases res)
    case (Inl e)
    note err = Append_plain_err(2) [OF p [unfolded Inl], of now]
    show ?thesis
    proof (cases "evidence_kind e")
      case (Some k)
      then have k: "k \<in> {''telemetry.unregistered_kind'', ''telemetry.integrity_failure''}"
        by (auto simp: evidence_kind_def split: append_error.splits)
      then have "system_ok k ''store'' notApplicableQuality" using system_ok_health by auto
      with err Some obtain d r where "fst (Append digest now ?s env) = withHealth digest now s1 k d"
        "es_events (withHealth digest now s1 k d) = es_events s1 @ [r]" "en_kind (er_env r) = k"
        using withHealth_row(1) [OF s1(1)] by fastforce
      then show ?thesis using new k withHealth_seq [of s1 digest now k d] s1
        by (intro exI [of _ "new @ [r]"]) (auto simp: quiet_def)
    qed (use err new s1 in auto)
  qed (use Append_plain_ok [of digest ?s env] p new s1 in auto)
  then show ?thesis
    using w_log [OF Append_inv [OF s src, of now]] by blast
qed

section \<open>The store under any sequence of calls\<close>

text \<open>The calls that ask for no compute, and all of them.\<close>

inductive plain_call :: "(envelope \<Rightarrow> string) \<Rightarrow> vmdb \<Rightarrow> vmdb \<Rightarrow> bool" for digest where
  c_update: "plain_call digest db (fst (UpdateOperation digest now u db))"
| c_batch_op: "plain_call digest db (fst (UpdateBatchOp digest now opID st cause msg db))"
| c_action: "plain_call digest db (fst (InsertActionOperation digest now owner vmID phase hash db))"
| c_cleanup: "plain_call digest db (fst (RecordCleanupFailure digest redact now vmID state reason db))"
| c_ambiguous: "plain_call digest db (fst (RecordReconcileAmbiguity digest redact now vmID state reason db))"
| c_release: "plain_call digest db (ReleaseVMReservations now vmID db)"
| c_clear: "plain_call digest db (ClearCleanupDebt vmID db)"
| c_run: "plain_call digest db (fst (CreateRun digest now runID ri db))"
| c_run_move: "plain_call digest db (fst (TransitionRun digest now rt db))"
| c_progress: "plain_call digest db (fst (SubmitRunProgress digest decode now runID payload m db))"
| c_result: "plain_call digest db (fst (SubmitRunResult digest decode quote now runID payload m db))"
| c_report: "plain_call digest db (fst (PutRunReport now runID json dig opID db))"
| c_append: "en_source env \<noteq> es_instance (db_ev db) \<Longrightarrow> plain_call digest db (db\<lparr>db_ev := fst (Append digest now (db_ev db) env)\<rparr>)"

inductive store_call :: "(envelope \<Rightarrow> string) \<Rightarrow> vmdb \<Rightarrow> vmdb \<Rightarrow> bool" for digest where
  c_create: "store_call digest db (fst (CreateVMWithOperation digest now runID i db))"
| c_batch: "store_call digest db (fst (CreateVMBatch digest now b db))"
| c_transition: "store_call digest db (fst (TransitionVM digest now t db))"
| c_plain: "plain_call digest db db' \<Longrightarrow> store_call digest db db'"

inductive_cases plain_callE: "plain_call digest db db'"

lemmas call_writes = CreateVM_writes CreateVMBatch_writes TransitionVM_writes UpdateOperation_writes UpdateBatchOp_writes
  InsertActionOperation_writes CreateRun_writes TransitionRun_writes SubmitRunProgress_writes SubmitRunResult_writes
  PutRunReport_writes

lemma plain_call_writes:
  assumes "plain_call digest db db'" "db_inv digest db"
  shows "(row_write digest)\<^sup>*\<^sup>* db db'"
  using assms(1)
proof cases
  case (c_cleanup redact now vmID state reason)
  then show ?thesis using statement_writes [OF assms(2)] by (simp add: RecordCleanupFailure_def)
next
  case (c_ambiguous redact now vmID state reason)
  then show ?thesis using statement_writes [OF assms(2)] by (simp add: RecordReconcileAmbiguity_def)
next
  case (c_append env now)
  then show ?thesis using Append_writes [OF assms(2)] by blast
qed (use assms(2) call_writes in \<open>auto intro: r_into_rtranclp w_release w_clear\<close>)

lemma store_call_writes:
  assumes "store_call digest db db'" "db_inv digest db"
  shows "(row_write digest)\<^sup>*\<^sup>* db db'"
  using assms(1) by cases (use assms(2) call_writes plain_call_writes in auto)

interpretation sc: step_history "store_call digest" "db_inv digest" history for digest
  by unfold_locales (simp, fact history_trans, use store_call_writes rw.steps_ok in blast)

lemma OpenDB_inv: "UUIDString uuid \<Longrightarrow> db_inv digest (OpenDB uuid)"
  by (auto simp: db_inv_def OpenDB_def vm_inv_def run_inv_def registry_logged_def find_vm_def log_vm_def OpenStore_def store_inv_def)

definition reachable_db :: "(envelope \<Rightarrow> string) \<Rightarrow> string \<Rightarrow> vmdb \<Rightarrow> bool" where
  "reachable_db digest uuid db \<longleftrightarrow> (store_call digest)\<^sup>*\<^sup>* (OpenDB uuid) db"

lemma reachable_inv: "UUIDString uuid \<Longrightarrow> reachable_db digest uuid db \<Longrightarrow> db_inv digest db"
  unfolding reachable_db_def using sc.steps_ok OpenDB_inv by blast

end
