(* ===== verification/Registry_Laws.thy ===== *)
theory Registry_Laws
  imports Store_History
begin

text \<open>
  The properties of the VM and run registry that hold however the store is called: the tables are what
  the log says, a VM and a run have one history each, a create is idempotent, a refusal is durable and
  an atomic batch is all or nothing.
\<close>

section \<open>Properties\<close>

text \<open>A small deployment for the witnesses: one VM, created under a key and moved on by its launch.\<close>

definition demo_input :: create_vm_input where
  "demo_input = \<lparr>mi_name = ''web'', mi_vmID = ''vm-1'', mi_templateID = ''base'', mi_templateDigest = ''d0'', mi_vcpu = 2,
     mi_memory = 512, mi_rootDisk = 1024, mi_workspaceDisk = 1024, mi_memoryTotal = 640, mi_networkProfile = ''none'',
     mi_networkPolicy = ''p0'', mi_labels = [], mi_run = Some \<lparr>ra_goal = ''g'', ra_criteria = ''guest_result'',
     ra_onCompletion = ''stop'', ra_progressEvents = True\<rparr>,
     ci_owner = ''alice'', ci_kind = ''vm.create'', ci_key = Some ''k1'', ci_hash = ''h1'', ci_admit = (\<lambda>_. Admitted)\<rparr>"

definition demo_move :: "vm_state \<Rightarrow> transition_input" where
  "demo_move to = \<lparr>ti_vmID = ''vm-1'', ti_expectedRevision = None, ti_from = None, ti_to = to, ti_reason = ''launch'', ti_opID = 1,
     ti_desired = None, ti_failureStage = None, ti_failureReason = None, ti_releaseCompute = False,
     ti_acquireCompute = False, ti_releaseAll = False, ti_bootID = None, ti_images = None, ti_admit = None\<rparr>"

definition demo_db1 :: vmdb where
  "demo_db1 = fst (CreateVMWithOperation demo_digest 0 ''run-1'' demo_input (OpenDB demo_uuid))"

definition demo_db2 :: vmdb where
  "demo_db2 = fst (TransitionVM demo_digest 1 (demo_move Starting) demo_db1)"

lemma demo_db_reachable: "reachable_db demo_digest demo_uuid demo_db1" "(store_call demo_digest)\<^sup>*\<^sup>* demo_db1 demo_db2"
  "reachable_db demo_digest demo_uuid demo_db2"
proof -
  have "store_call demo_digest (OpenDB demo_uuid) demo_db1" unfolding demo_db1_def by (rule c_create)
  moreover have "store_call demo_digest demo_db1 demo_db2" unfolding demo_db2_def by (rule c_transition)
  ultimately show "reachable_db demo_digest demo_uuid demo_db1" "(store_call demo_digest)\<^sup>*\<^sup>* demo_db1 demo_db2"
    "reachable_db demo_digest demo_uuid demo_db2"
    unfolding reachable_db_def by (auto intro: rtranclp.rtrancl_into_rtrancl)
qed

lemma demo_values:
  "map (\<lambda>v. (vm_id v, vm_observed v, vm_revision v)) (db_vms demo_db1) = [(''vm-1'', Provisioning, 1)]"
  "map (\<lambda>v. (vm_id v, vm_observed v, vm_revision v)) (db_vms demo_db2) = [(''vm-1'', Starting, 2)]"
  "log_vm (db_ev demo_db2) ''vm-1'' = Some (''starting'', ''2'')"
  by code_simp+



lemma calls_ok:
  assumes "UUIDString uuid" "reachable_db digest uuid db" "(store_call digest)\<^sup>*\<^sup>* db db'"
  shows "db_inv digest db" "db_inv digest db'" "history db db'"
  using sc.steps_ok [OF assms(3) reachable_inv [OF assms(1,2)]] reachable_inv [OF assms(1,2)] by blast+

lemma find_vm_later:
  assumes "db_inv digest db'" "history db db'" "find_vm db i = Some v"
  shows "\<exists>v'. find_vm db' i = Some v' \<and> vm_le v v'"
proof -
  have v: "v \<in> set (db_vms db)" "vm_id v = i" using assms(3) find_key_Some [of vm_id i] unfolding find_vm_def by auto
  then obtain v' where "v' \<in> set (db_vms db')" "vm_le v v'" using assms(2) unfolding history_def by blast
  then show ?thesis
    using find_vm_distinct [of db' v'] assms(1) v by (auto simp: db_inv_def vm_inv_def vm_le_def)
qed

lemma deleted_final: "(Deleted, b) \<in> vm_edges ^^ k \<Longrightarrow> b = Deleted \<and> k = 0"
proof (induction k arbitrary: b)
  case (Suc k)
  then obtain y where "(Deleted, y) \<in> vm_edges ^^ k" "(y, b) \<in> vm_edges" by auto
  then have "(Deleted, b) \<in> vm_edges" using Suc.IH by blast
  then show ?case by (simp add: vm_edges_def transitionAllowed_def validTransitions_def)
qed simp

text \<open>
  C11: A VM's record has one history. However the store is called afterwards, a VM stays on record under its id,
  with its owner, its template and its resources; it has moved along the edges of the lifecycle state
  machine and its revision counts them, so an unchanged revision means an unchanged state; and a
  deleted VM stays deleted.
\<close>

theorem vm_lifecycle:
  assumes "UUIDString uuid" "reachable_db digest uuid db" "(store_call digest)\<^sup>*\<^sup>* db db'" "find_vm db i = Some v"
  shows "\<exists>v'. find_vm db' i = Some v' \<and> vm_le v v'
    \<and> (vm_revision v' = vm_revision v \<longrightarrow> vm_observed v' = vm_observed v)
    \<and> (vm_observed v = Deleted \<longrightarrow> vm_observed v' = Deleted \<and> vm_revision v' = vm_revision v)"
proof -
  note c = calls_ok [OF assms(1-3)]
  obtain v' where v': "find_vm db' i = Some v'" "vm_le v v'" using find_vm_later [OF c(2,3) assms(4)] by blast
  then obtain k where "(vm_observed v, vm_observed v') \<in> vm_edges ^^ k" "vm_revision v' = vm_revision v + int k"
    by (auto simp: vm_le_def)
  then show ?thesis using v' deleted_final by (intro exI [of _ v']) auto
qed

theorem vm_lifecycle_witness:
  "UUIDString demo_uuid \<and> reachable_db demo_digest demo_uuid demo_db1 \<and> (store_call demo_digest)\<^sup>*\<^sup>* demo_db1 demo_db2
   \<and> (\<exists>v. find_vm demo_db1 ''vm-1'' = Some v \<and> (\<exists>v'. find_vm demo_db2 ''vm-1'' = Some v' \<and> vm_le v v'))"
proof -
  have "find_vm demo_db1 ''vm-1'' \<noteq> None" by code_simp
  then obtain v where v: "find_vm demo_db1 ''vm-1'' = Some v" by blast
  from vm_lifecycle [OF demo_uuid_ok(1) demo_db_reachable(1,2) v] v demo_uuid_ok demo_db_reachable show ?thesis by blast
qed

lemma find_prefix: "find P xs = Some x \<Longrightarrow> find P (xs @ ys) = Some x"
  by (induction xs) (auto split: if_splits)

text \<open>
  C12: A run has one outcome. However the store is called afterwards, a run stays on record, has moved along the
  phase machine only, keeps its first recorded result, and is frozen once it is concluded; a VM never
  has two active runs; and a stored report is never replaced.
\<close>

theorem run_lifecycle:
  assumes "UUIDString uuid" "reachable_db digest uuid db" "(store_call digest)\<^sup>*\<^sup>* db db'"
  shows "(\<forall>i r. GetRun db i = Inr r \<longrightarrow> (\<exists>r'. GetRun db' i = Inr r' \<and> run_le r r'))
    \<and> (\<forall>x \<in> set (db_runs db'). \<forall>y \<in> set (db_runs db'). active x \<and> active y \<and> rn_vmID x = rn_vmID y \<longrightarrow> x = y)
    \<and> (\<forall>i p. GetRunReport db i = Inr p \<longrightarrow> GetRunReport db' i = Inr p)"
proof (intro conjI allI ballI impI)
  note c = calls_ok [OF assms]
  have ri: "run_inv db'" and le: "runs_le db db'" using c by (simp_all add: db_inv_def history_def)
  show "\<exists>r'. GetRun db' i = Inr r' \<and> run_le r r'" if r: "GetRun db i = Inr r" for i r
  proof -
    obtain r' where r': "r' \<in> set (db_runs db')" "run_le r r'" using GetRun_Inr [OF r] le by (auto simp: runs_le_def)
    then have "rn_id r' = i" using GetRun_Inr [OF r] by (simp add: run_le_def)
    then show ?thesis using find_key_distinct [of rn_id "db_runs db'" r'] r' ri by (auto simp: GetRun_def run_inv_def)
  qed
  show "x = y" if "x \<in> set (db_runs db')" "y \<in> set (db_runs db')" "active x \<and> active y \<and> rn_vmID x = rn_vmID y" for x y
  proof -
    have "inj_on rn_vmID (set (filter active (db_runs db')))" using ri by (simp add: run_inv_def distinct_map)
    then show ?thesis using that by (auto dest: inj_onD)
  qed
  show "GetRunReport db' i = Inr p" if "GetRunReport db i = Inr p" for i p
    using that le by (auto simp: GetRunReport_def runs_le_def find_prefix split: option.splits)
qed

theorem run_lifecycle_witness:
  "UUIDString demo_uuid \<and> reachable_db demo_digest demo_uuid demo_db1 \<and> (store_call demo_digest)\<^sup>*\<^sup>* demo_db1 demo_db2
   \<and> (\<exists>r. GetRun demo_db1 ''run-1'' = Inr r \<and> rn_phase r = RPending \<and> (\<exists>r'. GetRun demo_db2 ''run-1'' = Inr r' \<and> run_le r r'))"
proof -
  have "map_sum id rn_phase (GetRun demo_db1 ''run-1'') = Inr RPending" by code_simp
  then obtain r where r: "GetRun demo_db1 ''run-1'' = Inr r" "rn_phase r = RPending"
    by (cases "GetRun demo_db1 ''run-1''") auto
  from run_lifecycle [OF demo_uuid_ok(1) demo_db_reachable(1,2)] r demo_uuid_ok demo_db_reachable show ?thesis by blast
qed

section \<open>Idempotent creation\<close>

lemma emit_ops: "emit digest now kind data db = (db1, x) \<Longrightarrow> db_ops db1 = db_ops db"
  using emit_shape [of digest now kind data db] by auto

lemma bind_InrE:
  assumes "bind_tx m f db = (db2, Inr y)"
  obtains db1 x where "m db = (db1, Inr x)" "f x db1 = (db2, Inr y)"
  using assms by (auto simp: bind_tx_def split: prod.splits sum.splits)

lemma attach_run_ops: "attach_run digest now runID owner m db = (db1, Inr u) \<Longrightarrow> db_ops db1 = db_ops db"
  unfolding attach_run_def createRunInTx_def
  by (auto split: option.splits if_splits elim!: bind_InrE dest!: emit_ops simp: insert_run_def Let_def)

text \<open>What an admitted create leaves in the operations table.\<close>

lemma insert_admitted_op:
  assumes "insert_admitted digest now runID owner kind key hash m db = (db1, Inr opID)"
  shows "\<exists>p. db_ops db1 = db_ops db @ [p] \<and> opID = db_nextOp db \<and> opn_id p = opID \<and> opn_owner p = owner \<and> opn_kind p = kind
    \<and> opn_key p = key \<and> opn_hash p = hash \<and> opn_vmID p = Some (mi_vmID m)"
proof -
  obtain d1 d2 d3 u where d: "insert_rows digest now owner kind key hash m db = (d1, Inr opID)"
    "db_ops d2 = db_ops d1" "attach_run digest now runID owner m d2 = (d3, Inr u)" "db1 = d3"
    using assms unfolding insert_admitted_def by (auto elim!: bind_InrE dest!: emit_ops)
  have "\<exists>p. db_ops d1 = db_ops db @ [p] \<and> opID = db_nextOp db \<and> opn_id p = opID \<and> opn_owner p = owner \<and> opn_kind p = kind
    \<and> opn_key p = key \<and> opn_hash p = hash \<and> opn_vmID p = Some (mi_vmID m)"
    using d(1) unfolding insert_rows_def
    by (auto elim!: bind_InrE dest!: emit_ops simp: insert_vm_def insert_op_def insert_res_def split: if_splits)
  then show ?thesis using d attach_run_ops [OF d(3)] by simp
qed

lemma find_only:
  assumes "x \<in> set xs" "P x" and uniq: "\<And>y. y \<in> set xs \<Longrightarrow> P y \<Longrightarrow> y = x"
  shows "find P xs = Some x"
proof (cases "find P xs")
  case None
  then show ?thesis using assms(1,2) by (simp add: find_None_iff)
next
  case (Some y)
  then have "y \<in> set xs" "P y" by (auto simp: find_Some_iff)
  then show ?thesis using uniq Some by simp
qed

lemma find_key_eq:
  assumes inv: "vm_inv db" and p: "p \<in> set (db_ops db)" "opn_key p = Some k"
  shows "find_key db (opn_owner p) (opn_kind p) (opn_key p) = Some p"
proof -
  let ?f = "\<lambda>p. (opn_owner p, opn_kind p, opn_key p)"
  have "inj_on ?f (set (filter (\<lambda>p. opn_key p \<noteq> None) (db_ops db)))" using inv by (simp add: vm_inv_def distinct_map)
  then have uniq: "x = p" if "x \<in> set (db_ops db)" "?f x = ?f p" for x
    using inj_onD [of ?f "set (filter (\<lambda>p. opn_key p \<noteq> None) (db_ops db))" x p] that p by auto
  have "find (\<lambda>x. opn_owner x = opn_owner p \<and> opn_kind x = opn_kind p \<and> opn_key x = Some k) (db_ops db) = Some p"
    by (rule find_only) (use p uniq in auto)
  then show ?thesis using p by (simp add: find_key_def)
qed

lemma find_op_eq: "vm_inv db \<Longrightarrow> p \<in> set (db_ops db) \<Longrightarrow> find_op db (opn_id p) = Some p"
  by (simp add: find_op_def vm_inv_def find_key_distinct)

lemma lookup_of_row:
  assumes inv: "vm_inv db" and p: "p \<in> set (db_ops db)" "opn_key p = Some k" and v: "opn_vmID p = Some i" "find_vm db i = Some v"
  shows "lookupByIdempotencyKey db (opn_owner p) (opn_kind p) (opn_key p) hash =
    (if opn_hash p \<noteq> hash then Inl ErrIdempotencyConflict else Inr (Some (Some v, p)))"
  using find_key_eq [OF inv p] find_op_eq [OF inv p(1)] v
  by (simp add: lookupByIdempotencyKey_def GetOperation_def GetVM_def)

lemma fresh_create:
  assumes inv: "vm_inv db" and c: "CreateVMWithOperation digest now runID i db = (db1, Inr (Created v p False))"
  shows "p \<in> set (db_ops db1) \<and> opn_owner p = ci_owner i \<and> opn_kind p = ci_kind i \<and> opn_key p = ci_key i \<and> opn_hash p = ci_hash i
    \<and> opn_vmID p = Some (mi_vmID i) \<and> find_vm db1 (mi_vmID i) = Some v"
proof -
  have "create_fresh digest now runID i db = (db1, Inr (Created v p False))"
    using c by (auto simp: CreateVMWithOperation_def in_tx_def replayedRefusal_def
        split: sum.splits option.splits prod.splits op_state.splits if_splits)
  then obtain opID where a: "insert_admitted digest now runID (ci_owner i) (ci_kind i) (ci_key i) (ci_hash i) i db = (db1, Inr opID)"
    and g: "GetVM db1 (mi_vmID i) = Inr v" "GetOperation db1 opID = Inr p"
    by (auto simp: create_fresh_def split: admit_answer.splits sum.splits elim!: bind_InrE)
      (auto simp: map_sum_def split: sum.splits)
  obtain q where q: "db_ops db1 = db_ops db @ [q]" "opn_id q = opID" "opID = db_nextOp db" "opn_owner q = ci_owner i" "opn_kind q = ci_kind i"
    "opn_key q = ci_key i" "opn_hash q = ci_hash i" "opn_vmID q = Some (mi_vmID i)"
    using insert_admitted_op [OF a] by blast
  have "find (\<lambda>x. opn_id x = opID) (db_ops db) = None" using inv q by (auto simp: vm_inv_def find_None_iff)
  then have "p = q" using g(2) q by (auto simp: GetOperation_def find_op_def find_snoc split: option.splits)
  then show ?thesis using q g(1) by (auto simp: GetVM_def split: option.splits)
qed

text \<open>
  C14: A create with an idempotency key takes effect once. Once it has made a VM, then whatever else the store is
  asked to do in between, the same request under the same key makes nothing: it is answered with the
  same VM and operation as they are by then, and the database is left as it is. The key under a
  different request is refused as a conflict, also without a change.
\<close>

theorem create_once:
  assumes "UUIDString uuid" "reachable_db digest uuid db"
    and c: "CreateVMWithOperation digest now runID i db = (db1, Inr (Created v p False))" and k: "ci_key i = Some k"
    and calls: "(store_call digest)\<^sup>*\<^sup>* db1 db2"
    and j: "ci_owner j = ci_owner i" "ci_kind j = ci_kind i" "ci_key j = Some k"
  shows "\<exists>v' p'. find_vm db2 (mi_vmID i) = Some v' \<and> vm_le v v' \<and> op_le p p'
    \<and> CreateVMWithOperation digest now' runID' j db2 =
        (db2, if ci_hash j = ci_hash i then Inr (Created v' p' True) else Inl ErrIdempotencyConflict)"
proof -
  have inv: "vm_inv db" using reachable_inv [OF assms(1,2)] by (simp add: db_inv_def)
  have r1: "reachable_db digest uuid db1"
    using assms(2) c_create [of digest db now runID i] c unfolding reachable_db_def by (simp add: rtranclp.rtrancl_into_rtrancl)
  note h = calls_ok [OF assms(1) r1 calls] and f = fresh_create [OF inv c]
  obtain v' where v': "find_vm db2 (mi_vmID i) = Some v'" "vm_le v v'" using find_vm_later [OF h(2,3)] f by blast
  obtain p' where p': "p' \<in> set (db_ops db2)" "op_le p p'" using h(3) f unfolding history_def by blast
  have "lookupByIdempotencyKey db2 (ci_owner j) (ci_kind j) (ci_key j) (ci_hash j)
      = (if ci_hash i \<noteq> ci_hash j then Inl ErrIdempotencyConflict else Inr (Some (Some v', p')))"
    using lookup_of_row [of db2 p' k "mi_vmID i" v' "ci_hash j"] h(2) p' v' f j k by (simp add: db_inv_def op_le_def)
  then show ?thesis using v' p' by (intro exI [of _ v'] exI [of _ p']) (auto simp: CreateVMWithOperation_def)
qed

lemma demo_created:
  "\<exists>v p. CreateVMWithOperation demo_digest 0 ''run-1'' demo_input (OpenDB demo_uuid) = (demo_db1, Inr (Created v p False))"
proof -
  have "(case snd (CreateVMWithOperation demo_digest 0 ''run-1'' demo_input (OpenDB demo_uuid)) of
      Inr (Created _ _ b) \<Rightarrow> \<not> b | _ \<Rightarrow> False)" by code_simp
  then show ?thesis
    by (cases "CreateVMWithOperation demo_digest 0 ''run-1'' demo_input (OpenDB demo_uuid)")
      (auto simp: demo_db1_def split: sum.splits create_outcome.splits)
qed

theorem create_once_witness:
  "\<exists>v p v' p'. CreateVMWithOperation demo_digest 0 ''run-1'' demo_input (OpenDB demo_uuid) = (demo_db1, Inr (Created v p False))
   \<and> (store_call demo_digest)\<^sup>*\<^sup>* demo_db1 demo_db2
   \<and> CreateVMWithOperation demo_digest 9 ''run-2'' demo_input demo_db2 = (demo_db2, Inr (Created v' p' True)) \<and> vm_le v v'"
proof -
  obtain v p where c: "CreateVMWithOperation demo_digest 0 ''run-1'' demo_input (OpenDB demo_uuid) = (demo_db1, Inr (Created v p False))"
    using demo_created by blast
  have o: "reachable_db demo_digest demo_uuid (OpenDB demo_uuid)" by (simp add: reachable_db_def)
  have k: "ci_key demo_input = Some ''k1''" by (simp add: demo_input_def)
  from create_once [OF demo_uuid_ok(1) o c k demo_db_reachable(2) refl refl k, of 9 "''run-2''"] c demo_db_reachable(2)
  show ?thesis by auto
qed

section \<open>Durable refusals\<close>

text \<open>
  C15: A refused create leaves evidence and nothing else. When admission refuses, no VM, reservation or run is made;
  one failed operation records the cause and the message; and the same request under the same key is
  answered with that same refusal, even if admission would by then agree.
\<close>

theorem refusal_durable:
  assumes "UUIDString uuid" "reachable_db digest uuid db"
    and k: "ci_key i = Some k" and new: "find_key db (ci_owner i) (ci_kind i) (ci_key i) = None"
    and refuse: "ci_admit i (reservationTotalsInTx db) = Refuse c m"
  shows "\<exists>db1 p. CreateVMWithOperation digest now runID i db = (db1, Inr (Refused p False c m))
    \<and> db_vms db1 = db_vms db \<and> db_res db1 = db_res db \<and> db_runs db1 = db_runs db \<and> db_ops db1 = db_ops db @ [p]
    \<and> opn_state p = OpFailed \<and> opn_cause p = Some c \<and> opn_message p = Some m \<and> opn_vmID p = None
    \<and> CreateVMWithOperation digest now' runID' (i\<lparr>ci_admit := admit'\<rparr>) db1 = (db1, Inr (Refused p True c m))"
proof -
  have inv: "db_inv digest db" using reachable_inv [OF assms(1,2)] .
  define p where "p = \<lparr>opn_id = db_nextOp db, opn_owner = ci_owner i, opn_kind = ci_kind i, opn_key = ci_key i, opn_hash = ci_hash i,
    opn_vmID = None, opn_phase = ''admission'', opn_state = OpFailed, opn_cause = Some c, opn_message = Some m, opn_attempt = 1,
    opn_createdAt = now, opn_updatedAt = now\<rparr>"
  define db1 where "db1 = db\<lparr>db_ops := db_ops db @ [p], db_nextOp := Suc (db_nextOp db),
    db_ev := logged digest HostObserved now ''operation.state_changed''
      (op_event (db_nextOp db) (ci_kind i) None ''admission'' OpFailed (Some (c, m))) (db_ev db)\<rparr>"
  have nokey: "(ci_owner i, ci_kind i, ci_key i) \<notin> (\<lambda>p. (opn_owner p, opn_kind p, opn_key p)) ` set (db_ops db)"
    using new k by (auto simp: find_key_def find_None_iff)
  have ids: "find (\<lambda>x. opn_id x = db_nextOp db) (db_ops db) = None" using inv by (auto simp: db_inv_def vm_inv_def find_None_iff)
  then have get: "GetOperation db1 (db_nextOp db) = Inr p"
    by (simp add: GetOperation_def find_op_def db1_def find_snoc p_def)
  have "create_fresh digest now runID i db = (db1, Inr (Refused p False c m))"
    using get nokey inv
    by (simp add: create_fresh_def refuse bind_tx_def insert_op_def emit_eq db_inv_def db1_def p_def)
  then have "CreateVMWithOperation digest now runID i db = (db1, Inr (Refused p False c m))"
    by (simp add: CreateVMWithOperation_def lookupByIdempotencyKey_def new in_tx_def)
  moreover have "find_key db1 (ci_owner i) (ci_kind i) (ci_key i) = Some p"
    using new k by (simp add: find_key_def db1_def find_snoc p_def)
  then have "lookupByIdempotencyKey db1 (ci_owner i) (ci_kind i) (ci_key i) (ci_hash i) = Inr (Some (None, p))"
    using get by (simp add: lookupByIdempotencyKey_def p_def)
  then have "CreateVMWithOperation digest now' runID' (i\<lparr>ci_admit := admit'\<rparr>) db1 = (db1, Inr (Refused p True c m))"
    by (simp add: CreateVMWithOperation_def in_tx_def replayedRefusal_def p_def)
  ultimately show ?thesis by (intro exI [of _ db1] exI [of _ p]) (simp add: db1_def p_def)
qed

theorem refusal_durable_witness:
  "\<exists>db1 p. CreateVMWithOperation demo_digest 0 ''r'' (demo_input\<lparr>ci_admit := \<lambda>_. Refuse ''capacity'' ''full''\<rparr>) (OpenDB demo_uuid)
     = (db1, Inr (Refused p False ''capacity'' ''full''))
   \<and> CreateVMWithOperation demo_digest 1 ''r2'' demo_input db1 = (db1, Inr (Refused p True ''capacity'' ''full''))"
proof -
  let ?i = "demo_input\<lparr>ci_admit := \<lambda>_. Refuse ''capacity'' ''full''\<rparr>"
  have o: "reachable_db demo_digest demo_uuid (OpenDB demo_uuid)" by (simp add: reachable_db_def)
  have "ci_key ?i = Some ''k1''" "find_key (OpenDB demo_uuid) (ci_owner ?i) (ci_kind ?i) (ci_key ?i) = None"
    "ci_admit ?i (reservationTotalsInTx (OpenDB demo_uuid)) = Refuse ''capacity'' ''full''"
    by (simp_all add: demo_input_def OpenDB_def find_key_def)
  from refusal_durable [OF demo_uuid_ok(1) o this, of 0 "''r''" 1 "''r2''" "ci_admit demo_input"]
  show ?thesis by auto
qed

section \<open>Atomic batches\<close>

definition vm_ids :: "vmdb \<Rightarrow> string list" where
  "vm_ids db = map vm_id (db_vms db)"

lemma touch_ids [simp]: "vm_ids (touch_vm i e db) = vm_ids db"
  by (simp add: vm_ids_def)

lemma emit_ids: "emit digest now kind data db = (db1, x) \<Longrightarrow> vm_ids db1 = vm_ids db"
  using emit_shape [of digest now kind data db] by (auto simp: vm_ids_def)

lemma emit_tables: "emit digest now kind data db = (db1, x) \<Longrightarrow> db_vms db1 = db_vms db \<and> db_res db1 = db_res db \<and> db_runs db1 = db_runs db"
  using emit_shape [of digest now kind data db] by auto

lemma attach_run_ids: "attach_run digest now runID owner m db = (db1, Inr u) \<Longrightarrow> vm_ids db1 = vm_ids db"
  unfolding attach_run_def createRunInTx_def
  by (auto split: option.splits if_splits elim!: bind_InrE dest!: emit_ids simp: insert_run_def Let_def) (simp_all add: vm_ids_def)

lemma insert_admitted_ids:
  assumes "insert_admitted digest now runID owner kind key hash m db = (db1, Inr opID)"
  shows "vm_ids db1 = vm_ids db @ [mi_vmID m]"
proof -
  obtain d1 d2 u where d: "insert_rows digest now owner kind key hash m db = (d1, Inr opID)"
    "vm_ids d2 = vm_ids d1" "attach_run digest now runID owner m d2 = (db1, Inr u)"
    using assms unfolding insert_admitted_def by (auto elim!: bind_InrE dest!: emit_ids)
  have "vm_ids d1 = vm_ids db @ [mi_vmID m]"
    using d(1) unfolding insert_rows_def
    by (auto elim!: bind_InrE dest!: emit_ids simp: insert_vm_def insert_op_def insert_res_def split: if_splits)
      (simp_all add: vm_ids_def)
  then show ?thesis using d attach_run_ids [OF d(3)] by simp
qed

lemma insertOneMember_ids:
  assumes "insertOneMember digest now b pos owner rm db = (db1, Inr r)"
  shows "vm_ids db1 = vm_ids db @ [mi_vmID (snd rm)] \<and> mr_refusal r = None \<and> map_option vm_id (mr_vm r) = Some (mi_vmID (snd rm))"
proof -
  obtain d1 opID where d: "insert_admitted digest now (fst rm) owner ''vm.create'' None [] (snd rm) db = (d1, Inr opID)"
    and ids: "vm_ids db1 = vm_ids d1" and r: "mr_refusal r = None" "\<exists>v. mr_vm r = Some v \<and> GetVM db1 (mi_vmID (snd rm)) = Inr v"
    using assms unfolding insertOneMember_def
    by (auto simp: case_prod_beta Let_def add_member_def vm_ids_def map_sum_def elim!: bind_InrE split: sum.splits)
  show ?thesis using insert_admitted_ids [OF d] ids r find_key_Some [of vm_id]
    by (auto simp: GetVM_def find_vm_def split: option.splits)
qed

lemma insertAdmittedMembers_ids:
  "insertAdmittedMembers digest now b pos owner ms db = (db1, Inr rs) \<Longrightarrow>
   vm_ids db1 = vm_ids db @ map (\<lambda>m. mi_vmID (snd m)) ms
   \<and> map (\<lambda>r. map_option vm_id (mr_vm r)) rs = map (\<lambda>m. Some (mi_vmID (snd m))) ms \<and> list_all (\<lambda>r. mr_refusal r = None) rs"
proof (induction ms arbitrary: pos db rs)
  case (Cons m ms)
  then obtain d1 r rs' where "insertOneMember digest now b pos owner m db = (d1, Inr r)"
    "insertAdmittedMembers digest now b (Suc pos) owner ms d1 = (db1, Inr rs')" "rs = r # rs'"
    by (auto elim!: bind_InrE)
  from insertOneMember_ids [OF this(1)] Cons.IH [OF this(2)] this(3) show ?case by simp
qed simp

lemma refuse_members_ids:
  "db_vms (fst (refuse_members b pos r ms db)) = db_vms db \<and> db_res (fst (refuse_members b pos r ms db)) = db_res db
   \<and> db_runs (fst (refuse_members b pos r ms db)) = db_runs db
   \<and> map (\<lambda>x. (mr_vm x, mr_refusal x)) (snd (refuse_members b pos r ms db)) = map (\<lambda>_. (None, Some r)) ms"
proof (induction ms arbitrary: pos db)
  case (Cons m ms)
  then show ?case by (simp add: Let_def case_prod_beta refused_result_def add_member_def)
qed simp

lemma batch_fresh_shape:
  assumes a: "batch_fresh digest now i db = (db1, Inr r)" and m: "bi_mode i = AtomicReservation"
  shows "\<exists>d0 d1 b st rf. db_vms d0 = db_vms db \<and> db_res d0 = db_res db \<and> db_runs d0 = db_runs db
    \<and> processAtomicBatch digest now b i d0 = (d1, Inr (br_members r, st, rf))
    \<and> db_vms db1 = db_vms d1 \<and> db_res db1 = db_res d1 \<and> db_runs db1 = db_runs d1"
proof -
  obtain d0 d1 d2 b st rf p where d: "insert_batch now i db = (d0, Inr b)"
    "processAtomicBatch digest now b i d0 = (d1, Inr (br_members r, st, rf))"
    "insert_op now (bi_owner i) ''vm_batch.create'' (bi_key i) (bi_hash i) None (batch_phase st) st rf d1 = (d2, Inr p)"
    and e: "\<exists>x. emit digest now ''operation.state_changed'' (op_event p ''vm_batch.create'' None (batch_phase st) st rf)
        (set_batch_op b p d2) = (db1, Inr x)"
    using a unfolding batch_fresh_def
    by (auto simp: m map_sum_def elim!: bind_InrE split: sum.splits)
  have "db_vms d0 = db_vms db" "db_res d0 = db_res db" "db_runs d0 = db_runs db" using d(1) by (auto simp: insert_batch_def split: if_splits)
  moreover have "db_vms db1 = db_vms d1 \<and> db_res db1 = db_res d1 \<and> db_runs db1 = db_runs d1"
    using e d(3) by (auto dest!: emit_tables simp: insert_op_def set_batch_op_def split: if_splits)
  ultimately show ?thesis using d(2) by blast
qed

text \<open>
  C13: An atomic batch is all or nothing. When a batch in atomic mode is processed for the first time, either every
  member has become a VM, in order and with none refused, or every member is refused with the same
  cause and no VM, reservation or run exists that was not there before; the latter is also all that is
  left of a batch that ends in an error.
\<close>

theorem atomic_batch:
  assumes m: "bi_mode i = AtomicReservation" and new: "lookupBatch db (bi_owner i) (bi_key i) (bi_hash i) = Inr None"
  shows "case CreateVMBatch digest now i db of
      (db1, Inl e) \<Rightarrow> db_vms db1 = db_vms db \<and> db_res db1 = db_res db \<and> db_runs db1 = db_runs db
    | (db1, Inr r) \<Rightarrow>
        (vm_ids db1 = vm_ids db @ map (\<lambda>m. mi_vmID (snd m)) (bi_members i)
         \<and> map (\<lambda>x. map_option vm_id (mr_vm x)) (br_members r) = map (\<lambda>m. Some (mi_vmID (snd m))) (bi_members i)
         \<and> list_all (\<lambda>x. mr_refusal x = None) (br_members r))
        \<or> (db_vms db1 = db_vms db \<and> db_res db1 = db_res db \<and> db_runs db1 = db_runs db
           \<and> (\<exists>why. map (\<lambda>x. (mr_vm x, mr_refusal x)) (br_members r) = map (\<lambda>_. (None, Some why)) (bi_members i)))"
proof (cases "batch_fresh digest now i db")
  case (Pair db1 res)
  have eq: "CreateVMBatch digest now i db = in_tx (batch_fresh digest now i) db"
    by (simp add: CreateVMBatch_def new in_tx_def)
  show ?thesis
  proof (cases res)
    case (Inl e)
    then show ?thesis using Pair by (simp add: eq in_tx_def)
  next
    case (Inr r)
    then obtain d0 d1 b st rf where d: "db_vms d0 = db_vms db" "db_res d0 = db_res db" "db_runs d0 = db_runs db"
      "processAtomicBatch digest now b i d0 = (d1, Inr (br_members r, st, rf))"
      "db_vms db1 = db_vms d1" "db_res db1 = db_res d1" "db_runs db1 = db_runs d1"
      using batch_fresh_shape [OF _ m] Pair by blast
    show ?thesis
    proof (cases "bi_admitBatch i (reservationTotalsInTx d0)")
      case Admitted
      with d(4) have "insertAdmittedMembers digest now b 0 (bi_owner i) (bi_members i) d0 = (d1, Inr (br_members r))"
        by (auto simp: processAtomicBatch_def elim!: bind_InrE)
      from insertAdmittedMembers_ids [OF this] show ?thesis using Pair Inr d by (simp add: eq in_tx_def vm_ids_def)
    next
      case (Refuse c w)
      with d(4) have x: "d1 = fst (refuse_members b 0 (c, w) (bi_members i) d0)"
        "br_members r = snd (refuse_members b 0 (c, w) (bi_members i) d0)"
        by (auto simp: processAtomicBatch_def case_prod_beta)
      note ids = refuse_members_ids [of b 0 "(c, w)" "bi_members i" d0, folded x]
      then have "db_vms db1 = db_vms db" "db_res db1 = db_res db" "db_runs db1 = db_runs db" using d by simp_all
      with ids show ?thesis using Pair Inr by (auto simp: eq in_tx_def)
    next
      case AdmitBroken
      then show ?thesis using d(4) by (simp add: processAtomicBatch_def)
    qed
  qed
qed

definition demo_member :: "string \<Rightarrow> member_input" where
  "demo_member i = \<lparr>mi_name = ''w'', mi_vmID = i, mi_templateID = ''base'', mi_templateDigest = ''d0'', mi_vcpu = 1,
     mi_memory = 256, mi_rootDisk = 512, mi_workspaceDisk = 0, mi_memoryTotal = 320, mi_networkProfile = ''none'',
     mi_networkPolicy = ''p0'', mi_labels = [], mi_run = None\<rparr>"

definition demo_batch :: batch_input where
  "demo_batch = \<lparr>bi_owner = ''alice'', bi_key = Some ''b1'', bi_hash = ''h'', bi_mode = AtomicReservation,
     bi_onFailure = ''keep_successful'', bi_members = [([], demo_member ''vm-7''), ([], demo_member ''vm-8'')],
     bi_admitBatch = (\<lambda>_. Admitted), bi_admitMember = (\<lambda>_ _ _ _. Admitted)\<rparr>"

theorem atomic_batch_witness:
  "bi_mode demo_batch = AtomicReservation
   \<and> lookupBatch (OpenDB demo_uuid) (bi_owner demo_batch) (bi_key demo_batch) (bi_hash demo_batch) = Inr None
   \<and> (\<exists>db1 r. CreateVMBatch demo_digest 3 demo_batch (OpenDB demo_uuid) = (db1, Inr r) \<and> vm_ids db1 = [''vm-7'', ''vm-8'']
        \<and> list_all (\<lambda>x. mr_refusal x = None) (br_members r))"
proof -
  let ?c = "CreateVMBatch demo_digest 3 demo_batch (OpenDB demo_uuid)"
  have m: "bi_mode demo_batch = AtomicReservation" by (simp add: demo_batch_def)
  have new: "lookupBatch (OpenDB demo_uuid) (bi_owner demo_batch) (bi_key demo_batch) (bi_hash demo_batch) = Inr None"
    by (simp add: lookupBatch_def OpenDB_def demo_batch_def)
  have v: "(case ?c of (d, Inr _) \<Rightarrow> vm_ids d | _ \<Rightarrow> []) = [''vm-7'', ''vm-8'']" by code_simp
  obtain db1 x where c: "?c = (db1, x)" by force
  from v c obtain r where "x = Inr r" "vm_ids db1 = [''vm-7'', ''vm-8'']" by (cases x) auto
  with atomic_batch [OF m new, of demo_digest 3] m new c show ?thesis by (auto simp: vm_ids_def OpenDB_def)
qed

end
