(* ===== verification/Admission.thy ===== *)
theory Admission
  imports Store_History Complex_Main
begin

text \<open>
  Admission (\<open>src/internal/runtime/admission.go\<close>): the capacity a policy leaves for VMs and the check every create,
  batch and restart passes inside the store's transaction.

  The configured ratios and the CPU capacity are \<open>float64\<close> in the source. They are rationals here; the
  rounding of the two products is the policy's \<open>pl_round\<close>, and whole numbers below \<open>2 ^ 53\<close> convert
  exactly. The disk observer of the runtime is an argument, as is the \<open>%.1f\<close> format. The main
  result is that no sequence of calls that admit through the policy ever reserves more memory or CPU
  than the policy leaves.
\<close>

section \<open>Capacity\<close>

record admission =
  ad_allowMemoryOvercommit :: bool
  ad_cpuOvercommitRatio :: rat
  ad_reserveHostCPUCores :: int
  ad_reserveHostMemoryMin :: int
  ad_reserveHostMemoryFraction :: rat
  ad_reservePerVMOverhead :: int
  ad_reserveInspectionSlots :: int
  ad_reserveInspectorMemory :: int
  ad_reserveInspectorCPUCores :: int
  ad_reserveInspectorScratch :: int

record host_resources =
  hr_totalMemory :: int
  hr_cpuCores :: int
  hr_stateDiskFree :: int

record disk_observation =
  do_free :: int
  do_materialized :: int

record policy =
  pl_admission :: admission
  pl_host :: host_resources
  pl_observe :: "((string \<times> int) list \<Rightarrow> string + disk_observation) option"
  pl_round :: "rat \<Rightarrow> rat"
  pl_format :: "rat \<Rightarrow> string"

text \<open>Conversion of a \<open>float64\<close> to \<open>int64\<close> drops the fraction.\<close>

definition truncate_rat :: "rat \<Rightarrow> int" where
  "truncate_rat q = (if 0 \<le> q then \<lfloor>q\<rfloor> else \<lceil>q\<rceil>)"

definition UsableDiskMiB :: "policy \<Rightarrow> int" where
  "UsableDiskMiB p = max 0 (hr_stateDiskFree (pl_host p) - ad_reserveInspectorScratch (pl_admission p))"

definition DiskCapacity :: "policy \<Rightarrow> totals \<Rightarrow> string + int" where
  "DiskCapacity p t =
     (case pl_observe p of
        None \<Rightarrow> Inr (UsableDiskMiB p)
      | Some observe \<Rightarrow>
          (case observe (rt_disks t) of
             Inl e \<Rightarrow> Inl (''observe disk capacity: '' @ e)
           | Inr ob \<Rightarrow>
               if do_free ob < 0 \<or> do_materialized ob < 0 \<or> rt_disk t < do_materialized ob
               then Inl ''invalid disk capacity observation''
               else Inr (do_free ob - ad_reserveInspectorScratch (pl_admission p) + do_materialized ob)))"

definition UsableMemoryMiB :: "policy \<Rightarrow> int" where
  "UsableMemoryMiB p =
     (let a = pl_admission p; total = hr_totalMemory (pl_host p);
          fraction = truncate_rat (pl_round p (of_int total * ad_reserveHostMemoryFraction a));
          hostReserve = (if ad_reserveHostMemoryMin a < fraction then fraction else ad_reserveHostMemoryMin a);
          inspectorReserve = ad_reserveInspectorMemory a * ad_reserveInspectionSlots a;
          usable = total - hostReserve - inspectorReserve
      in if usable < 0 then 0 else usable)"

definition UsableVCPU :: "policy \<Rightarrow> rat" where
  "UsableVCPU p =
     (let a = pl_admission p;
          raw = hr_cpuCores (pl_host p) - ad_reserveHostCPUCores a - ad_reserveInspectorCPUCores a * ad_reserveInspectionSlots a
      in pl_round p (of_int (if raw < 0 then 0 else raw) * ad_cpuOvercommitRatio a))"

definition Admit :: "policy \<Rightarrow> totals \<Rightarrow> int \<Rightarrow> int \<Rightarrow> int \<Rightarrow> admit_answer" where
  "Admit p t mem vcpu disk =
     (let a = pl_admission p; um = UsableMemoryMiB p; uc = UsableVCPU p in
      if \<not> ad_allowMemoryOvercommit a \<and> um < rt_memory t + mem
      then Refuse ''insufficient_capacity''
             (''memory: need '' @ format_int mem @ '' MiB, only '' @ format_int (um - rt_memory t) @ '' MiB free (usable ''
              @ format_int um @ '', reserved '' @ format_int (rt_memory t) @ '')'')
      else if uc < of_int (rt_vcpu t) + of_int vcpu
      then Refuse ''insufficient_capacity''
             (''cpu: need '' @ format_int vcpu @ '' vCPU, only '' @ pl_format p (uc - of_int (rt_vcpu t)) @ '' vCPU free (usable ''
              @ pl_format p uc @ '', reserved '' @ format_int (rt_vcpu t) @ '')'')
      else case DiskCapacity p t of
             Inl e \<Rightarrow> Refuse ''insufficient_capacity'' e
           | Inr ud \<Rightarrow>
               if ud < rt_disk t + disk
               then Refuse ''insufficient_capacity''
                 (''disk: need '' @ format_int disk @ '' MiB, only '' @ format_int (ud - rt_disk t) @ '' MiB free (usable ''
                  @ format_int ud @ ''; ''
                  @ (if pl_observe p = None
                     then ''host had '' @ format_int (hr_stateDiskFree (pl_host p)) @ '' MiB free at startup''
                     else ''live filesystem observation with allocated reservation credit'')
                  @ ''; '' @ format_int (ad_reserveInspectorScratch a) @ '' MiB held for inspection scratch; ''
                  @ format_int (rt_disk t) @ '' MiB reserved by VMs)'')
               else Admitted)"

lemma Admit_memory: "Admit p t m c d = Admitted \<Longrightarrow> \<not> ad_allowMemoryOvercommit (pl_admission p) \<Longrightarrow> rt_memory t + m \<le> UsableMemoryMiB p"
  by (auto simp: Admit_def Let_def split: if_splits)

lemma Admit_vcpu: "Admit p t m c d = Admitted \<Longrightarrow> of_int (rt_vcpu t) + of_int c \<le> UsableVCPU p"
  by (auto simp: Admit_def Let_def split: if_splits)

section \<open>What the reservations hold\<close>

definition holds :: "reservation \<Rightarrow> bool" where
  "holds r \<longleftrightarrow> \<not> rv_released r \<and> \<not> rv_computeReleased r"

definition held :: "(reservation \<Rightarrow> int) \<Rightarrow> reservation list \<Rightarrow> int" where
  "held f rs = sum_list (map f (filter holds rs))"

lemma totals_held:
  "rt_memory (reservationTotalsInTx db) = held rv_memory (db_res db)"
  "rt_vcpu (reservationTotalsInTx db) = held rv_vcpu (db_res db)"
proof -
  have "filter (\<lambda>r. \<not> rv_computeReleased r) (filter (\<lambda>r. \<not> rv_released r) rs) = filter holds rs" for rs
    by (induction rs) (auto simp: holds_def)
  then show "rt_memory (reservationTotalsInTx db) = held rv_memory (db_res db)"
    "rt_vcpu (reservationTotalsInTx db) = held rv_vcpu (db_res db)"
    by (simp_all add: reservationTotalsInTx_def held_def Let_def del: filter_filter)
qed

definition res_nonneg :: "reservation list \<Rightarrow> bool" where
  "res_nonneg rs \<longleftrightarrow> (\<forall>r \<in> set rs. 0 \<le> rv_memory r \<and> 0 \<le> rv_vcpu r)"

text \<open>The two sums stay within the policy.\<close>

definition in_budget :: "policy \<Rightarrow> reservation list \<Rightarrow> bool" where
  "in_budget p rs \<longleftrightarrow> res_nonneg rs
     \<and> (\<not> ad_allowMemoryOvercommit (pl_admission p) \<longrightarrow> held rv_memory rs \<le> UsableMemoryMiB p)
     \<and> of_int (held rv_vcpu rs) \<le> UsableVCPU p"

lemma held_Nil [simp]: "held f [] = 0" and held_Cons [simp]: "held f (r # rs) = (if holds r then f r else 0) + held f rs"
  and held_append [simp]: "held f (rs @ ss) = held f rs + held f ss"
  by (simp_all add: held_def)

lemma held_nonneg: "\<forall>r \<in> set rs. 0 \<le> f r \<Longrightarrow> 0 \<le> held f rs"
  by (induction rs) auto

lemma held_release:
  "\<forall>r \<in> set rs. 0 \<le> f r \<Longrightarrow> (\<And>r. f (g r) = f r) \<Longrightarrow> (\<And>r. holds (g r) \<Longrightarrow> holds r) \<Longrightarrow>
   held f (map g rs) \<le> held f rs"
proof (induction rs)
  case (Cons r rs)
  then have "held f (map g rs) \<le> held f rs" "0 \<le> f r" "holds (g r) \<Longrightarrow> holds r" by auto
  then show ?case using Cons.prems(2) by (cases "holds (g r)"; cases "holds r") auto
qed simp

text \<open>Taking compute back adds at most what the one reservation of that VM asks for.\<close>

lemma held_acquire:
  assumes "distinct (map rv_vmID rs)" "r \<in> set rs" "rv_vmID r = i" "0 \<le> f r" "\<And>r. f (g r) = f r"
  shows "held f (map (\<lambda>x. if rv_vmID x = i then g x else x) rs) \<le> held f rs + f r"
  using assms
proof (induction rs)
  case (Cons x rs)
  show ?case
  proof (cases "rv_vmID x = i")
    case True
    then have others: "\<forall>y \<in> set rs. rv_vmID y \<noteq> i" using Cons.prems by (metis distinct.simps(2) image_eqI list.set_map list.simps(9))
    then have "r = x" using Cons.prems True by auto
    moreover have "map (\<lambda>x. if rv_vmID x = i then g x else x) rs = rs" using others by (simp add: map_idI)
    ultimately show ?thesis using True Cons.prems by simp
  next
    case False
    then have "r \<in> set rs" using Cons.prems by auto
    then show ?thesis using Cons False by simp
  qed
qed simp

section \<open>Which calls touch the reservations\<close>

lemma res_bind:
  "db_res (fst (m db)) = db_res db \<Longrightarrow> (\<And>x db'. db_res (fst (f x db')) = db_res db') \<Longrightarrow> db_res (fst (bind_tx m f db)) = db_res db"
  by (auto simp: bind_tx_def split: prod.splits sum.splits)

lemma res_in_tx: "db_res (fst (m db)) = db_res db \<Longrightarrow> db_res (fst (in_tx m db)) = db_res db"
  by (auto simp: in_tx_def split: prod.splits sum.splits)

lemma res_emit [simp]: "db_res (fst (emit_as digest prov now kind data db)) = db_res db"
  "db_res (fst (emit digest now kind data db)) = db_res db"
  using emit_as_shape [of digest prov now kind data db] emit_shape [of digest now kind data db] by auto

lemma res_insert [simp]: "db_res (fst (insert_op now owner kind key hash vmID phase st err db)) = db_res db"
  "db_res (fst (insert_run mk db)) = db_res db"
  by (simp_all add: insert_op_def insert_run_def Let_def)

lemma res_set_op [simp]: "db_res (set_op i f db) = db_res db"
  by (simp add: set_op_def)

lemmas res_rules = res_in_tx res_bind

lemma UpdateOperation_res [simp]: "db_res (fst (UpdateOperation digest now u db)) = db_res db"
proof -
  have "db_res (fst (bind_tx (emit digest now k d) (\<lambda>_ x. (x, Inr p)) (set_op i f db))) = db_res db" for k d i f and p :: operation
    by (subst res_bind) simp_all
  then show ?thesis
    unfolding UpdateOperation_def by (intro res_in_tx) (auto simp: Let_def split: option.splits sum.splits)
qed

lemma createRunInTx_res [simp]: "db_res (fst (createRunInTx digest now runID i db)) = db_res db"
  unfolding createRunInTx_def by (intro res_rules) simp_all

lemma CreateRun_res [simp]: "db_res (fst (CreateRun digest now runID i db)) = db_res db"
  unfolding CreateRun_def by (auto split: sum.splits option.splits intro!: res_rules)

lemma TransitionRun_res [simp]: "db_res (fst (TransitionRun digest now t db)) = db_res db"
  unfolding TransitionRun_def by (auto simp: Let_def split: sum.splits intro!: res_rules)

lemma rejected_res [simp]: "db_res (fst (recordSubmissionRejected digest now r w reason n db)) = db_res db"
  by (simp add: recordSubmissionRejected_def split: prod.splits)

lemma Submit_res [simp]: "db_res (fst (SubmitRunProgress digest decode now runID payload m db)) = db_res db"
  "db_res (fst (SubmitRunResult digest decode quote now runID payload m db)) = db_res db"
  unfolding SubmitRunProgress_def SubmitRunResult_def by (auto simp: Let_def split: sum.splits intro!: res_rules)

lemma plain_call_res:
  assumes "plain_call digest db db'"
  shows "db_res db' = db_res db \<or> (\<exists>now i. db' = set_res i (\<lambda>r. r\<lparr>rv_released := True, rv_computeReleased := True, rv_updatedAt := now\<rparr>) db)"
  using assms
proof cases
  case (c_release now i)
  then show ?thesis by (auto simp: ReleaseVMReservations_def)
next
  case (c_cleanup redact now vmID state reason)
  then show ?thesis by (auto simp: RecordCleanupFailure_def recordVMStatement_def intro!: res_rules)
next
  case (c_ambiguous redact now vmID state reason)
  then show ?thesis by (auto simp: RecordReconcileAmbiguity_def recordVMStatement_def intro!: res_rules)
next
  case (c_action now owner vmID phase hash)
  then show ?thesis by (auto simp: InsertActionOperation_def intro!: res_rules)
next
  case (c_report now runID json dig opID)
  then show ?thesis by (auto simp: PutRunReport_def intro!: res_rules)
qed (simp_all add: UpdateBatchOp_def ClearCleanupDebt_def case_prod_beta Let_def)

section \<open>Admitted rows\<close>

lemma bind_cases:
  assumes "bind_tx m f db = (db2, Inr y)"
  obtains db1 x where "m db = (db1, Inr x)" "f x db1 = (db2, Inr y)"
  using assms by (auto simp: bind_tx_def split: prod.splits sum.splits)

definition fresh_row :: "'a member_input_scheme \<Rightarrow> reservation \<Rightarrow> bool" where
  "fresh_row m r \<longleftrightarrow> rv_vmID r = mi_vmID m \<and> rv_memory r = mi_memoryTotal m \<and> rv_vcpu r = mi_vcpu m \<and> holds r"

lemma emit_res_eq: "emit digest now kind data db = (db1, x) \<Longrightarrow> db_res db1 = db_res db"
  using emit_shape [of digest now kind data db] by auto

lemma attach_run_res: "db_res (fst (attach_run digest now runID owner m db)) = db_res db"
  by (simp add: attach_run_def split: option.splits)

lemma insert_admitted_res:
  assumes "insert_admitted digest now runID owner kind key hash m db = (db1, Inr opID)"
  shows "\<exists>r. db_res db1 = db_res db @ [r] \<and> fresh_row m r"
proof -
  obtain d1 d2 u where d: "insert_rows digest now owner kind key hash m db = (d1, Inr opID)"
    "db_res d2 = db_res d1" "attach_run digest now runID owner m d2 = (db1, Inr u)"
    using assms unfolding insert_admitted_def by (auto elim!: bind_cases dest!: emit_res_eq)
  have "\<exists>r. db_res d1 = db_res db @ [r] \<and> fresh_row m r"
    using d(1) unfolding insert_rows_def
    by (auto elim!: bind_cases dest!: emit_res_eq simp: insert_vm_def insert_op_def insert_res_def fresh_row_def holds_def split: if_splits)
  then show ?thesis using d attach_run_res [of digest now runID owner m d2] by simp
qed

lemma insertOneMember_res:
  assumes "insertOneMember digest now b pos owner m db = (db1, Inr x)"
  shows "\<exists>r. db_res db1 = db_res db @ [r] \<and> fresh_row (snd m) r"
proof -
  obtain d opID where "insert_admitted digest now (fst m) owner ''vm.create'' None [] (snd m) db = (d, Inr opID)" "db_res db1 = db_res d"
    using assms unfolding insertOneMember_def by (auto simp: case_prod_beta Let_def add_member_def elim!: bind_cases)
  with insert_admitted_res show ?thesis by fastforce
qed

lemma insertAdmittedMembers_res:
  "insertAdmittedMembers digest now b pos owner ms db = (db1, Inr xs) \<Longrightarrow>
   \<exists>rs. db_res db1 = db_res db @ rs \<and> list_all2 (\<lambda>m r. fresh_row (snd m) r) ms rs"
proof (induction ms arbitrary: pos db xs)
  case (Cons m ms)
  then obtain d x ys where d: "insertOneMember digest now b pos owner m db = (d, Inr x)"
    "insertAdmittedMembers digest now b (Suc pos) owner ms d = (db1, Inr ys)" by (auto elim!: bind_cases)
  obtain r where r: "db_res d = db_res db @ [r]" "fresh_row (snd m) r" using insertOneMember_res [OF d(1)] by blast
  obtain rs where rs: "db_res db1 = db_res d @ rs" "list_all2 (\<lambda>m r. fresh_row (snd m) r) ms rs" using Cons.IH [OF d(2)] by blast
  show ?case using r rs by (intro exI [of _ "r # rs"]) simp
qed simp

lemma fresh_rows_held:
  assumes "list_all2 (\<lambda>m r. fresh_row (snd m) r) ms rs"
  shows "held rv_memory rs = sum_list (map (\<lambda>m. mi_memoryTotal (snd m)) ms) \<and> held rv_vcpu rs = sum_list (map (\<lambda>m. mi_vcpu (snd m)) ms)"
  using assms by (induction rule: list_all2_induct) (auto simp: fresh_row_def)

section \<open>Staying within the policy\<close>

lemma in_budget_release:
  assumes "in_budget p rs" "\<And>r. rv_memory (g r) = rv_memory r" "\<And>r. rv_vcpu (g r) = rv_vcpu r" "\<And>r. holds (g r) \<Longrightarrow> holds r"
  shows "in_budget p (map g rs)"
proof -
  have n: "res_nonneg rs" using assms(1) by (simp add: in_budget_def)
  have "held rv_memory (map g rs) \<le> held rv_memory rs" "held rv_vcpu (map g rs) \<le> held rv_vcpu rs"
    using n assms(2-4) by (auto simp: res_nonneg_def intro!: held_release)
  moreover have "res_nonneg (map g rs)" using n assms(2,3) by (simp add: res_nonneg_def)
  ultimately show ?thesis
    using assms(1) by (auto simp: in_budget_def intro: order_trans [of _ "of_int (held rv_vcpu rs)"])
qed

lemma in_budget_admit:
  assumes b: "in_budget p (db_res db)" and a: "Admit p (reservationTotalsInTx db) m c d = Admitted"
    and n: "res_nonneg rs" and le: "held rv_memory rs \<le> held rv_memory (db_res db) + m" "held rv_vcpu rs \<le> held rv_vcpu (db_res db) + c"
  shows "in_budget p rs"
proof -
  have "(of_int (held rv_vcpu rs) :: rat) \<le> of_int (held rv_vcpu (db_res db) + c)" using le(2) by (simp only: of_int_le_iff)
  then show ?thesis
    using Admit_memory [OF a] Admit_vcpu [OF a] le(1) n by (auto simp: in_budget_def totals_held)
qed

lemma flags_budget:
  assumes b: "in_budget p (db_res db)" and d: "distinct (map rv_vmID (db_res db))"
    and ok: "acquire_check t db = None"
    and pol: "ti_acquireCompute t \<Longrightarrow> \<exists>r. find_res db (ti_vmID t) = Some r \<and> ti_admit t = Some (\<lambda>x. Admit p x (rv_memory r) (rv_vcpu r) 0)"
  shows "in_budget p (map (\<lambda>r. if rv_vmID r = ti_vmID t then reservation_flags now t r else r) (db_res db))"
proof (cases "ti_acquireCompute t \<and> \<not> ti_releaseAll t \<and> \<not> ti_releaseCompute t")
  case False
  then show ?thesis by (intro in_budget_release [OF b]) (auto simp: reservation_flags_def holds_def split: if_splits)
next
  case True
  then obtain r where r: "find_res db (ti_vmID t) = Some r" "ti_admit t = Some (\<lambda>x. Admit p x (rv_memory r) (rv_vcpu r) 0)" using pol by blast
  then have a: "Admit p (reservationTotalsInTx db) (rv_memory r) (rv_vcpu r) 0 = Admitted"
    using ok True by (auto simp: acquire_check_def split: admit_answer.splits)
  have mem: "r \<in> set (db_res db)" "rv_vmID r = ti_vmID t" using find_key_Some [of rv_vmID] r(1) unfolding find_res_def by auto
  have n: "res_nonneg (db_res db)" using b by (simp add: in_budget_def)
  have keep: "rv_memory (reservation_flags now t x) = rv_memory x" "rv_vcpu (reservation_flags now t x) = rv_vcpu x" for x
    by (simp_all add: reservation_flags_def)
  show ?thesis
    by (rule in_budget_admit [OF b a]) (use n mem keep d in \<open>auto simp: res_nonneg_def intro!: held_acquire\<close>)
qed

text \<open>
  The calls the manager makes of the store: every create, batch member and restart asks the policy for
  exactly what its reservation will hold (\<open>CreateVM\<close>, \<open>CreateBatch\<close> and the start action in
  \<open>src/internal/runtime\<close>).
\<close>

definition batch_policy :: "policy \<Rightarrow> batch_input \<Rightarrow> bool" where
  "batch_policy p b \<longleftrightarrow>
     (bi_mode b = AtomicReservation \<longrightarrow> bi_admitBatch b = (\<lambda>t. Admit p t (sum_list (map (\<lambda>m. mi_memoryTotal (snd m)) (bi_members b)))
       (sum_list (map (\<lambda>m. mi_vcpu (snd m)) (bi_members b)))
       (sum_list (map (\<lambda>m. mi_rootDisk (snd m) + mi_workspaceDisk (snd m)) (bi_members b)))))
     \<and> (bi_mode b = BestEffort \<longrightarrow> bi_admitMember b = Admit p) \<and> list_all (\<lambda>m. 0 \<le> mi_memoryTotal (snd m) \<and> 0 \<le> mi_vcpu (snd m)) (bi_members b)"

inductive policy_call :: "policy \<Rightarrow> (envelope \<Rightarrow> string) \<Rightarrow> vmdb \<Rightarrow> vmdb \<Rightarrow> bool" for p digest where
  p_create: "ci_admit i = (\<lambda>t. Admit p t (mi_memoryTotal i) (mi_vcpu i) (mi_rootDisk i + mi_workspaceDisk i)) \<Longrightarrow>
    0 \<le> mi_memoryTotal i \<Longrightarrow> 0 \<le> mi_vcpu i \<Longrightarrow> policy_call p digest db (fst (CreateVMWithOperation digest now runID i db))"
| p_batch: "batch_policy p b \<Longrightarrow> policy_call p digest db (fst (CreateVMBatch digest now b db))"
| p_transition: "(ti_acquireCompute t \<Longrightarrow> \<exists>r. find_res db (ti_vmID t) = Some r
      \<and> ti_admit t = Some (\<lambda>x. Admit p x (rv_memory r) (rv_vcpu r) 0)) \<Longrightarrow>
    policy_call p digest db (fst (TransitionVM digest now t db))"
| p_plain: "plain_call digest db db' \<Longrightarrow> policy_call p digest db db'"

lemma policy_call_store: "policy_call p digest db db' \<Longrightarrow> store_call digest db db'"
  by (auto elim!: policy_call.cases intro: store_call.intros)

lemma create_budget:
  assumes b: "in_budget p (db_res db)"
    and adm: "ci_admit i = (\<lambda>t. Admit p t (mi_memoryTotal i) (mi_vcpu i) (mi_rootDisk i + mi_workspaceDisk i))"
    and pos: "0 \<le> mi_memoryTotal i" "0 \<le> mi_vcpu i"
  shows "in_budget p (db_res (fst (CreateVMWithOperation digest now runID i db)))"
proof -
  have fresh: "in_budget p (db_res db1)" if c: "create_fresh digest now runID i db = (db1, Inr x)" for db1 x
  proof (cases "ci_admit i (reservationTotalsInTx db)")
    case Admitted
    then obtain opID where "insert_admitted digest now runID (ci_owner i) (ci_kind i) (ci_key i) (ci_hash i) i db = (db1, Inr opID)"
      using c by (auto simp: create_fresh_def elim!: bind_cases)
    then obtain r where r: "db_res db1 = db_res db @ [r]" "fresh_row i r" using insert_admitted_res by blast
    show ?thesis
      by (rule in_budget_admit [OF b Admitted [unfolded adm]])
        (use r b pos in \<open>auto simp: in_budget_def res_nonneg_def fresh_row_def\<close>)
  next
    case (Refuse e m)
    then have "db_res db1 = db_res db"
      using c by (auto simp: create_fresh_def insert_op_def elim!: bind_cases dest!: emit_res_eq split: if_splits)
    then show ?thesis using b by simp
  qed (use c in \<open>simp add: create_fresh_def\<close>)
  show ?thesis
    using b fresh unfolding CreateVMWithOperation_def
    by (auto simp: in_tx_def split: sum.splits option.splits prod.splits)
qed

lemma best_effort_budget:
  "best_effort_loop digest now b i pos a l ms db = (db1, Inr x) \<Longrightarrow> in_budget p (db_res db) \<Longrightarrow> bi_admitMember i = Admit p \<Longrightarrow>
   list_all (\<lambda>m. 0 \<le> mi_memoryTotal (snd m) \<and> 0 \<le> mi_vcpu (snd m)) ms \<Longrightarrow> in_budget p (db_res db1)"
proof (induction ms arbitrary: pos a l db x)
  case (Cons m ms)
  show ?case
  proof (cases "bi_admitMember i (reservationTotalsInTx db) (mi_memoryTotal (snd m)) (mi_vcpu (snd m))
             (mi_rootDisk (snd m) + mi_workspaceDisk (snd m))")
    case Admitted
    then obtain d y z where d: "insertOneMember digest now b pos (bi_owner i) m db = (d, Inr y)"
      "best_effort_loop digest now b i (Suc pos) True l ms d = (db1, Inr z)"
      using Cons.prems(1) by (auto elim!: bind_cases)
    obtain r where r: "db_res d = db_res db @ [r]" "fresh_row (snd m) r" using insertOneMember_res [OF d(1)] by blast
    have "in_budget p (db_res d)"
      by (rule in_budget_admit [OF Cons.prems(2) Admitted [unfolded Cons.prems(3)]])
        (use r Cons.prems in \<open>auto simp: in_budget_def res_nonneg_def fresh_row_def\<close>)
    then show ?thesis using Cons.IH [OF d(2)] Cons.prems by simp
  next
    case (Refuse c w)
    then obtain z where "best_effort_loop digest now b i (Suc pos) a (Some (c, w)) ms
        (add_member (refused_row b pos (mi_name (snd m)) (c, w)) db) = (db1, Inr z)"
      using Cons.prems(1) by (auto elim!: bind_cases)
    from Cons.IH [OF this] Cons.prems show ?thesis by (simp add: add_member_def)
  qed (use Cons.prems in simp)
qed simp

lemma atomic_budget:
  assumes p: "processAtomicBatch digest now b i db = (db1, Inr x)" and bud: "in_budget p (db_res db)" and pol: "batch_policy p i"
    and mode: "bi_mode i = AtomicReservation"
  shows "in_budget p (db_res db1)"
proof (cases "bi_admitBatch i (reservationTotalsInTx db)")
  case Admitted
  then obtain xs where "insertAdmittedMembers digest now b 0 (bi_owner i) (bi_members i) db = (db1, Inr xs)"
    using p by (auto simp: processAtomicBatch_def elim!: bind_cases)
  then obtain rs where rs: "db_res db1 = db_res db @ rs" "list_all2 (\<lambda>m r. fresh_row (snd m) r) (bi_members i) rs"
    using insertAdmittedMembers_res by blast
  have "res_nonneg rs"
    using rs(2) pol unfolding batch_policy_def res_nonneg_def list_all2_conv_all_nth list_all_length
    by (auto simp: in_set_conv_nth fresh_row_def)
  then have n: "res_nonneg (db_res db @ rs)" using bud by (auto simp: in_budget_def res_nonneg_def)
  have a: "Admit p (reservationTotalsInTx db) (held rv_memory rs) (held rv_vcpu rs)
      (sum_list (map (\<lambda>m. mi_rootDisk (snd m) + mi_workspaceDisk (snd m)) (bi_members i))) = Admitted"
    using Admitted pol mode fresh_rows_held [OF rs(2)] by (simp add: batch_policy_def)
  show ?thesis unfolding rs(1) by (rule in_budget_admit [OF bud a n]) simp_all
next
  case (Refuse c w)
  have "db_res (fst (refuse_members b pos r ms d)) = db_res d" for pos r ms d
    by (induction ms arbitrary: pos d) (simp_all add: Let_def case_prod_beta add_member_def)
  then show ?thesis using p Refuse bud by (auto simp: processAtomicBatch_def case_prod_beta)
qed (use p in \<open>simp add: processAtomicBatch_def\<close>)

lemma batch_budget:
  assumes b: "in_budget p (db_res db)" and pol: "batch_policy p i"
  shows "in_budget p (db_res (fst (CreateVMBatch digest now i db)))"
proof -
  have "in_budget p (db_res db1)" if f: "batch_fresh digest now i db = (db1, Inr r)" for db1 r
  proof -
    obtain d0 d1 bid x where d: "insert_batch now i db = (d0, Inr bid)"
      "(case bi_mode i of AtomicReservation \<Rightarrow> processAtomicBatch digest now bid i | BestEffort \<Rightarrow> processBestEffortBatch digest now bid i
        | OtherMode _ \<Rightarrow> (\<lambda>db. (db, Inl UnknownMode))) d0 = (d1, Inr x)" "db_res db1 = db_res d1"
      using f unfolding batch_fresh_def
      by (auto elim!: bind_cases dest!: emit_res_eq simp: insert_op_def set_batch_op_def split: if_splits)
    have "db_res d0 = db_res db" using d(1) by (auto simp: insert_batch_def split: if_splits)
    then have "in_budget p (db_res d1)"
      using d(2) b pol atomic_budget [of digest now bid i d0 d1 x p]
        best_effort_budget [of digest now bid i 0 False None "bi_members i" d0 d1 _ p]
      by (auto simp: processBestEffortBatch_def batch_policy_def elim!: bind_cases split: reservation_mode.splits)
    then show ?thesis using d(3) by simp
  qed
  then show ?thesis
    using b unfolding CreateVMBatch_def by (auto simp: in_tx_def split: sum.splits option.splits prod.splits)
qed

lemma transition_budget:
  assumes b: "in_budget p (db_res db)" and inv: "db_inv digest db"
    and pol: "ti_acquireCompute t \<Longrightarrow> \<exists>r. find_res db (ti_vmID t) = Some r \<and> ti_admit t = Some (\<lambda>x. Admit p x (rv_memory r) (rv_vcpu r) 0)"
  shows "in_budget p (db_res (fst (TransitionVM digest now t db)))"
proof (cases "find_vm db (ti_vmID t)")
  case (Some v)
  show ?thesis
  proof (cases "transition_check t db v")
    case None
    then have ok: "acquire_check t db = None" by (auto simp: transition_check_def split: if_splits)
    have "store_inv digest (db_ev db)" "distinct (map rv_vmID (db_res db))" using inv by (simp_all add: db_inv_def vm_inv_def)
    then show ?thesis using TransitionVM_moved [OF _ Some None] flags_budget [OF b _ ok pol] by simp
  qed (use TransitionVM_refused(2) [OF Some] b in simp)
qed (simp add: TransitionVM_refused b)

lemma policy_call_budget:
  assumes inv: "db_inv digest db \<and> in_budget p (db_res db)" and c: "policy_call p digest db db'"
  shows "(db_inv digest db' \<and> in_budget p (db_res db')) \<and> history db db'"
proof -
  have "in_budget p (db_res db')"
    using c
  proof cases
    case p_plain
    from plain_call_res [OF this] inv show ?thesis
      by (auto simp: set_res_def holds_def intro!: in_budget_release split: if_splits)
  qed (use inv create_budget batch_budget transition_budget in auto)
  then show ?thesis using sc.step_ok [OF _ policy_call_store [OF c]] inv by blast
qed

interpretation pc: step_history "policy_call p digest" "\<lambda>db. db_inv digest db \<and> in_budget p (db_res db)" history for p digest
  by unfold_locales (simp, fact history_trans, fact policy_call_budget)

section \<open>Properties\<close>

definition demo_policy :: policy where
  "demo_policy = \<lparr>pl_admission = \<lparr>ad_allowMemoryOvercommit = False, ad_cpuOvercommitRatio = 2, ad_reserveHostCPUCores = 1,
       ad_reserveHostMemoryMin = 1024, ad_reserveHostMemoryFraction = 1 / 10, ad_reservePerVMOverhead = 64,
       ad_reserveInspectionSlots = 1, ad_reserveInspectorMemory = 512, ad_reserveInspectorCPUCores = 1,
       ad_reserveInspectorScratch = 1024\<rparr>,
     pl_host = \<lparr>hr_totalMemory = 4096, hr_cpuCores = 4, hr_stateDiskFree = 100000\<rparr>,
     pl_observe = None, pl_round = (\<lambda>q. q), pl_format = (\<lambda>_. [])\<rparr>"


definition demo_create :: create_vm_input where
  "demo_create = \<lparr>mi_name = ''web'', mi_vmID = ''vm-1'', mi_templateID = ''base'', mi_templateDigest = ''d0'', mi_vcpu = 2,
     mi_memory = 512, mi_rootDisk = 1024, mi_workspaceDisk = 1024, mi_memoryTotal = 576, mi_networkProfile = ''none'',
     mi_networkPolicy = ''p0'', mi_labels = [], mi_run = None, ci_owner = ''alice'', ci_kind = ''vm.create'', ci_key = None,
     ci_hash = [], ci_admit = (\<lambda>t. Admit demo_policy t 576 2 2048)\<rparr>"


end
