(* ===== verification/State_Logic.thy ===== *)
theory State_Logic
  imports Obs_Prelude "HOL-Library.State_Monad"
begin

text \<open>
  Weakest preconditions for programs of the state monad, which the lifecycle manager, the privileged
  daemon and the jailer adapter are written in: \<open>wp c Q s\<close> says that running \<open>c\<close> in the state \<open>s\<close> ends with a result and a
  state that satisfy \<open>Q\<close>. The rules for branching follow the program, so a proof about an operation
  walks through it in the order its source has.
\<close>

abbreviation ret :: "'a \<Rightarrow> ('s, 'a) state" where
  "ret \<equiv> State_Monad.return"

definition wp :: "('s, 'a) state \<Rightarrow> ('a \<Rightarrow> 's \<Rightarrow> bool) \<Rightarrow> 's \<Rightarrow> bool" where
  "wp c Q s = (case run_state c s of (r, s') \<Rightarrow> Q r s')"

lemma wp_return [simp]: "wp (ret x) Q = Q x"
  by (rule ext) (simp add: wp_def)

lemma wp_bind [simp]: "wp (State_Monad.bind c k) Q = wp c (\<lambda>r. wp (k r) Q)"
  by (rule ext) (simp add: wp_def split: prod.splits)

lemma wp_if: "wp (if b then c else d) Q = (if b then wp c Q else wp d Q)"
  by simp

lemma wp_mono: "wp c P s \<Longrightarrow> (\<And>r s'. P r s' \<Longrightarrow> Q r s') \<Longrightarrow> wp c Q s"
  by (auto simp: wp_def split: prod.splits)

lemma wp_ifI: "(b \<Longrightarrow> wp c Q m) \<Longrightarrow> (\<not> b \<Longrightarrow> wp d Q m) \<Longrightarrow> wp (if b then c else d) Q m"
  by simp

lemma wp_sumI: "(\<And>a. x = Inl a \<Longrightarrow> wp (f a) Q m) \<Longrightarrow> (\<And>b. x = Inr b \<Longrightarrow> wp (g b) Q m) \<Longrightarrow> wp (case x of Inl a \<Rightarrow> f a | Inr b \<Rightarrow> g b) Q m"
  by (cases x) simp_all

lemma wp_optionI: "(x = None \<Longrightarrow> wp c Q m) \<Longrightarrow> (\<And>b. x = Some b \<Longrightarrow> wp (g b) Q m) \<Longrightarrow> wp (case x of None \<Rightarrow> c | Some b \<Rightarrow> g b) Q m"
  by (cases x) simp_all

lemma wp_prodI: "(\<And>a b. x = (a, b) \<Longrightarrow> wp (f a b) Q m) \<Longrightarrow> wp (case x of (a, b) \<Rightarrow> f a b) Q m"
  by (cases x) simp

lemmas walk = wp_ifI wp_sumI wp_optionI wp_prodI

end
