(* ===== verification/Manager_State.thy ===== *)
theory Manager_State
  imports Admission State_Logic
begin

text \<open>
  What the lifecycle manager works on (\<open>src/internal/runtime/runtime.go\<close> and the \<open>Manager\<close> type of
  \<open>manager.go\<close>, \<open>batch.go\<close> and \<open>cleanup_retry.go\<close>): the runtime interface with its errors and its contract,
  the manager's state, and the three things its code does, namely a call of the store, a call of the
  runtime and work handed to a tracked goroutine.

  The operations of the manager are programs of the state monad over \<open>manager\<close>. The host is an opaque
  state that only the runtime's verbs change. The clock, minted ids, redaction and JSON decoding are
  functions in the environment; a store call that fails for reasons outside the tables (a storage
  error, a context that expired) is one for which \<open>e_down\<close> holds, so every statement about the
  manager covers those failures. Goroutines are tasks that run later, each as a whole.
\<close>

section \<open>The runtime\<close>

record vm_spec =
  sp_vmID :: string
  sp_bootID :: string
  sp_vcpu :: int
  sp_memory :: int
  sp_rootDisk :: int
  sp_workspaceDisk :: int
  sp_networkProfile :: string
  sp_networkPolicy :: string
  sp_templateID :: string
  sp_templateDigest :: string

text \<open>
  The errors a runtime call can end with, as \<open>errors.As\<close> and \<open>errors.Is\<close> tell them apart.
\<close>

datatype rt_err = RtUnavailable string | RtLaunchPending string string string | RtStopNotProven string string
  | RtCleanupPending string string string | RtCanceled | RtOther string

definition rt_text :: "rt_err \<Rightarrow> string" where
  "rt_text x = (case x of
      RtUnavailable r \<Rightarrow> ''runtime unavailable: '' @ r
    | RtLaunchPending i b r \<Rightarrow> ''launch outcome pending for '' @ i @ '' boot '' @ b @ '': '' @ r
    | RtStopNotProven i r \<Rightarrow> ''stop of '' @ i @ '' not proven: '' @ r
    | RtCleanupPending i w r \<Rightarrow> i @ '' stopped, but its '' @ w @ '' could not be reclaimed: '' @ r
    | RtCanceled \<Rightarrow> ''context canceled''
    | RtOther r \<Rightarrow> r)"

record 'h runtime =
  rt_Availability :: "'h \<Rightarrow> rt_err option"
  rt_Launch :: "vm_spec \<Rightarrow> 'h \<Rightarrow> (rt_err + images option) \<times> 'h"
  rt_Pause :: "string \<Rightarrow> 'h \<Rightarrow> rt_err option \<times> 'h"
  rt_Resume :: "string \<Rightarrow> 'h \<Rightarrow> rt_err option \<times> 'h"
  rt_Stop :: "string \<Rightarrow> int \<Rightarrow> 'h \<Rightarrow> (bool \<times> rt_err option) \<times> 'h"
  rt_ForceStop :: "string \<Rightarrow> 'h \<Rightarrow> rt_err option \<times> 'h"
  rt_Release :: "string \<Rightarrow> 'h \<Rightarrow> rt_err option \<times> 'h"

definition unavailableRuntime :: "string \<Rightarrow> (unit \<Rightarrow> string) option \<Rightarrow> 'h runtime" where
  "unavailableRuntime reason summary =
     \<lparr>rt_Availability = (\<lambda>_. Some (RtUnavailable (case summary of None \<Rightarrow> reason
         | Some f \<Rightarrow> if f () \<noteq> [] then reason @ ''; preflight: '' @ f () else reason))),
      rt_Launch = (\<lambda>_ h. (Inl (RtUnavailable reason), h)), rt_Pause = (\<lambda>_ h. (Some (RtUnavailable reason), h)),
      rt_Resume = (\<lambda>_ h. (Some (RtUnavailable reason), h)), rt_Stop = (\<lambda>_ _ h. ((False, Some (RtUnavailable reason)), h)),
      rt_ForceStop = (\<lambda>_ h. (Some (RtUnavailable reason), h)), rt_Release = (\<lambda>_ h. (Some (RtUnavailable reason), h))\<rparr>"

definition ForHost :: "string \<Rightarrow> (unit \<Rightarrow> string) option \<Rightarrow> 'h runtime" where
  "ForHost goos summary =
     unavailableRuntime (if goos = ''darwin'' then ''no KVM on this platform''
       else ''firecracker adapter not built until the Linux track (L0)'') summary"

definition cleanupDebt :: "rt_err option \<Rightarrow> bool" where
  "cleanupDebt x = (case x of Some (RtCleanupPending _ _ _) \<Rightarrow> True | _ \<Rightarrow> False)"

text \<open>A stop is proven when it ended without an error, or with the cleanup debt alone.\<close>

definition stop_proven :: "rt_err option \<Rightarrow> bool" where
  "stop_proven x \<longleftrightarrow> x = None \<or> cleanupDebt x"

section \<open>The manager\<close>

record vm_defaults =
  vd_vcpu :: int
  vd_memory :: int
  vd_rootDisk :: int
  vd_workspaceDisk :: int
  vd_networkProfile :: string
  vd_networkPolicy :: string
  vd_stopGrace :: int

record template =
  tp_id :: string
  tp_description :: string
  tp_privileges :: "string list"
  tp_sensors :: "string list"
  tp_protocols :: "(string \<times> string) list"
  tp_digest :: string

record launch_member =
  lm_vm :: vm
  lm_op :: nat
  lm_tpl :: template
  lm_vcpu :: int
  lm_memory :: int
  lm_rootDisk :: int
  lm_workspaceDisk :: int

record batch_coord =
  bc_onFailure :: string
  bc_batchOp :: nat
  bc_total :: nat
  bc_members :: "launch_member list"
  bc_stopped :: bool
  bc_succeeded :: int
  bc_failed :: int
  bc_remaining :: int

text \<open>
  The functions handed to \<open>GoTracked\<close>: a launch, the launch of a batch member under its coordinator, the
  conclusion of a run, the stop after a run, a report.
\<close>

datatype task = LaunchTask launch_member | MemberTask nat launch_member | ConcludeTask string | StopTask string | ReportTask string

text \<open>
  A claim on a VM is one user of it, so \<open>mg_claims\<close> lists an id once per user.
\<close>

record 'h manager =
  mg_db :: vmdb
  mg_host :: 'h
  mg_calls :: nat
  mg_closed :: bool
  mg_tasks :: "task list"
  mg_claims :: "string list"
  mg_deleting :: "string list"
  mg_after :: int
  mg_coords :: "batch_coord list"
  mg_reports :: "string list"

type_synonym ('h, 'a) prog = "('h manager, 'a) state"

record 'h menv =
  e_digest :: "envelope \<Rightarrow> string"
  e_redact :: "string \<Rightarrow> string"
  e_decode :: "string \<Rightarrow> jval option"
  e_quote :: "jval \<Rightarrow> string"
  e_text :: "store_error \<Rightarrow> string"
  e_clock :: "nat \<Rightarrow> int"
  e_uuid :: "nat \<Rightarrow> string"
  e_memberID :: "nat \<Rightarrow> nat \<Rightarrow> string"
  e_runID :: "nat \<Rightarrow> nat \<Rightarrow> string"
  e_down :: "nat \<Rightarrow> bool"
  e_canceled :: "nat \<Rightarrow> bool"
  e_createHash :: "string \<times> string \<times> int \<times> int \<times> int \<times> int \<Rightarrow> string"
  e_batchHash :: "string \<times> string \<times> member_input list \<Rightarrow> string"
  e_rt :: "'h runtime"
  e_policy :: policy
  e_defaults :: vm_defaults
  e_templates :: "(string \<times> template) list"
  e_adopted :: "string list"
  e_ambiguous :: "(string \<times> string) list"
  e_reportGen :: bool

datatype mgr_error = MStore string store_error | MRuntime string rt_err | MInvalidRequest string
  | MTemplateUnknown string "string list" | MReleaseFailed string string | MRuntimeOp string string rt_err
  | MUnknownAction "string list" | MVMNotRunning | MRunConcluded | MVerdictCriteriaMismatch | MConcludeArgsMissing | MVMLive
  | MMember nat mgr_error

text \<open>One call of the store, at the reading of the clock its number has; one read of it.\<close>

definition on_store :: "'h menv \<Rightarrow> (int \<Rightarrow> vmdb \<Rightarrow> vmdb \<times> (store_error + 'a)) \<Rightarrow> ('h, store_error + 'a) prog" where
  "on_store e f = State (\<lambda>m.
     let n = mg_calls m; m1 = m\<lparr>mg_calls := Suc n\<rparr>
     in if e_down e n then (Inl (StorageError ''store call failed''), m1)
        else case f (e_clock e n) (mg_db m) of (db, r) \<Rightarrow> (r, m1\<lparr>mg_db := db\<rparr>))"

definition read_store :: "'h menv \<Rightarrow> (vmdb \<Rightarrow> store_error + 'a) \<Rightarrow> ('h, store_error + 'a) prog" where
  "read_store e f = on_store e (\<lambda>_ db. (db, f db))"

definition on_host :: "('h \<Rightarrow> 'a \<times> 'h) \<Rightarrow> ('h, 'a) prog" where
  "on_host f = State (\<lambda>m. case f (mg_host m) of (r, h) \<Rightarrow> (r, m\<lparr>mg_host := h\<rparr>))"

text \<open>A reading of the caller's context (\<open>ctx.Err()\<close>), and a minted id.\<close>

definition canceled :: "'h menv \<Rightarrow> ('h, bool) prog" where
  "canceled e = State (\<lambda>m. (e_canceled e (mg_calls m), m))"

definition new_uuid :: "'h menv \<Rightarrow> ('h, string) prog" where
  "new_uuid e = State (\<lambda>m. (e_uuid e (mg_calls m), m))"

text \<open>A piece of the manager's own memory, changed under its locks.\<close>

definition on_mem :: "('h manager \<Rightarrow> 'a \<times> 'h manager) \<Rightarrow> ('h, 'a) prog" where
  "on_mem f = State f"

definition beginMutation :: "('h, mgr_error option) prog" where
  "beginMutation = on_mem (\<lambda>m. (if mg_closed m then Some (MRuntime [] (RtUnavailable ''manager is closing'')) else None, m))"

definition GoTracked :: "task \<Rightarrow> ('h, bool) prog" where
  "GoTracked t = on_mem (\<lambda>m. if mg_closed m then (False, m) else (True, m\<lparr>mg_tasks := mg_tasks m @ [t]\<rparr>))"

definition BeginClose :: "('h, unit) prog" where
  "BeginClose = on_mem (\<lambda>m. ((), m\<lparr>mg_closed := True\<rparr>))"

text \<open>
  Claims. Foreground work joins the users of a VM; a cleanup retry takes a VM only when nobody uses it.
  A retry runs as a whole here, so foreground work never meets one halfway.
\<close>

definition claimLifecycle :: "string \<Rightarrow> ('h, unit) prog" where
  "claimLifecycle i = on_mem (\<lambda>m. ((), m\<lparr>mg_claims := i # mg_claims m\<rparr>))"

definition releaseClaim :: "string \<Rightarrow> ('h, unit) prog" where
  "releaseClaim i = on_mem (\<lambda>m. ((), m\<lparr>mg_claims := remove1 i (mg_claims m)\<rparr>))"

definition claimCleanup :: "string \<Rightarrow> ('h, bool) prog" where
  "claimCleanup i = on_mem (\<lambda>m. if i \<in> set (mg_claims m) then (False, m) else (True, m\<lparr>mg_claims := i # mg_claims m\<rparr>))"

definition beginDelete :: "string \<Rightarrow> ('h, bool) prog" where
  "beginDelete i = on_mem (\<lambda>m. if i \<in> set (mg_deleting m) then (False, m) else (True, m\<lparr>mg_deleting := i # mg_deleting m\<rparr>))"

definition endDelete :: "string \<Rightarrow> ('h, unit) prog" where
  "endDelete i = on_mem (\<lambda>m. ((), m\<lparr>mg_deleting := removeAll i (mg_deleting m)\<rparr>))"

text \<open>The store's operations, as the manager calls them.\<close>

definition transition0 :: "string \<Rightarrow> vm_state \<Rightarrow> string \<Rightarrow> transition_input" where
  "transition0 i to reason = \<lparr>ti_vmID = i, ti_expectedRevision = None, ti_from = None, ti_to = to, ti_reason = reason,
     ti_opID = 0, ti_desired = None, ti_failureStage = None, ti_failureReason = None, ti_releaseCompute = False,
     ti_acquireCompute = False, ti_releaseAll = False, ti_bootID = None, ti_images = None, ti_admit = None\<rparr>"

definition move_vm :: "'h menv \<Rightarrow> transition_input \<Rightarrow> ('h, store_error + vm) prog" where
  "move_vm e t = on_store e (\<lambda>now. TransitionVM (e_digest e) now t)"

definition move_run :: "'h menv \<Rightarrow> run_transition \<Rightarrow> ('h, store_error + run) prog" where
  "move_run e t = on_store e (\<lambda>now. TransitionRun (e_digest e) now t)"

definition update_op :: "'h menv \<Rightarrow> op_update \<Rightarrow> ('h, store_error + operation) prog" where
  "update_op e u = on_store e (\<lambda>now. UpdateOperation (e_digest e) now u)"

definition cleanup_failure :: "'h menv \<Rightarrow> string \<Rightarrow> vm_state \<Rightarrow> string \<Rightarrow> ('h, store_error + unit) prog" where
  "cleanup_failure e i s reason = on_store e (\<lambda>now. RecordCleanupFailure (e_digest e) (e_redact e) now i (state_name s) reason)"

definition get_vm :: "'h menv \<Rightarrow> string \<Rightarrow> ('h, store_error + vm) prog" where
  "get_vm e i = read_store e (\<lambda>db. GetVM db i)"

definition get_run :: "'h menv \<Rightarrow> string \<Rightarrow> ('h, store_error + run) prog" where
  "get_run e i = read_store e (\<lambda>db. GetRun db i)"

definition is_invalid :: "store_error \<Rightarrow> bool" where
  "is_invalid x = (case x of InvalidTransition _ _ \<Rightarrow> True | _ \<Rightarrow> False)"

definition is_invalid_run :: "store_error \<Rightarrow> bool" where
  "is_invalid_run x = (case x of InvalidRunTransition _ _ \<Rightarrow> True | _ \<Rightarrow> False)"

definition op_update0 :: "nat \<Rightarrow> string \<Rightarrow> op_state \<Rightarrow> op_update" where
  "op_update0 i phase s = \<lparr>ou_id = i, ou_phase = phase, ou_state = s, ou_ifState = None, ou_cause = None, ou_message = None\<rparr>"

end
