(* ===== verification/Run_Engine.thy ===== *)
theory Run_Engine
  imports Manager_State
begin

text \<open>
  The run engine (\<open>src/internal/runtime/runs.go\<close>): creating a run, the three ways to conclude one, what
  happens after a conclusion, and the hooks the VM lifecycle calls.

  A conclusion is two pinned moves, to \<open>concluding\<close> and on to the outcome; whoever is refused the first
  move walks away. The stop after a run and the report are tasks.
\<close>

section \<open>Evaluation\<close>

datatype trigger = GuestResult | VMTerminal | Interrupted | LaunchFail

definition triggerDesc :: "trigger \<Rightarrow> string" where
  "triggerDesc t = (case t of VMTerminal \<Rightarrow> ''vm reached a terminal state''
     | Interrupted \<Rightarrow> ''interrupted: daemon restarted; vm no longer live''
     | GuestResult \<Rightarrow> ''result was submitted'' | LaunchFail \<Rightarrow> ''vm launch failed'')"

definition triggerReason :: "trigger \<Rightarrow> string" where
  "triggerReason t = (case t of VMTerminal \<Rightarrow> ''vm reached a terminal state''
     | Interrupted \<Rightarrow> ''interrupted: daemon restarted; vm no longer live''
     | GuestResult \<Rightarrow> ''guest result submitted'' | LaunchFail \<Rightarrow> ''vm launch failed before the run started'')"

definition evaluateRun :: "run \<Rightarrow> trigger \<Rightarrow> run_phase \<times> string \<times> string" where
  "evaluateRun r t =
     (if t = LaunchFail then (RInconclusive, ''system'', ''vm launch failed before the run started'')
      else if rn_criteria r = ''operator_verdict''
        then (RInconclusive, ''system'', ''no verdict was submitted before '' @ triggerDesc t)
      else if rn_criteria r = ''guest_result'' then
        (if rn_resultStatus r = ''succeeded'' then (RSucceeded, ''guest_result'', ''guest reported success'')
         else if rn_resultStatus r = ''failed'' then (RFailed, ''guest_result'', ''guest reported failure'')
         else (RInconclusive, ''system'', ''no result was recorded before '' @ triggerDesc t))
      else if rn_criteria r = ''exec_exit_zero''
        then (RInconclusive, ''system'', ''no exec attached; exec capability not built'')
      else (RInconclusive, ''system'', ''unknown criteria type''))"

section \<open>Concluding\<close>

definition postConclude :: "'h menv \<Rightarrow> run \<Rightarrow> ('h, unit) prog" where
  "postConclude e r = do {
     _ \<leftarrow> (if rn_onCompletion r = ''stop'' then GoTracked (StopTask (rn_vmID r)) else ret False);
     _ \<leftarrow> (if e_reportGen e then GoTracked (ReportTask (rn_id r)) else ret False);
     ret ()
   }"

text \<open>
  The two moves every conclusion makes. A move refused as invalid is a lost race, answered by the run
  as it is now.
\<close>

definition run_now :: "'h menv \<Rightarrow> string \<Rightarrow> ('h, mgr_error + run) prog" where
  "run_now e runID = do {
     r \<leftarrow> get_run e runID;
     ret (case r of Inl x \<Rightarrow> Inl (MStore [] x) | Inr run \<Rightarrow> Inr run)
   }"

definition finish_run :: "'h menv \<Rightarrow> string \<Rightarrow> string \<Rightarrow> run_phase \<times> string \<times> string \<Rightarrow> ('h, mgr_error + run) prog" where
  "finish_run e what runID outcome = (case outcome of (terminal, evaluatedBy, reason) \<Rightarrow> do {
     r \<leftarrow> move_run e \<lparr>tr_runID = runID, tr_from = Some RConcluding, tr_to = terminal, tr_reason = reason, tr_evaluatedBy = evaluatedBy\<rparr>;
     case r of
       Inl x \<Rightarrow> if is_invalid_run x then run_now e runID else ret (Inl (MStore what x))
     | Inr concluded \<Rightarrow> do { postConclude e concluded; ret (Inr concluded) }
   })"

definition begin_conclude ::
  "'h menv \<Rightarrow> string \<Rightarrow> string \<Rightarrow> run \<Rightarrow> string \<Rightarrow> ('h, mgr_error + run) prog \<Rightarrow> ('h, mgr_error + run) prog" where
  "begin_conclude e what runID run reason rest = do {
     r \<leftarrow> move_run e \<lparr>tr_runID = runID, tr_from = Some (rn_phase run), tr_to = RConcluding, tr_reason = reason, tr_evaluatedBy = []\<rparr>;
     case r of
       Inl x \<Rightarrow> if is_invalid_run x then run_now e runID else ret (Inl (MStore what x))
     | Inr _ \<Rightarrow> rest
   }"

definition concludeRun :: "'h menv \<Rightarrow> string \<Rightarrow> trigger \<Rightarrow> ('h, mgr_error + run) prog" where
  "concludeRun e runID trigger = do {
     r \<leftarrow> get_run e runID;
     case r of
       Inl x \<Rightarrow> ret (Inl (MStore [] x))
     | Inr run \<Rightarrow>
         if rn_phase run \<in> set terminalRunPhases then ret (Inr run)
         else begin_conclude e ''conclude: transition to concluding: '' runID run (triggerReason trigger) (do {
           r2 \<leftarrow> get_run e runID;
           case r2 of
             Inl x \<Rightarrow> ret (Inl (MStore ''conclude: re-read after concluding: '' x))
           | Inr run2 \<Rightarrow> finish_run e ''conclude: transition to terminal: '' runID (evaluateRun run2 trigger)
         })
   }"

definition concludeRunAbort :: "'h menv \<Rightarrow> string \<Rightarrow> string \<Rightarrow> ('h, mgr_error + run) prog" where
  "concludeRunAbort e runID reason = do {
     r \<leftarrow> get_run e runID;
     case r of
       Inl x \<Rightarrow> ret (Inl (MStore [] x))
     | Inr run \<Rightarrow>
         begin_conclude e ''abort: transition to concluding: '' runID run ''operator abort''
           (finish_run e ''abort: transition to aborted: '' runID
              (RAborted, ''operator'', if reason = [] then ''operator aborted the run'' else reason))
   }"

definition concludeRunWithVerdict :: "'h menv \<Rightarrow> string \<Rightarrow> run_phase \<Rightarrow> string \<Rightarrow> ('h, mgr_error + run) prog" where
  "concludeRunWithVerdict e runID verdict reason = do {
     r \<leftarrow> get_run e runID;
     case r of
       Inl x \<Rightarrow> ret (Inl (MStore [] x))
     | Inr run \<Rightarrow>
         begin_conclude e ''conclude: transition to concluding: '' runID run ''operator verdict''
           (finish_run e ''conclude: transition to terminal: '' runID
              (verdict, ''operator'', if reason = [] then ''operator verdict: '' @ phase_name verdict else reason))
   }"

definition ConcludeRun :: "'h menv \<Rightarrow> string \<Rightarrow> run_phase option \<Rightarrow> bool \<Rightarrow> string \<Rightarrow> ('h, mgr_error + run) prog" where
  "ConcludeRun e runID verdict abort reason = do {
     c \<leftarrow> beginMutation;
     case c of
       Some x \<Rightarrow> ret (Inl x)
     | None \<Rightarrow> do {
         r \<leftarrow> get_run e runID;
         case r of
           Inl x \<Rightarrow> ret (Inl (MStore [] x))
         | Inr run \<Rightarrow>
             if rn_phase run \<in> set terminalRunPhases then ret (Inl MRunConcluded)
             else if \<not> abort \<and> verdict \<noteq> None \<and> rn_criteria run \<noteq> ''operator_verdict'' then ret (Inl MVerdictCriteriaMismatch)
             else if abort then concludeRunAbort e runID reason
             else case verdict of
                    None \<Rightarrow> ret (Inl MConcludeArgsMissing)
                  | Some v \<Rightarrow> concludeRunWithVerdict e runID v reason
       }
   }"

section \<open>Creating and feeding a run\<close>

record run_request =
  rr_vmID :: string
  rr_owner :: string
  rr_goal :: string
  rr_criteria :: string
  rr_onCompletion :: string
  rr_progressEvents :: bool
  rr_key :: "string option"

definition hex_digit :: "nat \<Rightarrow> char" where
  "hex_digit n = ''0123456789abcdef'' ! n"

text \<open>\<open>%x\<close> of a byte slice.\<close>

definition hex_bytes :: "string \<Rightarrow> string" where
  "hex_bytes s = concat (map (\<lambda>c. let n = of_char c :: nat in [hex_digit (n div 16), hex_digit (n mod 16)]) s)"

definition run_hash :: "run_request \<Rightarrow> string" where
  "run_hash q = hex_bytes (if rr_key q \<noteq> None
     then rr_vmID q @ ''|'' @ rr_owner q @ ''|'' @ rr_goal q @ ''|'' @ rr_criteria q @ ''|'' @ rr_onCompletion q
     else rr_goal q @ rr_criteria q)"

definition Manager_CreateRun :: "'h menv \<Rightarrow> run_request \<Rightarrow> ('h, mgr_error + run \<times> bool) prog" where
  "Manager_CreateRun e q = do {
     c \<leftarrow> beginMutation;
     case c of
       Some x \<Rightarrow> ret (Inl x)
     | None \<Rightarrow> do {
         r \<leftarrow> get_vm e (rr_vmID q);
         case r of
           Inl x \<Rightarrow> ret (Inl (MStore [] x))
         | Inr v \<Rightarrow>
             if vm_observed v \<noteq> Running then ret (Inl MVMNotRunning)
             else do {
               n \<leftarrow> on_mem (\<lambda>m. (mg_calls m, m));
               x \<leftarrow> on_store e (\<lambda>now. CreateRun (e_digest e) now (e_runID e n 0)
                 \<lparr>cr_vmID = rr_vmID q, cr_owner = rr_owner q, cr_goal = rr_goal q, cr_criteria = rr_criteria q,
                  cr_onCompletion = rr_onCompletion q, cr_progressEvents = rr_progressEvents q, cr_key = rr_key q,
                  cr_hash = run_hash q, cr_phase = RRunning\<rparr>);
               ret (case x of Inl y \<Rightarrow> Inl (MStore [] y) | Inr a \<Rightarrow> Inr a)
             }
       }
   }"

definition maxSubmission :: int where
  "maxSubmission = 2 ^ 20"

definition Manager_SubmitRunProgress :: "'h menv \<Rightarrow> string \<Rightarrow> string \<Rightarrow> ('h, mgr_error + nat) prog" where
  "Manager_SubmitRunProgress e runID payload = do {
     c \<leftarrow> beginMutation;
     case c of
       Some x \<Rightarrow> ret (Inl x)
     | None \<Rightarrow> do {
         r \<leftarrow> on_store e (\<lambda>now. SubmitRunProgress (e_digest e) (e_decode e) now runID payload maxSubmission);
         ret (case r of Inl x \<Rightarrow> Inl (MStore [] x) | Inr n \<Rightarrow> Inr n)
       }
   }"

definition Manager_SubmitRunResult :: "'h menv \<Rightarrow> string \<Rightarrow> string \<Rightarrow> ('h, mgr_error + run) prog" where
  "Manager_SubmitRunResult e runID payload = do {
     c \<leftarrow> beginMutation;
     case c of
       Some x \<Rightarrow> ret (Inl x)
     | None \<Rightarrow> do {
         r \<leftarrow> on_store e (\<lambda>now. SubmitRunResult (e_digest e) (e_decode e) (e_quote e) now runID payload maxSubmission);
         case r of
           Inl x \<Rightarrow> ret (Inl (MStore [] x))
         | Inr run \<Rightarrow> do { _ \<leftarrow> GoTracked (ConcludeTask runID); ret (Inr run) }
       }
   }"

section \<open>Hooks of the VM lifecycle\<close>

definition active_run :: "'h menv \<Rightarrow> string \<Rightarrow> ('h, run option) prog" where
  "active_run e vmID = do {
     r \<leftarrow> read_store e (\<lambda>db. Inr (ActiveRunForVM db vmID));
     ret (case r of Inl _ \<Rightarrow> None | Inr x \<Rightarrow> x)
   }"

definition onVMRunning :: "'h menv \<Rightarrow> string \<Rightarrow> ('h, unit) prog" where
  "onVMRunning e vmID = do {
     r \<leftarrow> active_run e vmID;
     case r of
       None \<Rightarrow> ret ()
     | Some run \<Rightarrow>
         if rn_phase run \<noteq> RPending then ret ()
         else do {
           _ \<leftarrow> move_run e \<lparr>tr_runID = rn_id run, tr_from = Some RPending, tr_to = RRunning, tr_reason = [], tr_evaluatedBy = []\<rparr>;
           ret ()
         }
   }"

definition conclude_active :: "'h menv \<Rightarrow> trigger \<Rightarrow> string \<Rightarrow> ('h, unit) prog" where
  "conclude_active e trigger vmID = do {
     r \<leftarrow> active_run e vmID;
     case r of
       None \<Rightarrow> ret ()
     | Some run \<Rightarrow>
         if rn_phase run \<in> set terminalRunPhases then ret ()
         else do { _ \<leftarrow> concludeRun e (rn_id run) trigger; ret () }
   }"

definition onVMTerminal :: "'h menv \<Rightarrow> string \<Rightarrow> ('h, unit) prog" where
  "onVMTerminal e = conclude_active e VMTerminal"

definition onVMLaunchFailed :: "'h menv \<Rightarrow> string \<Rightarrow> ('h, unit) prog" where
  "onVMLaunchFailed e = conclude_active e LaunchFail"

section \<open>Tasks of a concluded run\<close>

text \<open>The answers of the two stops are not looked at.\<close>

definition stopVMAfterRun :: "'h menv \<Rightarrow> string \<Rightarrow> ('h, unit) prog" where
  "stopVMAfterRun e vmID = do {
     r \<leftarrow> get_vm e vmID;
     case r of
       Inl _ \<Rightarrow> ret ()
     | Inr v \<Rightarrow>
         if vm_observed v \<noteq> Running \<and> vm_observed v \<noteq> Paused then ret ()
         else do {
           t \<leftarrow> move_vm e ((transition0 vmID Stopping ''run_on_completion_stop'')\<lparr>ti_desired := Some Stopped\<rparr>);
           case t of
             Inl _ \<Rightarrow> ret ()
           | Inr _ \<Rightarrow> do {
               (_, x) \<leftarrow> on_host (rt_Stop (e_rt e) vmID 0);
               _ \<leftarrow> (if x \<noteq> None then on_host (rt_ForceStop (e_rt e) vmID) else ret None);
               _ \<leftarrow> move_vm e ((transition0 vmID Stopped ''run_on_completion_stop'')\<lparr>ti_desired := Some Stopped, ti_releaseCompute := True\<rparr>);
               ret ()
             }
         }
   }"

definition HasRunningReportOp :: "vmdb \<Rightarrow> string \<Rightarrow> bool" where
  "HasRunningReportOp db runID \<longleftrightarrow>
     (\<exists>p \<in> set (db_ops db). opn_kind p = ''run.report_generate'' \<and> opn_hash p = runID \<and> opn_state p \<in> {OpRunning, OpPending})"

definition EnqueueReport :: "'h menv \<Rightarrow> string \<Rightarrow> ('h, bool) prog" where
  "EnqueueReport e runID =
     (if \<not> e_reportGen e then ret False
      else do {
        r \<leftarrow> read_store e (\<lambda>db. Inr (HasRunningReportOp db runID));
        case r of
          Inl _ \<Rightarrow> ret False
        | Inr busy \<Rightarrow> if busy then ret False else GoTracked (ReportTask runID)
      })"

end
