(* ===== verification/VM_Manager.thy ===== *)
theory VM_Manager
  imports Run_Engine
begin

text \<open>
  The lifecycle manager's foreground work (\<open>src/internal/runtime/manager.go\<close>): creating a VM and launching it, the
  five actions, delete, and the notice that a VMM has exited.

  Every operation is the whole handler: the close gate, the claim, each store and runtime call in
  order, and each early return. The budgets and contexts of the calls are not modelled beyond the
  failures they cause.
\<close>

section \<open>Creating a VM\<close>

record create_request =
  rq_name :: string
  rq_templateID :: string
  rq_vcpu :: int
  rq_memory :: int
  rq_rootDisk :: int
  rq_workspaceDisk :: int
  rq_labels :: "(string \<times> string) list"
  rq_run :: "run_attachment option"

definition printable :: "string \<Rightarrow> bool" where
  "printable s \<longleftrightarrow> list_all (\<lambda>c. CHR '' '' \<le> c \<and> c \<le> CHR 0x7E) s"

definition or_default :: "int \<Rightarrow> int \<Rightarrow> int" where
  "or_default x d = (if x \<le> 0 then d else x)"

definition check_request :: "'h menv \<Rightarrow> create_request \<Rightarrow> mgr_error + template" where
  "check_request e q =
     (if rq_templateID q = [] then Inl (MInvalidRequest ''template_id is required'')
      else case map_of (e_templates e) (rq_templateID q) of
        None \<Rightarrow> Inl (MTemplateUnknown (rq_templateID q) (map fst (e_templates e)))
      | Some tpl \<Rightarrow>
          if rq_name q = [] then Inl (MInvalidRequest ''name is required'')
          else if 128 < length (rq_name q) then Inl (MInvalidRequest ''name exceeds 128 bytes'')
          else if \<not> printable (rq_name q) then Inl (MInvalidRequest ''name contains non-printable characters'')
          else Inr tpl)"

text \<open>The member input of a request: defaults for what was left at zero, the overhead added to the memory.\<close>

definition resolveMember :: "'h menv \<Rightarrow> string \<Rightarrow> create_request \<Rightarrow> mgr_error + member_input" where
  "resolveMember e vmID q =
     (case check_request e q of
        Inl x \<Rightarrow> Inl x
      | Inr tpl \<Rightarrow>
          let d = e_defaults e;
              vcpu = or_default (rq_vcpu q) (vd_vcpu d); mem = or_default (rq_memory q) (vd_memory d);
              root = or_default (rq_rootDisk q) (vd_rootDisk d); ws = or_default (rq_workspaceDisk q) (vd_workspaceDisk d)
          in if vcpu \<le> 0 \<or> mem \<le> 0 \<or> root \<le> 0 \<or> ws \<le> 0 then Inl (MInvalidRequest ''resource values must be positive'')
             else Inr \<lparr>mi_name = rq_name q, mi_vmID = vmID, mi_templateID = tp_id tpl, mi_templateDigest = tp_digest tpl,
                    mi_vcpu = vcpu, mi_memory = mem, mi_rootDisk = root, mi_workspaceDisk = ws,
                    mi_memoryTotal = mem + ad_reservePerVMOverhead (pl_admission (e_policy e)),
                    mi_networkProfile = vd_networkProfile d, mi_networkPolicy = vd_networkPolicy d,
                    mi_labels = rq_labels q, mi_run = rq_run q\<rparr>)"

definition create_input :: "'h menv \<Rightarrow> string \<Rightarrow> string option \<Rightarrow> create_request \<Rightarrow> member_input \<Rightarrow> create_vm_input" where
  "create_input e owner key q i =
     \<lparr>mi_name = mi_name i, mi_vmID = mi_vmID i, mi_templateID = mi_templateID i, mi_templateDigest = mi_templateDigest i,
      mi_vcpu = mi_vcpu i, mi_memory = mi_memory i, mi_rootDisk = mi_rootDisk i, mi_workspaceDisk = mi_workspaceDisk i,
      mi_memoryTotal = mi_memoryTotal i, mi_networkProfile = mi_networkProfile i, mi_networkPolicy = mi_networkPolicy i,
      mi_labels = mi_labels i, mi_run = mi_run i,
      ci_owner = owner, ci_kind = ''vm.create'', ci_key = key,
      ci_hash = e_createHash e (rq_templateID q, rq_name q, mi_vcpu i, mi_memory i, mi_rootDisk i, mi_workspaceDisk i),
      ci_admit = (\<lambda>t. Admit (e_policy e) t (mi_memoryTotal i) (mi_vcpu i) (mi_rootDisk i + mi_workspaceDisk i))\<rparr>"

section \<open>Launching\<close>

definition launchFailureStage :: "rt_err \<Rightarrow> string" where
  "launchFailureStage x = (case x of RtLaunchPending _ _ _ \<Rightarrow> ''launch_pending'' | _ \<Rightarrow> ''launch'')"

definition failLaunch :: "'h menv \<Rightarrow> string \<Rightarrow> nat \<Rightarrow> string \<Rightarrow> string \<Rightarrow> ('h, unit) prog" where
  "failLaunch e vmID opID stage reason0 = do {
     (releaseCompute, reason) \<leftarrow>
       (if stage = ''launch'' \<or> stage = ''running'' then do {
          x \<leftarrow> on_host (rt_ForceStop (e_rt e) vmID);
          ret (stop_proven x, case x of None \<Rightarrow> reason0 | Some y \<Rightarrow> reason0 @ ''; cleanup: '' @ rt_text y)
        } else ret (stage \<noteq> ''launch_pending'', reason0));
     _ \<leftarrow> move_vm e ((transition0 vmID Failed reason)\<lparr>
           ti_from := Some (if stage = ''enqueue'' \<or> stage = ''starting'' then Provisioning else Starting), ti_opID := opID,
           ti_failureStage := Some stage, ti_failureReason := Some reason, ti_releaseCompute := releaseCompute\<rparr>);
     onVMLaunchFailed e vmID;
     _ \<leftarrow> update_op e ((op_update0 opID stage OpFailed)\<lparr>ou_ifState := Some OpRunning, ou_cause := Some ''launch_failed'',
           ou_message := Some reason\<rparr>);
     ret ()
   }"

definition launch_spec :: "launch_member \<Rightarrow> string \<Rightarrow> vm_spec" where
  "launch_spec l bootID = \<lparr>sp_vmID = vm_id (lm_vm l), sp_bootID = bootID, sp_vcpu = lm_vcpu l, sp_memory = lm_memory l,
     sp_rootDisk = lm_rootDisk l, sp_workspaceDisk = lm_workspaceDisk l, sp_networkProfile = vm_networkProfile (lm_vm l),
     sp_networkPolicy = vm_networkPolicy (lm_vm l), sp_templateID = tp_id (lm_tpl l), sp_templateDigest = tp_digest (lm_tpl l)\<rparr>"

text \<open>
  The three steps of a launch, each answering how it ended: \<open>None\<close> to walk away, \<open>Some False\<close> after a failure
  that was recorded, \<open>Some True\<close> to go on.
\<close>

definition launch_begin :: "'h menv \<Rightarrow> launch_member \<Rightarrow> string \<Rightarrow> ('h, bool option) prog" where
  "launch_begin e l bootID = do {
     t \<leftarrow> move_vm e ((transition0 (vm_id (lm_vm l)) Starting ''launch'')\<lparr>ti_from := Some Provisioning, ti_opID := lm_op l,
           ti_bootID := Some bootID\<rparr>);
     case t of
       Inl x \<Rightarrow> if is_invalid x then ret None
               else do { failLaunch e (vm_id (lm_vm l)) (lm_op l) ''starting'' (e_text e x); ret (Some False) }
     | Inr _ \<Rightarrow> ret (Some True)
   }"

definition launch_finish :: "'h menv \<Rightarrow> launch_member \<Rightarrow> images option \<Rightarrow> ('h, bool option) prog" where
  "launch_finish e l staged = do {
     t \<leftarrow> move_vm e ((transition0 (vm_id (lm_vm l)) Running ''launch_complete'')\<lparr>ti_from := Some Starting, ti_opID := lm_op l,
           ti_images := staged\<rparr>);
     case t of
       Inl x \<Rightarrow> if is_invalid x then ret None
               else do { failLaunch e (vm_id (lm_vm l)) (lm_op l) ''running'' (e_text e x); ret (Some False) }
     | Inr _ \<Rightarrow> do {
         onVMRunning e (vm_id (lm_vm l));
         _ \<leftarrow> update_op e ((op_update0 (lm_op l) ''running'' OpSucceeded)\<lparr>ou_ifState := Some OpRunning\<rparr>);
         ret (Some True)
       }
   }"

definition launch_outcome :: "'h menv \<Rightarrow> launch_member \<Rightarrow> rt_err + images option \<Rightarrow> ('h, bool option) prog" where
  "launch_outcome e l r = (case r of
      Inl x \<Rightarrow> do { failLaunch e (vm_id (lm_vm l)) (lm_op l) (launchFailureStage x) (rt_text x); ret (Some False) }
    | Inr staged \<Rightarrow> launch_finish e l staged)"

definition launch_steps :: "'h menv \<Rightarrow> launch_member \<Rightarrow> ('h, bool option) prog" where
  "launch_steps e l = do {
     bootID \<leftarrow> new_uuid e;
     b \<leftarrow> launch_begin e l bootID;
     if b \<noteq> Some True then ret b
     else do {
       r \<leftarrow> on_host (rt_Launch (e_rt e) (launch_spec l bootID));
       launch_outcome e l r
     }
   }"

definition runLaunch :: "'h menv \<Rightarrow> launch_member \<Rightarrow> ('h, unit) prog" where
  "runLaunch e l = do { _ \<leftarrow> launch_steps e l; ret () }"

definition enqueueLaunch :: "'h menv \<Rightarrow> launch_member \<Rightarrow> ('h, unit) prog" where
  "enqueueLaunch e l = do {
     claimLifecycle (vm_id (lm_vm l));
     ok \<leftarrow> GoTracked (LaunchTask l);
     if ok then ret ()
     else do {
       releaseClaim (vm_id (lm_vm l));
       failLaunch e (vm_id (lm_vm l)) (lm_op l) ''enqueue'' ''manager closed before launch was scheduled''
     }
   }"

text \<open>The queued function: it gives up when the manager closes before a slot is free.\<close>

definition launch_task :: "'h menv \<Rightarrow> launch_member \<Rightarrow> ('h, unit) prog" where
  "launch_task e l = do {
     c \<leftarrow> canceled e;
     (if c then failLaunch e (vm_id (lm_vm l)) (lm_op l) ''enqueue'' ''manager closed before slot acquired''
      else runLaunch e l);
     releaseClaim (vm_id (lm_vm l))
   }"

text \<open>Only a fresh create is launched; a replay could revive a VM that was stopped since.\<close>

definition launch_created :: "'h menv \<Rightarrow> template \<Rightarrow> member_input \<Rightarrow> create_outcome \<Rightarrow> ('h, unit) prog" where
  "launch_created e tpl i x = (case x of
      Created v p replayed \<Rightarrow>
        if replayed then ret ()
        else enqueueLaunch e \<lparr>lm_vm = v, lm_op = opn_id p, lm_tpl = tpl, lm_vcpu = mi_vcpu i, lm_memory = mi_memory i,
               lm_rootDisk = mi_rootDisk i, lm_workspaceDisk = mi_workspaceDisk i\<rparr>
    | Refused _ _ _ _ \<Rightarrow> ret ())"

definition Manager_CreateVM :: "'h menv \<Rightarrow> string \<Rightarrow> string option \<Rightarrow> create_request \<Rightarrow> ('h, mgr_error + create_outcome) prog" where
  "Manager_CreateVM e owner key q = do {
     c \<leftarrow> beginMutation;
     case c of
       Some x \<Rightarrow> ret (Inl x)
     | None \<Rightarrow> do {
         a \<leftarrow> on_host (\<lambda>h. (rt_Availability (e_rt e) h, h));
         vmID \<leftarrow> new_uuid e;
         case a of
           Some x \<Rightarrow> ret (Inl (MRuntime ''runtime not available: '' x))
         | None \<Rightarrow>
             (case check_request e q of
                Inl x \<Rightarrow> ret (Inl x)
              | Inr tpl \<Rightarrow>
                  (case resolveMember e vmID q of
                     Inl x \<Rightarrow> ret (Inl x)
                   | Inr i \<Rightarrow> do {
                       n \<leftarrow> on_mem (\<lambda>m. (mg_calls m, m));
                       r \<leftarrow> on_store e (\<lambda>now. CreateVMWithOperation (e_digest e) now (e_runID e n 0) (create_input e owner key q i));
                       case r of
                         Inl x \<Rightarrow> ret (Inl (MStore [] x))
                       | Inr x \<Rightarrow> do { launch_created e tpl i x; ret (Inr x) }
                     }))
       }
   }"

section \<open>Actions\<close>

datatype vm_action = AStart | APause | AResume | AStop | AForceStop

definition action_name :: "vm_action \<Rightarrow> string" where
  "action_name a = (case a of AStart \<Rightarrow> ''start'' | APause \<Rightarrow> ''pause'' | AResume \<Rightarrow> ''resume'' | AStop \<Rightarrow> ''stop''
     | AForceStop \<Rightarrow> ''force_stop'')"

definition validActions :: "vm_action list" where
  "validActions = [AStart, APause, AResume, AStop, AForceStop]"

type_synonym action_result = "vm option \<times> operation option \<times> mgr_error option"

text \<open>An action fails with an error of the store or of a runtime verb.\<close>

definition action_text :: "'h menv \<Rightarrow> mgr_error \<Rightarrow> string" where
  "action_text e x = (case x of MStore what y \<Rightarrow> what @ e_text e y
     | MRuntimeOp i verb y \<Rightarrow> ''runtime '' @ verb @ '' for '' @ i @ '': '' @ rt_text y
     | _ \<Rightarrow> [])"

definition right :: "'a + 'b \<Rightarrow> 'b option" where
  "right x = (case x of Inl _ \<Rightarrow> None | Inr y \<Rightarrow> Some y)"

definition failAction :: "'h menv \<Rightarrow> string \<Rightarrow> nat \<Rightarrow> vm_action \<Rightarrow> mgr_error \<Rightarrow> ('h, action_result) prog" where
  "failAction e vmID opID a cause = do {
     let (c, msg) = (case cause of MStore _ (AdmissionRefusal c m) \<Rightarrow> (c, m) | _ \<Rightarrow> (''action_failed'', action_text e cause));
     p \<leftarrow> update_op e ((op_update0 opID (action_name a) OpFailed)\<lparr>ou_cause := Some c, ou_message := Some msg\<rparr>);
     v \<leftarrow> get_vm e vmID;
     ret (right v, right p, Some cause)
   }"

definition succeedAction :: "'h menv \<Rightarrow> nat \<Rightarrow> string \<Rightarrow> vm \<Rightarrow> ('h, action_result) prog" where
  "succeedAction e opID phase v = do {
     p \<leftarrow> update_op e (op_update0 opID phase OpSucceeded);
     ret (case p of Inl x \<Rightarrow> (Some v, None, Some (MStore ''update action op: '' x)) | Inr q \<Rightarrow> (Some v, Some q, None))
   }"

definition refuse_action :: "'h menv \<Rightarrow> vm \<Rightarrow> nat \<Rightarrow> vm_action \<Rightarrow> vm_state \<Rightarrow> ('h, action_result) prog" where
  "refuse_action e v opID a to = failAction e (vm_id v) opID a (MStore [] (InvalidTransition (vm_observed v) to))"

text \<open>Start: compute is taken back for what the reservation row holds, then the VMM is launched.\<close>

definition start_input :: "'h menv \<Rightarrow> string \<Rightarrow> nat \<Rightarrow> int option \<Rightarrow> string \<Rightarrow> reservation \<Rightarrow> transition_input" where
  "start_input e vmID opID pin bootID r =
     (transition0 vmID Starting ''start'')\<lparr>ti_expectedRevision := pin, ti_opID := opID, ti_desired := Some Running,
        ti_bootID := Some bootID, ti_acquireCompute := True,
        ti_admit := Some (\<lambda>t. Admit (e_policy e) t (rv_memory r) (rv_vcpu r) 0)\<rparr>"

definition vm_launch_spec :: "vm \<Rightarrow> string \<Rightarrow> vm_spec" where
  "vm_launch_spec v bootID = \<lparr>sp_vmID = vm_id v, sp_bootID = bootID, sp_vcpu = vm_vcpu v, sp_memory = vm_memory v,
     sp_rootDisk = vm_rootDisk v, sp_workspaceDisk = vm_workspaceDisk v, sp_networkProfile = vm_networkProfile v,
     sp_networkPolicy = vm_networkPolicy v, sp_templateID = vm_templateID v, sp_templateDigest = vm_templateDigest v\<rparr>"

definition start_launched :: "'h menv \<Rightarrow> vm \<Rightarrow> nat \<Rightarrow> images option \<Rightarrow> ('h, action_result) prog" where
  "start_launched e v opID staged = do {
     t \<leftarrow> move_vm e ((transition0 (vm_id v) Running ''start_complete'')\<lparr>ti_opID := opID, ti_images := staged\<rparr>);
     case t of
       Inl x \<Rightarrow> failAction e (vm_id v) opID AStart (MStore [] x)
     | Inr upd \<Rightarrow> do { onVMRunning e (vm_id v); succeedAction e opID ''running'' upd }
   }"

definition start_outcome :: "'h menv \<Rightarrow> vm \<Rightarrow> nat \<Rightarrow> vm \<Rightarrow> rt_err + images option \<Rightarrow> ('h, action_result) prog" where
  "start_outcome e v opID upd r = (case r of
      Inl x \<Rightarrow> do {
        failLaunch e (vm_id v) opID (launchFailureStage x) (rt_text x);
        p \<leftarrow> read_store e (\<lambda>db. GetOperation db opID);
        ret (Some upd, right p, Some (MRuntimeOp (vm_id v) ''launch'' x))
      }
    | Inr staged \<Rightarrow> start_launched e v opID staged)"

definition start_move :: "'h menv \<Rightarrow> vm \<Rightarrow> nat \<Rightarrow> int option \<Rightarrow> string \<Rightarrow> reservation \<Rightarrow> ('h, action_result) prog" where
  "start_move e v opID pin bootID res = do {
     t \<leftarrow> move_vm e (start_input e (vm_id v) opID pin bootID res);
     case t of
       Inl x \<Rightarrow> failAction e (vm_id v) opID AStart (MStore [] x)
     | Inr upd \<Rightarrow> do {
         r \<leftarrow> on_host (rt_Launch (e_rt e) (vm_launch_spec v bootID));
         start_outcome e v opID upd r
       }
   }"

definition start_action :: "'h menv \<Rightarrow> vm \<Rightarrow> nat \<Rightarrow> int option \<Rightarrow> ('h, action_result) prog" where
  "start_action e v opID pin =
     (if vm_observed v \<noteq> Stopped then refuse_action e v opID AStart Starting
      else do {
        r \<leftarrow> read_store e (\<lambda>db. GetReservation db (vm_id v));
        bootID \<leftarrow> new_uuid e;
        case r of
          Inl x \<Rightarrow> failAction e (vm_id v) opID AStart (MStore ''read reservation: '' x)
        | Inr res \<Rightarrow> start_move e v opID pin bootID res
      })"

text \<open>
  What the other actions end with: the last transition, the debt a stop left, the hooks of the state
  that was reached.
\<close>

definition action_tail ::
  "'h menv \<Rightarrow> vm \<Rightarrow> vm_action \<Rightarrow> nat \<Rightarrow> int option \<Rightarrow> vm_state \<Rightarrow> string \<Rightarrow> bool \<Rightarrow> rt_err option \<Rightarrow> ('h, action_result) prog" where
  "action_tail e v a opID pin to reason releaseC debt = do {
     t \<leftarrow> move_vm e ((transition0 (vm_id v) to reason)\<lparr>ti_expectedRevision := pin, ti_opID := opID, ti_desired := Some to,
           ti_releaseCompute := releaseC\<rparr>);
     case t of
       Inl x \<Rightarrow> failAction e (vm_id v) opID a (MStore [] x)
     | Inr upd \<Rightarrow> do {
         _ \<leftarrow> (case debt of None \<Rightarrow> ret (Inr ()) | Some x \<Rightarrow> cleanup_failure e (vm_id v) to (rt_text x));
         (if to = Stopped then onVMTerminal e (vm_id v) else if to = Running then onVMRunning e (vm_id v) else ret ());
         succeedAction e opID (action_name a) upd
       }
   }"

definition pause_action :: "'h menv \<Rightarrow> vm \<Rightarrow> vm_action \<Rightarrow> nat \<Rightarrow> int option \<Rightarrow> ('h, action_result) prog" where
  "pause_action e v a opID pin =
     (let from = (if a = APause then Running else Paused); to = (if a = APause then Paused else Running) in
      if vm_observed v \<noteq> from then refuse_action e v opID a to
      else do {
        x \<leftarrow> on_host (if a = APause then rt_Pause (e_rt e) (vm_id v) else rt_Resume (e_rt e) (vm_id v));
        case x of
          Some y \<Rightarrow> failAction e (vm_id v) opID a (MRuntimeOp (vm_id v) (action_name a) y)
        | None \<Rightarrow> action_tail e v a opID pin to (action_name a) False None
      })"

text \<open>Stop and force-stop pass through \<open>stopping\<close>, which spends the caller's revision pin.\<close>

definition stop_begin :: "'h menv \<Rightarrow> vm \<Rightarrow> vm_action \<Rightarrow> nat \<Rightarrow> int option \<Rightarrow> ('h, store_error + int option) prog" where
  "stop_begin e v a opID pin =
     (if vm_observed v = Stopping then ret (Inr pin)
      else do {
        t \<leftarrow> move_vm e ((transition0 (vm_id v) Stopping (if a = AStop then ''stop_requested'' else ''force_stop_requested''))\<lparr>
              ti_expectedRevision := pin, ti_opID := opID, ti_desired := Some Stopped\<rparr>);
        ret (case t of Inl x \<Rightarrow> Inl x | Inr _ \<Rightarrow> Inr None)
      })"

definition stop_action :: "'h menv \<Rightarrow> vm \<Rightarrow> vm_action \<Rightarrow> nat \<Rightarrow> int option \<Rightarrow> ('h, action_result) prog" where
  "stop_action e v a opID pin =
     (if vm_observed v \<notin> {Running, Paused, Stopping} then refuse_action e v opID a Stopping
      else do {
        b \<leftarrow> stop_begin e v a opID pin;
        case b of
          Inl x \<Rightarrow> failAction e (vm_id v) opID a (MStore [] x)
        | Inr rest \<Rightarrow> do {
            (forced, x) \<leftarrow> on_host (if a = AStop then rt_Stop (e_rt e) (vm_id v) (vd_stopGrace (e_defaults e))
                                    else (\<lambda>h. map_prod (Pair True) id (rt_ForceStop (e_rt e) (vm_id v) h)));
            if \<not> stop_proven x then failAction e (vm_id v) opID a (MRuntimeOp (vm_id v) (action_name a) (the x))
            else action_tail e v a opID rest Stopped (if forced then ''forced_stop'' else ''graceful_stop'') True x
          }
      })"

definition doAction :: "'h menv \<Rightarrow> vm \<Rightarrow> vm_action \<Rightarrow> nat \<Rightarrow> int option \<Rightarrow> ('h, action_result) prog" where
  "doAction e v a opID pin = (case a of
      AStart \<Rightarrow> start_action e v opID pin
    | APause \<Rightarrow> pause_action e v a opID pin
    | AResume \<Rightarrow> pause_action e v a opID pin
    | AStop \<Rightarrow> stop_action e v a opID pin
    | AForceStop \<Rightarrow> stop_action e v a opID pin)"

definition Manager_Action :: "'h menv \<Rightarrow> string \<Rightarrow> string \<Rightarrow> int option \<Rightarrow> ('h, action_result) prog" where
  "Manager_Action e vmID action pin = do {
     c \<leftarrow> beginMutation;
     case c of
       Some x \<Rightarrow> ret (None, None, Some x)
     | None \<Rightarrow>
         (case find (\<lambda>a. action_name a = action) validActions of
            None \<Rightarrow> ret (None, None, Some (MUnknownAction (map action_name validActions)))
          | Some a \<Rightarrow> do {
              claimLifecycle vmID;
              r \<leftarrow> get_vm e vmID;
              res \<leftarrow> (case r of
                Inl x \<Rightarrow> ret (None, None, Some (MStore [] x))
              | Inr v \<Rightarrow> do {
                  i \<leftarrow> on_store e (\<lambda>now. InsertActionOperation (e_digest e) now (vm_owner v) vmID action
                         (action @ '':'' @ vmID @ '':'' @ format_int (vm_revision v)));
                  case i of
                    Inl x \<Rightarrow> ret (None, None, Some (MStore ''insert action operation: '' x))
                  | Inr opID \<Rightarrow> doAction e v a opID pin
                });
              releaseClaim vmID;
              ret res
            })
   }"

section \<open>Delete\<close>

definition live_state :: "vm_state \<Rightarrow> bool" where
  "live_state s \<longleftrightarrow> s \<in> {Provisioning, Starting, Running, Paused, Stopping}"

type_synonym delete_result = "vm option \<times> mgr_error option"

text \<open>
  The forced stop of a live VM. The answer is an early return, or the row to go on with and the pin if
  no transition has spent it.
\<close>

definition delete_stopping :: "'h menv \<Rightarrow> vm \<Rightarrow> int option \<Rightarrow> ('h, delete_result + vm \<times> int option) prog" where
  "delete_stopping e v pin =
     (if vm_observed v = Stopping then ret (Inr (v, pin))
      else do {
        t \<leftarrow> move_vm e ((transition0 (vm_id v) Stopping ''forced_stop_for_delete'')\<lparr>ti_expectedRevision := pin, ti_desired := Some Deleted\<rparr>);
        ret (case t of
               Inr stopping \<Rightarrow> Inr (stopping, None)
             | Inl x \<Rightarrow> if is_invalid x then Inr (v, pin) else Inl (Some v, Some (MStore ''stopping before delete: '' x)))
      })"

definition delete_force :: "'h menv \<Rightarrow> vm \<Rightarrow> ('h, mgr_error option) prog" where
  "delete_force e v = do {
     x \<leftarrow> on_host (rt_ForceStop (e_rt e) (vm_id v));
     case x of
       None \<Rightarrow> ret None
     | Some y \<Rightarrow> do {
         _ \<leftarrow> cleanup_failure e (vm_id v) (vm_observed v) (rt_text y);
         ret (Some (MRuntimeOp (vm_id v) ''force_stop'' y))
       }
   }"

definition delete_live :: "'h menv \<Rightarrow> vm \<Rightarrow> int option \<Rightarrow> ('h, delete_result + vm \<times> int option) prog" where
  "delete_live e v0 pin0 = do {
     s \<leftarrow> delete_stopping e v0 pin0;
     case s of
       Inl r \<Rightarrow> ret (Inl r)
     | Inr (v, pin) \<Rightarrow> do {
         x \<leftarrow> delete_force e v;
         case x of
           Some y \<Rightarrow> ret (Inl (Some v, Some y))
         | None \<Rightarrow> do {
             t \<leftarrow> move_vm e ((transition0 (vm_id v) Stopped ''forced_stop_for_delete'')\<lparr>ti_expectedRevision := pin,
                   ti_desired := Some Deleted, ti_releaseCompute := True\<rparr>);
             case t of
               Inl y \<Rightarrow>
                 if is_invalid y then do {
                   r \<leftarrow> get_vm e (vm_id v);
                   ret (case r of Inl z \<Rightarrow> Inl (None, Some (MStore [] z)) | Inr v1 \<Rightarrow> Inr (v1, pin))
                 } else ret (Inl (Some v, Some (MStore ''stop before delete: '' y)))
             | Inr _ \<Rightarrow> do {
                 r \<leftarrow> get_vm e (vm_id v);
                 ret (case r of Inl z \<Rightarrow> Inl (None, Some (MStore [] z)) | Inr v1 \<Rightarrow> Inr (v1, None))
               }
           }
       }
   }"

text \<open>Release comes before the row reads \<open>deleted\<close>.\<close>

definition delete_release :: "'h menv \<Rightarrow> string \<Rightarrow> ('h, delete_result) prog" where
  "delete_release e vmID = do {
     x \<leftarrow> on_host (rt_Release (e_rt e) vmID);
     case x of
       Some y \<Rightarrow> do {
         _ \<leftarrow> cleanup_failure e vmID Deleting (rt_text y);
         ret (None, Some (MReleaseFailed vmID (rt_text y)))
       }
     | None \<Rightarrow> do {
         t \<leftarrow> move_vm e ((transition0 vmID Deleted ''deleted'')\<lparr>ti_desired := Some Deleted, ti_releaseAll := True\<rparr>);
         ret (case t of Inl z \<Rightarrow> (None, Some (MStore [] z)) | Inr v \<Rightarrow> (Some v, None))
       }
   }"

definition delete_rest :: "'h menv \<Rightarrow> vm \<Rightarrow> int option \<Rightarrow> bool \<Rightarrow> ('h, delete_result) prog" where
  "delete_rest e v0 pin signalled = do {
     t \<leftarrow> (if vm_observed v0 = Failed \<or> vm_observed v0 = Stopped
          then move_vm e ((transition0 (vm_id v0) Deleting ''delete_requested'')\<lparr>ti_expectedRevision := pin, ti_desired := Some Deleted\<rparr>)
          else ret (Inr v0));
     case t of
       Inl x \<Rightarrow> ret (None, Some (MStore [] x))
     | Inr v \<Rightarrow> do {
         x \<leftarrow> (if signalled then ret None else delete_force e v);
         case x of
           Some y \<Rightarrow> ret (Some v, Some y)
         | None \<Rightarrow> delete_release e (vm_id v0)
       }
   }"

definition delete_body :: "'h menv \<Rightarrow> vm \<Rightarrow> bool \<Rightarrow> int option \<Rightarrow> ('h, delete_result) prog" where
  "delete_body e v force pin =
     (if live_state (vm_observed v) then
        (if \<not> force then ret (Some v, Some MVMLive)
         else do {
           s \<leftarrow> delete_live e v pin;
           case s of Inl r \<Rightarrow> ret r | Inr (v1, pin1) \<Rightarrow> delete_rest e v1 pin1 True
         })
      else delete_rest e v pin False)"

definition Manager_Delete :: "'h menv \<Rightarrow> string \<Rightarrow> bool \<Rightarrow> int option \<Rightarrow> ('h, delete_result) prog" where
  "Manager_Delete e vmID force pin = do {
     c \<leftarrow> beginMutation;
     case c of
       Some x \<Rightarrow> ret (None, Some x)
     | None \<Rightarrow> do {
         claimLifecycle vmID;
         r \<leftarrow> get_vm e vmID;
         res \<leftarrow> (case r of
             Inl x \<Rightarrow> ret (None, Some (MStore [] x))
           | Inr v \<Rightarrow>
               if vm_observed v = Deleted then ret (Some v, None)
               else do {
                 mine \<leftarrow> beginDelete vmID;
                 if \<not> mine then ret (Some v, None)
                 else do { d \<leftarrow> delete_body e v force pin; endDelete vmID; ret d }
               });
         releaseClaim vmID;
         ret res
       }
   }"

section \<open>The exit of a VMM\<close>

text \<open>The last transition of an exit and the hook behind it; an invalid transition is not an error.\<close>

definition exit_settle :: "'h menv \<Rightarrow> transition_input \<Rightarrow> ('h, mgr_error option) prog" where
  "exit_settle e t = do {
     r \<leftarrow> move_vm e t;
     case r of
       Inl x \<Rightarrow> ret (if is_invalid x then None else Some (MStore [] x))
     | Inr _ \<Rightarrow> do { onVMTerminal e (ti_vmID t); ret None }
   }"

definition exit_failed :: "string \<Rightarrow> string \<Rightarrow> transition_input" where
  "exit_failed vmID reason = (transition0 vmID Failed reason)\<lparr>ti_failureStage := Some ''vmm_exit'',
     ti_failureReason := Some reason, ti_releaseCompute := True\<rparr>"

definition exit_body :: "'h menv \<Rightarrow> vm \<Rightarrow> string \<Rightarrow> string \<Rightarrow> bool \<Rightarrow> ('h, mgr_error option) prog" where
  "exit_body e v bootID reason graceful =
     (if bootID \<noteq> [] \<and> vm_bootID v \<noteq> [] \<and> bootID \<noteq> vm_bootID v then ret None
      else if vm_observed v \<in> {Stopped, Failed, Deleted, Deleting, Stopping} then ret None
      else if vm_observed v = Provisioning \<or> vm_observed v = Starting then exit_settle e (exit_failed (vm_id v) reason)
      else do {
        _ \<leftarrow> move_vm e (transition0 (vm_id v) Stopping reason);
        exit_settle e (if graceful then (transition0 (vm_id v) Stopped reason)\<lparr>ti_releaseCompute := True\<rparr>
                       else exit_failed (vm_id v) reason)
      })"

definition NotifyVMMExit :: "'h menv \<Rightarrow> string \<Rightarrow> string \<Rightarrow> string \<Rightarrow> bool \<Rightarrow> ('h, mgr_error option) prog" where
  "NotifyVMMExit e vmID bootID reason graceful = do {
     c \<leftarrow> beginMutation;
     case c of
       Some x \<Rightarrow> ret (Some x)
     | None \<Rightarrow> do {
         claimLifecycle vmID;
         r \<leftarrow> get_vm e vmID;
         res \<leftarrow> (case r of Inl _ \<Rightarrow> ret None | Inr v \<Rightarrow> exit_body e v bootID reason graceful);
         releaseClaim vmID;
         ret res
       }
   }"

end
