(* ===== verification/VM_Recovery.thy ===== *)
theory VM_Recovery
  imports VM_Manager
begin

text \<open>
  Recovery (\<open>Reconcile\<close> and \<open>reconcileRuns\<close> of \<open>src/internal/runtime/manager.go\<close>, \<open>cleanup_retry.go\<close>): what the
  manager does at startup with the rows a previous run left behind, and the periodic sweep over the
  VMs whose host cleanup is unfinished.

  The startup scan's findings are \<open>e_adopted\<close> and \<open>e_ambiguous\<close>.
\<close>

primrec for_each :: "('a \<Rightarrow> ('h, unit) prog) \<Rightarrow> 'a list \<Rightarrow> ('h, unit) prog" where
  "for_each f [] = ret ()"
| "for_each f (x # xs) = do { f x; for_each f xs }"

primrec until_error :: "('a \<Rightarrow> ('h, mgr_error option) prog) \<Rightarrow> 'a list \<Rightarrow> ('h, mgr_error option) prog" where
  "until_error f [] = ret None"
| "until_error f (x # xs) = do { r \<leftarrow> f x; if r \<noteq> None then ret r else until_error f xs }"

definition list_vms :: "'h menv \<Rightarrow> vm_query \<Rightarrow> ('h, store_error + vm list) prog" where
  "list_vms e q = read_store e (\<lambda>db. case ListVMs db q of Inl _ \<Rightarrow> Inl (PageBound (vq_limit q)) | Inr vs \<Rightarrow> Inr vs)"

section \<open>Startup\<close>

definition fail_operation :: "'h menv \<Rightarrow> operation \<Rightarrow> ('h, mgr_error option) prog" where
  "fail_operation e p = do {
     r \<leftarrow> update_op e ((op_update0 (opn_id p) (opn_phase p) OpFailed)\<lparr>ou_cause := Some ''controller_restart'',
           ou_message := Some ''the controller restarted while this operation was in progress''\<rparr>);
     ret (case r of Inl x \<Rightarrow> Some (MStore ''fail operation: '' x) | Inr _ \<Rightarrow> None)
   }"

definition fail_operations :: "'h menv \<Rightarrow> op_state \<Rightarrow> ('h, mgr_error option) prog" where
  "fail_operations e s = do {
     r \<leftarrow> read_store e (\<lambda>db. Inr (ListOperationsByState db s));
     case r of
       Inl x \<Rightarrow> ret (Some (MStore ''list operations: '' x))
     | Inr ps \<Rightarrow> until_error (fail_operation e) ps
   }"

definition reconcile_launching :: "'h menv \<Rightarrow> vm \<Rightarrow> ('h, unit) prog" where
  "reconcile_launching e v = do {
     (releaseC, reason) \<leftarrow>
       (if vm_observed v = Provisioning then ret (True, ''controller_restart'')
        else do {
          x \<leftarrow> on_host (rt_ForceStop (e_rt e) (vm_id v));
          ret (stop_proven x, case x of None \<Rightarrow> ''controller_restart'' | Some y \<Rightarrow> ''controller_restart; cleanup: '' @ rt_text y)
        });
     _ \<leftarrow> move_vm e ((transition0 (vm_id v) Failed reason)\<lparr>ti_failureStage := Some (state_name (vm_observed v)),
           ti_failureReason := Some reason, ti_releaseCompute := releaseC\<rparr>);
     ret ()
   }"

definition record_ambiguity :: "'h menv \<Rightarrow> vm \<Rightarrow> string \<Rightarrow> ('h, unit) prog" where
  "record_ambiguity e v detail = do {
     _ \<leftarrow> on_store e (\<lambda>now. RecordReconcileAmbiguity (e_digest e) (e_redact e) now (vm_id v) (state_name (vm_observed v)) detail);
     ret ()
   }"

definition reconcile_up :: "'h menv \<Rightarrow> vm \<Rightarrow> ('h, unit) prog" where
  "reconcile_up e v =
     (if vm_id v \<in> set (e_adopted e) then ret ()
      else case map_of (e_ambiguous e) (vm_id v) of
        Some detail \<Rightarrow> record_ambiguity e v detail
      | None \<Rightarrow> do {
          _ \<leftarrow> move_vm e ((transition0 (vm_id v) Failed ''vmm_disappeared_on_restart'')\<lparr>ti_releaseCompute := True\<rparr>);
          ret ()
        })"

definition settle_stopped :: "'h menv \<Rightarrow> string \<Rightarrow> ('h, unit) prog" where
  "settle_stopped e vmID = do {
     _ \<leftarrow> move_vm e ((transition0 vmID Stopped ''controller_restart'')\<lparr>ti_releaseCompute := True\<rparr>);
     ret ()
   }"

text \<open>An adopted VM is stopped first; an unavailable runtime settles the row all the same.\<close>

definition reconcile_stopping :: "'h menv \<Rightarrow> vm \<Rightarrow> ('h, unit) prog" where
  "reconcile_stopping e v =
     (case map_of (e_ambiguous e) (vm_id v) of
        Some detail \<Rightarrow> record_ambiguity e v detail
      | None \<Rightarrow>
          if vm_id v \<in> set (e_adopted e) then do {
            x \<leftarrow> on_host (rt_ForceStop (e_rt e) (vm_id v));
            case x of
              None \<Rightarrow> settle_stopped e (vm_id v)
            | Some (RtUnavailable _) \<Rightarrow> settle_stopped e (vm_id v)
            | Some y \<Rightarrow>
                if cleanupDebt x then do { _ \<leftarrow> cleanup_failure e (vm_id v) Stopped (rt_text y); settle_stopped e (vm_id v) }
                else do { _ \<leftarrow> cleanup_failure e (vm_id v) Stopping (rt_text y); ret () }
          }
          else settle_stopped e (vm_id v))"

definition is_unavailable :: "rt_err option \<Rightarrow> bool" where
  "is_unavailable x = (case x of Some (RtUnavailable _) \<Rightarrow> True | _ \<Rightarrow> False)"

definition finish_delete :: "'h menv \<Rightarrow> vm \<Rightarrow> rt_err option \<Rightarrow> ('h, unit) prog" where
  "finish_delete e v x =
     (if x = None \<or> is_unavailable x then do {
        _ \<leftarrow> move_vm e ((transition0 (vm_id v) Deleted ''controller_restart'')\<lparr>ti_desired := Some Deleted, ti_releaseAll := True\<rparr>);
        ret ()
      } else do { _ \<leftarrow> cleanup_failure e (vm_id v) Deleting (rt_text (the x)); ret () })"

definition reconcile_deleting :: "'h menv \<Rightarrow> vm \<Rightarrow> ('h, unit) prog" where
  "reconcile_deleting e v = do {
     x \<leftarrow> on_host (rt_ForceStop (e_rt e) (vm_id v));
     if x = None \<or> is_unavailable x then do {
       y \<leftarrow> on_host (rt_Release (e_rt e) (vm_id v));
       finish_delete e v y
     } else finish_delete e v x
   }"

definition reconcile_vm :: "'h menv \<Rightarrow> vm \<Rightarrow> ('h, unit) prog" where
  "reconcile_vm e v = (case vm_observed v of
      Provisioning \<Rightarrow> reconcile_launching e v
    | Starting \<Rightarrow> reconcile_launching e v
    | Running \<Rightarrow> reconcile_up e v
    | Paused \<Rightarrow> reconcile_up e v
    | Stopping \<Rightarrow> reconcile_stopping e v
    | Deleting \<Rightarrow> reconcile_deleting e v
    | _ \<Rightarrow> ret ())"

definition reconcile_run :: "'h menv \<Rightarrow> run \<Rightarrow> ('h, unit) prog" where
  "reconcile_run e r = do {
     x \<leftarrow> get_vm e (rn_vmID r);
     if (case x of Inl _ \<Rightarrow> True | Inr v \<Rightarrow> vm_observed v \<noteq> Running \<and> vm_observed v \<noteq> Paused)
     then do { _ \<leftarrow> concludeRun e (rn_id r) Interrupted; ret () }
     else ret ()
   }"

text \<open>At startup the generator is called directly.\<close>

definition reconcile_report :: "'h menv \<Rightarrow> run \<Rightarrow> ('h, unit) prog" where
  "reconcile_report e r = do {
     x \<leftarrow> read_store e (\<lambda>db. GetRunReport db (rn_id r));
     if x \<noteq> Inl ErrReportNotFound then ret ()
     else do {
       b \<leftarrow> read_store e (\<lambda>db. Inr (HasRunningReportOp db (rn_id r)));
       if b = Inr True then ret ()
       else on_mem (\<lambda>m. ((), m\<lparr>mg_reports := mg_reports m @ [rn_id r]\<rparr>))
     }
   }"

definition reconcileRuns :: "'h menv \<Rightarrow> ('h, mgr_error option) prog" where
  "reconcileRuns e = do {
     r \<leftarrow> read_store e (\<lambda>db. Inr (ListRunsInPhases db [RPending, RRunning, RConcluding]));
     case r of
       Inl x \<Rightarrow> ret (Some (MStore ''list active runs: '' x))
     | Inr runs \<Rightarrow> do {
         for_each (reconcile_run e) runs;
         if \<not> e_reportGen e then ret None
         else do {
           t \<leftarrow> read_store e (\<lambda>db. Inr (ListRunsInPhases db [RSucceeded, RFailed, RInconclusive, RAborted]));
           case t of
             Inl x \<Rightarrow> ret (Some (MStore ''list terminal runs: '' x))
           | Inr done' \<Rightarrow> do { for_each (reconcile_report e) done'; ret None }
         }
       }
   }"

definition all_vms_query :: vm_query where
  "all_vms_query = \<lparr>vq_includeStoppedCleanup = False, vq_after = 0, vq_limit = MaxPageLimit, vq_states = [], vq_owner = []\<rparr>"

definition Reconcile :: "'h menv \<Rightarrow> ('h, mgr_error option) prog" where
  "Reconcile e = do {
     a \<leftarrow> until_error (fail_operations e) [OpPending, OpRunning];
     if a \<noteq> None then ret a
     else do {
       r \<leftarrow> list_vms e all_vms_query;
       case r of
         Inl x \<Rightarrow> ret (Some (MStore ''list vms for reconcile: '' x))
       | Inr vs \<Rightarrow> do { for_each (reconcile_vm e) vs; reconcileRuns e }
     }
   }"

section \<open>The cleanup sweep\<close>

text \<open>The steps of a retry answer whether it ended in an error.\<close>

definition retry_failed :: "'h menv \<Rightarrow> vm \<Rightarrow> rt_err \<Rightarrow> ('h, bool) prog" where
  "retry_failed e v x =
     (if x = RtCanceled then ret True
      else do {
        _ \<leftarrow> cleanup_failure e (vm_id v) (vm_observed v)
          (''automatic cleanup remains queued (30-second sweep delay); manual DELETE remains available: '' @ rt_text x);
        ret True
      })"

definition retry_input :: "vm \<Rightarrow> vm_state \<Rightarrow> transition_input" where
  "retry_input v to = (transition0 (vm_id v) to ''cleanup_retry'')\<lparr>ti_from := Some (vm_observed v)\<rparr>"

definition retry_stopped :: "'h menv \<Rightarrow> vm \<Rightarrow> ('h, bool) prog" where
  "retry_stopped e v = do {
     t \<leftarrow> move_vm e ((retry_input v Stopped)\<lparr>ti_expectedRevision := Some (vm_revision v), ti_releaseCompute := True\<rparr>);
     case t of Inl _ \<Rightarrow> ret True | Inr _ \<Rightarrow> do { onVMTerminal e (vm_id v); ret False }
   }"

definition retry_deleted :: "'h menv \<Rightarrow> vm \<Rightarrow> ('h, bool) prog" where
  "retry_deleted e v = do {
     t \<leftarrow> move_vm e ((retry_input v Deleted)\<lparr>ti_expectedRevision := Some (vm_revision v), ti_releaseAll := True\<rparr>);
     ret (isl t)
   }"

text \<open>After a release: the reservations of a failed VM go, a delete in progress is completed.\<close>

definition retry_released :: "'h menv \<Rightarrow> vm \<Rightarrow> ('h, bool) prog" where
  "retry_released e v =
     (if vm_observed v = Failed
      then do { r \<leftarrow> on_store e (\<lambda>now db. (ReleaseVMReservations now (vm_id v) db, Inr ())); ret (isl r) }
      else if vm_observed v = Stopping then do {
        t \<leftarrow> move_vm e ((retry_input v Stopped)\<lparr>ti_expectedRevision := Some (vm_revision v), ti_releaseCompute := True\<rparr>);
        case t of
          Inl _ \<Rightarrow> ret True
        | Inr v1 \<Rightarrow> do {
            u \<leftarrow> move_vm e (retry_input v1 Deleting);
            case u of Inl _ \<Rightarrow> ret True | Inr v2 \<Rightarrow> retry_deleted e v2
          }
      }
      else retry_deleted e v)"

text \<open>Whether there is something to retry: \<open>Inl\<close> ends the retry, in an error or not.\<close>

definition retry_wanted :: "'h menv \<Rightarrow> vm \<Rightarrow> ('h, bool + unit) prog" where
  "retry_wanted e v =
     (if vm_observed v = Stopped then do {
        r \<leftarrow> read_store e (\<lambda>db. Inr (HasCleanupDebt db (vm_id v)));
        ret (case r of Inl _ \<Rightarrow> Inl True | Inr pending \<Rightarrow> if pending then Inr () else Inl False)
      }
      else if vm_observed v = Failed then do {
        r \<leftarrow> read_store e (\<lambda>db. GetReservation db (vm_id v));
        ret (case r of Inl _ \<Rightarrow> Inl True | Inr x \<Rightarrow> if rv_released x then Inl False else Inr ())
      }
      else ret (if vm_observed v = Stopping \<or> vm_observed v = Deleting then Inr () else Inl False))"

definition retry_stop_answer :: "'h menv \<Rightarrow> vm \<Rightarrow> rt_err option \<Rightarrow> ('h, bool) prog" where
  "retry_stop_answer e v x =
     (if vm_observed v = Stopped then
        (case x of
           Some y \<Rightarrow> retry_failed e v y
         | None \<Rightarrow> do { r \<leftarrow> on_store e (\<lambda>_ db. (ClearCleanupDebt (vm_id v) db, Inr ())); ret (isl r) })
      else if vm_observed v = Stopping \<and> vm_desired v \<noteq> Deleted then
        (case x of Some y \<Rightarrow> retry_failed e v y | None \<Rightarrow> retry_stopped e v)
      else do {
        y \<leftarrow> on_host (rt_Release (e_rt e) (vm_id v));
        case y of
          Some z \<Rightarrow> retry_failed e v z
        | None \<Rightarrow> do { c \<leftarrow> canceled e; if c then ret True else retry_released e v }
      })"

definition retryVM :: "'h menv \<Rightarrow> string \<Rightarrow> ('h, bool) prog" where
  "retryVM e vmID = do {
     r \<leftarrow> get_vm e vmID;
     case r of
       Inl _ \<Rightarrow> ret True
     | Inr v \<Rightarrow> do {
         w \<leftarrow> retry_wanted e v;
         case w of
           Inl err \<Rightarrow> ret err
         | Inr _ \<Rightarrow> do {
             x \<leftarrow> on_host (rt_ForceStop (e_rt e) vmID);
             if \<not> stop_proven x then retry_failed e v (the x)
             else do { c \<leftarrow> canceled e; if c then ret True else retry_stop_answer e v x }
           }
       }
   }"

definition cleanupRetryPage :: int where
  "cleanupRetryPage = 16"

definition retry_candidate :: "'h menv \<Rightarrow> vm \<Rightarrow> ('h, bool) prog" where
  "retry_candidate e v = do {
     on_mem (\<lambda>m. ((), m\<lparr>mg_after := int (vm_rowID v)\<rparr>));
     ok \<leftarrow> claimCleanup (vm_id v);
     if \<not> ok then ret False
     else do { err \<leftarrow> retryVM e (vm_id v); releaseClaim (vm_id v); ret err }
   }"

text \<open>The page is finished unless the sweep's context ends, before a candidate or under a failed one.\<close>

primrec retry_page :: "'h menv \<Rightarrow> vm list \<Rightarrow> ('h, bool) prog" where
  "retry_page e [] = ret True"
| "retry_page e (v # vs) = do {
     c \<leftarrow> canceled e;
     if c then ret False
     else do {
       err \<leftarrow> retry_candidate e v;
       d \<leftarrow> canceled e;
       if err \<and> d then ret False else retry_page e vs
     }
   }"

definition retry_query :: "int \<Rightarrow> vm_query" where
  "retry_query after = \<lparr>vq_includeStoppedCleanup = True, vq_after = after, vq_limit = cleanupRetryPage,
     vq_states = [Stopping, Deleting, Failed], vq_owner = []\<rparr>"

definition RetryCleanup :: "'h menv \<Rightarrow> ('h, mgr_error option) prog" where
  "RetryCleanup e = do {
     c \<leftarrow> beginMutation;
     case c of
       Some x \<Rightarrow> ret (Some x)
     | None \<Rightarrow> do {
         after \<leftarrow> on_mem (\<lambda>m. (mg_after m, m));
         r \<leftarrow> list_vms e (retry_query after);
         case r of
           Inl x \<Rightarrow> ret (Some (MStore [] x))
         | Inr vs \<Rightarrow> do {
             ok \<leftarrow> retry_page e vs;
             if \<not> ok then ret (Some (MRuntime [] RtCanceled))
             else if int (length vs) < cleanupRetryPage then on_mem (\<lambda>m. (None, m\<lparr>mg_after := 0\<rparr>)) else ret None
           }
       }
   }"

end
