(* ===== verification/Batch_Manager.thy ===== *)
theory Batch_Manager
  imports VM_Manager
begin

text \<open>
  Batch creation (\<open>src/internal/runtime/batch.go\<close>): the checks and defaults of every member, the call of the store,
  and the coordinator that stops the siblings of a failed member and finishes the batch's operation.

  A coordinator is an entry of \<open>mg_coords\<close>, which the members' tasks share. The read-act loop of the
  stop wave runs at most three times, as in the code.
\<close>

section \<open>The coordinator\<close>

definition coord_get :: "nat \<Rightarrow> ('h, batch_coord) prog" where
  "coord_get c = on_mem (\<lambda>m. (mg_coords m ! c, m))"

definition coord_set :: "nat \<Rightarrow> (batch_coord \<Rightarrow> batch_coord) \<Rightarrow> ('h, unit) prog" where
  "coord_set c f = on_mem (\<lambda>m. ((), m\<lparr>mg_coords := (mg_coords m)[c := f (mg_coords m ! c)]\<rparr>))"

definition newBatchCoord :: "string \<Rightarrow> nat \<Rightarrow> launch_member list \<Rightarrow> ('h, nat) prog" where
  "newBatchCoord onFailure batchOp ms = on_mem (\<lambda>m. (length (mg_coords m), m\<lparr>mg_coords := mg_coords m @
     [\<lparr>bc_onFailure = onFailure, bc_batchOp = batchOp, bc_total = length ms, bc_members = ms, bc_stopped = False,
       bc_succeeded = 0, bc_failed = 0, bc_remaining = int (length ms)\<rparr>]\<rparr>))"

definition wave_op_failed :: "'h menv \<Rightarrow> nat \<Rightarrow> ('h, unit) prog" where
  "wave_op_failed e opID = do {
     _ \<leftarrow> update_op e ((op_update0 opID ''stopped'' OpFailed)\<lparr>ou_ifState := Some OpRunning, ou_cause := Some ''batch_stop_successful'',
           ou_message := Some ''sibling member failed, on_failure=stop_successful''\<rparr>);
     ret ()
   }"

primrec stop_sibling :: "'h menv \<Rightarrow> launch_member \<Rightarrow> nat \<Rightarrow> ('h, unit) prog" where
  "stop_sibling e l 0 = ret ()"
| "stop_sibling e l (Suc n) = do {
     r \<leftarrow> get_vm e (vm_id (lm_vm l));
     case r of
       Inl _ \<Rightarrow> ret ()
     | Inr v \<Rightarrow>
         if vm_observed v \<in> {Stopped, Failed, Deleting, Deleted} then ret ()
         else if vm_observed v = Stopping then wave_op_failed e (lm_op l)
         else do {
           t \<leftarrow> move_vm e ((transition0 (vm_id (lm_vm l)) Stopping ''batch_stop_successful'')\<lparr>ti_from := Some (vm_observed v),
                 ti_opID := lm_op l\<rparr>);
           case t of
             Inl _ \<Rightarrow> stop_sibling e l n
           | Inr _ \<Rightarrow> do {
               x \<leftarrow> (if vm_observed v \<noteq> Provisioning
                    then on_host (\<lambda>h. map_prod snd id (rt_Stop (e_rt e) (vm_id (lm_vm l)) (vd_stopGrace (e_defaults e)) h))
                    else ret None);
               if \<not> stop_proven x then do {
                 _ \<leftarrow> cleanup_failure e (vm_id (lm_vm l)) Stopping (rt_text (the x));
                 wave_op_failed e (lm_op l)
               }
               else do {
                 u \<leftarrow> move_vm e ((transition0 (vm_id (lm_vm l)) Stopped ''batch_stop_successful'')\<lparr>ti_from := Some Stopping,
                       ti_opID := lm_op l, ti_releaseCompute := True\<rparr>);
                 case u of
                   Inl _ \<Rightarrow> stop_sibling e l n
                 | Inr _ \<Rightarrow> do {
                     _ \<leftarrow> (case x of None \<Rightarrow> ret (Inr ()) | Some y \<Rightarrow> cleanup_failure e (vm_id (lm_vm l)) Stopped (rt_text y));
                     onVMTerminal e (vm_id (lm_vm l));
                     wave_op_failed e (lm_op l)
                   }
               }
             }
         }
   }"

text \<open>The claims of the wave are kept until it is over.\<close>

primrec stop_wave :: "'h menv \<Rightarrow> string \<Rightarrow> launch_member list \<Rightarrow> ('h, unit) prog" where
  "stop_wave e failed [] = ret ()"
| "stop_wave e failed (l # ls) =
     (if vm_id (lm_vm l) = failed then stop_wave e failed ls
      else do {
        claimLifecycle (vm_id (lm_vm l));
        stop_sibling e l 3;
        stop_wave e failed ls;
        releaseClaim (vm_id (lm_vm l))
      })"

definition stopSiblings :: "'h menv \<Rightarrow> nat \<Rightarrow> string \<Rightarrow> ('h, unit) prog" where
  "stopSiblings e c failed = do {
     b \<leftarrow> coord_get c;
     if bc_onFailure b \<noteq> ''stop_successful'' \<or> bc_stopped b then ret ()
     else do { coord_set c (\<lambda>b. b\<lparr>bc_stopped := True\<rparr>); stop_wave e failed (bc_members b) }
   }"

definition memberDone :: "'h menv \<Rightarrow> nat \<Rightarrow> bool \<Rightarrow> ('h, unit) prog" where
  "memberDone e c ok = do {
     coord_set c (\<lambda>b. if ok then b\<lparr>bc_succeeded := bc_succeeded b + 1, bc_remaining := bc_remaining b - 1\<rparr>
                      else b\<lparr>bc_failed := bc_failed b + 1, bc_remaining := bc_remaining b - 1\<rparr>);
     b \<leftarrow> coord_get c;
     if bc_remaining b \<noteq> 0 \<or> bc_batchOp b = 0 then ret ()
     else do {
       _ \<leftarrow> update_op e
         (if bc_onFailure b = ''stop_successful'' \<and> 0 < bc_failed b
          then (op_update0 (bc_batchOp b) ''complete'' OpFailed)\<lparr>ou_ifState := Some OpRunning, ou_cause := Some ''member_failed'',
                 ou_message := Some (''batch stopped: '' @ format_int (bc_failed b) @ '' of '' @ format_uint (bc_total b)
                   @ '' members did not complete (on_failure=stop_successful)'')\<rparr>
          else if 0 < bc_succeeded b then (op_update0 (bc_batchOp b) ''complete'' OpSucceeded)\<lparr>ou_ifState := Some OpRunning\<rparr>
          else (op_update0 (bc_batchOp b) ''complete'' OpFailed)\<lparr>ou_ifState := Some OpRunning, ou_cause := Some ''all_members_failed'',
                 ou_message := Some ''every admitted batch member failed to launch''\<rparr>);
       ret ()
     }
   }"

section \<open>Members\<close>

definition runBatchMemberLaunch :: "'h menv \<Rightarrow> nat \<Rightarrow> launch_member \<Rightarrow> ('h, bool) prog" where
  "runBatchMemberLaunch e c l = do {
     r \<leftarrow> launch_steps e l;
     if r = Some False then do { stopSiblings e c (vm_id (lm_vm l)); ret False }
     else ret (r = Some True)
   }"

definition member_task :: "'h menv \<Rightarrow> nat \<Rightarrow> launch_member \<Rightarrow> ('h, unit) prog" where
  "member_task e c l = do {
     x \<leftarrow> canceled e;
     (if x then do {
        failLaunch e (vm_id (lm_vm l)) (lm_op l) ''enqueue'' ''manager closed before slot acquired'';
        memberDone e c False
      }
      else do {
        b \<leftarrow> coord_get c;
        if bc_stopped b then memberDone e c False
        else do { ok \<leftarrow> runBatchMemberLaunch e c l; memberDone e c ok }
      });
     releaseClaim (vm_id (lm_vm l))
   }"

primrec enqueue_members :: "'h menv \<Rightarrow> nat \<Rightarrow> launch_member list \<Rightarrow> ('h, unit) prog" where
  "enqueue_members e c [] = ret ()"
| "enqueue_members e c (l # ls) = do {
     claimLifecycle (vm_id (lm_vm l));
     ok \<leftarrow> GoTracked (MemberTask c l);
     (if ok then ret ()
      else do {
        releaseClaim (vm_id (lm_vm l));
        failLaunch e (vm_id (lm_vm l)) (lm_op l) ''enqueue'' ''manager closed before launch was scheduled'';
        memberDone e c False
      });
     enqueue_members e c ls
   }"

section \<open>Creating a batch\<close>

record batch_request =
  bq_members :: "create_request list"
  bq_mode :: string
  bq_onFailure :: string
  bq_key :: "string option"

fun resolve_members :: "'h menv \<Rightarrow> nat \<Rightarrow> nat \<Rightarrow> create_request list \<Rightarrow> mgr_error + (string \<times> member_input) list" where
  "resolve_members e n i [] = Inr []"
| "resolve_members e n i (q # qs) =
     (case resolveMember e (e_memberID e n i) q of
        Inl x \<Rightarrow> Inl (MMember i x)
      | Inr m \<Rightarrow> (case resolve_members e n (Suc i) qs of Inl x \<Rightarrow> Inl x | Inr ms \<Rightarrow> Inr ((e_runID e n i, m) # ms)))"

text \<open>The signature that is hashed has neither the minted ids nor the attached runs.\<close>

definition batch_signature :: "(string \<times> member_input) list \<Rightarrow> member_input list" where
  "batch_signature ms = map (\<lambda>m. (snd m)\<lparr>mi_vmID := [], mi_memoryTotal := 0, mi_run := None\<rparr>) ms"

definition batch_store_input ::
  "'h menv \<Rightarrow> string \<Rightarrow> batch_request \<Rightarrow> string \<Rightarrow> (string \<times> member_input) list \<Rightarrow> batch_input" where
  "batch_store_input e owner q onFailure ms =
     (let atomic = (bq_mode q = ''atomic_reservation'') in
      \<lparr>bi_owner = owner, bi_key = bq_key q, bi_hash = e_batchHash e (bq_mode q, onFailure, batch_signature ms),
       bi_mode = (if atomic then AtomicReservation else BestEffort), bi_onFailure = onFailure, bi_members = ms,
       bi_admitBatch = (if atomic then (\<lambda>t. Admit (e_policy e) t (sum_list (map (\<lambda>m. mi_memoryTotal (snd m)) ms))
           (sum_list (map (\<lambda>m. mi_vcpu (snd m)) ms)) (sum_list (map (\<lambda>m. mi_rootDisk (snd m) + mi_workspaceDisk (snd m)) ms)))
         else (\<lambda>_. AdmitBroken)),
       bi_admitMember = (if atomic then (\<lambda>_ _ _ _. AdmitBroken) else Admit (e_policy e))\<rparr>)"

definition launchable :: "'h menv \<Rightarrow> create_request list \<Rightarrow> (string \<times> member_input) list \<Rightarrow> member_result list \<Rightarrow> launch_member list" where
  "launchable e qs ms rs =
     List.map_filter (\<lambda>(q, m, r). case (mr_vm r, mr_op r, map_of (e_templates e) (rq_templateID q)) of
         (Some v, Some p, Some tpl) \<Rightarrow> Some \<lparr>lm_vm = v, lm_op = opn_id p, lm_tpl = tpl, lm_vcpu = mi_vcpu (snd m),
            lm_memory = mi_memory (snd m), lm_rootDisk = mi_rootDisk (snd m), lm_workspaceDisk = mi_workspaceDisk (snd m)\<rparr>
       | _ \<Rightarrow> None) (zip qs (zip ms rs))"

definition CreateBatch :: "'h menv \<Rightarrow> string \<Rightarrow> batch_request \<Rightarrow> ('h, mgr_error + batch_result) prog" where
  "CreateBatch e owner q = do {
     c \<leftarrow> beginMutation;
     case c of
       Some x \<Rightarrow> ret (Inl x)
     | None \<Rightarrow> do {
         a \<leftarrow> on_host (\<lambda>h. (rt_Availability (e_rt e) h, h));
         n \<leftarrow> on_mem (\<lambda>m. (mg_calls m, m));
         case a of
           Some x \<Rightarrow> ret (Inl (MRuntime ''runtime not available: '' x))
         | None \<Rightarrow>
             let onFailure = (if bq_onFailure q = [] then ''keep_successful'' else bq_onFailure q) in
             if bq_members q = [] then ret (Inl (MInvalidRequest ''batch must have at least one member''))
             else if bq_mode q \<noteq> ''atomic_reservation'' \<and> bq_mode q \<noteq> ''best_effort''
               then ret (Inl (MInvalidRequest ''reservation_mode must be atomic_reservation or best_effort''))
             else if onFailure \<noteq> ''keep_successful'' \<and> onFailure \<noteq> ''stop_successful''
               then ret (Inl (MInvalidRequest ''on_failure must be keep_successful or stop_successful''))
             else case resolve_members e n 0 (bq_members q) of
               Inl x \<Rightarrow> ret (Inl x)
             | Inr ms \<Rightarrow> do {
                 r \<leftarrow> on_store e (\<lambda>now. CreateVMBatch (e_digest e) now (batch_store_input e owner q onFailure ms));
                 case r of
                   Inl x \<Rightarrow> ret (Inl (MStore [] x))
                 | Inr b \<Rightarrow>
                     let ls = launchable e (bq_members q) ms (br_members b) in
                     if br_replay b \<or> ls = [] then ret (Inr b)
                     else do {
                       k \<leftarrow> newBatchCoord onFailure (case br_op b of None \<Rightarrow> 0 | Some p \<Rightarrow> opn_id p) ls;
                       enqueue_members e k ls;
                       ret (Inr b)
                     }
               }
       }
   }"

end
