(* ===== verification/Manager_Logic.thy ===== *)
theory Manager_Logic
  imports VM_Recovery Batch_Manager
begin

text \<open>
  Reasoning about the manager: weakest preconditions of its programs, the contract of the runtime
  interface (the doc comments of \<open>src/internal/runtime/runtime.go\<close>), and the invariant that ties the tables to the
  host.

  A VM's VMM may be alive on the host, which includes a launch that may still succeed later; and the
  host may hold resources for a VM, which are what \<open>Release\<close> reclaims. The contract says what each verb
  does to the two sets: only a launch adds to them, a proven stop takes the VM out of the first, a
  release that ends without an error takes it out of the second. The rules for store and runtime calls
  are proved once here; the component proofs walk through the programs with them.
\<close>

section \<open>Weakest preconditions\<close>

lemma wp_mem [simp]: "wp (on_mem f) Q = (\<lambda>m. case f m of (r, m') \<Rightarrow> Q r m')"
  by (rule ext) (simp add: wp_def on_mem_def)

lemma wp_canceled [simp]: "wp (canceled e) Q = (\<lambda>m. Q (e_canceled e (mg_calls m)) m)"
  and wp_new_uuid [simp]: "wp (new_uuid e) P = (\<lambda>m. P (e_uuid e (mg_calls m)) m)"
  by (rule ext, simp add: wp_def canceled_def new_uuid_def)+

lemma wp_host: "wp (on_host f) Q m = Q (fst (f (mg_host m))) (m\<lparr>mg_host := snd (f (mg_host m))\<rparr>)"
  by (simp add: wp_def on_host_def split: prod.splits)

lemma wp_store:
  "wp (on_store e f) Q m =
     (let m1 = m\<lparr>mg_calls := Suc (mg_calls m)\<rparr> in
      if e_down e (mg_calls m) then Q (Inl (StorageError ''store call failed'')) m1
      else case f (e_clock e (mg_calls m)) (mg_db m) of (db, r) \<Rightarrow> Q r (m1\<lparr>mg_db := db\<rparr>))"
  by (simp add: wp_def on_store_def Let_def split: prod.splits)

section \<open>Which calls change the VM rows\<close>

text \<open>A row apart from the number of the last event that touched it.\<close>

definition rows :: "vmdb \<Rightarrow> vm list" where
  "rows db = map (\<lambda>v. v\<lparr>vm_lastEvent := 0\<rparr>) (db_vms db)"

lemma rows_touch [simp]: "rows (touch_vm i ev db) = rows db"
  by (simp add: rows_def touch_vm_def set_vm_def)

lemma rows_bind:
  "rows (fst (m db)) = rows db \<Longrightarrow> (\<And>x db'. rows (fst (f x db')) = rows db') \<Longrightarrow> rows (fst (bind_tx m f db)) = rows db"
  by (auto simp: bind_tx_def split: prod.splits sum.splits)

lemma rows_in_tx: "rows (fst (m db)) = rows db \<Longrightarrow> rows (fst (in_tx m db)) = rows db"
  by (auto simp: in_tx_def roll_back_def rows_def split: prod.splits sum.splits)

lemma rows_emit [simp]: "rows (fst (emit_as digest prov now kind data db)) = rows db"
  "rows (fst (emit digest now kind data db)) = rows db"
  using emit_as_shape [of digest prov now kind data db] emit_shape [of digest now kind data db] by (auto simp: rows_def)

lemma rows_insert [simp]: "rows (fst (insert_op now owner kind key hash vmID phase st err db)) = rows db"
  "rows (fst (insert_run mk db)) = rows db"
  by (simp_all add: insert_op_def insert_run_def rows_def Let_def)

lemma rows_set [simp]: "rows (set_op i f db) = rows db" "rows (set_run j g db) = rows db" "rows (set_res j k db) = rows db"
  by (simp_all add: set_op_def set_run_def set_res_def rows_def)

lemmas rows_rules = rows_in_tx rows_bind

lemma rows_run [simp]: "rows (db\<lparr>db_ev := s\<rparr>) = rows db" "rows (db\<lparr>db_debt := d\<rparr>) = rows db"
  by (simp_all add: rows_def)

lemma UpdateOperation_rows [simp]: "rows (fst (UpdateOperation digest now u db)) = rows db"
proof -
  have "rows (fst (bind_tx (emit digest now k d) (\<lambda>_ x. (x, Inr p)) (set_op i f db))) = rows db" for k d i f and p :: operation
    by (subst rows_bind) simp_all
  then show ?thesis
    unfolding UpdateOperation_def by (intro rows_in_tx) (auto simp: Let_def split: option.splits sum.splits)
qed

lemma CreateRun_rows [simp]: "rows (fst (CreateRun digest now runID i db)) = rows db"
  unfolding CreateRun_def by (auto split: sum.splits option.splits intro!: rows_rules)

lemma TransitionRun_rows [simp]: "rows (fst (TransitionRun digest now t db)) = rows db"
  unfolding TransitionRun_def by (auto simp: Let_def split: sum.splits intro!: rows_rules)

lemma rejected_rows [simp]: "rows (fst (recordSubmissionRejected digest now r w reason n db)) = rows db"
  by (simp add: recordSubmissionRejected_def split: prod.splits)

lemma Submit_rows [simp]: "rows (fst (SubmitRunProgress digest decode now runID payload m db)) = rows db"
  "rows (fst (SubmitRunResult digest decode quote now runID payload m db)) = rows db"
  unfolding SubmitRunProgress_def SubmitRunResult_def by (auto simp: Let_def split: sum.splits intro!: rows_rules)

lemma InsertActionOperation_rows [simp]: "rows (fst (InsertActionOperation digest now owner vmID phase hash db)) = rows db"
  unfolding InsertActionOperation_def by (auto intro!: rows_rules)

lemma statement_rows [simp]: "rows (fst (RecordCleanupFailure digest redact now vmID state reason db)) = rows db"
  "rows (fst (RecordReconcileAmbiguity digest redact now vmID state detail db)) = rows db"
  unfolding RecordCleanupFailure_def RecordReconcileAmbiguity_def recordVMStatement_def by (auto intro!: rows_rules)

lemma statement_res [simp]: "db_res (fst (RecordCleanupFailure digest redact now vmID state reason db)) = db_res db"
  "db_res (fst (RecordReconcileAmbiguity digest redact now vmID state detail db)) = db_res db"
  "db_res (fst (InsertActionOperation digest now owner vmID phase hash db)) = db_res db"
  unfolding RecordCleanupFailure_def RecordReconcileAmbiguity_def recordVMStatement_def InsertActionOperation_def
  by (auto intro!: res_rules)

lemma ClearCleanupDebt_rows [simp]: "rows (ClearCleanupDebt i db) = rows db" "db_res (ClearCleanupDebt i db) = db_res db"
  by (simp_all add: ClearCleanupDebt_def)

section \<open>The tables and the host\<close>

text \<open>
  A row and its reservation against the host: a VM whose VMM may be alive holds its compute, is past
  provisioning and does not read stopped, every row in a live state holds its compute, and nothing is left on the host of a
  deleted VM. Only a failed or deleted VM has given up its whole reservation.
\<close>

definition host_row :: "string set \<Rightarrow> string set \<Rightarrow> vm \<Rightarrow> reservation \<Rightarrow> bool" where
  "host_row up left v r \<longleftrightarrow>
     (vm_id v \<in> up \<longrightarrow> holds r \<and> vm_observed v \<notin> {Provisioning, Stopped}) \<and> (live_state (vm_observed v) \<longrightarrow> holds r)
     \<and> (vm_observed v = Deleted \<longrightarrow> vm_id v \<notin> up \<union> left) \<and> (rv_released r \<longrightarrow> vm_observed v \<in> {Failed, Deleting, Deleted})"

definition host_ok :: "string set \<Rightarrow> string set \<Rightarrow> vmdb \<Rightarrow> bool" where
  "host_ok up left db \<longleftrightarrow> list_all2 (host_row up left) (db_vms db) (db_res db) \<and> up \<union> left \<subseteq> vm_id ` set (db_vms db)"

definition good_db :: "'h menv \<Rightarrow> string set \<Rightarrow> string set \<Rightarrow> vmdb \<Rightarrow> bool" where
  "good_db e up left db \<longleftrightarrow> db_inv (e_digest e) db \<and> in_budget (e_policy e) (db_res db) \<and> host_ok up left db"

definition managed :: "'h menv \<Rightarrow> ('h \<Rightarrow> string set) \<Rightarrow> ('h \<Rightarrow> string set) \<Rightarrow> ('h \<Rightarrow> bool) \<Rightarrow> 'h manager \<Rightarrow> bool" where
  "managed e alive kept sound m \<longleftrightarrow> good_db e (alive (mg_host m)) (kept (mg_host m)) (mg_db m) \<and> sound (mg_host m)"

lemma managed_mem [simp]:
  "managed e alive kept sound (m\<lparr>mg_calls := n\<rparr>) = managed e alive kept sound m"
  "managed e alive kept sound (m\<lparr>mg_closed := b\<rparr>) = managed e alive kept sound m"
  "managed e alive kept sound (m\<lparr>mg_tasks := ts\<rparr>) = managed e alive kept sound m"
  "managed e alive kept sound (m\<lparr>mg_claims := cs\<rparr>) = managed e alive kept sound m"
  "managed e alive kept sound (m\<lparr>mg_deleting := ds\<rparr>) = managed e alive kept sound m"
  "managed e alive kept sound (m\<lparr>mg_after := a\<rparr>) = managed e alive kept sound m"
  "managed e alive kept sound (m\<lparr>mg_coords := bs\<rparr>) = managed e alive kept sound m"
  "managed e alive kept sound (m\<lparr>mg_reports := rs\<rparr>) = managed e alive kept sound m"
  by (simp_all add: managed_def)

lemma host_row_last: "host_row up left (v\<lparr>vm_lastEvent := n\<rparr>) r = host_row up left v r"
  by (simp add: host_row_def)

lemma host_ok_rows: "host_ok up left db = (list_all2 (host_row up left) (rows db) (db_res db) \<and> up \<union> left \<subseteq> vm_id ` set (rows db))"
  by (simp add: host_ok_def rows_def list_all2_map1 host_row_last image_image)

lemma host_ok_cong: "rows db' = rows db \<Longrightarrow> db_res db' = db_res db \<Longrightarrow> host_ok up left db' = host_ok up left db"
  by (simp add: host_ok_rows)

lemma host_row_shrink: "host_row up left v r \<Longrightarrow> up' \<subseteq> up \<Longrightarrow> left' \<subseteq> left \<Longrightarrow> host_row up' left' v r"
  by (auto simp: host_row_def)

lemma host_ok_shrink: "host_ok up left db \<Longrightarrow> up' \<subseteq> up \<Longrightarrow> left' \<subseteq> left \<Longrightarrow> host_ok up' left' db"
  by (auto simp: host_ok_def intro: host_row_shrink elim!: list.rel_mono_strong)

lemma good_shrink: "good_db e up left db \<Longrightarrow> up' \<subseteq> up \<Longrightarrow> left' \<subseteq> left \<Longrightarrow> good_db e up' left' db"
  by (auto simp: good_db_def intro: host_ok_shrink)

text \<open>The row of a VM and its reservation are at the same place.\<close>

lemma host_ok_find:
  assumes "host_ok up left db" "db_inv digest db" "find_vm db i = Some v"
  shows "\<exists>r. find_res db i = Some r \<and> host_row up left v r"
proof -
  have al: "list_all2 (host_row up left) (db_vms db) (db_res db)" "map rv_vmID (db_res db) = map vm_id (db_vms db)"
    using assms(1,2) by (simp_all add: host_ok_def db_inv_def vm_inv_def)
  have "find (\<lambda>x. vm_id x = i) vs = Some v \<Longrightarrow> map rv_vmID rs = map vm_id vs \<Longrightarrow>
      \<exists>r. find (\<lambda>x. rv_vmID x = i) rs = Some r \<and> host_row up left v r" if "list_all2 (host_row up left) vs rs" for vs rs
    using that by (induction rule: list_all2_induct) (auto split: if_splits)
  from this [OF al(1) assms(3) [unfolded find_vm_def] al(2)] show ?thesis by (simp add: find_res_def)
qed

lemma in_rows_find: "db_inv digest db \<Longrightarrow> v \<in> set (db_vms db) \<Longrightarrow> find_vm db (vm_id v) = Some v"
  by (auto simp: db_inv_def vm_inv_def intro!: find_vm_distinct)

text \<open>A change of one VM's row and reservation that keeps \<open>host_row\<close> for it.\<close>

lemma list_all2_update:
  assumes "list_all2 R vs rs" "map k' rs = map k vs" "\<And>v r. v \<in> set vs \<Longrightarrow> k v = i \<Longrightarrow> R v r \<Longrightarrow> R (f v) (g r)"
  shows "list_all2 R (map (\<lambda>v. if k v = i then f v else v) vs) (map (\<lambda>r. if k' r = i then g r else r) rs)"
  using assms
proof (induction rule: list_all2_induct)
  case (Cons v vs r rs)
  then have "k' r = k v" "map k' rs = map k vs" by simp_all
  moreover have "R (f v) (g r)" if "k v = i" using Cons.prems(2) [of v r] Cons.hyps(1) that by simp
  ultimately show ?case using Cons.IH Cons.hyps(1) Cons.prems(2) by simp
qed simp

section \<open>Store calls\<close>

lemma plain_good:
  assumes "good_db e up left db" "plain_call (e_digest e) db db'" "rows db' = rows db" "db_res db' = db_res db"
  shows "good_db e up left db'"
proof -
  have "db_inv (e_digest e) db'" using sc.step_ok [OF _ c_plain [OF assms(2)]] assms(1) by (simp add: good_db_def)
  then show ?thesis using assms by (simp add: good_db_def host_ok_cong [OF assms(3,4)])
qed

definition move_guard :: "'h menv \<Rightarrow> string set \<Rightarrow> string set \<Rightarrow> vmdb \<Rightarrow> transition_input \<Rightarrow> bool" where
  "move_guard e up left db t \<longleftrightarrow>
     (ti_acquireCompute t \<longrightarrow> (\<exists>r. find_res db (ti_vmID t) = Some r
        \<and> ti_admit t = Some (\<lambda>x. Admit (e_policy e) x (rv_memory r) (rv_vcpu r) 0)))
     \<and> (ti_to t = Starting \<longrightarrow> ti_from t = Some Provisioning \<or> ti_acquireCompute t)
     \<and> (ti_releaseCompute t \<or> ti_releaseAll t \<longrightarrow> \<not> live_state (ti_to t)
          \<and> (ti_vmID t \<notin> up \<or> ti_from t = Some Provisioning))
     \<and> (ti_releaseAll t \<longrightarrow> ti_to t = Deleted) \<and> (ti_to t = Deleted \<longrightarrow> ti_vmID t \<notin> up \<union> left)
     \<and> (ti_to t = Stopped \<longrightarrow> ti_vmID t \<notin> up)"

lemma move_guardD:
  assumes "move_guard e up left db t"
  shows "ti_to t = Starting \<Longrightarrow> ti_from t = Some Provisioning \<or> ti_acquireCompute t"
    "ti_releaseCompute t \<or> ti_releaseAll t \<Longrightarrow> \<not> live_state (ti_to t)"
    "ti_releaseCompute t \<or> ti_releaseAll t \<Longrightarrow> ti_vmID t \<in> up \<Longrightarrow> ti_from t = Some Provisioning"
    "ti_releaseAll t \<Longrightarrow> ti_to t = Deleted" "ti_to t = Deleted \<Longrightarrow> ti_vmID t \<notin> up \<union> left"
    "ti_to t = Stopped \<Longrightarrow> ti_vmID t \<notin> up"
  using assms unfolding move_guard_def by blast+

lemma live_edge:
  assumes "transitionAllowed s s'"
  shows "s' \<noteq> Provisioning" "live_state s' \<Longrightarrow> live_state s \<or> (s' = Starting \<and> s = Stopped)"
    "s \<in> {Failed, Deleting, Deleted} \<Longrightarrow> s' \<in> {Failed, Deleting, Deleted}" "s' = Starting \<Longrightarrow> s \<in> {Provisioning, Stopped}"
  using assms by (auto simp: transitionAllowed_def validTransitions_def live_state_def split: vm_state.splits)

lemma moved_host_row:
  assumes g: "move_guard e up left db t" and ok: "host_row up left v r" "vm_id v = ti_vmID t" and chk: "transition_check t db v = None"
  shows "host_row up left ((moved_vm now t v)\<lparr>vm_lastEvent := n\<rparr>) (reservation_flags now t r)"
proof -
  let ?v = "(moved_vm now t v)\<lparr>vm_lastEvent := n\<rparr>" and ?r = "reservation_flags now t r"
  have e: "transitionAllowed (vm_observed v) (ti_to t)" "ti_from t = None \<or> ti_from t = Some (vm_observed v)"
    using chk by (auto simp: transition_check_def split: if_splits)
  have v: "vm_id ?v = ti_vmID t" "vm_observed ?v = ti_to t" using ok(2) by (simp_all add: moved_vm_def)
  have keep: "holds ?r" if "holds r" "\<not> ti_releaseCompute t" "\<not> ti_releaseAll t"
    using that by (simp add: reservation_flags_def holds_def)
  have take: "holds ?r" if "live_state (ti_to t)"
  proof (cases "live_state (vm_observed v)")
    case True
    then show ?thesis using ok(1) move_guardD(2) [OF g] that keep by (auto simp: host_row_def)
  next
    case False
    then have s: "ti_to t = Starting" "vm_observed v = Stopped" using live_edge(2) [OF e(1) that] by auto
    then have "ti_acquireCompute t" "\<not> rv_released r" using move_guardD(1) [OF g] e(2) ok(1) by (auto simp: host_row_def)
    then show ?thesis using move_guardD(2) [OF g] that by (auto simp: reservation_flags_def holds_def)
  qed
  have up: "holds ?r" if "ti_vmID t \<in> up"
  proof -
    have "holds r" "vm_observed v \<noteq> Provisioning" using ok that by (auto simp: host_row_def)
    then show ?thesis using move_guardD(3) [OF g _ that] e(2) keep by (cases "ti_releaseCompute t \<or> ti_releaseAll t") auto
  qed
  have rel: "ti_to t \<in> {Failed, Deleting, Deleted}" if "rv_released ?r"
  proof (cases "rv_released r")
    case True
    then show ?thesis using ok(1) live_edge(3) [OF e(1)] by (auto simp: host_row_def)
  next
    case False
    then show ?thesis using that move_guardD(4) [OF g] by (auto simp: reservation_flags_def split: if_splits)
  qed
  show ?thesis using v take up rel live_edge(1) [OF e(1)] move_guardD(5,6) [OF g] by (auto simp: host_row_def)
qed

lemma move_good:
  assumes "good_db e up left db" and g: "move_guard e up left db t" and r: "TransitionVM (e_digest e) now t db = (db', r)"
  shows "good_db e up left db' \<and> (case r of Inl _ \<Rightarrow> db' = db
    | Inr v \<Rightarrow> find_vm db' (ti_vmID t) = Some v \<and> vm_id v = ti_vmID t \<and> vm_observed v = ti_to t
        \<and> (ti_to t = Starting \<longrightarrow> ti_vmID t \<notin> up)
        \<and> (\<exists>v0. find_vm db (ti_vmID t) = Some v0 \<and> (ti_from t = None \<or> ti_from t = Some (vm_observed v0))))"
proof (cases "find_vm db (ti_vmID t)")
  case None
  then show ?thesis using TransitionVM_refused(1) [OF None] r assms(1) by auto
next
  case (Some v)
  note good = assms(1) [unfolded good_db_def]
  show ?thesis
  proof (cases "transition_check t db v")
    case None
    have inv: "store_inv (e_digest e) (db_ev db)" using good by (simp add: db_inv_def)
    note eq = TransitionVM_moved [OF inv Some None, of now]
    have v: "vm_id v = ti_vmID t" "v \<in> set (db_vms db)" using Some find_key_Some [of vm_id] by (auto simp: find_vm_def)
    have uniq: "x = v" if "x \<in> set (db_vms db)" "vm_id x = ti_vmID t" for x
      using in_rows_find [OF _ that(1)] that(2) Some good by auto
    have "policy_call (e_policy e) (e_digest e) db (fst (TransitionVM (e_digest e) now t db))"
      by (rule p_transition) (use g in \<open>simp add: move_guard_def\<close>)
    from pc.step_ok [OF _ this] have b: "db_inv (e_digest e) db'" "in_budget (e_policy e) (db_res db')"
      using good r by simp_all
    have "list_all2 (host_row up left) (db_vms db') (db_res db')"
      using good None g r v unfolding eq
      by (auto simp: host_ok_def db_inv_def vm_inv_def intro!: list_all2_update moved_host_row dest!: uniq)
    moreover have "vm_id ` set (db_vms db') = vm_id ` set (db_vms db)"
    proof -
      have "map vm_id (db_vms db') = map vm_id (db_vms db)"
        using r unfolding eq by (auto simp: moved_vm_def)
      then show ?thesis by (metis list.set_map)
    qed
    moreover have "find_vm db' (ti_vmID t) = Some ((moved_vm now t v)\<lparr>vm_lastEvent := es_nextId (db_ev db)\<rparr>)"
      using r Some unfolding eq find_vm_def by (auto simp: find_map_update moved_vm_def)
    moreover have "ti_from t = None \<or> ti_from t = Some (vm_observed v)"
      using None by (auto simp: transition_check_def split: if_splits)
    moreover have "ti_vmID t \<notin> up" if "ti_to t = Starting"
      using host_ok_find [OF _ _ Some] good live_edge(4) [OF _ that, of "vm_observed v"] None v
      by (auto simp: transition_check_def host_row_def split: if_splits)
    ultimately show ?thesis
      using b good r Some v unfolding eq by (auto simp: good_db_def host_ok_def moved_vm_def)
  next
    case (Some x)
    then show ?thesis using TransitionVM_refused(2) [OF \<open>find_vm db (ti_vmID t) = Some v\<close>] r assms(1) by auto
  qed
qed

lemma release_good:
  assumes "good_db e up left db" "i \<notin> up"
  shows "good_db e up left (ReleaseVMReservations now i db)"
proof (cases "\<exists>v \<in> set (db_vms db). vm_id v = i \<and> vm_observed v = Failed")
  case True
  then obtain v where v: "v \<in> set (db_vms db)" "vm_id v = i" "vm_observed v = Failed" by blast
  let ?g = "\<lambda>r. r\<lparr>rv_released := True, rv_computeReleased := True, rv_updatedAt := now\<rparr>"
  note good = assms(1) [unfolded good_db_def]
  have eq: "ReleaseVMReservations now i db = set_res i ?g db" using True by (simp add: ReleaseVMReservations_def)
  have uniq: "x = v" if "x \<in> set (db_vms db)" "vm_id x = i" for x
    using in_rows_find [OF _ that(1)] in_rows_find [OF _ v(1)] that(2) v(2) good by auto
  have "policy_call (e_policy e) (e_digest e) db (ReleaseVMReservations now i db)" by (intro p_plain c_release)
  from pc.step_ok [OF _ this] have b: "db_inv (e_digest e) (set_res i ?g db)" "in_budget (e_policy e) (db_res (set_res i ?g db))"
    using good eq by simp_all
  have "list_all2 (host_row up left) (map (\<lambda>v. if vm_id v = i then v else v) (db_vms db)) (map (\<lambda>r. if rv_vmID r = i then ?g r else r) (db_res db))"
  proof (rule list_all2_update)
    show "host_row up left x (?g r)" if "x \<in> set (db_vms db)" "vm_id x = i" "host_row up left x r" for x r
      using that(3) assms(2) v(2,3) uniq [OF that(1,2)] by (auto simp: host_row_def live_state_def)
  qed (use good in \<open>simp_all add: host_ok_def db_inv_def vm_inv_def\<close>)
  then have "host_ok up left (set_res i ?g db)" using good by (simp add: host_ok_def set_res_def)
  then show ?thesis using b by (simp add: eq good_db_def)
next
  case False
  then have "ReleaseVMReservations now i db = db" unfolding ReleaseVMReservations_def by (simp only: if_False)
  then show ?thesis using assms(1) by simp
qed

section \<open>New rows\<close>

definition added :: "vmdb \<Rightarrow> vmdb \<Rightarrow> bool" where
  "added db db' \<longleftrightarrow> rows db' = rows db \<and> db_res db' = db_res db
     \<or> (\<exists>v r. rows db' = rows db @ [v] \<and> db_res db' = db_res db @ [r] \<and> vm_observed v = Provisioning
          \<and> vm_id v \<notin> vm_id ` set (rows db) \<and> holds r)"

lemma host_ok_added:
  assumes "added db db'" "host_ok up left db"
  shows "host_ok up left db'"
proof -
  consider "rows db' = rows db \<and> db_res db' = db_res db"
    | v r where "rows db' = rows db @ [v]" "db_res db' = db_res db @ [r]" "vm_observed v = Provisioning"
      "vm_id v \<notin> vm_id ` set (rows db)" "holds r"
    using assms(1) unfolding added_def by blast
  then show ?thesis
  proof cases
    case 1
    then show ?thesis using assms(2) by (simp add: host_ok_rows)
  next
    case 2
    have "vm_id v \<notin> up" "vm_id v \<notin> left" using 2(4) assms(2) by (auto simp: host_ok_rows)
    then have "host_row up left v r" using 2(3,5) by (simp add: host_row_def holds_def)
    then show ?thesis using assms(2) 2(1,2) by (auto simp: host_ok_rows intro: list_all2_appendI)
  qed
qed

lemma host_ok_all_added: "added\<^sup>*\<^sup>* db db' \<Longrightarrow> host_ok up left db \<Longrightarrow> host_ok up left db'"
  by (induction rule: rtranclp_induct) (auto intro: host_ok_added)

lemma added_same: "rows db' = rows db \<Longrightarrow> db_res db' = db_res db \<Longrightarrow> added db db'"
  by (simp add: added_def)

lemma emit_eqD: "emit digest now kind data db = (db1, x) \<Longrightarrow> \<exists>s. db1 = db\<lparr>db_ev := s\<rparr>"
  using emit_shape [of digest now kind data db] by auto

lemma emit_rows_eq: "emit digest now kind data db = (db1, x) \<Longrightarrow> rows db1 = rows db"
  using rows_emit(2) [of digest now kind data db] by simp

lemma attach_run_rows: "attach_run digest now runID owner m db = (db1, x) \<Longrightarrow> rows db1 = rows db \<and> db_res db1 = db_res db"
proof -
  have "rows (fst (createRunInTx digest now runID i db)) = rows db" for i
    unfolding createRunInTx_def by (intro rows_rules) simp_all
  then have "rows (fst (attach_run digest now runID owner m db)) = rows db" by (simp add: attach_run_def split: option.splits)
  then show "attach_run digest now runID owner m db = (db1, x) \<Longrightarrow> rows db1 = rows db \<and> db_res db1 = db_res db"
    using attach_run_res [of digest now runID owner m db] by auto
qed

lemma insert_admitted_added:
  assumes "insert_admitted digest now runID owner kind key hash m db = (db1, Inr opID)"
  shows "added db db1"
proof -
  obtain d1 d2 u where d: "insert_rows digest now owner kind key hash m db = (d1, Inr opID)"
    "rows d2 = rows d1" "db_res d2 = db_res d1" "attach_run digest now runID owner m d2 = (db1, Inr u)"
    using assms emit_res_eq emit_rows_eq unfolding insert_admitted_def by (auto elim!: bind_cases) metis
  have "added db d1"
    using d(1) unfolding insert_rows_def
    by (auto elim!: bind_cases dest!: emit_eqD simp: insert_vm_def insert_op_def insert_res_def added_def rows_def holds_def
        touch_vm_def set_vm_def image_image split: if_splits)
  then show ?thesis using d(2,3) attach_run_rows [OF d(4)] by (simp add: added_def)
qed

lemma create_good:
  assumes "good_db e up left db"
    and adm: "ci_admit i = (\<lambda>t. Admit (e_policy e) t (mi_memoryTotal i) (mi_vcpu i) (mi_rootDisk i + mi_workspaceDisk i))"
    and pos: "0 \<le> mi_memoryTotal i" "0 \<le> mi_vcpu i"
  shows "good_db e up left (fst (CreateVMWithOperation (e_digest e) now runID i db))"
proof -
  let ?d = "fst (CreateVMWithOperation (e_digest e) now runID i db)"
  have fresh: "added db db1" if c: "create_fresh (e_digest e) now runID i db = (db1, Inr x)" for db1 x
  proof (cases "ci_admit i (reservationTotalsInTx db)")
    case Admitted
    then show ?thesis using c insert_admitted_added by (fastforce simp: create_fresh_def elim!: bind_cases)
  next
    case (Refuse w s)
    then show ?thesis
      using c by (auto simp: create_fresh_def insert_op_def rows_def elim!: bind_cases dest!: emit_eqD intro!: added_same split: if_splits)
  qed (use c in \<open>simp add: create_fresh_def\<close>)
  have "added db ?d"
    using fresh unfolding CreateVMWithOperation_def
    by (auto simp: in_tx_def roll_back_def rows_def intro!: added_same split: sum.splits option.splits prod.splits)
  moreover have "policy_call (e_policy e) (e_digest e) db ?d" using adm pos by (intro p_create)
  ultimately show ?thesis
    using assms(1) pc.step_ok host_ok_added unfolding good_db_def by blast
qed

lemma insertOneMember_added:
  assumes "insertOneMember digest now b pos owner m db = (db1, Inr x)"
  shows "added db db1"
proof -
  obtain d opID where "insert_admitted digest now (fst m) owner ''vm.create'' None [] (snd m) db = (d, Inr opID)"
    "rows db1 = rows d" "db_res db1 = db_res d"
    using assms unfolding insertOneMember_def by (auto simp: case_prod_beta Let_def add_member_def rows_def elim!: bind_cases)
  with insert_admitted_added [of digest now "fst m" owner "''vm.create''" None "[]" "snd m" db d opID] show ?thesis by (simp add: added_def)
qed

lemma insertAdmittedMembers_added:
  "insertAdmittedMembers digest now b pos owner ms db = (db1, Inr xs) \<Longrightarrow> added\<^sup>*\<^sup>* db db1"
proof (induction ms arbitrary: pos db xs)
  case (Cons m ms)
  then obtain d x ys where "insertOneMember digest now b pos owner m db = (d, Inr x)"
    "insertAdmittedMembers digest now b (Suc pos) owner ms d = (db1, Inr ys)" by (auto elim!: bind_cases)
  with Cons.IH insertOneMember_added show ?case by (metis converse_rtranclp_into_rtranclp)
qed simp

lemma best_effort_added:
  "best_effort_loop digest now b i pos a l ms db = (db1, Inr x) \<Longrightarrow> added\<^sup>*\<^sup>* db db1"
proof (induction ms arbitrary: pos a l db x)
  case (Cons m ms)
  show ?case
  proof (cases "bi_admitMember i (reservationTotalsInTx db) (mi_memoryTotal (snd m)) (mi_vcpu (snd m))
             (mi_rootDisk (snd m) + mi_workspaceDisk (snd m))")
    case Admitted
    then obtain d y z where "insertOneMember digest now b pos (bi_owner i) m db = (d, Inr y)"
      "best_effort_loop digest now b i (Suc pos) True l ms d = (db1, Inr z)"
      using Cons.prems(1) by (auto elim!: bind_cases)
    with Cons.IH insertOneMember_added show ?thesis by (metis converse_rtranclp_into_rtranclp)
  next
    case (Refuse c w)
    let ?d = "add_member (refused_row b pos (mi_name (snd m)) (c, w)) db"
    obtain z where "best_effort_loop digest now b i (Suc pos) a (Some (c, w)) ms ?d = (db1, Inr z)"
      using Cons.prems(1) Refuse by (auto elim!: bind_cases)
    moreover have "added db ?d" by (rule added_same) (simp_all add: add_member_def rows_def)
    ultimately show ?thesis using Cons.IH by (metis converse_rtranclp_into_rtranclp)
  qed (use Cons.prems in simp)
qed simp

lemma refuse_members_added: "rows (fst (refuse_members b pos r ms d)) = rows d \<and> db_res (fst (refuse_members b pos r ms d)) = db_res d"
  by (induction ms arbitrary: pos d) (simp_all add: Let_def case_prod_beta add_member_def rows_def)

lemma mode_added:
  assumes "(case bi_mode i of AtomicReservation \<Rightarrow> processAtomicBatch digest now bid i | BestEffort \<Rightarrow> processBestEffortBatch digest now bid i
        | OtherMode _ \<Rightarrow> (\<lambda>db. (db, Inl UnknownMode))) d0 = (d1, Inr x)"
  shows "added\<^sup>*\<^sup>* d0 d1"
proof (cases "bi_mode i")
  case AtomicReservation
  show ?thesis
  proof (cases "bi_admitBatch i (reservationTotalsInTx d0)")
    case Admitted
    then show ?thesis
      using assms AtomicReservation insertAdmittedMembers_added by (fastforce simp: processAtomicBatch_def elim!: bind_cases)
  next
    case (Refuse c w)
    then have "d1 = fst (refuse_members bid 0 (c, w) (bi_members i) d0)"
      using assms AtomicReservation by (auto simp: processAtomicBatch_def case_prod_beta)
    then show ?thesis using refuse_members_added by (metis added_same r_into_rtranclp)
  qed (use assms AtomicReservation in \<open>simp add: processAtomicBatch_def\<close>)
next
  case BestEffort
  then show ?thesis using assms best_effort_added by (fastforce simp: processBestEffortBatch_def elim!: bind_cases)
qed (use assms in simp)

lemma batch_good:
  assumes "good_db e up left db" "batch_policy (e_policy e) i"
  shows "good_db e up left (fst (CreateVMBatch (e_digest e) now i db))"
proof -
  let ?d = "fst (CreateVMBatch (e_digest e) now i db)"
  have fresh: "added\<^sup>*\<^sup>* db db1" if f: "batch_fresh (e_digest e) now i db = (db1, Inr r)" for db1 r
  proof -
    obtain d0 d1 bid x where d: "insert_batch now i db = (d0, Inr bid)"
      "(case bi_mode i of AtomicReservation \<Rightarrow> processAtomicBatch (e_digest e) now bid i | BestEffort \<Rightarrow> processBestEffortBatch (e_digest e) now bid i
        | OtherMode _ \<Rightarrow> (\<lambda>db. (db, Inl UnknownMode))) d0 = (d1, Inr x)" "rows db1 = rows d1" "db_res db1 = db_res d1"
      using f unfolding batch_fresh_def
      by (auto elim!: bind_cases dest!: emit_eqD simp: insert_op_def set_batch_op_def rows_def split: if_splits)
    have "added db d0" using d(1) by (auto simp: insert_batch_def rows_def intro!: added_same split: if_splits)
    moreover have "added d1 db1" using d(3,4) by (rule added_same)
    ultimately show ?thesis using mode_added [OF d(2)] by (meson converse_rtranclp_into_rtranclp rtranclp.rtrancl_into_rtrancl)
  qed
  have "added db db" by (simp add: added_same)
  then have "added\<^sup>*\<^sup>* db ?d"
    using fresh unfolding CreateVMBatch_def
    by (auto simp: in_tx_def roll_back_def rows_def intro!: added_same r_into_rtranclp [of added] split: sum.splits option.splits prod.splits)
  moreover have "policy_call (e_policy e) (e_digest e) db ?d" using assms(2) by (rule p_batch)
  ultimately show ?thesis
    using assms(1) pc.step_ok host_ok_all_added unfolding good_db_def by blast
qed

section \<open>The runtime's contract\<close>

text \<open>
  The contract holds of hosts whose own records are sound, which every verb keeps; a launch is only made
  for a VM that is not up.
\<close>

locale runtime_contract =
  fixes e :: "'h menv" and alive :: "'h \<Rightarrow> string set" and kept :: "'h \<Rightarrow> string set" and sound :: "'h \<Rightarrow> bool"
  assumes launch_host: "sound h \<Longrightarrow> sp_vmID s \<notin> alive h \<Longrightarrow> sound (snd (rt_Launch (e_rt e) s h))
        \<and> alive (snd (rt_Launch (e_rt e) s h)) \<subseteq> insert (sp_vmID s) (alive h) \<and> kept (snd (rt_Launch (e_rt e) s h)) \<subseteq> insert (sp_vmID s) (kept h)"
    and pause_host: "sound h \<Longrightarrow> sound (snd (rt_Pause (e_rt e) i h))
        \<and> alive (snd (rt_Pause (e_rt e) i h)) \<subseteq> alive h \<and> kept (snd (rt_Pause (e_rt e) i h)) \<subseteq> kept h"
    and resume_host: "sound h \<Longrightarrow> sound (snd (rt_Resume (e_rt e) i h))
        \<and> alive (snd (rt_Resume (e_rt e) i h)) \<subseteq> alive h \<and> kept (snd (rt_Resume (e_rt e) i h)) \<subseteq> kept h"
    and stop_host: "sound h \<Longrightarrow> sound (snd (rt_Stop (e_rt e) i g h))
        \<and> alive (snd (rt_Stop (e_rt e) i g h)) \<subseteq> alive h \<and> kept (snd (rt_Stop (e_rt e) i g h)) \<subseteq> kept h"
    and stop_dead: "sound h \<Longrightarrow> stop_proven (snd (fst (rt_Stop (e_rt e) i g h))) \<Longrightarrow> i \<notin> alive (snd (rt_Stop (e_rt e) i g h))"
    and force_host: "sound h \<Longrightarrow> sound (snd (rt_ForceStop (e_rt e) i h))
        \<and> alive (snd (rt_ForceStop (e_rt e) i h)) \<subseteq> alive h \<and> kept (snd (rt_ForceStop (e_rt e) i h)) \<subseteq> kept h"
    and force_dead: "sound h \<Longrightarrow> stop_proven (fst (rt_ForceStop (e_rt e) i h)) \<Longrightarrow> i \<notin> alive (snd (rt_ForceStop (e_rt e) i h))"
    and release_host: "sound h \<Longrightarrow> sound (snd (rt_Release (e_rt e) i h))
        \<and> alive (snd (rt_Release (e_rt e) i h)) \<subseteq> alive h \<and> kept (snd (rt_Release (e_rt e) i h)) \<subseteq> kept h"
    and release_gone: "sound h \<Longrightarrow> fst (rt_Release (e_rt e) i h) = None \<Longrightarrow> i \<notin> kept (snd (rt_Release (e_rt e) i h))"
begin

abbreviation ok :: "'h manager \<Rightarrow> bool" where
  "ok \<equiv> managed e alive kept sound"

text \<open>What a call that does not go to the host leaves: the invariant and the host as it was.\<close>

definition keeps :: "('h, 'a) prog \<Rightarrow> bool" where
  "keeps c \<longleftrightarrow> (\<forall>m. ok m \<longrightarrow> wp c (\<lambda>_ m'. ok m' \<and> mg_host m' = mg_host m) m)"

lemma keeps_wp: "keeps c \<Longrightarrow> ok m \<Longrightarrow> (\<And>r m'. ok m' \<Longrightarrow> mg_host m' = mg_host m \<Longrightarrow> Q r m') \<Longrightarrow> wp c Q m"
  unfolding keeps_def by (blast intro: wp_mono)

lemma store_wp:
  assumes "ok m" "\<And>now. good_db e (alive (mg_host m)) (kept (mg_host m)) (fst (f now (mg_db m)))"
    and Q: "\<And>r m'. ok m' \<Longrightarrow> mg_host m' = mg_host m \<Longrightarrow>
      mg_db m' = mg_db m \<and> r = Inl (StorageError ''store call failed'') \<or> (\<exists>now. f now (mg_db m) = (mg_db m', r)) \<Longrightarrow> Q r m'"
  shows "wp (on_store e f) Q m"
proof (cases "e_down e (mg_calls m)")
  case True
  then show ?thesis using assms(1) by (auto simp: wp_store Let_def intro!: Q)
next
  case False
  obtain db r where f: "f (e_clock e (mg_calls m)) (mg_db m) = (db, r)" by force
  then have "good_db e (alive (mg_host m)) (kept (mg_host m)) db" using assms(2) [of "e_clock e (mg_calls m)"] by simp
  then show ?thesis using False f assms(1) by (auto simp: wp_store Let_def managed_def intro!: Q)
qed

lemma keeps_store: "(\<And>now m. ok m \<Longrightarrow> good_db e (alive (mg_host m)) (kept (mg_host m)) (fst (f now (mg_db m)))) \<Longrightarrow> keeps (on_store e f)"
  unfolding keeps_def by (auto intro!: store_wp)

lemma read_wp:
  assumes "ok m" "\<And>r m'. ok m' \<Longrightarrow> mg_host m' = mg_host m \<Longrightarrow> mg_db m' = mg_db m \<Longrightarrow>
      r = Inl (StorageError ''store call failed'') \<or> r = f (mg_db m) \<Longrightarrow> Q r m'"
  shows "wp (read_store e f) Q m"
  unfolding read_store_def using assms by (intro store_wp) (auto simp: managed_def)

lemma get_vm_wp:
  assumes "ok m" "\<And>r m'. ok m' \<Longrightarrow> mg_host m' = mg_host m \<Longrightarrow> mg_db m' = mg_db m \<Longrightarrow>
      (\<And>v. r = Inr v \<Longrightarrow> find_vm (mg_db m) i = Some v \<and> vm_id v = i) \<Longrightarrow> Q r m'"
  shows "wp (get_vm e i) Q m"
  unfolding get_vm_def using find_key_Some [of vm_id i "db_vms (mg_db m)"]
  by (intro read_wp assms) (auto simp: GetVM_def find_vm_def split: option.splits)

lemma move_wp:
  assumes "ok m" "move_guard e (alive (mg_host m)) (kept (mg_host m)) (mg_db m) t"
    and Q: "\<And>r m'. ok m' \<Longrightarrow> mg_host m' = mg_host m \<Longrightarrow> (\<And>x. r = Inl x \<Longrightarrow> mg_db m' = mg_db m) \<Longrightarrow>
      (\<And>v. r = Inr v \<Longrightarrow> find_vm (mg_db m') (ti_vmID t) = Some v \<and> vm_id v = ti_vmID t \<and> vm_observed v = ti_to t
        \<and> (ti_to t = Starting \<longrightarrow> ti_vmID t \<notin> alive (mg_host m))
        \<and> (\<exists>v0. find_vm (mg_db m) (ti_vmID t) = Some v0 \<and> (ti_from t = None \<or> ti_from t = Some (vm_observed v0)))) \<Longrightarrow> Q r m'"
  shows "wp (move_vm e t) Q m"
proof -
  have good: "good_db e (alive (mg_host m)) (kept (mg_host m)) (mg_db m)" using assms(1) by (simp add: managed_def)
  note step = move_good [OF good assms(2)]
  show ?thesis
    unfolding move_vm_def
  proof (rule store_wp [OF assms(1)])
    show "good_db e (alive (mg_host m)) (kept (mg_host m)) (fst (TransitionVM (e_digest e) now t (mg_db m)))" for now
      using step [of now "fst (TransitionVM (e_digest e) now t (mg_db m))" "snd (TransitionVM (e_digest e) now t (mg_db m))"] by simp
    show "Q r m'" if "ok m'" "mg_host m' = mg_host m"
      "mg_db m' = mg_db m \<and> r = Inl (StorageError ''store call failed'') \<or> (\<exists>now. TransitionVM (e_digest e) now t (mg_db m) = (mg_db m', r))"
      for r m'
      using that(3) by (intro Q that(1,2)) (auto dest!: step split: sum.splits)
  qed
qed

end

end
