(* ===== verification/Manager_Safety.thy ===== *)
theory Manager_Safety
  imports Manager_Logic
begin

text \<open>
  Every operation of the manager keeps the invariant of \<open>Manager_Logic\<close>, given a runtime that keeps its
  contract: compute is handed back only for a VM whose VMM was proven gone, and a row reads \<open>deleted\<close>
  only when the host holds nothing for it.
\<close>

section \<open>What the operations rely on\<close>

text \<open>
  The stop after a run does not look at what the runtime answers, so its safety is that of the answer:
  one of its two calls proves the VMM gone.
\<close>

definition after_run_proven :: "'h menv \<Rightarrow> string \<Rightarrow> 'h \<Rightarrow> bool" where
  "after_run_proven e i h \<longleftrightarrow> stop_proven (snd (fst (rt_Stop (e_rt e) i 0 h)))
     \<or> stop_proven (fst (rt_ForceStop (e_rt e) i (snd (rt_Stop (e_rt e) i 0 h))))"

text \<open>
  What \<open>Reconcile\<close> relies on: the runtime is there to answer, and the startup scan accounted for every VM
  that is up.
\<close>

definition present :: "'h menv \<Rightarrow> bool" where
  "present e \<longleftrightarrow> (\<forall>i h. \<not> is_unavailable (fst (rt_ForceStop (e_rt e) i h)) \<and> \<not> is_unavailable (fst (rt_Release (e_rt e) i h)))"

definition scanned :: "'h menv \<Rightarrow> ('h \<Rightarrow> string set) \<Rightarrow> 'h \<Rightarrow> bool" where
  "scanned e alive h \<longleftrightarrow> alive h \<subseteq> set (e_adopted e) \<union> fst ` set (e_ambiguous e)"

section \<open>Host calls\<close>

context runtime_contract
begin

named_theorems keeping

lemma shrink_ok:
  assumes "ok m" "sound h" "alive h \<subseteq> alive (mg_host m)" "kept h \<subseteq> kept (mg_host m)"
  shows "ok (m\<lparr>mg_host := h\<rparr>)"
  using assms good_shrink by (auto simp: managed_def)

lemma ok_sound: "ok m \<Longrightarrow> sound (mg_host m)"
  by (simp add: managed_def)

lemma force_wp:
  assumes "ok m" "\<And>x m'. ok m' \<Longrightarrow> mg_db m' = mg_db m \<Longrightarrow> alive (mg_host m') \<subseteq> alive (mg_host m) \<Longrightarrow>
      kept (mg_host m') \<subseteq> kept (mg_host m) \<Longrightarrow> (stop_proven x \<Longrightarrow> i \<notin> alive (mg_host m')) \<Longrightarrow>
      (is_unavailable x \<Longrightarrow> is_unavailable (fst (rt_ForceStop (e_rt e) i (mg_host m)))) \<Longrightarrow> Q x m'"
  shows "wp (on_host (rt_ForceStop (e_rt e) i)) Q m"
  unfolding wp_host by (rule assms(2)) (use assms(1) force_host [of "mg_host m" i] force_dead [of "mg_host m" i] ok_sound [OF assms(1)] in \<open>simp_all add: shrink_ok\<close>)

lemma stop_wp:
  assumes "ok m" "\<And>x m'. ok m' \<Longrightarrow> mg_db m' = mg_db m \<Longrightarrow> alive (mg_host m') \<subseteq> alive (mg_host m) \<Longrightarrow>
      kept (mg_host m') \<subseteq> kept (mg_host m) \<Longrightarrow> (stop_proven (snd x) \<Longrightarrow> i \<notin> alive (mg_host m')) \<Longrightarrow>
      x = fst (rt_Stop (e_rt e) i g (mg_host m)) \<Longrightarrow> mg_host m' = snd (rt_Stop (e_rt e) i g (mg_host m)) \<Longrightarrow> Q x m'"
  shows "wp (on_host (rt_Stop (e_rt e) i g)) Q m"
  unfolding wp_host by (rule assms(2)) (use assms(1) stop_host [of "mg_host m" i g] stop_dead [of "mg_host m" i g] ok_sound [OF assms(1)] in \<open>simp_all add: shrink_ok\<close>)

lemma release_wp:
  assumes "ok m" "\<And>x m'. ok m' \<Longrightarrow> mg_db m' = mg_db m \<Longrightarrow> alive (mg_host m') \<subseteq> alive (mg_host m) \<Longrightarrow>
      kept (mg_host m') \<subseteq> kept (mg_host m) \<Longrightarrow> (x = None \<Longrightarrow> i \<notin> kept (mg_host m')) \<Longrightarrow>
      (is_unavailable x \<Longrightarrow> is_unavailable (fst (rt_Release (e_rt e) i (mg_host m)))) \<Longrightarrow> Q x m'"
  shows "wp (on_host (rt_Release (e_rt e) i)) Q m"
  unfolding wp_host by (rule assms(2)) (use assms(1) release_host [of "mg_host m" i] release_gone [of "mg_host m" i] ok_sound [OF assms(1)] in \<open>simp_all add: shrink_ok\<close>)

text \<open>A launch is only made for a row that reads \<open>starting\<close> and was not up when it came to read so.\<close>

lemma launch_wp:
  assumes "ok m" "find_vm (mg_db m) (sp_vmID s) = Some v" "vm_observed v = Starting" "sp_vmID s \<notin> alive (mg_host m)"
    and Q: "\<And>x m'. ok m' \<Longrightarrow> mg_db m' = mg_db m \<Longrightarrow> Q x m'"
  shows "wp (on_host (rt_Launch (e_rt e) s)) Q m"
proof -
  let ?h = "snd (rt_Launch (e_rt e) s (mg_host m))" and ?i = "sp_vmID s"
  note g = assms(1) [unfolded managed_def good_db_def]
  have h: "sound ?h" "alive ?h \<subseteq> insert ?i (alive (mg_host m))" "kept ?h \<subseteq> insert ?i (kept (mg_host m))"
    using launch_host [of "mg_host m" s] ok_sound [OF assms(1)] assms(4) by simp_all
  have v: "vm_id v = ?i" "v \<in> set (db_vms (mg_db m))" using assms(2) find_key_Some [of vm_id] by (auto simp: find_vm_def)
  have uniq: "x = v" if "x \<in> set (db_vms (mg_db m))" "vm_id x = ?i" for x
    using in_rows_find [OF _ that(1)] that(2) assms(2) g by auto
  have step: "host_row (alive ?h) (kept ?h) x r" if "x \<in> set (db_vms (mg_db m))" "host_row (alive (mg_host m)) (kept (mg_host m)) x r" for x r
  proof (cases "vm_id x = ?i")
    case True
    then have "x = v" using uniq that(1) by simp
    then show ?thesis using that(2) assms(3) by (auto simp: host_row_def live_state_def)
  next
    case False
    then show ?thesis using that(2) h(2,3) by (auto simp: host_row_def)
  qed
  have "list_all2 (host_row (alive ?h) (kept ?h)) (db_vms (mg_db m)) (db_res (mg_db m))"
    by (rule list.rel_mono_strong [of "host_row (alive (mg_host m)) (kept (mg_host m))"]) (use g step in \<open>auto simp: host_ok_def\<close>)
  moreover have "alive ?h \<union> kept ?h \<subseteq> vm_id ` set (db_vms (mg_db m))"
  proof -
    have "?i \<in> vm_id ` set (db_vms (mg_db m))" using v by force
    moreover have "alive (mg_host m) \<union> kept (mg_host m) \<subseteq> vm_id ` set (db_vms (mg_db m))" using g by (simp add: host_ok_def)
    ultimately show ?thesis using h(2,3) by blast
  qed
  ultimately have "ok (m\<lparr>mg_host := ?h\<rparr>)" using g h(1) by (simp add: managed_def good_db_def host_ok_def)
  then show ?thesis unfolding wp_host by (intro Q) simp_all
qed

section \<open>Programs that stay off the host\<close>

lemma keeps_ret [keeping]: "keeps (ret x)"
  by (simp add: keeps_def)

lemma keeps_bind [keeping]:
  assumes "keeps c" "\<And>r. keeps (k r)"
  shows "keeps (State_Monad.bind c k)"
  unfolding keeps_def by (auto intro!: keeps_wp [OF assms(1)] keeps_wp [OF assms(2)])

lemma keeps_if [keeping]: "(b \<Longrightarrow> keeps c) \<Longrightarrow> (\<not> b \<Longrightarrow> keeps d) \<Longrightarrow> keeps (if b then c else d)"
  by simp

lemma keeps_sum [keeping]: "(\<And>a. x = Inl a \<Longrightarrow> keeps (f a)) \<Longrightarrow> (\<And>b. x = Inr b \<Longrightarrow> keeps (g b)) \<Longrightarrow> keeps (case x of Inl a \<Rightarrow> f a | Inr b \<Rightarrow> g b)"
  by (cases x) simp_all

lemma keeps_option [keeping]: "keeps c \<Longrightarrow> (\<And>b. x = Some b \<Longrightarrow> keeps (g b)) \<Longrightarrow> keeps (case x of None \<Rightarrow> c | Some b \<Rightarrow> g b)"
  by (cases x) simp_all

lemma keeps_prod [keeping]: "(\<And>a b. x = (a, b) \<Longrightarrow> keeps (f a b)) \<Longrightarrow> keeps (case x of (a, b) \<Rightarrow> f a b)"
  by (cases x) simp

lemma keeps_let [keeping]: "keeps (f x) \<Longrightarrow> keeps (let y = x in f y)"
  by simp

lemma keeps_mem [keeping]: "(\<And>m. mg_db (snd (f m)) = mg_db m \<and> mg_host (snd (f m)) = mg_host m) \<Longrightarrow> keeps (on_mem f)"
  unfolding keeps_def by (simp add: managed_def case_prod_beta)

lemma keeps_canceled [keeping]: "keeps (canceled e')" "keeps (new_uuid e')"
  by (simp_all add: keeps_def)

lemma keeps_read [keeping]: "keeps (read_store e f)"
  unfolding keeps_def by (auto intro!: read_wp)

lemma keeps_get [keeping]: "keeps (get_vm e i)" "keeps (get_run e i)" "keeps (list_vms e q)"
  unfolding get_vm_def get_run_def list_vms_def by (rule keeps_read)+

lemma keeps_plain:
  assumes "\<And>now db. plain_call (e_digest e) db (fst (f now db)) \<and> rows (fst (f now db)) = rows db \<and> db_res (fst (f now db)) = db_res db"
  shows "keeps (on_store e f)"
proof (rule keeps_store)
  show "good_db e (alive (mg_host m)) (kept (mg_host m)) (fst (f now (mg_db m)))" if "ok m" for now m
    using plain_good [of e _ _ "mg_db m" "fst (f now (mg_db m))"] that assms [of "mg_db m" now] by (simp add: managed_def)
qed

lemma keeps_calls [keeping]:
  "keeps (move_run e t)" "keeps (update_op e u)" "keeps (cleanup_failure e i s r)"
  "keeps (on_store e (\<lambda>now. CreateRun (e_digest e) now runID ri))"
  "keeps (on_store e (\<lambda>now. SubmitRunProgress (e_digest e) (e_decode e) now runID payload n))"
  "keeps (on_store e (\<lambda>now. SubmitRunResult (e_digest e) (e_decode e) (e_quote e) now runID payload n))"
  "keeps (on_store e (\<lambda>now. InsertActionOperation (e_digest e) now owner vmID phase hash))"
  "keeps (on_store e (\<lambda>now. RecordReconcileAmbiguity (e_digest e) (e_redact e) now vmID state detail))"
  "keeps (on_store e (\<lambda>now db. (ClearCleanupDebt vmID db, Inr ())))"
  unfolding move_run_def update_op_def cleanup_failure_def
  by (rule keeps_plain; simp add: plain_call.intros)+

lemma keeps_gate [keeping]: "keeps beginMutation" "keeps (GoTracked t)" "keeps (claimLifecycle i)" "keeps (releaseClaim i)"
  "keeps (claimCleanup i)" "keeps (beginDelete i)" "keeps (endDelete i)" "keeps BeginClose"
  "keeps (coord_get c)" "keeps (coord_set c f)" "keeps (newBatchCoord o' p ms)"
  unfolding beginMutation_def GoTracked_def claimLifecycle_def releaseClaim_def claimCleanup_def beginDelete_def endDelete_def
    BeginClose_def coord_get_def coord_set_def newBatchCoord_def
  by (rule keeps_mem; simp)+

section \<open>The run engine\<close>

lemma keeps_conclude_parts [keeping]:
  "keeps (postConclude e r)" "keeps (run_now e runID)" "keeps (finish_run e what runID outcome)"
  "keeps rest \<Longrightarrow> keeps (begin_conclude e what runID run reason rest)"
  unfolding postConclude_def run_now_def finish_run_def begin_conclude_def by (intro keeping; simp)+

lemma keeps_conclude [keeping]:
  "keeps (concludeRun e runID trigger)" "keeps (concludeRunAbort e runID reason)" "keeps (concludeRunWithVerdict e runID v reason)"
  unfolding concludeRun_def concludeRunAbort_def concludeRunWithVerdict_def by (intro keeping)+

lemma keeps_run_calls [keeping]:
  "keeps (ConcludeRun e runID verdict abort reason)" "keeps (Manager_CreateRun e q)"
  "keeps (Manager_SubmitRunProgress e runID payload)" "keeps (Manager_SubmitRunResult e runID payload)"
  "keeps (EnqueueReport e runID)"
  unfolding ConcludeRun_def Manager_CreateRun_def Manager_SubmitRunProgress_def Manager_SubmitRunResult_def EnqueueReport_def
  by (intro keeping; simp)+

lemma keeps_hooks [keeping]: "keeps (onVMRunning e i)" "keeps (onVMTerminal e i)" "keeps (onVMLaunchFailed e i)"
  unfolding onVMRunning_def onVMTerminal_def onVMLaunchFailed_def conclude_active_def active_run_def by (intro keeping)+

section \<open>Launching\<close>

text \<open>The guards of the transitions the manager makes.\<close>

lemma guard_plain [simp]:
  "\<not> ti_acquireCompute t \<Longrightarrow> \<not> ti_releaseCompute t \<Longrightarrow> \<not> ti_releaseAll t \<Longrightarrow> ti_to t \<notin> {Starting, Stopped, Deleted} \<Longrightarrow>
   move_guard e up left db t"
  by (simp add: move_guard_def)

lemma guard_release:
  "\<not> ti_acquireCompute t \<Longrightarrow> \<not> ti_releaseAll t \<Longrightarrow> ti_to t \<in> {Stopped, Failed} \<Longrightarrow>
   (ti_releaseCompute t \<Longrightarrow> ti_vmID t \<notin> up \<or> ti_from t = Some Provisioning) \<Longrightarrow>
   (ti_to t = Stopped \<Longrightarrow> ti_vmID t \<notin> up) \<Longrightarrow> move_guard e up left db t"
  by (auto simp: move_guard_def live_state_def)

lemma guard_deleted:
  "\<not> ti_acquireCompute t \<Longrightarrow> \<not> ti_releaseCompute t \<Longrightarrow> ti_to t = Deleted \<Longrightarrow> ti_vmID t \<notin> up \<Longrightarrow> ti_vmID t \<notin> left \<Longrightarrow> move_guard e up left db t"
  by (auto simp: move_guard_def live_state_def)

lemma transition0_simps [simp]:
  "ti_vmID (transition0 i to r) = i" "ti_to (transition0 i to r) = to" "ti_from (transition0 i to r) = None"
  "ti_acquireCompute (transition0 i to r) = False" "ti_releaseCompute (transition0 i to r) = False"
  "ti_releaseAll (transition0 i to r) = False"
  by (simp_all add: transition0_def)

lemma keeps_move [keeping]:
  "\<not> ti_acquireCompute t \<Longrightarrow> \<not> ti_releaseCompute t \<Longrightarrow> \<not> ti_releaseAll t \<Longrightarrow> ti_to t \<notin> {Starting, Stopped, Deleted} \<Longrightarrow>
   keeps (move_vm e t)"
  unfolding keeps_def by (auto intro!: move_wp)

text \<open>A program that goes to the host but keeps the invariant.\<close>

definition safe :: "('h, 'a) prog \<Rightarrow> bool" where
  "safe c \<longleftrightarrow> (\<forall>m. ok m \<longrightarrow> wp c (\<lambda>_. ok) m)"

lemma safe_wp: "safe c \<Longrightarrow> ok m \<Longrightarrow> (\<And>r m'. ok m' \<Longrightarrow> Q r m') \<Longrightarrow> wp c Q m"
  unfolding safe_def by (blast intro: wp_mono)

lemma safe_keeps: "keeps c \<Longrightarrow> safe c"
  unfolding safe_def by (auto intro: keeps_wp)

named_theorems saving

lemma safe_bind [saving]:
  assumes "safe c" "\<And>r. safe (k r)"
  shows "safe (State_Monad.bind c k)"
  unfolding safe_def wp_bind by (intro allI impI safe_wp [OF assms(1)] safe_wp [OF assms(2)])

lemma safe_if [saving]: "(b \<Longrightarrow> safe c) \<Longrightarrow> (\<not> b \<Longrightarrow> safe d) \<Longrightarrow> safe (if b then c else d)"
  by simp

lemma safe_sum [saving]: "(\<And>a. x = Inl a \<Longrightarrow> safe (f a)) \<Longrightarrow> (\<And>b. x = Inr b \<Longrightarrow> safe (g b)) \<Longrightarrow> safe (case x of Inl a \<Rightarrow> f a | Inr b \<Rightarrow> g b)"
  by (cases x) simp_all

lemma safe_option [saving]: "safe c \<Longrightarrow> (\<And>b. x = Some b \<Longrightarrow> safe (g b)) \<Longrightarrow> safe (case x of None \<Rightarrow> c | Some b \<Rightarrow> g b)"
  by (cases x) simp_all

lemma safe_prod [saving]: "(\<And>a b. x = (a, b) \<Longrightarrow> safe (f a b)) \<Longrightarrow> safe (case x of (a, b) \<Rightarrow> f a b)"
  by (cases x) simp

lemma safe_force [saving]: "safe (on_host (rt_ForceStop (e_rt e) i))"
  unfolding safe_def by (auto intro!: force_wp)

lemmas off_host_wp = keeps_hooks [THEN keeps_wp] keeps_calls [THEN keeps_wp] keeps_gate [THEN keeps_wp]
  keeps_conclude [THEN keeps_wp] keeps_get [THEN keeps_wp] keeps_read [THEN keeps_wp]

text \<open>When only the invariant matters after a transition.\<close>

lemma settle_wp:
  assumes "ok m" "move_guard e (alive (mg_host m)) (kept (mg_host m)) (mg_db m) t"
    "\<And>r m'. ok m' \<Longrightarrow> mg_host m' = mg_host m \<Longrightarrow> Q r m'"
  shows "wp (move_vm e t) Q m"
  using assms by (intro move_wp)

lemma move_cases_wp:
  assumes "ok m" "move_guard e (alive (mg_host m)) (kept (mg_host m)) (mg_db m) t"
    and L: "\<And>x m'. ok m' \<Longrightarrow> mg_host m' = mg_host m \<Longrightarrow> mg_db m' = mg_db m \<Longrightarrow> Q (Inl x) m'"
    and R: "\<And>v m'. ok m' \<Longrightarrow> mg_host m' = mg_host m \<Longrightarrow> find_vm (mg_db m') (ti_vmID t) = Some v \<Longrightarrow> vm_id v = ti_vmID t \<Longrightarrow>
      vm_observed v = ti_to t \<Longrightarrow> (ti_to t = Starting \<Longrightarrow> ti_vmID t \<notin> alive (mg_host m')) \<Longrightarrow> Q (Inr v) m'"
  shows "wp (move_vm e t) Q m"
proof (rule move_wp [OF assms(1,2)])
  show "Q r m'" if "ok m'" "mg_host m' = mg_host m" "\<And>x. r = Inl x \<Longrightarrow> mg_db m' = mg_db m"
    "\<And>v. r = Inr v \<Longrightarrow> find_vm (mg_db m') (ti_vmID t) = Some v \<and> vm_id v = ti_vmID t \<and> vm_observed v = ti_to t
        \<and> (ti_to t = Starting \<longrightarrow> ti_vmID t \<notin> alive (mg_host m))
        \<and> (\<exists>v0. find_vm (mg_db m) (ti_vmID t) = Some v0 \<and> (ti_from t = None \<or> ti_from t = Some (vm_observed v0)))" for r m'
    using that L R by (cases r) simp_all
qed

lemma get_vm_cases_wp:
  assumes "ok m" and L: "\<And>x m'. ok m' \<Longrightarrow> mg_host m' = mg_host m \<Longrightarrow> mg_db m' = mg_db m \<Longrightarrow> Q (Inl x) m'"
    and R: "\<And>v m'. ok m' \<Longrightarrow> mg_host m' = mg_host m \<Longrightarrow> mg_db m' = mg_db m \<Longrightarrow> find_vm (mg_db m) i = Some v \<Longrightarrow> vm_id v = i \<Longrightarrow> Q (Inr v) m'"
  shows "wp (get_vm e i) Q m"
proof (rule get_vm_wp [OF assms(1)])
  show "Q r m'" if "ok m'" "mg_host m' = mg_host m" "mg_db m' = mg_db m" "\<And>v. r = Inr v \<Longrightarrow> find_vm (mg_db m) i = Some v \<and> vm_id v = i" for r m'
    using that L R by (cases r) simp_all
qed

definition launch_stage :: "string \<Rightarrow> bool" where
  "launch_stage s \<longleftrightarrow> s \<in> {''enqueue'', ''starting'', ''launch'', ''launch_pending'', ''running''}"

lemma launch_stages [simp]:
  "launch_stage ''enqueue''" "launch_stage ''starting''" "launch_stage ''running''" "launch_stage (launchFailureStage x)"
  by (simp_all add: launch_stage_def launchFailureStage_def split: rt_err.splits)

lemma safe_failLaunch [saving]:
  assumes "launch_stage stage"
  shows "safe (failLaunch e i opID stage reason)"
proof -
  have tail: "wp (move_vm e t) (\<lambda>_. wp (onVMLaunchFailed e i) (\<lambda>_. wp (update_op e u) (\<lambda>_. ok))) m"
    if "ok m" "move_guard e (alive (mg_host m)) (kept (mg_host m)) (mg_db m) t" for m t u
    using that by (intro settle_wp off_host_wp)
  show ?thesis
    unfolding safe_def
  proof (intro allI impI)
    fix m
    assume m: "ok m"
    show "wp (failLaunch e i opID stage reason) (\<lambda>_. ok) m"
    proof (cases "stage = ''launch'' \<or> stage = ''running''")
      case True
      then show ?thesis
        unfolding failLaunch_def by (simp only: wp_bind if_True wp_return prod.case) (intro force_wp [OF m] tail guard_release; simp)
    next
      case False
      then have "stage \<noteq> ''launch_pending'' \<longrightarrow> stage = ''enqueue'' \<or> stage = ''starting''" using assms by (auto simp: launch_stage_def)
      with False show ?thesis
        unfolding failLaunch_def by (simp only: wp_bind if_False wp_return prod.case) (intro tail m guard_release; simp)
    qed
  qed
qed

text \<open>A launch: the VMM is only started behind a row that has just become \<open>starting\<close>.\<close>

lemma safe_launch_finish [saving]: "safe (launch_finish e l staged)"
  unfolding launch_finish_def
  by (intro saving safe_keeps [OF keeps_move] safe_keeps [OF keeps_hooks(1)] safe_keeps [OF keeps_calls(2)] safe_keeps [OF keeps_ret]; simp)

lemma safe_launch [saving]: "safe (launch_steps e l)"
proof -
  let ?Q = "\<lambda>r m'. ok m' \<and> (r = Some True \<longrightarrow> (\<exists>v. find_vm (mg_db m') (vm_id (lm_vm l)) = Some v \<and> vm_observed v = Starting \<and> vm_id (lm_vm l) \<notin> alive (mg_host m')))"
  have begin': "wp (launch_begin e l b) ?Q m" if "ok m" for m b
    unfolding launch_begin_def wp_bind
    by (rule move_cases_wp [OF that]) (auto simp: move_guard_def intro: safe_wp [OF safe_failLaunch])
  have cont: "safe (launch_outcome e l r)" for r
    unfolding launch_outcome_def by (intro saving safe_keeps [OF keeps_ret]; simp)
  have go: "wp (on_host (rt_Launch (e_rt e) (launch_spec l b))) (\<lambda>r. wp (launch_outcome e l r) (\<lambda>_. ok)) m"
    if "ok m" "find_vm (mg_db m) (vm_id (lm_vm l)) = Some v" "vm_observed v = Starting" "vm_id (lm_vm l) \<notin> alive (mg_host m)" for m b v
    by (rule launch_wp [of _ _ v]) (use that safe_wp [OF cont] in \<open>simp_all add: launch_spec_def\<close>)
  show ?thesis
    unfolding safe_def launch_steps_def wp_bind wp_new_uuid wp_if
    by (intro allI impI wp_mono [OF begin']) (use go in \<open>auto simp del: wp_bind\<close>)
qed

lemmas off_host_safe [saving] = keeps_ret [THEN safe_keeps] keeps_hooks [THEN safe_keeps] keeps_calls [THEN safe_keeps]
  keeps_gate [THEN safe_keeps] keeps_conclude [THEN safe_keeps] keeps_get [THEN safe_keeps] keeps_read [THEN safe_keeps]
  keeps_canceled [THEN safe_keeps] keeps_mem [THEN safe_keeps] keeps_move [THEN safe_keeps]

lemma safe_enqueue [saving]: "safe (enqueueLaunch e l)" "safe (launch_task e l)"
  unfolding enqueueLaunch_def launch_task_def runLaunch_def by (intro saving; simp)+

text \<open>What \<open>resolveMember\<close> lets through asks for a positive amount.\<close>

lemma resolveMember_positive:
  assumes "resolveMember e vmID q = Inr i" "0 \<le> ad_reservePerVMOverhead (pl_admission (e_policy e))"
  shows "0 \<le> mi_memoryTotal i \<and> 0 \<le> mi_vcpu i"
  using assms by (auto simp: resolveMember_def Let_def split: sum.splits if_splits)

lemma safe_availability [saving]: "safe (on_host (\<lambda>h. (rt_Availability (e_rt e) h, h)))"
  unfolding safe_def wp_host by simp

lemma safe_create_call:
  assumes "resolveMember e vmID q = Inr i" "0 \<le> ad_reservePerVMOverhead (pl_admission (e_policy e))"
  shows "safe (on_store e (\<lambda>now. CreateVMWithOperation (e_digest e) now runID (create_input e owner key q i)))"
proof (intro safe_keeps keeps_store)
  show "good_db e (alive (mg_host m)) (kept (mg_host m))
      (fst (CreateVMWithOperation (e_digest e) now runID (create_input e owner key q i) (mg_db m)))" if "ok m" for now m
    using create_good [of e _ _ "mg_db m" "create_input e owner key q i" now runID] that resolveMember_positive [OF assms]
    by (simp add: managed_def create_input_def)
qed

lemma safe_launch_created [saving]: "safe (launch_created e tpl i x)"
  unfolding launch_created_def by (cases x) (auto intro!: saving)

lemma safe_CreateVM:
  assumes "0 \<le> ad_reservePerVMOverhead (pl_admission (e_policy e))"
  shows "safe (Manager_CreateVM e owner key q)"
  unfolding Manager_CreateVM_def by (intro saving safe_create_call [OF _ assms]; simp)

section \<open>Actions\<close>

lemma keeps_action_ends [keeping]: "keeps (failAction e i opID a cause)" "keeps (succeedAction e opID phase v)" "keeps (refuse_action e v opID a to)"
  unfolding refuse_action_def failAction_def succeedAction_def by (intro keeping; simp)+

lemmas action_ends_safe [saving] = keeps_action_ends [THEN safe_keeps]

lemma safe_start_launched [saving]: "safe (start_launched e v opID staged)"
  unfolding start_launched_def by (intro saving; simp)

lemma safe_start_move:
  assumes "ok m" "find_res (mg_db m) (vm_id v) = Some res"
  shows "wp (start_move e v opID pin b res) (\<lambda>_. ok) m"
proof -
  have cont: "safe (start_outcome e v opID upd r)" for upd r
    unfolding start_outcome_def by (intro saving; simp)
  have go: "wp (on_host (rt_Launch (e_rt e) (vm_launch_spec v b))) (\<lambda>r. wp (start_outcome e v opID upd r) (\<lambda>_. ok)) m"
    if "ok m" "find_vm (mg_db m) (vm_id v) = Some w" "vm_observed w = Starting" "vm_id v \<notin> alive (mg_host m)" for m w upd
    by (rule launch_wp [of _ _ w]) (use that safe_wp [OF cont] in \<open>simp_all add: vm_launch_spec_def\<close>)
  show ?thesis
    unfolding start_move_def wp_bind
    by (rule move_cases_wp [OF assms(1)])
      (use assms(2) go keeps_action_ends(1) in \<open>auto simp: move_guard_def start_input_def intro: keeps_wp\<close>)
qed

lemma safe_start [saving]: "safe (start_action e v opID pin)"
proof -
  have "wp (read_store e (\<lambda>db. GetReservation db (vm_id v))) (\<lambda>r. wp (new_uuid e) (\<lambda>b. wp (case r of
      Inl x \<Rightarrow> failAction e (vm_id v) opID AStart (MStore ''read reservation: '' x)
    | Inr res \<Rightarrow> start_move e v opID pin b res) (\<lambda>_. ok))) m" if "ok m" for m
    by (rule read_wp [OF that])
      (auto simp: GetReservation_def split: sum.splits option.splits intro!: safe_start_move keeps_wp [OF keeps_action_ends(1)])
  then show ?thesis
    unfolding safe_def start_action_def wp_if wp_bind using keeps_action_ends(3) by (auto intro: keeps_wp)
qed

text \<open>Rules that walk through a program one construct at a time.\<close>

lemma keeps_then: "keeps c \<Longrightarrow> ok m \<Longrightarrow> (\<And>r m'. ok m' \<Longrightarrow> mg_host m' = mg_host m \<Longrightarrow> wp (k r) Q m') \<Longrightarrow> wp (State_Monad.bind c k) Q m"
  unfolding wp_bind by (rule keeps_wp)

lemma settle_then:
  "ok m \<Longrightarrow> move_guard e (alive (mg_host m)) (kept (mg_host m)) (mg_db m) t \<Longrightarrow> (\<And>r. safe (k r)) \<Longrightarrow>
   wp (State_Monad.bind (move_vm e t) k) (\<lambda>_. ok) m"
  unfolding wp_bind by (rule settle_wp) (auto intro: safe_wp)

lemma force_then:
  assumes "ok m" "\<And>x m'. ok m' \<Longrightarrow> mg_db m' = mg_db m \<Longrightarrow> alive (mg_host m') \<subseteq> alive (mg_host m) \<Longrightarrow> kept (mg_host m') \<subseteq> kept (mg_host m) \<Longrightarrow>
      (stop_proven x \<Longrightarrow> i \<notin> alive (mg_host m')) \<Longrightarrow>
      (is_unavailable x \<Longrightarrow> is_unavailable (fst (rt_ForceStop (e_rt e) i (mg_host m)))) \<Longrightarrow> wp (k x) Q m'"
  shows "wp (State_Monad.bind (on_host (rt_ForceStop (e_rt e) i)) k) Q m"
  unfolding wp_bind by (rule force_wp [OF assms(1)]) (rule assms(2))

lemma release_then:
  assumes "ok m" "\<And>x m'. ok m' \<Longrightarrow> mg_db m' = mg_db m \<Longrightarrow> alive (mg_host m') \<subseteq> alive (mg_host m) \<Longrightarrow> kept (mg_host m') \<subseteq> kept (mg_host m) \<Longrightarrow>
      (x = None \<Longrightarrow> i \<notin> kept (mg_host m')) \<Longrightarrow>
      (is_unavailable x \<Longrightarrow> is_unavailable (fst (rt_Release (e_rt e) i (mg_host m)))) \<Longrightarrow> wp (k x) Q m'"
  shows "wp (State_Monad.bind (on_host (rt_Release (e_rt e) i)) k) Q m"
  unfolding wp_bind by (rule release_wp [OF assms(1)]) (rule assms(2))

lemma safe_ok: "safe c \<Longrightarrow> ok m \<Longrightarrow> wp c (\<lambda>_. ok) m"
  by (simp add: safe_def)

text \<open>The tail of an action hands compute back only for a VM that is proven gone.\<close>

lemma action_tail_ok:
  assumes "ok m" "to \<in> {Stopped, Paused, Running}" "c \<longleftrightarrow> to = Stopped" "c \<Longrightarrow> vm_id v \<notin> alive (mg_host m)"
  shows "wp (action_tail e v a opID pin to reason c debt) (\<lambda>_. ok) m"
  unfolding action_tail_def
  by (rule settle_then [OF assms(1)]; (intro saving)?; use assms(2-4) in \<open>auto simp: move_guard_def live_state_def\<close>)

lemma safe_action_tail [saving]: "to \<in> {Paused, Running} \<Longrightarrow> safe (action_tail e v a opID pin to reason False debt)"
  unfolding safe_def by (auto intro!: action_tail_ok)

lemma safe_pause_verb [saving]: "safe (on_host (if b then rt_Pause (e_rt e) i else rt_Resume (e_rt e) i))"
  unfolding safe_def wp_host using pause_host [of _ i] resume_host [of _ i] ok_sound by (simp add: shrink_ok)

lemma safe_pause [saving]: "safe (pause_action e v a opID pin)"
  unfolding pause_action_def Let_def by (intro saving; simp)

lemma stop_verb_then:
  assumes "ok m" "\<And>x m'. ok m' \<Longrightarrow> (stop_proven (snd x) \<Longrightarrow> i \<notin> alive (mg_host m')) \<Longrightarrow> wp (k x) Q m'"
  shows "wp (State_Monad.bind (on_host (if b then rt_Stop (e_rt e) i g else (\<lambda>h. map_prod (Pair True) id (rt_ForceStop (e_rt e) i h)))) k) Q m"
  unfolding wp_bind wp_host
  by (rule assms(2)) (use assms(1) ok_sound [OF assms(1)] stop_host [of "mg_host m" i g] force_host [of "mg_host m" i] stop_dead [of "mg_host m" i g]
      force_dead [of "mg_host m" i] in \<open>auto simp: shrink_ok\<close>)

lemma safe_stop [saving]: "safe (stop_action e v a opID pin)"
proof -
  have k: "keeps (stop_begin e v a opID pin)" unfolding stop_begin_def by (intro keeping; simp)
  show ?thesis
    unfolding safe_def stop_action_def
    by (intro allI impI walk keeps_then [OF k] stop_verb_then safe_ok [OF action_ends_safe(1)] safe_ok [OF action_ends_safe(3)]
        action_tail_ok) auto
qed

lemma safe_Action [saving]: "safe (Manager_Action e i action pin)"
proof -
  have "safe (doAction e v a opID pin)" for v a opID
    unfolding doAction_def by (cases a) (auto intro: saving)
  then show ?thesis unfolding Manager_Action_def by (intro saving)
qed

section \<open>Delete\<close>

lemma keeps_delete_stopping: "keeps (delete_stopping e v pin)"
  unfolding delete_stopping_def by (intro keeping; simp)

lemma delete_force_then:
  assumes "ok m" "\<And>x m'. ok m' \<Longrightarrow> (x = None \<Longrightarrow> vm_id v \<notin> alive (mg_host m')) \<Longrightarrow> wp (k x) Q m'"
  shows "wp (State_Monad.bind (delete_force e v) k) Q m"
  unfolding wp_bind delete_force_def
  by (rule force_wp [OF assms(1)])
    (auto simp: stop_proven_def split: option.splits intro!: assms(2) keeps_wp [OF keeps_calls(3)])

lemma delete_release_ok:
  assumes "ok m" "i \<notin> alive (mg_host m)"
  shows "wp (delete_release e i) (\<lambda>_. ok) m"
  unfolding delete_release_def
  by (intro release_then [OF assms(1)] walk settle_then guard_deleted safe_ok saving)
    (use assms(2) in auto)

lemma delete_rest_ok:
  assumes "ok m" "signalled \<Longrightarrow> vm_id v0 \<notin> alive (mg_host m)"
  shows "wp (delete_rest e v0 pin signalled) (\<lambda>_. ok) m"
proof -
  let ?t = "(transition0 (vm_id v0) Deleting ''delete_requested'')\<lparr>ti_expectedRevision := pin, ti_desired := Some Deleted\<rparr>"
  have first: "wp (if vm_observed v0 = Failed \<or> vm_observed v0 = Stopped then move_vm e ?t else ret (Inr v0))
      (\<lambda>t m'. ok m' \<and> mg_host m' = mg_host m \<and> (\<forall>v. t = Inr v \<longrightarrow> vm_id v = vm_id v0)) m"
    using assms(1) by (auto intro: move_cases_wp)
  have rest: "wp (case t of Inl x \<Rightarrow> ret (None, Some (MStore [] x))
      | Inr v \<Rightarrow> do { x \<leftarrow> (if signalled then ret None else delete_force e v);
          case x of Some y \<Rightarrow> ret (Some v, Some y) | None \<Rightarrow> delete_release e (vm_id v0) }) (\<lambda>_. ok) m'"
    if m': "ok m' \<and> mg_host m' = mg_host m \<and> (\<forall>v. t = Inr v \<longrightarrow> vm_id v = vm_id v0)" for t m'
  proof (cases t)
    case (Inr v)
    show ?thesis
    proof (cases signalled)
      case True
      then show ?thesis using Inr m' assms(2) by (simp add: delete_release_ok)
    next
      case False
      have "wp (do { x \<leftarrow> delete_force e v; case x of Some y \<Rightarrow> ret (Some v, Some y) | None \<Rightarrow> delete_release e (vm_id v0) }) (\<lambda>_. ok) m'"
        by (rule delete_force_then) (use m' Inr in \<open>auto intro!: walk delete_release_ok\<close>)
      then show ?thesis using False Inr by simp
    qed
  qed (use m' in simp)
  show ?thesis unfolding delete_rest_def by (subst wp_bind) (rule wp_mono [OF first rest])
qed

lemma delete_live_wp:
  assumes "ok m"
  shows "wp (delete_live e v0 pin) (\<lambda>r m'. ok m' \<and> (\<forall>v p. r = Inr (v, p) \<longrightarrow> vm_id v \<notin> alive (mg_host m'))) m"
proof -
  have get: "wp (do { r \<leftarrow> get_vm e i; ret (case r of Inl z \<Rightarrow> Inl (None, Some (MStore [] z)) | Inr v1 \<Rightarrow> Inr (v1, p)) })
      (\<lambda>r m'. ok m' \<and> (\<forall>v p. r = Inr (v, p) \<longrightarrow> vm_id v \<notin> alive (mg_host m'))) m"
    if "ok m" "i \<notin> alive (mg_host m)" for i p m
    unfolding wp_bind by (rule get_vm_cases_wp [OF that(1)]) (use that(2) in auto)
  have stopped: "wp (do { t \<leftarrow> move_vm e ((transition0 (vm_id v) Stopped ''forced_stop_for_delete'')\<lparr>ti_expectedRevision := p,
                   ti_desired := Some Deleted, ti_releaseCompute := True\<rparr>); k t }) Q m"
    if "ok m" "vm_id v \<notin> alive (mg_host m)" "\<And>t m'. ok m' \<Longrightarrow> vm_id v \<notin> alive (mg_host m') \<Longrightarrow> wp (k t) Q m'" for v p k Q m
    unfolding wp_bind by (rule settle_wp) (use that in \<open>auto intro: guard_release\<close>)
  show ?thesis
    unfolding delete_live_def
    by (intro keeps_then [OF keeps_delete_stopping assms] walk delete_force_then stopped get) auto
qed

lemma safe_delete_body [saving]: "safe (delete_body e v force pin)"
proof -
  have "wp (do { s \<leftarrow> delete_live e v pin; case s of Inl r \<Rightarrow> ret r | Inr (v1, pin1) \<Rightarrow> delete_rest e v1 pin1 True }) (\<lambda>_. ok) m" if "ok m" for m
    unfolding wp_bind by (rule wp_mono [OF delete_live_wp [OF that]]) (auto intro!: walk delete_rest_ok)
  then show ?thesis unfolding safe_def delete_body_def by (auto intro!: wp_ifI delete_rest_ok simp del: wp_bind)
qed

lemma safe_Delete [saving]: "safe (Manager_Delete e i force pin)"
  unfolding Manager_Delete_def by (intro saving)

section \<open>Exits\<close>

text \<open>A notice of an exit is acted on for a VM whose VMM is gone.\<close>

lemma exit_settle_ok:
  assumes "ok m" "move_guard e (alive (mg_host m)) (kept (mg_host m)) (mg_db m) t"
  shows "wp (exit_settle e t) (\<lambda>_. ok) m"
  unfolding exit_settle_def by (rule settle_then [OF assms]) (intro saving)

lemma exit_body_ok:
  assumes "ok m" "vm_id v \<notin> alive (mg_host m)"
  shows "wp (exit_body e v bootID reason graceful) (\<lambda>_. ok) m"
  unfolding exit_body_def
  by (intro wp_ifI keeps_then [OF keeps_move] exit_settle_ok guard_release) (use assms in \<open>auto simp: exit_failed_def\<close>)

lemma NotifyVMMExit_ok:
  assumes "ok m" "i \<notin> alive (mg_host m)"
  shows "wp (NotifyVMMExit e i bootID reason graceful) (\<lambda>_. ok) m"
proof -
  have last: "wp (do { releaseClaim i; ret res }) (\<lambda>_. ok) m'" if "ok m'" for res m'
    using that by (intro safe_ok saving)
  have "wp (get_vm e i) (\<lambda>r. wp (case r of Inl _ \<Rightarrow> ret None | Inr v \<Rightarrow> exit_body e v bootID reason graceful)
      (\<lambda>res. wp (do { releaseClaim i; ret res }) (\<lambda>_. ok))) m'" if "ok m'" "mg_host m' = mg_host m" for m'
    by (rule get_vm_cases_wp [OF that(1)])
      (use that(2) assms(2) last in \<open>auto intro!: wp_mono [OF exit_body_ok] simp del: wp_bind\<close>)
  then show ?thesis
    unfolding NotifyVMMExit_def
    by (intro keeps_then [OF keeps_gate(1) assms(1)] walk keeps_then [OF keeps_gate(3)]) auto
qed

section \<open>The stop after a run\<close>

text \<open>The code does not look at the answers of its two stops; this is what it relies on.\<close>

lemma after_run_stop_then:
  assumes "ok m" "after_run_proven e i (mg_host m)" "\<And>m'. ok m' \<Longrightarrow> i \<notin> alive (mg_host m') \<Longrightarrow> wp k Q m'"
  shows "wp (do { (_, x) \<leftarrow> on_host (rt_Stop (e_rt e) i 0); _ \<leftarrow> (if x \<noteq> None then on_host (rt_ForceStop (e_rt e) i) else ret None); k }) Q m"
proof -
  let ?h = "snd (rt_Stop (e_rt e) i 0 (mg_host m))" and ?x = "snd (fst (rt_Stop (e_rt e) i 0 (mg_host m)))"
  have ok1: "ok (m\<lparr>mg_host := ?h\<rparr>)" using assms(1) ok_sound [OF assms(1)] stop_host [of "mg_host m" i 0] by (simp add: shrink_ok)
  have "wp k Q (m\<lparr>mg_host := ?h\<rparr>)" if "?x = None"
    using that ok_sound [OF assms(1)] stop_dead [of "mg_host m" i 0] ok1 by (intro assms(3)) (simp_all add: stop_proven_def)
  moreover have "wp k Q (m\<lparr>mg_host := snd (rt_ForceStop (e_rt e) i ?h)\<rparr>)"
  proof (rule assms(3))
    show "ok (m\<lparr>mg_host := snd (rt_ForceStop (e_rt e) i ?h)\<rparr>)"
      using shrink_ok [OF ok1, of "snd (rt_ForceStop (e_rt e) i ?h)"] force_host [of ?h i] ok_sound [OF ok1] by simp
    show "i \<notin> alive (mg_host (m\<lparr>mg_host := snd (rt_ForceStop (e_rt e) i ?h)\<rparr>))"
      using assms(1,2) stop_dead [of "mg_host m" i 0] force_dead [of ?h i] force_host [of ?h i] ok_sound [OF ok1] ok_sound [OF assms(1)]
      by (auto simp: after_run_proven_def)
  qed
  ultimately show ?thesis by (simp add: wp_host case_prod_beta)
qed

lemma stopVMAfterRun_ok:
  assumes "ok m" "after_run_proven e i (mg_host m)"
  shows "wp (stopVMAfterRun e i) (\<lambda>_. ok) m"
  unfolding stopVMAfterRun_def
  by (intro keeps_then [OF keeps_get(1) assms(1)] walk keeps_then [OF keeps_move] after_run_stop_then settle_then guard_release saving
      safe_ok [OF off_host_safe(1)]) (use assms(2) in auto)

section \<open>Batches\<close>

lemma provisioning_down:
  assumes "ok m" "find_vm (mg_db m) i = Some v" "vm_observed v = Provisioning"
  shows "i \<notin> alive (mg_host m)"
proof -
  have "vm_id v = i" using assms(2) find_key_Some [of vm_id] by (auto simp: find_vm_def)
  then show ?thesis
    using host_ok_find [of "alive (mg_host m)" "kept (mg_host m)" "mg_db m" "e_digest e" i v] assms
    by (auto simp: managed_def good_db_def host_row_def)
qed

lemma wave_stop_then:
  assumes "ok m" "\<not> b \<Longrightarrow> i \<notin> alive (mg_host m)" "\<And>x m'. ok m' \<Longrightarrow> (stop_proven x \<Longrightarrow> i \<notin> alive (mg_host m')) \<Longrightarrow> wp (k x) Q m'"
  shows "wp (do { x \<leftarrow> (if b then on_host (\<lambda>h. map_prod snd id (rt_Stop (e_rt e) i g h)) else ret None); k x }) Q m"
  using assms ok_sound [OF assms(1)] stop_host [of "mg_host m" i g] stop_dead [of "mg_host m" i g]
  by (auto simp: wp_host shrink_ok intro!: assms(3))

lemma safe_wave_op [saving]: "safe (wave_op_failed e p)"
  unfolding wave_op_failed_def by (intro saving)

lemma move_then:
  assumes "ok m" "move_guard e (alive (mg_host m)) (kept (mg_host m)) (mg_db m) t" "\<And>r m'. ok m' \<Longrightarrow> mg_host m' = mg_host m \<Longrightarrow> wp (k r) Q m'"
  shows "wp (State_Monad.bind (move_vm e t) k) Q m"
  unfolding wp_bind using assms by (rule settle_wp)

lemma get_vm_then:
  assumes "ok m" "\<And>x m'. ok m' \<Longrightarrow> mg_host m' = mg_host m \<Longrightarrow> wp (k (Inl x)) Q m'"
    "\<And>v m'. ok m' \<Longrightarrow> mg_host m' = mg_host m \<Longrightarrow> mg_db m' = mg_db m \<Longrightarrow> find_vm (mg_db m') i = Some v \<Longrightarrow> vm_id v = i \<Longrightarrow>
      (vm_observed v = Provisioning \<Longrightarrow> i \<notin> alive (mg_host m')) \<Longrightarrow> wp (k (Inr v)) Q m'"
  shows "wp (State_Monad.bind (get_vm e i) k) Q m"
  unfolding wp_bind by (rule get_vm_cases_wp [OF assms(1)]) (use assms(1,2,3) provisioning_down in auto)

lemma read_then:
  assumes "ok m" "\<And>r m'. ok m' \<Longrightarrow> mg_host m' = mg_host m \<Longrightarrow> mg_db m' = mg_db m \<Longrightarrow>
      r = Inl (StorageError ''store call failed'') \<or> r = f (mg_db m') \<Longrightarrow> wp (k r) Q m'"
  shows "wp (State_Monad.bind (read_store e f) k) Q m"
  unfolding wp_bind by (rule read_wp [OF assms(1)]) (use assms(2) in auto)

lemma safe_stop_sibling [saving]: "safe (stop_sibling e l n)"
proof (induction n)
  case (Suc n)
  let ?i = "vm_id (lm_vm l)"
  have row: "wp (if vm_observed v \<in> {Stopped, Failed, Deleting, Deleted} then ret ()
      else if vm_observed v = Stopping then wave_op_failed e (lm_op l)
      else do {
        t \<leftarrow> move_vm e ((transition0 ?i Stopping ''batch_stop_successful'')\<lparr>ti_from := Some (vm_observed v), ti_opID := lm_op l\<rparr>);
        k t }) (\<lambda>_. ok) m"
    if "ok m" "\<And>t m'. ok m' \<Longrightarrow> mg_host m' = mg_host m \<Longrightarrow> wp (k t) (\<lambda>_. ok) m'" for v m k
    by (intro wp_ifI safe_ok [OF safe_wave_op] move_then that) (use that in auto)
  show ?case
    unfolding safe_def stop_sibling.simps
    by (intro allI impI get_vm_then; simp only: sum.case wp_return;
        (intro row walk wave_stop_then settle_then guard_release saving safe_ok [OF Suc.IH] safe_ok [OF safe_wave_op] Suc.IH
          keeps_then [OF keeps_calls(3)]; (assumption | simp)?)?)
qed (simp add: safe_def)

lemma safe_stop_wave [saving]: "safe (stop_wave e failed ls)"
  by (induction ls) (simp_all add: safe_keeps keeps_ret, intro conjI impI saving, simp_all)

lemma safe_members [saving]: "safe (stopSiblings e c i)" "safe (memberDone e c b)"
  unfolding stopSiblings_def memberDone_def by (intro saving)+

lemma safe_member_task [saving]: "safe (runBatchMemberLaunch e c l)" "safe (member_task e c l)"
  unfolding member_task_def runBatchMemberLaunch_def by (intro saving; simp)+

lemma safe_enqueue_members [saving]: "safe (enqueue_members e c ls)"
proof (induction ls)
  case (Cons l ls)
  then show ?case unfolding enqueue_members.simps by (intro saving; simp)
qed (simp add: safe_keeps keeps_ret)

lemma resolve_members_positive:
  assumes "0 \<le> ad_reservePerVMOverhead (pl_admission (e_policy e))"
  shows "resolve_members e n i qs = Inr ms \<Longrightarrow> list_all (\<lambda>m. 0 \<le> mi_memoryTotal (snd m) \<and> 0 \<le> mi_vcpu (snd m)) ms"
  by (induction qs arbitrary: i ms) (auto split: sum.splits dest: resolveMember_positive [OF _ assms])

lemma safe_batch_call:
  assumes "resolve_members e n 0 qs = Inr ms" "0 \<le> ad_reservePerVMOverhead (pl_admission (e_policy e))"
  shows "safe (on_store e (\<lambda>now. CreateVMBatch (e_digest e) now (batch_store_input e owner q onFailure ms)))"
proof (intro safe_keeps keeps_store)
  have "batch_policy (e_policy e) (batch_store_input e owner q onFailure ms)"
    using resolve_members_positive [OF assms(2,1)] by (simp add: batch_policy_def batch_store_input_def Let_def)
  then show "good_db e (alive (mg_host m)) (kept (mg_host m))
      (fst (CreateVMBatch (e_digest e) now (batch_store_input e owner q onFailure ms) (mg_db m)))" if "ok m" for now m
    using that by (auto simp: managed_def intro: batch_good)
qed

lemma safe_CreateBatch:
  assumes "0 \<le> ad_reservePerVMOverhead (pl_admission (e_policy e))"
  shows "safe (CreateBatch e owner q)"
  unfolding CreateBatch_def Let_def by (intro saving safe_batch_call [OF _ assms]; simp)

section \<open>Recovery\<close>

lemma for_each_ok:
  assumes "\<And>x m. x \<in> set xs \<Longrightarrow> I m \<Longrightarrow> wp (f x) (\<lambda>_. I) m" "I m"
  shows "wp (for_each f xs) (\<lambda>_. I) m"
  using assms by (induction xs arbitrary: m) (auto intro: wp_mono)

lemma keeps_until_error: "(\<And>x. keeps (f x)) \<Longrightarrow> keeps (until_error f xs)"
  by (induction xs) (auto intro!: keeping)

lemma keeps_for_each: "(\<And>x. keeps (f x)) \<Longrightarrow> keeps (for_each f xs)"
  by (induction xs) (auto intro!: keeping)

lemma keeps_fail_operations: "keeps (until_error (fail_operations e) ss)"
  unfolding fail_operations_def fail_operation_def by (intro keeps_until_error keeping)

lemma keeps_reconcileRuns: "keeps (reconcileRuns e)"
  unfolding reconcileRuns_def reconcile_run_def reconcile_report_def by (intro keeping keeps_for_each; simp)

definition settling :: "string set \<Rightarrow> unit \<Rightarrow> 'h manager \<Rightarrow> bool" where
  "settling up _ m \<longleftrightarrow> ok m \<and> alive (mg_host m) \<subseteq> up"

lemma settle_row:
  "settling up () m \<Longrightarrow> move_guard e (alive (mg_host m)) (kept (mg_host m)) (mg_db m) t \<Longrightarrow> wp (do { _ \<leftarrow> move_vm e t; ret () }) (settling up) m"
  unfolding settling_def by (auto intro!: move_then simp del: wp_bind)

lemma settle_note:
  "keeps c \<Longrightarrow> settling up () m \<Longrightarrow> wp (do { _ \<leftarrow> c; ret () }) (settling up) m"
  unfolding settling_def by (auto intro!: keeps_then simp del: wp_bind)

lemma settle_stopped_ok: "settling up () m \<Longrightarrow> i \<notin> alive (mg_host m) \<Longrightarrow> wp (settle_stopped e i) (settling up) m"
  unfolding settle_stopped_def by (rule settle_row) (auto intro: guard_release)

lemma record_ambiguity_ok: "settling up () m \<Longrightarrow> wp (record_ambiguity e v detail) (settling up) m"
  unfolding record_ambiguity_def by (rule settle_note) (rule keeps_calls)

lemma reconcile_launching_ok:
  assumes "settling up () m" "vm_observed v = Provisioning \<Longrightarrow> vm_id v \<notin> up"
  shows "wp (reconcile_launching e v) (settling up) m"
proof (cases "vm_observed v = Provisioning")
  case True
  then show ?thesis
    using assms by (simp add: reconcile_launching_def del: wp_bind)
      (rule settle_row; auto simp: settling_def intro!: guard_release)
next
  case False
  have "wp (do { x \<leftarrow> on_host (rt_ForceStop (e_rt e) (vm_id v)); _ \<leftarrow> move_vm e ((transition0 (vm_id v) Failed (r x))\<lparr>
        ti_failureStage := Some st, ti_failureReason := Some (r x), ti_releaseCompute := stop_proven x\<rparr>); ret () }) (settling up) m" for r st
    by (rule force_then, use assms(1) in \<open>simp add: settling_def\<close>, rule settle_row)
      (use assms(1) in \<open>auto simp: settling_def intro!: guard_release\<close>)
  then show ?thesis using False by (simp add: reconcile_launching_def)
qed

lemma map_of_None_iff: "map_of xs k = None \<longleftrightarrow> k \<notin> fst ` set xs"
  by (rule map_of_eq_None_iff)

lemma reconcile_up_ok:
  assumes "settling up () m" "vm_id v \<notin> set (e_adopted e) \<Longrightarrow> vm_id v \<notin> fst ` set (e_ambiguous e) \<Longrightarrow> vm_id v \<notin> up"
  shows "wp (reconcile_up e v) (settling up) m"
  unfolding reconcile_up_def
  by (intro wp_ifI wp_optionI record_ambiguity_ok settle_row guard_release assms(1))
    (use assms in \<open>auto simp: map_of_None_iff settling_def\<close>)

lemma reconcile_stopping_ok:
  assumes "settling up () m" "present e" "vm_id v \<notin> set (e_adopted e) \<Longrightarrow> vm_id v \<notin> fst ` set (e_ambiguous e) \<Longrightarrow> vm_id v \<notin> up"
  shows "wp (reconcile_stopping e v) (settling up) m"
proof -
  have answer: "wp (case x of None \<Rightarrow> settle_stopped e (vm_id v) | Some (RtUnavailable _) \<Rightarrow> settle_stopped e (vm_id v)
      | Some y \<Rightarrow> if cleanupDebt x then do { _ \<leftarrow> cleanup_failure e (vm_id v) Stopped (rt_text y); settle_stopped e (vm_id v) }
                  else do { _ \<leftarrow> cleanup_failure e (vm_id v) Stopping (rt_text y); ret () }) (settling up) m'"
    if m': "settling up () m'" "stop_proven x \<Longrightarrow> vm_id v \<notin> alive (mg_host m')" "\<not> is_unavailable x" for x m'
  proof -
    have k: "wp (do { _ \<leftarrow> cleanup_failure e (vm_id v) Stopped r; settle_stopped e (vm_id v) }) (settling up) m'" if "stop_proven x" for r
      by (rule keeps_then [OF keeps_calls(3)], use m'(1) in \<open>simp add: settling_def\<close>)
        (rule settle_stopped_ok; use m'(1,2) that in \<open>simp add: settling_def\<close>)
    show ?thesis
      using m' k settle_note [OF keeps_calls(3) m'(1)]
      by (auto simp: stop_proven_def cleanupDebt_def is_unavailable_def split: option.splits rt_err.splits simp del: wp_bind
          intro!: settle_stopped_ok)
  qed
  show ?thesis
    unfolding reconcile_stopping_def
    by (intro wp_ifI wp_optionI record_ambiguity_ok force_then settle_stopped_ok assms(1) answer)
      (use assms in \<open>auto simp: map_of_None_iff settling_def present_def\<close>)
qed

lemma finish_delete_ok:
  assumes "settling up () m" "\<not> is_unavailable x" "x = None \<Longrightarrow> vm_id v \<notin> alive (mg_host m) \<and> vm_id v \<notin> kept (mg_host m)"
  shows "wp (finish_delete e v x) (settling up) m"
  unfolding finish_delete_def
  by (intro wp_ifI settle_row settle_note [OF keeps_calls(3)] guard_deleted assms(1)) (use assms in auto)

lemma reconcile_deleting_ok:
  assumes "settling up () m" "present e"
  shows "wp (reconcile_deleting e v) (settling up) m"
  unfolding reconcile_deleting_def
  by (intro force_then wp_ifI release_then finish_delete_ok)
    (use assms in \<open>auto simp: settling_def present_def stop_proven_def\<close>)

lemma reconcile_vm_ok:
  assumes "settling up () m" "present e" "vm_observed v = Provisioning \<Longrightarrow> vm_id v \<notin> up"
      "vm_id v \<notin> set (e_adopted e) \<Longrightarrow> vm_id v \<notin> fst ` set (e_ambiguous e) \<Longrightarrow> vm_id v \<notin> up"
  shows "wp (reconcile_vm e v) (settling up) m"
  unfolding reconcile_vm_def
  using reconcile_launching_ok [OF assms(1,3)] reconcile_up_ok [OF assms(1,4)] reconcile_stopping_ok [OF assms(1,2,4)]
    reconcile_deleting_ok [OF assms(1,2)] assms(1)
  by (cases "vm_observed v") simp_all

lemma listed_rows: "ListVMs db q = Inr vs \<Longrightarrow> set vs \<subseteq> set (db_vms db)"
  by (auto simp: ListVMs_def Let_def split: if_splits dest: in_set_takeD)

lemma Reconcile_ok:
  assumes "ok m" "present e" "scanned e alive (mg_host m)"
  shows "wp (Reconcile e) (\<lambda>_. ok) m"
proof -
  have rows: "wp (do { for_each (reconcile_vm e) vs; reconcileRuns e }) (\<lambda>_. ok) m'"
    if m': "ok m'" "mg_host m' = mg_host m" and listed: "ListVMs (mg_db m') all_vms_query = Inr vs" for vs m'
  proof -
    let ?up = "alive (mg_host m)"
    note vs = listed_rows [OF listed]
    have "wp (reconcile_vm e v) (\<lambda>_. settling ?up ()) m''" if "v \<in> set vs" "settling ?up () m''" for v m''
    proof -
      have "vm_id v \<notin> ?up" if "vm_observed v = Provisioning"
        using provisioning_down [OF m'(1) in_rows_find that] \<open>v \<in> set vs\<close> vs m' by (auto simp: managed_def good_db_def)
      then have "wp (reconcile_vm e v) (settling ?up) m''"
        by (rule reconcile_vm_ok [OF that(2) assms(2)]) (use assms(3) in \<open>auto simp: scanned_def\<close>)
      then show ?thesis by (rule wp_mono) simp
    qed
    then have "wp (for_each (reconcile_vm e) vs) (\<lambda>_. settling ?up ()) m'"
      by (rule for_each_ok) (use m' in \<open>simp_all add: settling_def\<close>)
    then show ?thesis
      unfolding wp_bind by (rule wp_mono) (auto simp: settling_def intro: keeps_wp [OF keeps_reconcileRuns])
  qed
  show ?thesis
    unfolding Reconcile_def list_vms_def
    by (intro keeps_then [OF keeps_fail_operations assms(1)] walk read_then)
      (auto split: sum.splits simp del: wp_bind intro: rows safe_ok [OF off_host_safe(1)])
qed

section \<open>The cleanup sweep\<close>

lemma keeps_retry_failed [keeping]: "keeps (retry_failed e v x)"
  unfolding retry_failed_def by (intro keeping)

lemma retry_input_simps [simp]:
  "ti_vmID (retry_input v to) = vm_id v" "ti_to (retry_input v to) = to"
  "\<not> ti_acquireCompute (retry_input v to)" "\<not> ti_releaseCompute (retry_input v to)" "\<not> ti_releaseAll (retry_input v to)"
  by (simp_all add: retry_input_def)

lemma retry_stopped_ok: "ok m \<Longrightarrow> vm_id v \<notin> alive (mg_host m) \<Longrightarrow> wp (retry_stopped e v) (\<lambda>_. ok) m"
  unfolding retry_stopped_def by (intro settle_then guard_release saving) auto

lemma retry_deleted_ok:
  "ok m \<Longrightarrow> vm_id v \<notin> alive (mg_host m) \<Longrightarrow> vm_id v \<notin> kept (mg_host m) \<Longrightarrow> wp (retry_deleted e v) (\<lambda>_. ok) m"
  unfolding retry_deleted_def by (intro settle_then guard_deleted saving) auto

lemma retry_released_ok:
  assumes "ok m" "vm_id v \<notin> alive (mg_host m)" "vm_id v \<notin> kept (mg_host m)"
  shows "wp (retry_released e v) (\<lambda>_. ok) m"
proof -
  have again: "wp (do { u \<leftarrow> move_vm e (retry_input v1 Deleting); case u of Inl _ \<Rightarrow> ret True | Inr v2 \<Rightarrow> retry_deleted e v2 }) (\<lambda>_. ok) m1"
    if "ok m1" "mg_host m1 = mg_host m" "vm_id v1 = vm_id v" for v1 m1
    unfolding wp_bind using assms that
    by (intro move_cases_wp [OF that(1)]) (auto intro: retry_deleted_ok)
  have moved: "wp (do { t \<leftarrow> move_vm e ((retry_input v Stopped)\<lparr>ti_expectedRevision := Some (vm_revision v), ti_releaseCompute := True\<rparr>);
      case t of Inl _ \<Rightarrow> ret True | Inr v1 \<Rightarrow> do { u \<leftarrow> move_vm e (retry_input v1 Deleting); case u of Inl _ \<Rightarrow> ret True | Inr v2 \<Rightarrow> retry_deleted e v2 } }) (\<lambda>_. ok) m"
    unfolding wp_bind [of "move_vm e (_\<lparr>ti_releaseCompute := True\<rparr>)"]
    by (rule move_cases_wp [OF assms(1)])
      (use assms in \<open>auto simp del: wp_bind intro!: guard_release again\<close>)
  have freed: "wp (do { r \<leftarrow> on_store e (\<lambda>now db. (ReleaseVMReservations now (vm_id v) db, Inr ())); ret (isl r) }) (\<lambda>_. ok) m"
    unfolding wp_bind by (rule store_wp [OF assms(1)]) (use assms in \<open>auto simp: managed_def intro: release_good\<close>)
  show ?thesis
    unfolding retry_released_def by (intro wp_ifI freed moved retry_deleted_ok assms)
qed

lemma retry_stop_answer_ok:
  assumes "ok m" "vm_id v \<notin> alive (mg_host m)"
  shows "wp (retry_stop_answer e v x) (\<lambda>_. ok) m"
proof -
  have gone: "wp (do { c \<leftarrow> canceled e; if c then ret True else retry_released e v }) (\<lambda>_. ok) m'"
    if "ok m'" "vm_id v \<notin> alive (mg_host m')" "vm_id v \<notin> kept (mg_host m')" for m'
    using that by (simp add: wp_if retry_released_ok)
  have failed: "wp (retry_failed e v y) (\<lambda>_. ok) m'" if "ok m'" for y m'
    using that by (intro safe_ok safe_keeps keeping)
  show ?thesis
    unfolding retry_stop_answer_def
    by (intro wp_ifI wp_optionI failed release_then gone retry_stopped_ok safe_ok [OF safe_bind] off_host_safe assms)
      (use assms in auto)
qed

lemma safe_retryVM [saving]: "safe (retryVM e i)"
proof -
  have step: "wp (do { x \<leftarrow> on_host (rt_ForceStop (e_rt e) i); if \<not> stop_proven x then retry_failed e v (the x)
      else do { c \<leftarrow> canceled e; if c then ret True else retry_stop_answer e v x } }) (\<lambda>_. ok) m" if "ok m" "vm_id v = i" for v m
    by (rule force_then [OF that(1)])
      (use that in \<open>auto simp: wp_if intro: retry_stop_answer_ok safe_ok [OF safe_keeps [OF keeps_retry_failed]]\<close>)
  have "keeps (retry_wanted e v)" for v
    unfolding retry_wanted_def by (intro keeping)
  then show ?thesis
    unfolding safe_def retryVM_def
    by (intro allI impI get_vm_then walk keeps_then step safe_ok [OF off_host_safe(1)]) auto
qed

lemma safe_retry_page: "safe (retry_page e vs)"
proof (induction vs)
  case (Cons v vs)
  have "safe (retry_candidate e v)"
    unfolding retry_candidate_def by (intro saving safe_keeps [OF keeps_mem]; simp)
  with Cons show ?case unfolding retry_page.simps by (intro saving; simp)
qed (simp add: off_host_safe)

lemma safe_RetryCleanup [saving]: "safe (RetryCleanup e)"
  unfolding RetryCleanup_def by (intro saving safe_retry_page safe_keeps [OF keeps_mem]; simp)

end

end
