(* ===== verification/Manager_Steps.thy ===== *)
theory Manager_Steps
  imports Manager_Safety
begin

text \<open>
  The manager at work, as a step relation: its foreground operations, the tasks it queued, the exits the
  runtime reports, the cleanup sweep, a restart and the host losing VMMs by itself. Operations take effect
  one after the other. Every reachable state keeps the invariant of \<open>Manager_Logic\<close>, from which the
  two safety properties of the host follow.
\<close>

section \<open>Steps\<close>

definition run_task :: "'h menv \<Rightarrow> task \<Rightarrow> ('h, unit) prog" where
  "run_task e t = (case t of
      LaunchTask l \<Rightarrow> launch_task e l
    | MemberTask c l \<Rightarrow> member_task e c l
    | ConcludeTask runID \<Rightarrow> do { _ \<leftarrow> concludeRun e runID GuestResult; ret () }
    | StopTask vmID \<Rightarrow> stopVMAfterRun e vmID
    | ReportTask runID \<Rightarrow> on_mem (\<lambda>m. ((), m\<lparr>mg_reports := mg_reports m @ [runID]\<rparr>)))"

abbreviation exec :: "('h, 'a) prog \<Rightarrow> 'h manager \<Rightarrow> 'h manager" where
  "exec c m \<equiv> snd (run_state c m)"

text \<open>What a new process starts with: the tables and the host survive, the manager's memory does not.\<close>

definition NewManager :: "'h manager \<Rightarrow> 'h manager" where
  "NewManager m = m\<lparr>mg_closed := False, mg_tasks := [], mg_claims := [], mg_deleting := [], mg_after := 0, mg_coords := [], mg_reports := []\<rparr>"

text \<open>A startup scan, as the controller hands it to \<open>Reconcile\<close>.\<close>

abbreviation after_scan :: "'h menv \<Rightarrow> string list \<Rightarrow> (string \<times> string) list \<Rightarrow> 'h menv" where
  "after_scan e adopted ambiguous \<equiv> e\<lparr>e_adopted := adopted, e_ambiguous := ambiguous\<rparr>"

inductive manager_step :: "'h menv \<Rightarrow> ('h \<Rightarrow> string set) \<Rightarrow> ('h \<Rightarrow> string set) \<Rightarrow> ('h \<Rightarrow> bool) \<Rightarrow> 'h manager \<Rightarrow> 'h manager \<Rightarrow> bool"
  for e :: "'h menv" and alive :: "'h \<Rightarrow> string set" and kept :: "'h \<Rightarrow> string set" and sound :: "'h \<Rightarrow> bool" where
  s_create: "manager_step e alive kept sound m (exec (Manager_CreateVM e owner key q) m)"
| s_batch: "manager_step e alive kept sound m (exec (CreateBatch e owner b) m)"
| s_action: "manager_step e alive kept sound m (exec (Manager_Action e vmID action pin) m)"
| s_delete: "manager_step e alive kept sound m (exec (Manager_Delete e vmID force pin) m)"
| s_run: "manager_step e alive kept sound m (exec (Manager_CreateRun e r) m)"
| s_progress: "manager_step e alive kept sound m (exec (Manager_SubmitRunProgress e runID payload) m)"
| s_result: "manager_step e alive kept sound m (exec (Manager_SubmitRunResult e runID payload) m)"
| s_conclude: "manager_step e alive kept sound m (exec (ConcludeRun e runID verdict abort reason) m)"
| s_report: "manager_step e alive kept sound m (exec (EnqueueReport e runID) m)"
| s_exit: "vmID \<notin> alive (mg_host m) \<Longrightarrow> manager_step e alive kept sound m (exec (NotifyVMMExit e vmID bootID reason graceful) m)"
| s_task: "t \<in> set (mg_tasks m) \<Longrightarrow> (\<And>vmID. t = StopTask vmID \<Longrightarrow> after_run_proven e vmID (mg_host m)) \<Longrightarrow>
    manager_step e alive kept sound m (exec (run_task e t) (m\<lparr>mg_tasks := remove1 t (mg_tasks m)\<rparr>))"
| s_cleanup: "manager_step e alive kept sound m (exec (RetryCleanup e) m)"
| s_close: "manager_step e alive kept sound m (exec BeginClose m)"
| s_restart: "present e \<Longrightarrow> scanned (after_scan e adopted ambiguous) alive (mg_host m) \<Longrightarrow>
    manager_step e alive kept sound m (exec (Reconcile (after_scan e adopted ambiguous)) (NewManager m))"
| s_host: "sound h \<Longrightarrow> alive h \<subseteq> alive (mg_host m) \<Longrightarrow> kept h \<subseteq> kept (mg_host m) \<Longrightarrow> manager_step e alive kept sound m (m\<lparr>mg_host := h\<rparr>)"

section \<open>The invariant\<close>

lemma wp_exec: "wp c (\<lambda>_. P) m \<longleftrightarrow> P (exec c m)"
  by (simp add: wp_def split: prod.splits)

lemma managed_scan [simp]: "managed (after_scan e adopted ambiguous) = managed e"
  by (intro ext) (simp add: managed_def good_db_def)

lemma managed_new [simp]: "managed e alive kept sound (NewManager m) = managed e alive kept sound m"
  by (simp add: NewManager_def)

lemma scan_contract: "runtime_contract e alive kept sound \<Longrightarrow> runtime_contract (after_scan e adopted ambiguous) alive kept sound"
  by (simp add: runtime_contract_def)

context runtime_contract
begin

lemma run_task_ok:
  assumes "ok m" "\<And>vmID. t = StopTask vmID \<Longrightarrow> after_run_proven e vmID (mg_host m)"
  shows "wp (run_task e t) (\<lambda>_. ok) m"
proof (cases t)
  case (StopTask i)
  then show ?thesis using stopVMAfterRun_ok assms by (simp add: run_task_def)
next
  case (ReportTask i)
  then show ?thesis using assms(1) by (simp add: run_task_def)
qed (simp_all only: run_task_def task.simps, (intro safe_ok saving; simp add: assms(1))+)

lemma safe_exec: "safe c \<Longrightarrow> ok m \<Longrightarrow> ok (exec c m)"
  using safe_ok wp_exec by blast

lemma manager_step_ok:
  assumes "manager_step e alive kept sound m m'" "ok m" "0 \<le> ad_reservePerVMOverhead (pl_admission (e_policy e))"
  shows "ok m'"
  using assms(1)
proof cases
  case (s_task t)
  then show ?thesis
    using run_task_ok [of "m\<lparr>mg_tasks := remove1 t (mg_tasks m)\<rparr>" t] assms(2) by (simp add: wp_exec)
next
  case (s_restart adopted ambiguous)
  then show ?thesis
    using runtime_contract.Reconcile_ok [OF scan_contract [OF runtime_contract_axioms], of ambiguous adopted "NewManager m"] assms(2)
    by (simp add: wp_exec present_def NewManager_def)
next
  case (s_host h)
  then show ?thesis using shrink_ok assms(2) by simp
next
  case (s_exit i b r g)
  then show ?thesis using NotifyVMMExit_ok assms(2) by (simp add: wp_exec)
qed (simp_all add: safe_exec assms(2) safe_CreateVM [OF assms(3)] safe_CreateBatch [OF assms(3)] safe_Action safe_Delete safe_RetryCleanup
  off_host_safe keeps_run_calls [THEN safe_keeps])

lemma manager_steps_ok:
  assumes "(manager_step e alive kept sound)\<^sup>*\<^sup>* m m'" "ok m" "0 \<le> ad_reservePerVMOverhead (pl_admission (e_policy e))"
  shows "ok m'"
  using assms by (induction rule: rtranclp_induct) (auto intro: manager_step_ok)

end

section \<open>The portable runtime\<close>

text \<open>
  The runtime of a host without KVM keeps the contract whatever is taken to be up: it touches nothing and
  proves nothing.
\<close>

interpretation portable: runtime_contract "e\<lparr>e_rt := ForHost goos summary\<rparr>" alive kept sound
  for e :: "'h menv" and goos summary and alive kept :: "'h \<Rightarrow> string set" and sound
  by unfold_locales (auto simp: ForHost_def unavailableRuntime_def stop_proven_def cleanupDebt_def)

lemma portable_steps_ok:
  assumes "(manager_step (e\<lparr>e_rt := ForHost goos summary\<rparr>) alive kept sound)\<^sup>*\<^sup>* m m'" "managed e alive kept sound m"
    "0 \<le> ad_reservePerVMOverhead (pl_admission (e_policy e))"
  shows "managed e alive kept sound m'"
  using portable.manager_steps_ok [OF assms(1)] assms(2,3) by (simp add: managed_def good_db_def)

section \<open>The host's memory and CPU\<close>

lemma start_managed:
  assumes "UUIDString uuid" "0 \<le> UsableVCPU (e_policy e)" "mg_db m = OpenDB uuid" "alive (mg_host m) = {}" "kept (mg_host m) = {}" "sound (mg_host m)"
  shows "managed e alive kept sound m"
proof -
  have "0 \<le> UsableMemoryMiB (e_policy e)" by (simp add: UsableMemoryMiB_def Let_def)
  then show ?thesis
    using assms OpenDB_inv [OF assms(1)]
    by (simp add: managed_def good_db_def host_ok_def in_budget_def res_nonneg_def OpenDB_def)
qed

lemma reachable_managed:
  assumes "runtime_contract e alive kept sound" "UUIDString uuid" "0 \<le> UsableVCPU (e_policy e)"
    "0 \<le> ad_reservePerVMOverhead (pl_admission (e_policy e))"
    "mg_db m0 = OpenDB uuid" "alive (mg_host m0) = {}" "kept (mg_host m0) = {}" "sound (mg_host m0)"
    "(manager_step e alive kept sound)\<^sup>*\<^sup>* m0 m"
  shows "managed e alive kept sound m"
  using start_managed [of uuid e m0 alive kept sound] assms by (intro runtime_contract.manager_steps_ok [OF assms(1,9)]) simp_all

lemma sum_part:
  fixes f :: "'a \<Rightarrow> int"
  shows "\<forall>r \<in> set rs. 0 \<le> f r \<Longrightarrow> \<forall>r \<in> set rs. P r \<longrightarrow> R r \<Longrightarrow> sum_list (map f (filter P rs)) \<le> sum_list (map f (filter R rs))"
  by (induction rs) auto

definition live_share :: "string set \<Rightarrow> (reservation \<Rightarrow> int) \<Rightarrow> vmdb \<Rightarrow> int" where
  "live_share up f db = sum_list (map f (filter (\<lambda>r. rv_vmID r \<in> up) (db_res db)))"

lemma live_vm_holds:
  assumes "managed e alive kept sound m" "r \<in> set (db_res (mg_db m))" "rv_vmID r \<in> alive (mg_host m)"
  shows "holds r"
proof -
  have rows: "list_all2 (host_row (alive (mg_host m)) (kept (mg_host m))) (db_vms (mg_db m)) (db_res (mg_db m))"
    "map rv_vmID (db_res (mg_db m)) = map vm_id (db_vms (mg_db m))"
    using assms(1) by (simp_all add: managed_def good_db_def host_ok_def db_inv_def vm_inv_def)
  obtain k where k: "k < length (db_res (mg_db m))" "db_res (mg_db m) ! k = r" using assms(2) by (auto simp: in_set_conv_nth)
  then have "host_row (alive (mg_host m)) (kept (mg_host m)) (db_vms (mg_db m) ! k) r" "k < length (db_vms (mg_db m))"
    using rows(1) by (auto simp: list_all2_conv_all_nth)
  moreover from this k have "vm_id (db_vms (mg_db m) ! k) = rv_vmID r"
    using arg_cong [OF rows(2), of "\<lambda>xs. xs ! k"] by simp
  ultimately show ?thesis using assms(3) by (simp add: host_row_def)
qed

lemma live_share_held:
  assumes "managed e alive kept sound m" "\<forall>r \<in> set (db_res (mg_db m)). 0 \<le> f r"
  shows "live_share (alive (mg_host m)) f (mg_db m) \<le> held f (db_res (mg_db m))"
  unfolding live_share_def held_def using assms live_vm_holds [OF assms(1)] by (intro sum_part) auto

lemma live_has_reservation:
  assumes "managed e alive kept sound m"
  shows "alive (mg_host m) \<subseteq> rv_vmID ` set (filter holds (db_res (mg_db m)))"
proof -
  have "map rv_vmID (db_res (mg_db m)) = map vm_id (db_vms (mg_db m))" and up: "alive (mg_host m) \<subseteq> vm_id ` set (db_vms (mg_db m))"
    using assms by (simp_all add: managed_def good_db_def host_ok_def db_inv_def vm_inv_def)
  then have "rv_vmID ` set (db_res (mg_db m)) = vm_id ` set (db_vms (mg_db m))" by (metis list.set_map)
  then show ?thesis using up live_vm_holds [OF assms] by fastforce
qed

lemma deleted_row:
  assumes "managed e alive kept sound m" "v \<in> set (db_vms (mg_db m))" "vm_observed v = Deleted"
  shows "vm_id v \<notin> alive (mg_host m) \<union> kept (mg_host m)"
proof -
  have "list_all2 (host_row (alive (mg_host m)) (kept (mg_host m))) (db_vms (mg_db m)) (db_res (mg_db m))"
    using assms(1) by (simp add: managed_def good_db_def host_ok_def)
  then show ?thesis using assms(2,3) by (auto simp: list_all2_conv_all_nth in_set_conv_nth host_row_def)
qed

section \<open>Properties\<close>

text \<open>A host for the witnesses: what is up and what is on disk, and a runtime that does what it is told.\<close>

record demo_host = dh_up :: "string list" dh_disk :: "string list"

definition demo_rt :: "demo_host runtime" where
  "demo_rt = \<lparr>rt_Availability = (\<lambda>_. None),
     rt_Launch = (\<lambda>s h. (Inr None, \<lparr>dh_up = sp_vmID s # dh_up h, dh_disk = sp_vmID s # dh_disk h\<rparr>)),
     rt_Pause = (\<lambda>_ h. (None, h)), rt_Resume = (\<lambda>_ h. (None, h)),
     rt_Stop = (\<lambda>i _ h. ((True, None), h\<lparr>dh_up := removeAll i (dh_up h)\<rparr>)),
     rt_ForceStop = (\<lambda>i h. (None, h\<lparr>dh_up := removeAll i (dh_up h)\<rparr>)),
     rt_Release = (\<lambda>i h. (None, h\<lparr>dh_disk := removeAll i (dh_disk h)\<rparr>))\<rparr>"

definition demo_menv :: "demo_host menv" where
  "demo_menv = \<lparr>e_digest = (\<lambda>_. []), e_redact = id, e_decode = (\<lambda>_. None), e_quote = (\<lambda>_. []), e_text = (\<lambda>_. []),
     e_clock = int, e_uuid = (\<lambda>_. ''vm-1''), e_memberID = (\<lambda>_ _. []), e_runID = (\<lambda>_ _. []), e_down = (\<lambda>_. False), e_canceled = (\<lambda>_. False),
     e_createHash = (\<lambda>_. []), e_batchHash = (\<lambda>_. []), e_rt = demo_rt, e_policy = demo_policy,
     e_defaults = \<lparr>vd_vcpu = 1, vd_memory = 512, vd_rootDisk = 1024, vd_workspaceDisk = 1024, vd_networkProfile = ''none'', vd_networkPolicy = [], vd_stopGrace = 10\<rparr>,
     e_templates = [(''base'', \<lparr>tp_id = ''base'', tp_description = [], tp_privileges = [], tp_sensors = [], tp_protocols = [], tp_digest = []\<rparr>)],
     e_adopted = [], e_ambiguous = [], e_reportGen = False\<rparr>"

definition demo_request :: create_request where
  "demo_request = \<lparr>rq_name = ''web'', rq_templateID = ''base'', rq_vcpu = 0, rq_memory = 0, rq_rootDisk = 0, rq_workspaceDisk = 0, rq_labels = [], rq_run = None\<rparr>"

definition demo_start :: "demo_host manager" where
  "demo_start = \<lparr>mg_db = OpenDB demo_uuid, mg_host = \<lparr>dh_up = [], dh_disk = []\<rparr>, mg_calls = 0, mg_closed = False, mg_tasks = [], mg_claims = [],
    mg_deleting = [], mg_after = 0, mg_coords = [], mg_reports = []\<rparr>"

definition demo_created :: "demo_host manager" where
  "demo_created = exec (Manager_CreateVM demo_menv ''alice'' None demo_request) demo_start"

definition demo_task :: task where
  "demo_task = hd (mg_tasks demo_created)"

definition demo_launched :: "demo_host manager" where
  "demo_launched = exec (run_task demo_menv demo_task) (demo_created\<lparr>mg_tasks := []\<rparr>)"

abbreviation demo_alive :: "demo_host \<Rightarrow> string set" where
  "demo_alive h \<equiv> set (dh_up h)"

abbreviation demo_kept :: "demo_host \<Rightarrow> string set" where
  "demo_kept h \<equiv> set (dh_disk h)"

abbreviation demo_sound :: "demo_host \<Rightarrow> bool" where
  "demo_sound h \<equiv> True"

lemma demo_contract: "runtime_contract demo_menv demo_alive demo_kept demo_sound"
  by unfold_locales (auto simp: demo_menv_def demo_rt_def)

lemma demo_start_ok:
  "UUIDString demo_uuid" "0 \<le> UsableVCPU (e_policy demo_menv)" "0 \<le> ad_reservePerVMOverhead (pl_admission (e_policy demo_menv))"
  "mg_db demo_start = OpenDB demo_uuid" "demo_alive (mg_host demo_start) = {}" "demo_kept (mg_host demo_start) = {}" "demo_sound (mg_host demo_start)"
  by (simp_all add: demo_uuid_ok demo_menv_def demo_start_def demo_policy_def UsableVCPU_def Let_def)

lemma demo_queue: "length (mg_tasks demo_created) = 1 \<and> (case demo_task of LaunchTask _ \<Rightarrow> True | _ \<Rightarrow> False)"
  by code_simp

lemma demo_up: "dh_up (mg_host demo_launched) = [''vm-1'']"
  by code_simp

lemma demo_steps: "(manager_step demo_menv demo_alive demo_kept demo_sound)\<^sup>*\<^sup>* demo_start demo_launched"
proof -
  have q: "mg_tasks demo_created = [demo_task]" "demo_task \<noteq> StopTask i" for i
    using demo_queue by (auto simp: demo_task_def length_Suc_conv)
  have "manager_step demo_menv demo_alive demo_kept demo_sound demo_start demo_created"
    unfolding demo_created_def by (rule s_create)
  moreover have "manager_step demo_menv demo_alive demo_kept demo_sound demo_created demo_launched"
    using s_task [of demo_task demo_created demo_menv demo_alive demo_kept demo_sound] q by (simp add: demo_launched_def)
  ultimately show ?thesis by (rule converse_rtranclp_into_rtranclp [OF _ r_into_rtranclp])
qed




text \<open>The VM of the first witness, deleted by force.\<close>

definition demo_deleted :: "demo_host manager" where
  "demo_deleted = exec (Manager_Delete demo_menv ''vm-1'' True None) demo_launched"

lemma demo_gone: "map vm_observed (db_vms (mg_db demo_deleted)) = [Deleted] \<and> map vm_id (db_vms (mg_db demo_deleted)) = [''vm-1'']"
  by code_simp


end
