(* ===== verification/Run_Laws.thy ===== *)
theory Run_Laws
  imports Manager_Steps
begin

text \<open>
  How a run ends. While the store answers, a run that is waiting or running is concluded as the evaluation
  of its criteria says, and what was asked to happen on completion is queued. A run left in the
  intermediate phase is not concluded by anybody any more.
\<close>

section \<open>One move of a run\<close>

definition moved_run :: "int \<Rightarrow> run_transition \<Rightarrow> vmdb \<Rightarrow> run \<Rightarrow> run" where
  "moved_run now t db r = advance_run now t (rn_phase r) (es_nextId (db_ev db)) r"

lemma moved_run_id [simp]: "rn_id (moved_run now t db r) = rn_id r" and moved_run_phase [simp]: "rn_phase (moved_run now t db r) = tr_to t"
  by (simp_all add: moved_run_def advance_run_def Let_def)

lemma TransitionRun_moved:
  assumes "store_inv digest (db_ev db)" "GetRun db (tr_runID t) = Inr r" "tr_from t = Some (rn_phase r)"
    "runTransitionAllowed (rn_phase r) (tr_to t)"
  shows "snd (TransitionRun digest now t db) = Inr (moved_run now t db r)
    \<and> GetRun (fst (TransitionRun digest now t db)) (tr_runID t) = Inr (moved_run now t db r)"
proof -
  have r: "find (\<lambda>r. rn_id r = tr_runID t) (db_runs db) = Some r" using assms(2) by (simp add: GetRun_def split: option.splits)
  have "find (\<lambda>x. rn_id x = tr_runID t) (map (\<lambda>x. if rn_id x = tr_runID t then advance_run now t (rn_phase r) ev x else x) (db_runs db))
    = Some (advance_run now t (rn_phase r) ev r)" for ev
    using r by (subst find_map_update) (simp_all add: advance_run_def Let_def)
  then show ?thesis
    using assms(1,3,4) r
    by (simp add: TransitionRun_def in_tx_def bind_tx_def GetRun_def emit_eq logged_simps set_run_def touch_vm_def set_vm_def Let_def moved_run_def)
qed

lemma TransitionRun_refused:
  assumes "GetRun db (tr_runID t) = Inr r" "\<not> runTransitionAllowed (rn_phase r) (tr_to t)"
  shows "TransitionRun digest now t db = (db, Inl (InvalidRunTransition (rn_phase r) (tr_to t)))"
  using assms by (simp add: TransitionRun_def in_tx_def)

section \<open>Concluding while the store answers\<close>

lemma wp_store_up:
  "\<forall>n. \<not> e_down e n \<Longrightarrow> wp (on_store e f) Q m \<longleftrightarrow>
   Q (snd (f (e_clock e (mg_calls m)) (mg_db m))) (m\<lparr>mg_calls := Suc (mg_calls m), mg_db := fst (f (e_clock e (mg_calls m)) (mg_db m))\<rparr>)"
  by (simp add: wp_store Let_def split: prod.splits)

lemma get_run_up:
  "\<forall>n. \<not> e_down e n \<Longrightarrow> wp (get_run e i) Q m \<longleftrightarrow> Q (GetRun (mg_db m) i) (m\<lparr>mg_calls := Suc (mg_calls m)\<rparr>)"
  by (simp add: get_run_def read_store_def wp_store_up)

lemma move_run_up:
  assumes "\<forall>n. \<not> e_down e n" "db_inv (e_digest e) (mg_db m)" "GetRun (mg_db m) (tr_runID t) = Inr r" "tr_from t = Some (rn_phase r)"
    "runTransitionAllowed (rn_phase r) (tr_to t)"
    and Q: "\<And>now r' m'. r' = moved_run now t (mg_db m) r \<Longrightarrow> db_inv (e_digest e) (mg_db m') \<Longrightarrow> GetRun (mg_db m') (tr_runID t) = Inr r' \<Longrightarrow>
      mg_tasks m' = mg_tasks m \<Longrightarrow> mg_host m' = mg_host m \<Longrightarrow> mg_closed m' = mg_closed m \<Longrightarrow> Q (Inr r') m'"
  shows "wp (move_run e t) Q m"
proof -
  have "store_inv (e_digest e) (db_ev (mg_db m))" using assms(2) by (simp add: db_inv_def)
  note moved = TransitionRun_moved [OF this assms(3-5)]
  have "db_inv (e_digest e) (fst (TransitionRun (e_digest e) (e_clock e (mg_calls m)) t (mg_db m)))"
    using sc.step_ok [OF assms(2) c_plain [OF c_run_move]] by simp
  then show ?thesis unfolding move_run_def using assms(1) moved by (auto simp: wp_store_up intro!: Q)
qed

lemma wp_post_conclude:
  "\<not> mg_closed m \<Longrightarrow> wp (postConclude e r) Q m \<longleftrightarrow>
   Q () (m\<lparr>mg_tasks := mg_tasks m @ (if rn_onCompletion r = ''stop'' then [StopTask (rn_vmID r)] else [])
      @ (if e_reportGen e then [ReportTask (rn_id r)] else [])\<rparr>)"
  by (simp add: postConclude_def GoTracked_def wp_if)

lemma evaluate_terminal: "fst (evaluateRun r t) \<in> set terminalRunPhases"
  by (simp add: evaluateRun_def terminalRunPhases_def)

lemma evaluate_moved: "evaluateRun (moved_run now t db r) = evaluateRun r"
  by (rule ext) (simp add: evaluateRun_def moved_run_def advance_run_def Let_def)

text \<open>What a concluded run and the manager look like, given the run before.\<close>

definition concluded :: "'h menv \<Rightarrow> 'h manager \<Rightarrow> run \<Rightarrow> run_phase \<times> string \<times> string \<Rightarrow> mgr_error + run \<Rightarrow> 'h manager \<Rightarrow> bool" where
  "concluded e m r outcome x m' \<longleftrightarrow> (case outcome of (phase, by', why) \<Rightarrow>
     \<exists>r'. x = Inr r' \<and> GetRun (mg_db m') (rn_id r) = Inr r' \<and> rn_phase r' = phase \<and> rn_evaluatedBy r' = by' \<and> rn_reason r' = why
       \<and> rn_concludedAt r' \<noteq> None \<and> rn_resultJSON r' = rn_resultJSON r \<and> rn_goal r' = rn_goal r
       \<and> mg_tasks m' = mg_tasks m @ (if rn_onCompletion r = ''stop'' then [StopTask (rn_vmID r)] else [])
           @ (if e_reportGen e then [ReportTask (rn_id r)] else [])
       \<and> mg_host m' = mg_host m)"

lemma finish_run_up:
  assumes "\<forall>n. \<not> e_down e n" "\<not> mg_closed m" "db_inv (e_digest e) (mg_db m)" "GetRun (mg_db m) (rn_id r) = Inr r" "rn_phase r = RConcluding"
    "fst outcome \<in> set terminalRunPhases"
  shows "wp (finish_run e what (rn_id r) outcome) (concluded e m r outcome) m"
proof -
  obtain phase by' why where o: "outcome = (phase, by', why)" by (cases outcome)
  have t: "phase \<in> set terminalRunPhases" "runTransitionAllowed RConcluding phase"
    using assms(6) o by (auto simp: terminalRunPhases_def runTransitionAllowed_def validRunTransitions_def)
  show ?thesis
    unfolding finish_run_def o prod.case wp_bind
    by (rule move_run_up [OF assms(1,3)])
      (use assms t in \<open>auto simp: concluded_def wp_post_conclude moved_run_def advance_run_def Let_def\<close>)
qed

lemma concludeRun_up:
  assumes "\<forall>n. \<not> e_down e n" "\<not> mg_closed m" "db_inv (e_digest e) (mg_db m)" "GetRun (mg_db m) (rn_id r) = Inr r" "rn_phase r \<in> {RPending, RRunning}"
  shows "wp (concludeRun e (rn_id r) trigger) (concluded e m r (evaluateRun r trigger)) m"
proof -
  have c: "rn_phase r \<notin> set terminalRunPhases" "runTransitionAllowed (rn_phase r) RConcluding"
    using assms(5) by (auto simp: terminalRunPhases_def runTransitionAllowed_def validRunTransitions_def)
  have rest: "wp (finish_run e b (rn_id r) (evaluateRun r' trigger)) (concluded e m r (evaluateRun r trigger)) (m'\<lparr>mg_calls := Suc (mg_calls m')\<rparr>)"
    if m': "db_inv (e_digest e) (mg_db m')" "mg_tasks m' = mg_tasks m" "mg_host m' = mg_host m" "\<not> mg_closed m'"
      and r': "r' = moved_run now t (mg_db m) r" "tr_to t = RConcluding" "GetRun (mg_db m') (rn_id r) = Inr r'" for b m' r' now t
  proof -
    let ?m = "m'\<lparr>mg_calls := Suc (mg_calls m')\<rparr>"
    have "wp (finish_run e b (rn_id r') (evaluateRun r' trigger)) (concluded e ?m r' (evaluateRun r' trigger)) ?m"
      by (rule finish_run_up) (use assms(1,2) m' r' evaluate_terminal in auto)
    moreover have "concluded e ?m r' = concluded e m r"
      using m' r' by (simp add: concluded_def fun_eq_iff moved_run_def advance_run_def Let_def terminalRunPhases_def)
    moreover have "evaluateRun r' = evaluateRun r" "rn_id r' = rn_id r" using r' by (simp_all add: evaluate_moved)
    ultimately show ?thesis by simp
  qed
  show ?thesis
    unfolding concludeRun_def begin_conclude_def wp_bind
    using assms(1-4) c
    by (auto simp: get_run_up intro!: move_run_up [OF assms(1)]) (rule rest, assumption+, rule refl, simp, assumption)
qed

section \<open>The intermediate phase\<close>

text \<open>
  A run whose conclusion stopped between its two moves stays where it is: every way to conclude it is refused
  the move to \<open>concluding\<close>, takes that for a lost race and walks away.
\<close>

lemma concluding_is_left:
  assumes "\<forall>n. \<not> e_down e n" "GetRun (mg_db m) i = Inr r" "rn_phase r = RConcluding"
  shows "wp (concludeRun e i trigger) (\<lambda>x m'. x = Inr r \<and> mg_db m' = mg_db m \<and> mg_tasks m' = mg_tasks m) m"
    "wp (concludeRunAbort e i reason) (\<lambda>x m'. x = Inr r \<and> mg_db m' = mg_db m \<and> mg_tasks m' = mg_tasks m) m"
    "wp (concludeRunWithVerdict e i v reason) (\<lambda>x m'. x = Inr r \<and> mg_db m' = mg_db m \<and> mg_tasks m' = mg_tasks m) m"
  using assms
  by (simp_all add: concludeRun_def concludeRunAbort_def concludeRunWithVerdict_def begin_conclude_def get_run_up move_run_def wp_store_up
      TransitionRun_refused runTransitionAllowed_def validRunTransitions_def terminalRunPhases_def is_invalid_run_def run_now_def)

section \<open>The stop after a run\<close>

text \<open>
  \<open>stopVMAfterRun\<close> drops what the runtime answers. With a runtime that cannot prove its stops, it marks
  the VM stopped and hands its compute back while its VMM is still up.
\<close>

definition demo_stuck :: "demo_host menv" where
  "demo_stuck = demo_menv\<lparr>e_rt := demo_rt\<lparr>rt_Stop := (\<lambda>i _ h. ((False, Some (RtStopNotProven i [])), h)),
     rt_ForceStop := (\<lambda>i h. (Some (RtStopNotProven i []), h))\<rparr>\<rparr>"

lemma stop_after_run_unproven:
  "map vm_observed (db_vms (mg_db (exec (stopVMAfterRun demo_stuck ''vm-1'') demo_launched))) = [Stopped]
   \<and> map rv_computeReleased (db_res (mg_db (exec (stopVMAfterRun demo_stuck ''vm-1'') demo_launched))) = [True]
   \<and> dh_up (mg_host (exec (stopVMAfterRun demo_stuck ''vm-1'') demo_launched)) = [''vm-1'']"
  by code_simp

section \<open>Properties\<close>

text \<open>
  C16: A run ends as its criteria say. While the store answers and the manager is open, concluding a run
  that is pending or running ends it in the phase the evaluation gives, with the evaluator and the reason on
  record: it succeeded or failed exactly when its criterion is the guest's result and the guest reported
  that (and the launch did not fail), and is inconclusive otherwise. The stop asked for on completion and
  the report are queued, once.
\<close>

theorem run_concludes_as_evaluated:
  assumes "\<forall>n. \<not> e_down e n" "\<not> mg_closed m" "db_inv (e_digest e) (mg_db m)" "GetRun (mg_db m) i = Inr r"
    "rn_phase r = RPending \<or> rn_phase r = RRunning" "run_state (concludeRun e i trigger) m = (x, m')"
  shows "\<exists>r'. x = Inr r' \<and> GetRun (mg_db m') i = Inr r' \<and> (rn_phase r', rn_evaluatedBy r', rn_reason r') = evaluateRun r trigger
    \<and> (rn_phase r' = RSucceeded \<longleftrightarrow> trigger \<noteq> LaunchFail \<and> rn_criteria r = ''guest_result'' \<and> rn_resultStatus r = ''succeeded'')
    \<and> (rn_phase r' = RFailed \<longleftrightarrow> trigger \<noteq> LaunchFail \<and> rn_criteria r = ''guest_result'' \<and> rn_resultStatus r = ''failed'')
    \<and> rn_phase r' \<in> {RSucceeded, RFailed, RInconclusive} \<and> rn_concludedAt r' \<noteq> None
    \<and> mg_tasks m' = mg_tasks m @ (if rn_onCompletion r = ''stop'' then [StopTask (rn_vmID r)] else [])
        @ (if e_reportGen e then [ReportTask i] else [])
    \<and> mg_host m' = mg_host m"
proof -
  have i: "rn_id r = i" using assms(4) find_key_Some [of rn_id] by (auto simp: GetRun_def split: option.splits)
  have "concluded e m r (evaluateRun r trigger) x m'"
    using concludeRun_up [of e m r trigger] assms i by (simp add: wp_def)
  then show ?thesis
    using i by (auto simp: concluded_def evaluateRun_def split: if_splits)
qed

definition demo_run_db :: vmdb where
  "demo_run_db = fst (CreateVMWithOperation (e_digest demo_menv) 0 ''run-1''
     (demo_create\<lparr>mi_run := Some \<lparr>ra_goal = ''build'', ra_criteria = ''guest_result'', ra_onCompletion = ''stop'', ra_progressEvents = False\<rparr>\<rparr>)
     (OpenDB demo_uuid))"

definition demo_run :: run where
  "demo_run = hd (db_runs demo_run_db)"

lemma demo_run_ok: "GetRun demo_run_db ''run-1'' = Inr demo_run \<and> rn_phase demo_run = RPending \<and> rn_criteria demo_run = ''guest_result''
    \<and> rn_resultStatus demo_run = [] \<and> rn_onCompletion demo_run = ''stop'' \<and> rn_vmID demo_run = ''vm-1''"
  by code_simp

theorem run_concludes_as_evaluated_witness:
  "\<exists>r'. fst (run_state (concludeRun demo_menv ''run-1'' VMTerminal) (demo_start\<lparr>mg_db := demo_run_db\<rparr>)) = Inr r' \<and> rn_phase r' = RInconclusive
    \<and> mg_tasks (exec (concludeRun demo_menv ''run-1'' VMTerminal) (demo_start\<lparr>mg_db := demo_run_db\<rparr>)) = [StopTask ''vm-1'']"
proof -
  have "store_call (e_digest demo_menv) (OpenDB demo_uuid) demo_run_db"
    unfolding demo_run_db_def by (rule c_create)
  then have "db_inv (e_digest demo_menv) demo_run_db" using sc.step_ok OpenDB_inv [OF demo_uuid_ok(1)] by blast
  then show ?thesis
    using run_concludes_as_evaluated [of demo_menv "demo_start\<lparr>mg_db := demo_run_db\<rparr>" "''run-1''" demo_run VMTerminal
        "fst (run_state (concludeRun demo_menv ''run-1'' VMTerminal) (demo_start\<lparr>mg_db := demo_run_db\<rparr>))"
        "exec (concludeRun demo_menv ''run-1'' VMTerminal) (demo_start\<lparr>mg_db := demo_run_db\<rparr>)"] demo_run_ok
    by (auto simp: demo_menv_def demo_start_def)
qed

end
