(* ===== verification/Host_OS.thy ===== *)
theory Host_OS
  imports State_Logic "HOL-Library.AList"
begin

text \<open>
  The machine the privileged daemon and the jailer adapter run on, as far as their code looks at it:
  the VMM processes that are alive, the files of \<open>/proc\<close> that identify them
  (\<open>src/internal/privd/pid_linux.go\<close>) and the durable publication of ownership records
  (\<open>src/internal/durable/file.go\<close>).

  Whatever the operating system decides is answered by an environment, indexed by the number of the call, so
  a statement for all environments covers every pattern of failures: \<open>os_fail\<close> says which system calls fail
  and with which text, \<open>os_exits\<close> which VMMs have exited by then. A VMM exits only by the environment's
  choice, which is what a signal amounts to; that choice takes effect where it can be seen, at the next
  read of \<open>/proc\<close>.
\<close>

section \<open>The environment\<close>

record vmm =
  pr_vm :: string
  pr_pid :: nat
  pr_start :: u64

datatype exec_outcome = ExecOk | ExecFailed bool string | ExecNotStarted string

datatype delivery = Undialed string | Unsent bool string | Unread string | Delivered

record os =
  os_fail :: "nat \<Rightarrow> string option"
  os_exits :: "nat \<Rightarrow> vmm \<Rightarrow> bool"
  os_stat :: "nat \<Rightarrow> int \<Rightarrow> string option"
  os_cmdline :: "nat \<Rightarrow> int \<Rightarrow> string list"
  os_pid :: "nat \<Rightarrow> nat list \<Rightarrow> nat"
  os_start :: "nat \<Rightarrow> u64"
  os_uuid :: "nat \<Rightarrow> string"
  os_clock :: "nat \<Rightarrow> int"
  os_polls :: "nat \<Rightarrow> nat"
  os_exec :: "nat \<Rightarrow> exec_outcome"
  os_ip :: "nat \<Rightarrow> string list \<Rightarrow> string list \<times> string list \<Rightarrow> string option \<times> string list \<times> string list"
  os_pidfile :: "nat \<Rightarrow> string option \<Rightarrow> string option"
  os_delivery :: "nat \<Rightarrow> delivery"
  os_sha256 :: "string \<Rightarrow> string"
  os_cut :: "nat \<Rightarrow> nat"

record machine =
  hs_now :: nat
  hs_boot :: string
  hs_pidns :: string
  hs_procs :: "vmm list"

type_synonym ('m, 'a) mprog = "('m machine_scheme, 'a) state"

text \<open>Every call has a number of its own.\<close>

definition tick :: "('m, nat) mprog" where
  "tick = State (\<lambda>h. (hs_now h, h\<lparr>hs_now := Suc (hs_now h)\<rparr>))"

definition sys :: "os \<Rightarrow> ('m, string option) mprog" where
  "sys os = do { n \<leftarrow> tick; ret (os_fail os n) }"

text \<open>A sequence of system calls that stops at the first failure, which it reports under that call's label.\<close>

fun attempt :: "os \<Rightarrow> string list \<Rightarrow> ('m, string option) mprog" where
  "attempt os [] = ret None"
| "attempt os (label # rest) = do {
     e \<leftarrow> sys os;
     case e of Some t \<Rightarrow> ret (Some (label @ '': '' @ t)) | None \<Rightarrow> attempt os rest }"

abbreviation modify :: "('s \<Rightarrow> 's) \<Rightarrow> ('s, unit) state" where
  "modify f \<equiv> State (\<lambda>h. ((), f h))"

abbreviation gets :: "('s \<Rightarrow> 'a) \<Rightarrow> ('s, 'a) state" where
  "gets f \<equiv> State (\<lambda>h. (f h, h))"

lemma wp_state [simp]: "wp (State f) Q = (\<lambda>h. case f h of (r, h') \<Rightarrow> Q r h')"
  by (rule ext) (simp add: wp_def)

lemma wp_tick [simp]: "wp tick Q = (\<lambda>h. Q (hs_now h) (h\<lparr>hs_now := Suc (hs_now h)\<rparr>))"
  by (simp add: tick_def)

lemma wp_sys [simp]: "wp (sys os) Q = (\<lambda>h. Q (os_fail os (hs_now h)) (h\<lparr>hs_now := Suc (hs_now h)\<rparr>))"
  by (simp add: sys_def)

text \<open>What a run of system calls changes: only the number of the next one.\<close>

lemma attempt_wp: "(\<And>r n. hs_now h \<le> n \<Longrightarrow> Q r (h\<lparr>hs_now := n\<rparr>)) \<Longrightarrow> wp (attempt os ls) Q h"
proof (induction ls arbitrary: h)
  case Nil
  from Nil [of "hs_now h" None] show ?case by simp
next
  case (Cons l ls)
  have "wp (attempt os ls) Q (h\<lparr>hs_now := Suc (hs_now h)\<rparr>)"
    using Cons.prems by (intro Cons.IH) simp
  then show ?case using Cons.prems [of "Suc (hs_now h)"] by (auto split: option.splits)
qed

section \<open>Durable publication\<close>

text \<open>
  \<open>publish\<close> is the rename or the removal that makes the new state visible. Before it every failure leaves the old
  record; after it a failed directory barrier leaves the new one, and reports it as unsettled.
\<close>

definition SyncDir :: "os \<Rightarrow> string \<Rightarrow> ('m, string option) mprog" where
  "SyncDir os path = attempt os [''durable: open directory '' @ path, ''durable: sync directory '' @ path]"

definition WriteFile :: "os \<Rightarrow> string \<Rightarrow> ('m machine_scheme \<Rightarrow> 'm machine_scheme) \<Rightarrow> ('m, string option) mprog" where
  "WriteFile os path publish = do {
     e \<leftarrow> attempt os [''durable: create temporary file for '' @ path, ''durable: write '' @ path, ''durable: chmod '' @ path,
       ''durable: sync '' @ path, ''durable: close '' @ path, ''durable: publish '' @ path];
     case e of
       Some t \<Rightarrow> do { _ \<leftarrow> sys os; ret (Some t) }
     | None \<Rightarrow> do {
         _ \<leftarrow> modify publish;
         d \<leftarrow> SyncDir os path;
         ret (map_option (\<lambda>t. ''durable: sync directory after publishing '' @ path @ '': '' @ t) d) } }"

definition Remove :: "os \<Rightarrow> string \<Rightarrow> bool \<Rightarrow> ('m machine_scheme \<Rightarrow> 'm machine_scheme) \<Rightarrow> ('m, string option) mprog" where
  "Remove os path present publish = (if \<not> present then ret None else do {
     e \<leftarrow> sys os;
     case e of
       Some t \<Rightarrow> ret (Some (''durable: remove '' @ path @ '': '' @ t))
     | None \<Rightarrow> do {
         _ \<leftarrow> modify publish;
         d \<leftarrow> SyncDir os path;
         ret (map_option (\<lambda>t. ''durable: sync directory after removing '' @ path @ '': '' @ t) d) } })"

text \<open>
  The barrier of \<open>RemoveAll\<close> walks up to the nearest ancestor that still exists; \<open>depth\<close> is the number of
  ancestors above the first.
\<close>

definition ErrNotExist :: string where
  "ErrNotExist = ''no such file or directory''"

fun settle_ancestor :: "os \<Rightarrow> nat \<Rightarrow> ('m, string option) mprog" where
  "settle_ancestor os depth = do {
     e \<leftarrow> sys os;
     case e of
       None \<Rightarrow> ret None
     | Some t \<Rightarrow> (case depth of
           0 \<Rightarrow> ret (Some t)
         | Suc d \<Rightarrow> if t = ErrNotExist then settle_ancestor os d else ret (Some t)) }"

declare settle_ancestor.simps [simp del]

definition RemoveAll :: "os \<Rightarrow> string \<Rightarrow> nat \<Rightarrow> ('m machine_scheme \<Rightarrow> 'm machine_scheme) \<Rightarrow> ('m, string option) mprog" where
  "RemoveAll os path depth publish = do {
     e \<leftarrow> sys os;
     case e of
       Some t \<Rightarrow> ret (Some (''durable: remove tree '' @ path @ '': '' @ t))
     | None \<Rightarrow> do {
         _ \<leftarrow> modify publish;
         d \<leftarrow> settle_ancestor os depth;
         ret (map_option (\<lambda>t. ''durable: sync directory after removing '' @ path @ '': '' @ t) d) } }"

definition MkdirAll :: "os \<Rightarrow> string \<Rightarrow> nat \<Rightarrow> ('m machine_scheme \<Rightarrow> 'm machine_scheme) \<Rightarrow> ('m, string option) mprog" where
  "MkdirAll os path depth publish = do {
     e \<leftarrow> sys os;
     case e of
       Some t \<Rightarrow> ret (Some (''durable: mkdir '' @ path @ '': '' @ t))
     | None \<Rightarrow> do {
         _ \<leftarrow> modify publish;
         attempt os ((''durable: absolute directory '' @ path) # replicate (Suc depth) (''durable: sync ancestor after creating '' @ path)) } }"

text \<open>
  The three outcomes of a publication: nothing changed and an error, the new state and an error, the new
  state and none.
\<close>

lemma SyncDir_wp: "(\<And>r n. hs_now h \<le> n \<Longrightarrow> Q r (h\<lparr>hs_now := n\<rparr>)) \<Longrightarrow> wp (SyncDir os path) Q h"
  unfolding SyncDir_def by (rule attempt_wp)

lemma settle_ancestor_wp: "(\<And>r n. hs_now h \<le> n \<Longrightarrow> Q r (h\<lparr>hs_now := n\<rparr>)) \<Longrightarrow> wp (settle_ancestor os depth) Q h"
proof (induction depth arbitrary: h)
  case 0
  from 0 [of "Suc (hs_now h)"] show ?case by (subst settle_ancestor.simps) (simp split: option.splits)
next
  case (Suc d)
  have "wp (settle_ancestor os d) Q (h\<lparr>hs_now := Suc (hs_now h)\<rparr>)"
    using Suc.prems by (intro Suc.IH) simp
  with Suc.prems [of "Suc (hs_now h)"] show ?case by (subst settle_ancestor.simps) (auto split: option.splits)
qed


definition timeless :: "('m machine_scheme \<Rightarrow> 'm machine_scheme) \<Rightarrow> bool" where
  "timeless f \<longleftrightarrow> (\<forall>h n. f (h\<lparr>hs_now := n\<rparr>) = (f h)\<lparr>hs_now := n\<rparr>)"

lemma timelessD: "timeless f \<Longrightarrow> f (h\<lparr>hs_now := n\<rparr>) = (f h)\<lparr>hs_now := n\<rparr>"
  by (simp add: timeless_def)

lemma timeless_now: "timeless f \<Longrightarrow> hs_now (f h) = hs_now h"
proof -
  assume "timeless f"
  then have "f (h\<lparr>hs_now := hs_now h\<rparr>) = (f h)\<lparr>hs_now := hs_now h\<rparr>" unfolding timeless_def by blast
  then have "f h = (f h)\<lparr>hs_now := hs_now h\<rparr>" by simp
  then have "hs_now (f h) = hs_now ((f h)\<lparr>hs_now := hs_now h\<rparr>)" by (rule arg_cong)
  then show ?thesis by simp
qed

lemma WriteFile_wp:
  assumes "timeless f" "\<And>t n. hs_now h \<le> n \<Longrightarrow> Q (Some t) (h\<lparr>hs_now := n\<rparr>)" "\<And>r n. hs_now h \<le> n \<Longrightarrow> Q r ((f h)\<lparr>hs_now := n\<rparr>)"
  shows "wp (WriteFile os path f) Q h"
  unfolding WriteFile_def wp_bind
  by (rule attempt_wp) (use assms(2,3) in \<open>auto simp: timelessD [OF assms(1)] timeless_now [OF assms(1)] intro!: SyncDir_wp split: option.splits\<close>)

lemma Remove_wp:
  assumes "timeless f" "\<And>t n. hs_now h \<le> n \<Longrightarrow> Q (Some t) (h\<lparr>hs_now := n\<rparr>)" "\<And>r n. hs_now h \<le> n \<Longrightarrow> Q r ((f h)\<lparr>hs_now := n\<rparr>)"
    "\<not> present \<Longrightarrow> Q None h"
  shows "wp (Remove os path present f) Q h"
  unfolding Remove_def wp_if wp_bind
  using assms(2-) by (auto simp: timelessD [OF assms(1)] timeless_now [OF assms(1)] intro!: SyncDir_wp split: option.splits)

lemma RemoveAll_wp:
  assumes "timeless f" "\<And>t n. hs_now h \<le> n \<Longrightarrow> Q (Some t) (h\<lparr>hs_now := n\<rparr>)" "\<And>r n. hs_now h \<le> n \<Longrightarrow> Q r ((f h)\<lparr>hs_now := n\<rparr>)"
  shows "wp (RemoveAll os path depth f) Q h"
  unfolding RemoveAll_def wp_bind
  using assms(2-) by (auto simp: timelessD [OF assms(1)] timeless_now [OF assms(1)] intro!: settle_ancestor_wp split: option.splits)

lemma MkdirAll_wp:
  assumes "timeless f" "\<And>t n. hs_now h \<le> n \<Longrightarrow> Q (Some t) (h\<lparr>hs_now := n\<rparr>)" "\<And>r n. hs_now h \<le> n \<Longrightarrow> Q r ((f h)\<lparr>hs_now := n\<rparr>)"
  shows "wp (MkdirAll os path depth f) Q h"
  unfolding MkdirAll_def wp_bind
  using assms(2-) by (auto simp: timelessD [OF assms(1)] timeless_now [OF assms(1)] intro!: attempt_wp simp del: attempt.simps split: option.splits)

section \<open>Process identity\<close>

text \<open>Go's \<open>strings.Fields\<close> and \<open>strings.TrimSpace\<close> on ASCII text.\<close>

definition is_space :: "char \<Rightarrow> bool" where
  "is_space c \<longleftrightarrow> c \<in> {CHR '' '', CHR 0x09, CHR 0x0A, CHR 0x0B, CHR 0x0C, CHR 0x0D}"

definition TrimSpace :: "string \<Rightarrow> string" where
  "TrimSpace s = rev (dropWhile is_space (rev (dropWhile is_space s)))"

fun fields_from :: "string \<Rightarrow> string \<Rightarrow> string list" where
  "fields_from w [] = (if w = [] then [] else [rev w])"
| "fields_from w (c # cs) =
     (if is_space c then (if w = [] then fields_from [] cs else rev w # fields_from [] cs) else fields_from (c # w) cs)"

definition Fields :: "string \<Rightarrow> string list" where
  "Fields s = fields_from [] s"

text \<open>What follows the last closing parenthesis, which ends the name of the executable.\<close>

definition after_comm :: "string \<Rightarrow> string option" where
  "after_comm s = (if CHR '')'' \<in> set s then Some (rev (takeWhile (\<lambda>c. c \<noteq> CHR '')'') (rev s))) else None)"

definition ParseStartTime :: "string \<Rightarrow> string" where
  "ParseStartTime statLine = (case after_comm statLine of
      None \<Rightarrow> []
    | Some rest \<Rightarrow> let fs = Fields (TrimSpace rest) in if length fs < 20 then [] else fs ! 19)"

text \<open>\<open>strings.Index\<close> of the first opening parenthesis and \<open>LastIndex\<close> of the closing one bound the name.\<close>

definition ParseComm :: "string \<Rightarrow> string" where
  "ParseComm s = (let l = length (takeWhile (\<lambda>c. c \<noteq> CHR ''('') s);
       r = length s - Suc (length (takeWhile (\<lambda>c. c \<noteq> CHR '')'') (rev s)))
     in if CHR ''('' \<notin> set s \<or> CHR '')'' \<notin> set s \<or> r \<le> l then [] else take (r - l - 1) (drop (Suc l) s))"

text \<open>
  The line the kernel shows for a process: its pid, the name of its executable in parentheses, its state, the
  eighteen fields up to the start time, the start time and more.
\<close>

definition stat_text :: "nat \<Rightarrow> string \<Rightarrow> string \<Rightarrow> string list \<Rightarrow> string \<Rightarrow> string list \<Rightarrow> string" where
  "stat_text pid comm st mid start rest = format_uint pid @ '' ('' @ comm @ '') '' @
     concat (map (\<lambda>f. f @ '' '') (st # mid @ start # rest))"

definition vmm_stat :: "vmm \<Rightarrow> string" where
  "vmm_stat p = stat_text (pr_pid p) ''firecracker'' ''S'' (replicate 18 ''0'') (format_uint (unat (pr_start p))) [''0'']"

datatype 'a content = Missing | Unreadable string | Content 'a

text \<open>
  A read of \<open>/proc/<pid>/stat\<close>. At a pid that no VMM has, the environment says what stands there.
\<close>

definition reap :: "os \<Rightarrow> nat \<Rightarrow> 'm machine_scheme \<Rightarrow> 'm machine_scheme" where
  "reap os n h = h\<lparr>hs_procs := filter (\<lambda>p. \<not> os_exits os n p) (hs_procs h)\<rparr>"

definition proc_stat :: "os \<Rightarrow> int \<Rightarrow> ('m, string content) mprog" where
  "proc_stat os pid = do {
     n \<leftarrow> tick;
     _ \<leftarrow> modify (reap os n);
     ps \<leftarrow> gets hs_procs;
     ret (case os_fail os n of
         Some t \<Rightarrow> Unreadable t
       | None \<Rightarrow> (case find (\<lambda>p. int (pr_pid p) = pid) ps of
             Some p \<Rightarrow> Content (vmm_stat p)
           | None \<Rightarrow> (case os_stat os n pid of None \<Rightarrow> Missing | Some t \<Rightarrow> Content t))) }"

definition processAlive :: "os \<Rightarrow> int \<Rightarrow> string \<Rightarrow> ('m, string + bool) mprog" where
  "processAlive os pid starttime =
     (if pid \<le> 0 then ret (Inl ''invalid process ID'')
      else if parse_uint64 starttime = None then ret (Inl ''invalid process starttime'')
      else do {
        data \<leftarrow> proc_stat os pid;
        ret (case data of
            Missing \<Rightarrow> Inr False
          | Unreadable t \<Rightarrow> Inl (''read process identity: '' @ t)
          | Content s \<Rightarrow>
              let cur = ParseStartTime s in
              if parse_uint64 cur = None then Inl ''unreadable process starttime''
              else if cur \<noteq> starttime then Inr False
              else let st = hd (Fields (case after_comm s of None \<Rightarrow> [] | Some rest \<Rightarrow> rest))
                   in Inr (st \<noteq> ''Z'' \<and> st \<noteq> ''X'')) })"

definition PIDAlive :: "os \<Rightarrow> int \<Rightarrow> string \<Rightarrow> ('m, bool) mprog" where
  "PIDAlive os pid starttime = do { r \<leftarrow> processAlive os pid starttime; ret (r = Inr True) }"

definition lower_hex :: "char \<Rightarrow> bool" where
  "lower_hex c \<longleftrightarrow> (let k = (of_char c :: nat) in (48 \<le> k \<and> k \<le> 57) \<or> (97 \<le> k \<and> k \<le> 102))"

definition bootIDPattern :: "string \<Rightarrow> bool" where
  "bootIDPattern s \<longleftrightarrow> length s = 36 \<and>
     list_all (\<lambda>(i, c). if i \<in> {8, 13, 18, 23} then c = CHR ''-'' else lower_hex c) (enumerate 0 s)"

definition pidNamespacePattern :: "string \<Rightarrow> bool" where
  "pidNamespacePattern s \<longleftrightarrow> length s \<ge> 7 \<and> take 5 s = ''pid:['' \<and> last s = CHR '']''
     \<and> list_all (\<lambda>c. char_digit c \<noteq> None) (butlast (drop 5 s))"

definition hostIdentity :: "os \<Rightarrow> ('m, string + string \<times> string) mprog" where
  "hostIdentity os = do {
     e \<leftarrow> attempt os [''read host boot identity'', ''read PID namespace identity''];
     h \<leftarrow> gets (\<lambda>h. (TrimSpace (hs_boot h), hs_pidns h));
     ret (case e of
         Some t \<Rightarrow> Inl t
       | None \<Rightarrow> if \<not> bootIDPattern (fst h) \<or> \<not> pidNamespacePattern (snd h) then Inl ''invalid kernel identity'' else Inr h) }"


subsection \<open>The start time is read back\<close>

definition plain_word :: "string \<Rightarrow> bool" where
  "plain_word w \<longleftrightarrow> w \<noteq> [] \<and> list_all (\<lambda>c. \<not> is_space c \<and> c \<noteq> CHR '')'') w"

lemma fields_from_word: "\<forall>c \<in> set u. \<not> is_space c \<Longrightarrow> fields_from w (u @ s) = fields_from (rev u @ w) s"
  by (induction u arbitrary: w) simp_all

lemma Fields_word: "plain_word w \<Longrightarrow> Fields (w @ CHR '' '' # s) = w # Fields s"
  using fields_from_word [of w "[]" "CHR '' '' # s"]
  by (simp add: Fields_def plain_word_def list_all_iff is_space_def)

lemma Fields_words: "list_all plain_word ws \<Longrightarrow> Fields (concat (map (\<lambda>w. w @ '' '') ws)) = ws"
  by (induction ws) (simp_all add: Fields_word, simp add: Fields_def)

lemma Fields_lead: "Fields (dropWhile is_space s) = Fields s"
  by (induction s) (simp_all add: Fields_def)

lemma fields_from_spaces: "\<forall>c \<in> set s. is_space c \<Longrightarrow> fields_from w s = (if w = [] then [] else [rev w])"
  by (induction s arbitrary: w) auto

lemma fields_from_trail: "\<forall>c \<in> set t. is_space c \<Longrightarrow> fields_from w (s @ t) = fields_from w s"
  by (induction s arbitrary: w) (auto simp: fields_from_spaces)

lemma Fields_TrimSpace: "Fields (TrimSpace s) = Fields s"
proof -
  let ?u = "dropWhile is_space s"
  have u: "?u = TrimSpace s @ rev (takeWhile is_space (rev ?u))"
    by (simp add: TrimSpace_def flip: rev_append)
  have "\<forall>c \<in> set (rev (takeWhile is_space (rev ?u))). is_space c"
    by (auto dest: set_takeWhileD)
  from fields_from_trail [OF this, of "[]" "TrimSpace s"] have "Fields ?u = Fields (TrimSpace s)"
    by (simp add: Fields_def flip: u)
  then show ?thesis by (simp add: Fields_lead)
qed

lemma digit_char_plain: "d < 10 \<Longrightarrow> \<not> is_space (digit_char d) \<and> digit_char d \<noteq> CHR '')'' \<and> digit_char d \<noteq> CHR ''(''"
proof -
  assume "d < 10"
  then have k: "char_digit (digit_char d) \<noteq> None" by simp
  have "char_digit c = None" if "is_space c \<or> c = CHR '')'' \<or> c = CHR ''(''" for c
    using that by (auto simp: is_space_def char_digit_def)
  with k show ?thesis by metis
qed

lemma format_uint_chars: "c \<in> set (format_uint n) \<Longrightarrow> \<not> is_space c \<and> c \<noteq> CHR '')'' \<and> c \<noteq> CHR ''(''"
proof (induction n rule: format_uint.induct)
  case (1 n)
  then show ?case
    using digit_char_plain [of "n mod 10"] digit_char_plain [of n] by (subst (asm) format_uint.simps) (auto split: if_splits)
qed

lemma format_uint_plain [simp]: "plain_word (format_uint n)"
  using format_uint_chars [of _ n] by (auto simp: plain_word_def list_all_iff)

lemma after_comm_stat:
  assumes "list_all plain_word (st # mid @ start # rest)"
  shows "after_comm (stat_text pid comm st mid start rest) = Some ('' '' @ concat (map (\<lambda>f. f @ '' '') (st # mid @ start # rest)))"
proof -
  let ?t = "'' '' @ concat (map (\<lambda>f. f @ '' '') (st # mid @ start # rest))"
  have no: "\<forall>c \<in> set ?t. c \<noteq> CHR '')''" using assms by (auto simp: plain_word_def list_all_iff)
  have eq: "stat_text pid comm st mid start rest = (format_uint pid @ '' ('' @ comm @ '')'') @ ?t" by (simp add: stat_text_def)
  have "takeWhile (\<lambda>c. c \<noteq> CHR '')'') (rev ?t @ CHR '')'' # rev (format_uint pid @ '' ('' @ comm)) = rev ?t"
    using no by (subst takeWhile_append2) auto
  then show ?thesis unfolding after_comm_def eq by simp
qed

lemma ParseStartTime_stat:
  assumes "list_all plain_word (st # mid @ start # rest)" "length mid = 18"
  shows "ParseStartTime (stat_text pid comm st mid start rest) = start"
proof -
  have lead: "Fields ('' '' @ x) = Fields x" for x by (simp add: Fields_def is_space_def)
  show ?thesis
    unfolding ParseStartTime_def after_comm_stat [OF assms(1)] option.case Fields_TrimSpace lead Fields_words [OF assms(1)]
    using assms(2) by (simp add: Let_def nth_append)
qed

lemma plain_vmm: "list_all plain_word (''S'' # replicate 18 ''0'' @ format_uint k # [''0''])"
  by (simp add: list_all_iff) (simp add: plain_word_def is_space_def)

lemma vmm_stat_reads:
  "ParseStartTime (vmm_stat p) = format_uint (unat (pr_start p))"
  "after_comm (vmm_stat p) = Some r \<Longrightarrow> hd (Fields r) = ''S''" "after_comm (vmm_stat p) \<noteq> None"
proof -
  note w = plain_vmm [of "unat (pr_start p)"]
  show "ParseStartTime (vmm_stat p) = format_uint (unat (pr_start p))"
    unfolding vmm_stat_def by (rule ParseStartTime_stat [OF w]) simp
  have lead: "Fields ('' '' @ x) = Fields x" for x by (simp add: Fields_def is_space_def)
  show "hd (Fields r) = ''S''" if "after_comm (vmm_stat p) = Some r"
  proof -
    have "r = '' '' @ concat (map (\<lambda>f. f @ '' '') (''S'' # replicate 18 ''0'' @ format_uint (unat (pr_start p)) # [''0'']))"
      using that unfolding vmm_stat_def after_comm_stat [OF w] by (simp only: option.inject)
    then have "Fields r = ''S'' # replicate 18 ''0'' @ format_uint (unat (pr_start p)) # [''0'']"
      by (simp only: lead Fields_words [OF w])
    then show ?thesis by simp
  qed
  show "after_comm (vmm_stat p) \<noteq> None" unfolding vmm_stat_def after_comm_stat [OF w] by simp
qed

end
