(* ===== verification/Privd_Ledger.thy ===== *)
theory Privd_Ledger
  imports Host_OS "HOL-Library.Char_ord" "HOL-Library.List_Lexorder"
begin

text \<open>
  The privileged daemon's protocol (\<open>src/internal/privd/proto.go\<close>), its ownership records
  (\<open>src/internal/privd/ledger.go\<close>) and the host state its operations change.

  A directory of per-VM files is a table from ids to what is in the file; a file that is not the daemon's own or does
  not decode is \<open>Corrupt\<close>. A request's payload is a JSON object of which every verb reads the fields it
  knows, and \<open>None\<close> when it does not decode.
\<close>

section \<open>Protocol\<close>

definition id_char :: "char \<Rightarrow> bool" where
  "id_char c \<longleftrightarrow> (let k = (of_char c :: nat) in (48 \<le> k \<and> k \<le> 57) \<or> (97 \<le> k \<and> k \<le> 122))"

definition ValidVMID :: "string \<Rightarrow> bool" where
  "ValidVMID s = (case s of [] \<Rightarrow> False
     | c # cs \<Rightarrow> id_char c \<and> length cs \<le> 62 \<and> list_all (\<lambda>d. id_char d \<or> d = CHR ''-'') cs)"

definition StagedFileNames :: "string list" where
  "StagedFileNames = [''vmlinux'', ''rootfs.ext4'', ''config.ext4'', ''workspace.ext4'', ''fc-config.json'']"

definition ValidStagedName :: "string \<Rightarrow> bool" where
  "ValidStagedName name = list_ex (\<lambda>allowed. name = allowed) StagedFileNames"

definition truncateName :: "string \<Rightarrow> string" where
  "truncateName name = (if 64 < length name then take 64 name @ [CHR 0xE2, CHR 0x80, CHR 0xA6] else name)"

text \<open>\<open>%q\<close> of text in which nothing needs an escape.\<close>

definition quoted :: "string \<Rightarrow> string" where
  "quoted s = CHR 0x22 # s @ [CHR 0x22]"

record staged_file =
  sf_name :: string
  sf_SHA256 :: string

record payload =
  py_vmID :: string
  py_CIDR :: string
  py_UID :: int
  py_GID :: int
  py_CID :: u32
  py_stageDir :: string
  py_files :: "staged_file list"
  py_kind :: string
  py_opID :: string

record request =
  pq_version :: int
  pq_verb :: string
  pq_opID :: string
  pq_payload :: "payload option"

text \<open>The only payload a mutation answers with is the process identity of a started VM.\<close>

record response =
  pa_OK :: bool
  pa_cause :: string
  pa_message :: string
  pa_payload :: "(int \<times> string) option"

definition okResp :: "(int \<times> string) option \<Rightarrow> response" where
  "okResp p = \<lparr>pa_OK = True, pa_cause = [], pa_message = [], pa_payload = p\<rparr>"

definition errResp :: "string \<Rightarrow> string \<Rightarrow> response" where
  "errResp cause message = \<lparr>pa_OK = False, pa_cause = cause, pa_message = message, pa_payload = None\<rparr>"

text \<open>An error of the backend: with a wire cause of its own, or without.\<close>

datatype backend_error = BackendError string string | PlainError string

definition backendErrResp :: "backend_error \<Rightarrow> response" where
  "backendErrResp e = (case e of BackendError cause msg \<Rightarrow> errResp cause msg | PlainError msg \<Rightarrow> errResp ''exec_failed'' msg)"

definition error_text :: "backend_error \<Rightarrow> string" where
  "error_text e = (case e of
      BackendError cause msg \<Rightarrow> ''privd backend '' @ cause @ (if msg \<noteq> [] then '': '' @ msg else [])
    | PlainError msg \<Rightarrow> msg)"

section \<open>State\<close>

record vm_entry =
  ve_startAttempted :: bool
  ve_networkOpID :: string
  ve_startOpID :: string
  ve_vmID :: string
  ve_UID :: int
  ve_GID :: int
  ve_CID :: u32
  ve_PID :: int
  ve_startTime :: string
  ve_bootID :: string
  ve_pidNamespace :: string
  ve_netCIDR :: string
  ve_createdAt :: int

datatype ledger_file = Corrupt | Entry vm_entry

datatype operation_state = OpnPending | OpnSucceeded | OpnFailed | OpnUnknown

record operation_record =
  jr_request :: request
  jr_state :: operation_state
  jr_response :: "response option"

text \<open>A jail: its tree, with or without the chroot inside, the files copied into it and the pid file.\<close>

record jail =
  jl_root :: bool
  jl_files :: "(string \<times> string) list"
  jl_pidfile :: "string option"

record privd_host = machine +
  hs_ledger :: "(string \<times> ledger_file) list"
  hs_opfiles :: "(string \<times> operation_record option) list"
  hs_ops :: "(string \<times> operation_record) list"
  hs_operr :: bool
  hs_netns :: "string list"
  hs_ifs :: "string list"
  hs_jails :: "(string \<times> jail) list"
  hs_stage :: "(string \<times> (string \<times> string) list) list"

type_synonym ('m, 'a) pprog = "('m privd_host_scheme, 'a) state"

record privd_cfg =
  pc_allowedUID :: int
  pc_UIDMin :: int
  pc_UIDMax :: int
  pc_stageRoot :: string
  pc_jailBase :: string
  pc_firecracker :: string
  pc_jailer :: string

section \<open>The ledger\<close>

definition minGuestCID :: u32 where
  "minGuestCID = 3"

definition entry_valid :: "string \<Rightarrow> vm_entry \<Rightarrow> bool" where
  "entry_valid vmID e \<longleftrightarrow> ve_vmID e = vmID \<and> 0 \<le> ve_PID e
     \<and> (if ve_PID e = 0
        then ve_UID e = 0 \<and> ve_GID e = 0 \<and> ve_CID e = 0 \<and> ve_startTime e = [] \<and> ve_bootID e = [] \<and> ve_pidNamespace e = []
        else parse_uint64 (ve_startTime e) \<noteq> None \<and> minGuestCID \<le> ve_CID e \<and> 0 \<le> ve_UID e \<and> 0 \<le> ve_GID e)"

definition ledger_get :: "os \<Rightarrow> string \<Rightarrow> ('m, vm_entry content) pprog" where
  "ledger_get os vmID = do {
     f \<leftarrow> gets (\<lambda>h. map_of (hs_ledger h) vmID);
     e \<leftarrow> sys os;
     ret (case f of
         None \<Rightarrow> Missing
       | Some file \<Rightarrow> (case e of
             Some t \<Rightarrow> Unreadable t
           | None \<Rightarrow> (case file of
                 Corrupt \<Rightarrow> Unreadable (''ledger decode '' @ vmID)
               | Entry v \<Rightarrow> if entry_valid vmID v then Content v
                            else Unreadable (''ledger '' @ vmID @ (if ve_vmID v \<noteq> vmID \<or> ve_PID v < 0
                              then '': invalid ownership record'' else '': incomplete process ownership''))))) }"

text \<open>\<open>StartAttempted\<close> is never written.\<close>

definition ledger_put :: "os \<Rightarrow> vm_entry \<Rightarrow> ('m, string option) pprog" where
  "ledger_put os v = do {
     e \<leftarrow> WriteFile os (''ledger/'' @ ve_vmID v)
       (\<lambda>h. h\<lparr>hs_ledger := AList.update (ve_vmID v) (Entry (v\<lparr>ve_startAttempted := False\<rparr>)) (hs_ledger h)\<rparr>);
     ret (map_option (\<lambda>t. ''ledger write '' @ ve_vmID v @ '': '' @ t) e) }"

definition ledger_delete :: "os \<Rightarrow> string \<Rightarrow> ('m, string option) pprog" where
  "ledger_delete os vmID = do {
     f \<leftarrow> gets (\<lambda>h. map_of (hs_ledger h) vmID \<noteq> None);
     e \<leftarrow> Remove os (''ledger/'' @ vmID) f (\<lambda>h. h\<lparr>hs_ledger := AList.delete vmID (hs_ledger h)\<rparr>);
     ret (map_option (\<lambda>t. ''ledger delete '' @ vmID @ '': '' @ t) e) }"

fun get_all :: "os \<Rightarrow> string list \<Rightarrow> ('m, string + vm_entry list) pprog" where
  "get_all os [] = ret (Inr [])"
| "get_all os (i # is) = do {
     r \<leftarrow> ledger_get os i;
     case r of
       Content v \<Rightarrow> do { rest \<leftarrow> get_all os is; ret (map_sum id (\<lambda>vs. v # vs) rest) }
     | Missing \<Rightarrow> ret (Inl (''ledger scan: '' @ i @ '': '' @ ErrNotExist))
     | Unreadable t \<Rightarrow> ret (Inl (''ledger scan: '' @ i @ '': '' @ t)) }"

text \<open>The scan goes through the directory in the order of the file names.\<close>

definition ledger_all :: "os \<Rightarrow> ('m, string + vm_entry list) pprog" where
  "ledger_all os = do {
     ids \<leftarrow> gets (\<lambda>h. filter ValidVMID (sort_key (\<lambda>i. i @ ''.json'') (remdups (map fst (hs_ledger h)))));
     e \<leftarrow> sys os;
     case e of Some t \<Rightarrow> ret (Inl (''ledger scan: '' @ t)) | None \<Rightarrow> get_all os ids }"

text \<open>
  Whether the process an entry names is alive. Only absence, another start time or another boot of the host
  is a proof that it is gone.
\<close>

definition entryAlive :: "os \<Rightarrow> vm_entry \<Rightarrow> ('m, string + bool) mprog" where
  "entryAlive os v =
     (if ve_PID v = 0 then ret (Inr False)
      else if \<not> bootIDPattern (ve_bootID v) \<or> \<not> pidNamespacePattern (ve_pidNamespace v)
      then ret (Inl ''missing or malformed trusted process ownership'')
      else do {
        i \<leftarrow> hostIdentity os;
        case i of
          Inl t \<Rightarrow> ret (Inl t)
        | Inr (boot, ns) \<Rightarrow>
            if ve_bootID v \<noteq> boot then ret (Inr False)
            else if ve_pidNamespace v \<noteq> ns then ret (Inl ''process PID namespace differs; ownership cannot be observed'')
            else processAlive os (ve_PID v) (ve_startTime v) })"

end
