(* ===== verification/Privd_Backend.thy ===== *)
theory Privd_Backend
  imports Privd_Ledger
begin

text \<open>
  The host operations of the privileged daemon: the network half
  (\<open>src/internal/privd/netops.go\<close>, \<open>src/internal/network/names.go\<close>) and the VM half
  (\<open>src/internal/privd/vmops.go\<close>).

  The \<open>ip\<close> and \<open>nft\<close> programs, the jailer and the guest are the environment's: \<open>os_ip\<close> says what a command does to the
  namespaces and host interfaces, \<open>os_exec\<close> how the jailer ends, and \<open>os_pidfile\<close> what the guest makes of the pid file
  in its own tree. A jailer that started a VMM adds a process and writes its pid; one that failed may
  have started one all the same.
\<close>

section \<open>Network\<close>

definition NamespaceName :: "string \<Rightarrow> string" where
  "NamespaceName i = ''vmobs-'' @ i"

definition VethName :: "os \<Rightarrow> string \<Rightarrow> string" where
  "VethName os i = ''veth-'' @ take 10 (os_sha256 os i)"

definition NetSetupCommands :: "os \<Rightarrow> string \<Rightarrow> string list list" where
  "NetSetupCommands os i = (let ns = NamespaceName i; veth = VethName os i in
     [[''ip'', ''netns'', ''add'', ns],
      [''ip'', ''netns'', ''exec'', ns, ''ip'', ''link'', ''set'', ''lo'', ''up''],
      [''ip'', ''netns'', ''exec'', ns, ''ip'', ''tuntap'', ''add'', ''dev'', ''tap0'', ''mode'', ''tap''],
      [''ip'', ''netns'', ''exec'', ns, ''ip'', ''link'', ''set'', ''tap0'', ''up''],
      [''ip'', ''link'', ''add'', veth, ''type'', ''veth'', ''peer'', ''name'', ''eth-up'', ''netns'', ns],
      [''ip'', ''link'', ''set'', veth, ''up''],
      [''ip'', ''netns'', ''exec'', ns, ''ip'', ''link'', ''set'', ''eth-up'', ''up''],
      [''ip'', ''netns'', ''exec'', ns, ''nft'', ''-f'', ''-'']])"

definition NetTeardownCommands :: "os \<Rightarrow> string \<Rightarrow> string list list" where
  "NetTeardownCommands os i = [[''ip'', ''link'', ''del'', VethName os i], [''ip'', ''netns'', ''del'', NamespaceName i]]"

definition NetProbeCommands :: "os \<Rightarrow> string \<Rightarrow> string list list" where
  "NetProbeCommands os i = (let ns = NamespaceName i in
     [[''ip'', ''netns'', ''exec'', ns, ''ip'', ''link'', ''show'', ''tap0''],
      [''ip'', ''netns'', ''exec'', ns, ''ip'', ''link'', ''show'', ''eth-up''],
      [''ip'', ''link'', ''show'', VethName os i]])"

definition runCmd :: "os \<Rightarrow> string list \<Rightarrow> ('m, string option) pprog" where
  "runCmd os argv = do {
     n \<leftarrow> tick;
     r \<leftarrow> gets (\<lambda>h. os_ip os n argv (hs_netns h, hs_ifs h));
     _ \<leftarrow> modify (\<lambda>h. h\<lparr>hs_netns := fst (snd r), hs_ifs := snd (snd r)\<rparr>);
     ret (map_option (\<lambda>t. ''privd: exec '' @ concat argv @ '': '' @ t) (fst r)) }"

fun runAll :: "os \<Rightarrow> string list list \<Rightarrow> ('m, string option) pprog" where
  "runAll os [] = ret None"
| "runAll os (argv # cmds) = do {
     e \<leftarrow> runCmd os argv;
     case e of Some t \<Rightarrow> ret (Some t) | None \<Rightarrow> runAll os cmds }"

text \<open>Every command is run, and the errors are collected.\<close>

fun runEach :: "os \<Rightarrow> string list list \<Rightarrow> ('m, string) pprog" where
  "runEach os [] = ret []"
| "runEach os (argv # cmds) = do {
     e \<leftarrow> runCmd os argv;
     rest \<leftarrow> runEach os cmds;
     ret ((case e of None \<Rightarrow> [] | Some t \<Rightarrow> t @ [CHR 0x0A]) @ rest) }"

definition netnsExists :: "os \<Rightarrow> string \<Rightarrow> ('m, string + bool) pprog" where
  "netnsExists os vmID = do {
     e \<leftarrow> sys os;
     names \<leftarrow> gets hs_netns;
     ret (case e of Some t \<Rightarrow> Inl (''privd: probe network namespaces: '' @ t) | None \<Rightarrow> Inr (NamespaceName vmID \<in> set names)) }"

definition probeHealthy :: "os \<Rightarrow> string \<Rightarrow> ('m, bool) pprog" where
  "probeHealthy os vmID = do { e \<leftarrow> runAll os (NetProbeCommands os vmID); ret (e = None) }"

definition AllocateNetworkContext :: "os \<Rightarrow> string \<Rightarrow> ('m, string option) pprog" where
  "AllocateNetworkContext os vmID = do {
     ex \<leftarrow> netnsExists os vmID;
     case ex of
       Inl t \<Rightarrow> ret (Some t)
     | Inr exists \<Rightarrow> do {
         healthy \<leftarrow> (if exists then probeHealthy os vmID else ret False);
         if exists \<and> healthy then ret None
         else do {
           _ \<leftarrow> (if exists then runEach os (NetTeardownCommands os vmID) else ret []);
           runAll os (NetSetupCommands os vmID) } } }"

definition ReleaseNetworkContext :: "os \<Rightarrow> string \<Rightarrow> ('m, string option) pprog" where
  "ReleaseNetworkContext os vmID = do {
     errs \<leftarrow> runEach os (NetTeardownCommands os vmID);
     ex \<leftarrow> netnsExists os vmID;
     case ex of
       Inl t \<Rightarrow> ret (Some (errs @ t))
     | Inr exists \<Rightarrow>
         if exists then ret (Some (errs @ ''privd: network namespace '' @ NamespaceName vmID @ '' survives teardown''))
         else do {
           e \<leftarrow> sys os;
           ifs \<leftarrow> gets hs_ifs;
           ret (case e of
               Some t \<Rightarrow> Some (errs @ ''privd: probe host interfaces after teardown: '' @ t)
             | None \<Rightarrow> if VethName os vmID \<in> set ifs
                 then Some (errs @ ''privd: host interface '' @ VethName os vmID @ '' survives teardown'') else None) } }"

section \<open>The jail\<close>

definition in_jail :: "string \<Rightarrow> (jail \<Rightarrow> jail) \<Rightarrow> 'm privd_host_scheme \<Rightarrow> 'm privd_host_scheme" where
  "in_jail vmID f h = (case map_of (hs_jails h) vmID of
      None \<Rightarrow> h
    | Some j \<Rightarrow> h\<lparr>hs_jails := AList.update vmID (f j) (hs_jails h)\<rparr>)"

definition new_jail :: "string \<Rightarrow> 'm privd_host_scheme \<Rightarrow> 'm privd_host_scheme" where
  "new_jail vmID h = (if map_of (hs_jails h) vmID = None
     then h\<lparr>hs_jails := AList.update vmID \<lparr>jl_root = False, jl_files = [], jl_pidfile = None\<rparr> (hs_jails h)\<rparr> else h)"

text \<open>The error of \<open>openDirAt\<close>: of the \<open>mkdirat\<close>, of the \<open>openat\<close>, or that there is nothing under that name.\<close>

definition open_error :: "string option \<Rightarrow> string option \<Rightarrow> string" where
  "open_error made opened = (case made of Some t \<Rightarrow> t | None \<Rightarrow> (case opened of Some t \<Rightarrow> t | None \<Rightarrow> ErrNotExist))"

text \<open>
  \<open>jailRoot\<close> opens the tree down to the chroot. Beside the error it answers whether \<open>errors.Is(err, os.ErrNotExist)\<close> holds of it:
  the two inner directories are reported by a \<open>BackendError\<close>, which wraps nothing.
\<close>

definition jailRoot :: "os \<Rightarrow> string \<Rightarrow> bool \<Rightarrow> ('m, (backend_error \<times> bool) option) pprog" where
  "jailRoot os vmID create = do {
     b \<leftarrow> (if create then attempt os [''privd: mkdir jail base'', ''privd: chmod jail base''] else ret None);
     case b of
       Some t \<Rightarrow> ret (Some (PlainError t, False))
     | None \<Rightarrow> do {
         o1 \<leftarrow> sys os;
         case o1 of
           Some t \<Rightarrow> ret (Some (PlainError (''privd: open jail base: '' @ t), t = ErrNotExist))
         | None \<Rightarrow> do {
             m1 \<leftarrow> (if create then sys os else ret None);
             _ \<leftarrow> modify (if create \<and> m1 = None then new_jail vmID else id);
             o2 \<leftarrow> sys os;
             j \<leftarrow> gets (\<lambda>h. map_of (hs_jails h) vmID);
             case (m1, o2, j) of
               (None, None, Some _) \<Rightarrow> do {
                 m3 \<leftarrow> (if create then sys os else ret None);
                 _ \<leftarrow> modify (if create \<and> m3 = None then in_jail vmID (\<lambda>j. j\<lparr>jl_root := True\<rparr>) else id);
                 o3 \<leftarrow> sys os;
                 k \<leftarrow> gets (\<lambda>h. map_of (hs_jails h) vmID);
                 ret (if m3 = None \<and> o3 = None \<and> (case k of Some j \<Rightarrow> jl_root j | None \<Rightarrow> False) then None
                      else Some (BackendError ''invalid_state'' (''jail root for '' @ vmID @ '' is not a directory privd will open: '' @ open_error m3 o3), False)) }
             | _ \<Rightarrow> ret (Some (BackendError ''invalid_state'' (''jail dir for '' @ vmID @ '' is not a directory privd will open: '' @ open_error m1 o2), False)) } } }"

text \<open>\<open>strconv.Atoi\<close>.\<close>

definition Atoi :: "string \<Rightarrow> int option" where
  "Atoi s = (let neg = (s \<noteq> [] \<and> hd s = CHR ''-''); t = (if s \<noteq> [] \<and> hd s \<in> {CHR ''-'', CHR ''+''} then tl s else s) in
     if t = [] then None
     else case parse_digits 0 t of
         None \<Rightarrow> None
       | Some k \<Rightarrow> if neg then (if k \<le> 2 ^ 63 then Some (- int k) else None) else (if k < 2 ^ 63 then Some (int k) else None))"

definition maxPidFileBytes :: nat where
  "maxPidFileBytes = 32"

definition readPidFileAt :: "os \<Rightarrow> string \<Rightarrow> ('m, string content) pprog" where
  "readPidFileAt os vmID = do {
     n \<leftarrow> tick;
     f \<leftarrow> gets (\<lambda>h. os_pidfile os n (Option.bind (map_of (hs_jails h) vmID) jl_pidfile));
     ret (case f of
         None \<Rightarrow> Missing
       | Some t \<Rightarrow> (case os_fail os n of Some e \<Rightarrow> Unreadable e | None \<Rightarrow> Content (TrimSpace (take maxPidFileBytes t)))) }"

section \<open>Starting\<close>

definition verifyStagedFile :: "os \<Rightarrow> (string \<times> string) list \<Rightarrow> staged_file \<Rightarrow> ('m, backend_error + string) mprog" where
  "verifyStagedFile os dir f =
     (if \<not> ValidStagedName (sf_name f)
      then ret (Inl (BackendError ''bad_request'' (quoted (truncateName (sf_name f)) @ '' is not a staged file name'')))
      else case map_of dir (sf_name f) of
        None \<Rightarrow> ret (Inl (PlainError (''privd: open staged file '' @ quoted (sf_name f) @ '': '' @ ErrNotExist)))
      | Some data \<Rightarrow> do {
          e \<leftarrow> attempt os [''privd: open staged file '' @ quoted (sf_name f), ''privd: fstat staged file '' @ quoted (sf_name f)];
          irregular \<leftarrow> sys os;
          r \<leftarrow> attempt os [''privd: hash staged file '' @ quoted (sf_name f)];
          ret (case (e, irregular, r) of
              (Some t, _, _) \<Rightarrow> Inl (PlainError t)
            | (None, Some _, _) \<Rightarrow> Inl (PlainError (''privd: staged file '' @ quoted (sf_name f) @ '' is not a regular file''))
            | (None, None, Some t) \<Rightarrow> Inl (PlainError t)
            | (None, None, None) \<Rightarrow> if os_sha256 os data \<noteq> sf_SHA256 f
                then Inl (BackendError ''digest_mismatch'' (''file '' @ sf_name f @ '': digest mismatch (got '' @ os_sha256 os data
                       @ '', want '' @ sf_SHA256 f @ '')''))
                else Inr data) })"

fun verify_all :: "os \<Rightarrow> (string \<times> string) list \<Rightarrow> staged_file list \<Rightarrow> ('m, backend_error + string list) mprog" where
  "verify_all os dir [] = ret (Inr [])"
| "verify_all os dir (f # fs) = do {
     r \<leftarrow> verifyStagedFile os dir f;
     case r of
       Inl e \<Rightarrow> ret (Inl e)
     | Inr data \<Rightarrow> do { rest \<leftarrow> verify_all os dir fs; ret (map_sum id (\<lambda>ds. data # ds) rest) } }"

text \<open>The copy is made from the verified descriptor into a name that must not exist yet.\<close>

definition copyFromPinned :: "os \<Rightarrow> string \<Rightarrow> staged_file \<Rightarrow> string \<Rightarrow> ('m, backend_error option) pprog" where
  "copyFromPinned os vmID f data = do {
     e1 \<leftarrow> sys os;
     case e1 of
       Some t \<Rightarrow> ret (Some (PlainError (''privd: seek staged file '' @ quoted (sf_name f) @ '': '' @ t)))
     | None \<Rightarrow>
         if \<not> ValidStagedName (sf_name f)
         then ret (Some (BackendError ''bad_request'' (''staged file name '' @ quoted (sf_name f) @ '' is not one privd copies'')))
         else do {
           e2 \<leftarrow> sys os;
           there \<leftarrow> gets (\<lambda>h. case map_of (hs_jails h) vmID of Some j \<Rightarrow> map_of (jl_files j) (sf_name f) \<noteq> None | None \<Rightarrow> False);
           if there then ret (Some (BackendError ''invalid_state'' (''jail root already holds '' @ sf_name f
                @ '' from an earlier start; release the VM before starting it again'')))
           else case e2 of
             Some t \<Rightarrow> ret (Some (BackendError ''invalid_state'' (''cannot create '' @ sf_name f @ '' in the jail root: '' @ t)))
           | None \<Rightarrow> do {
               e3 \<leftarrow> sys os;
               _ \<leftarrow> modify (in_jail vmID (\<lambda>j. j\<lparr>jl_files := AList.update (sf_name f) (if e3 = None then data else []) (jl_files j)\<rparr>));
               case e3 of
                 Some t \<Rightarrow> ret (Some (PlainError (''privd: copy '' @ quoted (sf_name f) @ '': '' @ t)))
               | None \<Rightarrow> do {
                   e4 \<leftarrow> attempt os [''privd: chown '' @ quoted (sf_name f), ''privd: close dst '' @ quoted (sf_name f)];
                   ret (map_option PlainError e4) } } } }"

fun copy_all :: "os \<Rightarrow> string \<Rightarrow> (staged_file \<times> string) list \<Rightarrow> ('m, backend_error option) pprog" where
  "copy_all os vmID [] = ret None"
| "copy_all os vmID (p # ps) = do {
     e \<leftarrow> copyFromPinned os vmID (fst p) (snd p);
     case e of Some t \<Rightarrow> ret (Some t) | None \<Rightarrow> copy_all os vmID ps }"

definition JailerArgv :: "privd_cfg \<Rightarrow> vm_entry \<Rightarrow> string list" where
  "JailerArgv cfg e = [pc_jailer cfg, ''--id'', ve_vmID e, ''--exec-file'', pc_firecracker cfg, ''--uid'', format_int (ve_UID e),
     ''--gid'', format_int (ve_GID e), ''--chroot-base-dir'', pc_jailBase cfg, ''--netns'', ''/var/run/netns/'' @ NamespaceName (ve_vmID e),
     ''--cgroup-version'', ''2'', ''--daemonize'', ''--'', ''--config-file'', ''fc-config.json'', ''--api-sock'', ''api.sock'']"

text \<open>A VMM comes up: the kernel picks a pid no live process has, the jailer writes it into the chroot.\<close>

definition spawn :: "os \<Rightarrow> nat \<Rightarrow> string \<Rightarrow> 'm privd_host_scheme \<Rightarrow> 'm privd_host_scheme" where
  "spawn os n vmID h = (let pid = os_pid os n (map pr_pid (hs_procs h)) in
     in_jail vmID (\<lambda>j. j\<lparr>jl_pidfile := Some (format_uint pid)\<rparr>)
       (h\<lparr>hs_procs := hs_procs h @ [\<lparr>pr_vm = vmID, pr_pid = pid, pr_start = os_start os n\<rparr>]\<rparr>))"

text \<open>
  The answer of the jailer: the error, and whether a process was started, which \<open>cmd.Process\<close> tells.
\<close>

definition run_jailer :: "os \<Rightarrow> string list \<Rightarrow> ('m, (string \<times> bool) option) pprog" where
  "run_jailer os argv = do {
     n \<leftarrow> tick;
     case os_exec os n of
       ExecOk \<Rightarrow> do { _ \<leftarrow> modify (spawn os n (argv ! 2)); ret None }
     | ExecFailed started t \<Rightarrow> do { _ \<leftarrow> modify (if started then spawn os n (argv ! 2) else id); ret (Some (''privd: jailer: '' @ t, True)) }
     | ExecNotStarted t \<Rightarrow> ret (Some (''privd: jailer: '' @ t, False)) }"

text \<open>The wait for \<open>v.sock\<close>: a hundred looks, each of which the execution budget may cut short.\<close>

fun wait_sock :: "os \<Rightarrow> nat \<Rightarrow> ('m, string option) mprog" where
  "wait_sock os 0 = ret None"
| "wait_sock os (Suc k) = do {
     found \<leftarrow> sys os;
     if found = None then ret None
     else do {
       expired \<leftarrow> sys os;
       case expired of Some t \<Rightarrow> ret (Some t) | None \<Rightarrow> wait_sock os k } }"

definition read_identity :: "os \<Rightarrow> string \<Rightarrow> ('m, backend_error + int \<times> string) pprog" where
  "read_identity os vmID = do {
     raw \<leftarrow> readPidFileAt os vmID;
     case raw of
       Missing \<Rightarrow> ret (Inl (PlainError (''privd: read firecracker.pid: '' @ ErrNotExist)))
     | Unreadable t \<Rightarrow> ret (Inl (PlainError (''privd: read firecracker.pid: '' @ t)))
     | Content txt \<Rightarrow> (case Atoi txt of
           None \<Rightarrow> ret (Inl (PlainError (''privd: parse firecracker.pid '' @ quoted txt)))
         | Some pid \<Rightarrow> do {
             st \<leftarrow> proc_stat os pid;
             ret (case st of
                 Missing \<Rightarrow> Inl (PlainError (''privd: read /proc/'' @ format_int pid @ ''/stat: '' @ ErrNotExist))
               | Unreadable t \<Rightarrow> Inl (PlainError (''privd: read /proc/'' @ format_int pid @ ''/stat: '' @ t))
               | Content s \<Rightarrow> if ParseStartTime s = []
                   then Inl (PlainError (''privd: could not parse starttime from /proc/'' @ format_int pid @ ''/stat''))
                   else Inr (pid, ParseStartTime s)) }) }"

definition start_exec :: "os \<Rightarrow> privd_cfg \<Rightarrow> vm_entry \<Rightarrow> string \<Rightarrow> ('m, vm_entry \<times> (backend_error + int \<times> string)) pprog" where
  "start_exec os cfg entry vmID = do {
     r \<leftarrow> run_jailer os (JailerArgv cfg entry);
     case r of
       Some (t, started) \<Rightarrow> ret (entry\<lparr>ve_startAttempted := started\<rparr>, Inl (PlainError t))
     | None \<Rightarrow> do {
         w \<leftarrow> wait_sock os 100;
         case w of
           Some t \<Rightarrow> ret (entry\<lparr>ve_startAttempted := True\<rparr>, Inl (PlainError t))
         | None \<Rightarrow> do {
             _ \<leftarrow> sys os;
             i \<leftarrow> read_identity os vmID;
             ret (entry\<lparr>ve_startAttempted := True\<rparr>, i) } } }"

definition open_stage :: "os \<Rightarrow> privd_cfg \<Rightarrow> string \<Rightarrow> ('m, backend_error + (string \<times> string) list) pprog" where
  "open_stage os cfg vmID = do {
     r \<leftarrow> sys os;
     case r of
       Some t \<Rightarrow> ret (Inl (BackendError ''internal'' (''stage root '' @ quoted (pc_stageRoot cfg) @ '' is not a directory privd can open'')))
     | None \<Rightarrow> do {
         o1 \<leftarrow> sys os;
         d \<leftarrow> gets (\<lambda>h. map_of (hs_stage h) vmID);
         ret (case (o1, d) of
             (None, Some dir) \<Rightarrow> Inr dir
           | _ \<Rightarrow> Inl (BackendError ''bad_request'' (''no stage directory for '' @ vmID
                 @ '' under the stage root privd was configured with ('' @ pc_stageRoot cfg @ ''): '' @ open_error None o1))) } }"

definition StartVMContext :: "os \<Rightarrow> privd_cfg \<Rightarrow> vm_entry \<Rightarrow> payload \<Rightarrow> ('m, vm_entry \<times> (backend_error + int \<times> string)) pprog" where
  "StartVMContext os cfg entry0 req = do {
     c \<leftarrow> sys os;
     case c of
       Some t \<Rightarrow> ret (entry0, Inl (PlainError t))
     | None \<Rightarrow> do {
     i \<leftarrow> hostIdentity os;
     case i of
       Inl t \<Rightarrow> ret (entry0, Inl (PlainError t))
     | Inr (boot, ns) \<Rightarrow> do {
     let entry = entry0\<lparr>ve_bootID := boot, ve_pidNamespace := ns\<rparr>;
     s \<leftarrow> open_stage os cfg (py_vmID req);
     case s of
       Inl e \<Rightarrow> ret (entry, Inl e)
     | Inr dir \<Rightarrow> do {
     v \<leftarrow> verify_all os dir (py_files req);
     case v of
       Inl e \<Rightarrow> ret (entry, Inl e)
     | Inr datas \<Rightarrow> do {
     j \<leftarrow> jailRoot os (py_vmID req) True;
     case j of
       Some e \<Rightarrow> ret (entry, Inl (fst e))
     | None \<Rightarrow> do {
     cp \<leftarrow> copy_all os (py_vmID req) (zip (py_files req) datas);
     case cp of
       Some e \<Rightarrow> ret (entry, Inl e)
     | None \<Rightarrow> do {
     o1 \<leftarrow> sys os;
     case o1 of
       Some t \<Rightarrow> ret (entry, Inl (PlainError (''privd: chown jail: '' @ t)))
     | None \<Rightarrow> start_exec os cfg (entry\<lparr>ve_startAttempted := True\<rparr>) (py_vmID req) } } } } } } }"

section \<open>Undoing, signalling, releasing\<close>

definition ESRCH :: string where
  "ESRCH = ''no such process''"

definition ErrProcessDone :: string where
  "ErrProcessDone = ''os: process already finished''"

definition openProcess :: "os \<Rightarrow> int \<Rightarrow> ('m, string option) mprog" where
  "openProcess os pid = do {
     n \<leftarrow> tick;
     _ \<leftarrow> modify (reap os n);
     ps \<leftarrow> gets hs_procs;
     ret (if (\<exists>p \<in> set ps. int (pr_pid p) = pid) \<or> os_stat os n pid \<noteq> None then os_fail os n else Some ErrProcessDone) }"

text \<open>The arguments a VMM was started with name its VM; what else runs is the environment's.\<close>

definition procCmdline :: "os \<Rightarrow> int \<Rightarrow> ('m, string + string list) mprog" where
  "procCmdline os pid = do {
     n \<leftarrow> tick;
     ps \<leftarrow> gets hs_procs;
     ret (case os_fail os n of
         Some t \<Rightarrow> Inl t
       | None \<Rightarrow> (case find (\<lambda>p. int (pr_pid p) = pid) ps of
             Some p \<Rightarrow> Inr [''firecracker'', ''--id'', pr_vm p]
           | None \<Rightarrow> Inr (os_cmdline os n pid))) }"

fun argvServesVM :: "string list \<Rightarrow> string \<Rightarrow> bool" where
  "argvServesVM (a # b # rest) vmID = (a = ''--id'' \<and> b = vmID \<or> argvServesVM (b # rest) vmID)"
| "argvServesVM _ vmID = False"

fun await_exit :: "os \<Rightarrow> nat \<Rightarrow> string \<Rightarrow> int \<Rightarrow> string \<Rightarrow> ('m, string option) mprog" where
  "await_exit os k vmID pid start = do {
     a \<leftarrow> processAlive os pid start;
     case a of
       Inl t \<Rightarrow> ret (Some t)
     | Inr False \<Rightarrow> ret None
     | Inr True \<Rightarrow> (case k of
           0 \<Rightarrow> ret (Some (''abort start '' @ vmID @ '': process exit not observed''))
         | Suc k' \<Rightarrow> await_exit os k' vmID pid start) }"

declare await_exit.simps [simp del]

definition kill_checked :: "os \<Rightarrow> string \<Rightarrow> int \<Rightarrow> ('m, string option) mprog" where
  "kill_checked os vmID pid = do {
     st \<leftarrow> proc_stat os pid;
     case st of
       Missing \<Rightarrow> ret None
     | Unreadable t \<Rightarrow> ret (if t = ESRCH then None else Some t)
     | Content data \<Rightarrow> do {
         alive \<leftarrow> processAlive os pid (ParseStartTime data);
         case alive of
           Inl t \<Rightarrow> ret (Some t)
         | Inr False \<Rightarrow> ret None
         | Inr True \<Rightarrow>
             if ParseComm data \<noteq> ''firecracker'' then ret (Some (''abort start '' @ vmID @ '': process ownership or exit unproved''))
             else do {
               argv \<leftarrow> procCmdline os pid;
               if (case argv of Inl _ \<Rightarrow> True | Inr a \<Rightarrow> \<not> argvServesVM a vmID)
               then ret (Some (''abort start '' @ vmID @ '': process ownership or exit unproved''))
               else do {
                 sig \<leftarrow> sys os;
                 n \<leftarrow> tick;
                 if sig \<noteq> None then ret (Some (''abort start '' @ vmID @ '': process ownership or exit unproved''))
                 else await_exit os (os_polls os n) vmID pid (ParseStartTime data) } } } }"

definition killJailedVMM :: "os \<Rightarrow> string \<Rightarrow> ('m, backend_error option) pprog" where
  "killJailedVMM os vmID = do {
     j \<leftarrow> jailRoot os vmID False;
     case j of
       Some (e, notExist) \<Rightarrow> ret (if notExist then None else Some e)
     | None \<Rightarrow> do {
         raw \<leftarrow> readPidFileAt os vmID;
         case raw of
           Missing \<Rightarrow> ret None
         | Unreadable t \<Rightarrow> ret (Some (PlainError t))
         | Content txt \<Rightarrow>
             (case Atoi txt of
               None \<Rightarrow> ret (Some (PlainError (''abort start '' @ vmID @ '': process ownership or exit unproved'')))
             | Some pid \<Rightarrow>
                 if pid \<le> 1 then ret (Some (PlainError (''abort start '' @ vmID @ '': process ownership or exit unproved'')))
                 else do {
                   p \<leftarrow> openProcess os pid;
                   case p of
                     Some t \<Rightarrow> ret (if t = ErrNotExist \<or> t = ESRCH then None else Some (PlainError t))
                   | None \<Rightarrow> do { k \<leftarrow> kill_checked os vmID pid; ret (map_option PlainError k) } }) } }"

text \<open>Removal of a jail tree: it stays, or it goes.\<close>

definition remove_jail :: "os \<Rightarrow> string \<Rightarrow> ('m, string option) pprog" where
  "remove_jail os vmID = do {
     e \<leftarrow> sys os;
     _ \<leftarrow> modify (if e = None then (\<lambda>h. h\<lparr>hs_jails := AList.delete vmID (hs_jails h)\<rparr>) else id);
     ret e }"

definition AbortStartVM :: "os \<Rightarrow> vm_entry \<Rightarrow> ('m, backend_error option) pprog" where
  "AbortStartVM os entry =
     (if ve_startAttempted entry
      then ret (Some (PlainError ''launch attempted without trusted process witness; ownership retained''))
      else do {
        k \<leftarrow> killJailedVMM os (ve_vmID entry);
        case k of
          Some e \<Rightarrow> ret (Some e)
        | None \<Rightarrow> do {
            r \<leftarrow> remove_jail os (ve_vmID entry);
            ret (map_option (\<lambda>t. PlainError (''privd: abort start '' @ ve_vmID entry @ '': remove jail dir: '' @ t)) r) } })"

definition CheckSignalIdentity :: "os \<Rightarrow> vm_entry \<Rightarrow> ('m, backend_error option) mprog" where
  "CheckSignalIdentity os entry = do {
     a \<leftarrow> entryAlive os entry;
     ret (case a of
         Inl t \<Rightarrow> Some (BackendError ''invalid_state'' t)
       | Inr alive \<Rightarrow> if alive then None else Some (BackendError ''invalid_state'' ''pid recycled'')) }"

definition SignalVM :: "os \<Rightarrow> vm_entry \<Rightarrow> string \<Rightarrow> ('m, backend_error option) mprog" where
  "SignalVM os entry kind =
     (if kind \<noteq> ''term'' \<and> kind \<noteq> ''kill'' then ret (Some (PlainError (''privd: unknown signal kind '' @ quoted kind)))
      else do {
        p \<leftarrow> openProcess os (ve_PID entry);
        case p of
          Some _ \<Rightarrow> ret (Some (BackendError ''invalid_state'' ''pid recycled''))
        | None \<Rightarrow> do {
            c \<leftarrow> CheckSignalIdentity os entry;
            case c of
              Some e \<Rightarrow> ret (Some e)
            | None \<Rightarrow> do {
                s \<leftarrow> sys os;
                ret (map_option (\<lambda>t. PlainError (''privd: kill pid '' @ format_int (ve_PID entry) @ '': '' @ t)) s) } } })"

definition Ops_ReleaseVM :: "os \<Rightarrow> vm_entry \<Rightarrow> ('m, backend_error option) pprog" where
  "Ops_ReleaseVM os entry = do {
     r \<leftarrow> remove_jail os (ve_vmID entry);
     ret (map_option (\<lambda>t. PlainError (''privd: remove jail dir: '' @ t)) r) }"

end
