(* ===== verification/Privd_Server.thy ===== *)
theory Privd_Server
  imports Privd_Backend
begin

text \<open>
  The privileged daemon's handlers (\<open>src/internal/privd/server.go\<close>), its journal of mutations
  (\<open>src/internal/privd/operations.go\<close>) and the client (\<open>src/internal/privd/client.go\<close>).

  A mutation goes through three critical sections: it is accepted into the journal under the journal's mutex, it is
  checked again and executed under the execution mutex, and its outcome is published before that mutex is given up. Each
  is a program of its own here, so that other requests may be accepted in between; \<open>hs_ops\<close> is the journal in
  memory and \<open>hs_opfiles\<close> the receipts on disk. A lost reply is the client's view of a request that ran.
\<close>

section \<open>Claims on identities\<close>

definition subnetHolder :: "os \<Rightarrow> string \<Rightarrow> ('m, string + string) pprog" where
  "subnetHolder os cidr = do {
     r \<leftarrow> ledger_all os;
     ret (case r of
         Inl t \<Rightarrow> Inl t
       | Inr es \<Rightarrow> Inr (case find (\<lambda>e. ve_netCIDR e = cidr) es of Some e \<Rightarrow> ve_vmID e | None \<Rightarrow> [])) }"

definition identityHolder :: "os \<Rightarrow> int \<Rightarrow> u32 \<Rightarrow> ('m, string + string \<times> string) pprog" where
  "identityHolder os uid cid = do {
     r \<leftarrow> ledger_all os;
     ret (case r of
         Inl t \<Rightarrow> Inl t
       | Inr es \<Rightarrow> Inr (case find (\<lambda>e. ve_UID e = uid \<or> ve_CID e = cid) es of
             Some e \<Rightarrow> (ve_vmID e, if ve_UID e = uid then ''jail uid '' @ format_int uid else ''guest cid '' @ format_uint (unat cid))
           | None \<Rightarrow> ([], []))) }"

section \<open>Handlers\<close>

definition handleAllocateNetwork :: "os \<Rightarrow> string \<Rightarrow> payload option \<Rightarrow> ('m, response) pprog" where
  "handleAllocateNetwork os opID raw = (case raw of
      None \<Rightarrow> ret (errResp ''bad_request'' ''invalid payload'')
    | Some r \<Rightarrow>
        if \<not> ValidVMID (py_vmID r) then ret (errResp ''bad_request'' ''invalid vm_id'')
        else if py_CIDR r = [] then ret (errResp ''bad_request'' ''cidr required'')
        else do {
          existing \<leftarrow> ledger_get os (py_vmID r);
          case existing of
            Content e \<Rightarrow> ret (if ve_netCIDR e = py_CIDR r then okResp None
                else errResp ''invalid_state'' ''vm already has a different network allocation'')
          | Unreadable _ \<Rightarrow> ret (errResp ''internal'' ''ledger read failed'')
          | Missing \<Rightarrow> do {
              holder \<leftarrow> subnetHolder os (py_CIDR r);
              case holder of
                Inl t \<Rightarrow> ret (errResp ''internal'' t)
              | Inr who \<Rightarrow>
                  if who \<noteq> [] then ret (errResp ''invalid_state'' (''subnet '' @ py_CIDR r @ '' is already allocated to vm '' @ who))
                  else do {
                    n \<leftarrow> tick;
                    let entry = \<lparr>ve_startAttempted = False, ve_networkOpID = opID, ve_startOpID = [], ve_vmID = py_vmID r, ve_UID = 0,
                      ve_GID = 0, ve_CID = 0, ve_PID = 0, ve_startTime = [], ve_bootID = [], ve_pidNamespace = [],
                      ve_netCIDR = py_CIDR r, ve_createdAt = os_clock os n\<rparr>;
                    a \<leftarrow> AllocateNetworkContext os (py_vmID r);
                    case a of
                      Some t \<Rightarrow> do {
                        b \<leftarrow> ReleaseNetworkContext os (py_vmID r);
                        ret (case b of
                            Some u \<Rightarrow> errResp ''outcome_unknown'' (t @ ''; network rollback incomplete: '' @ u)
                          | None \<Rightarrow> errResp ''exec_failed'' t) }
                    | None \<Rightarrow> do {
                        p \<leftarrow> ledger_put os entry;
                        ret (if p \<noteq> None then errResp ''internal'' ''ledger write failed'' else okResp None) } } } })"

definition handleReleaseNetwork :: "os \<Rightarrow> payload option \<Rightarrow> ('m, response) pprog" where
  "handleReleaseNetwork os raw = (case raw of
      None \<Rightarrow> ret (errResp ''bad_request'' ''invalid payload'')
    | Some r \<Rightarrow>
        if \<not> ValidVMID (py_vmID r) then ret (errResp ''bad_request'' ''invalid vm_id'')
        else do {
          existing \<leftarrow> ledger_get os (py_vmID r);
          case existing of
            Missing \<Rightarrow> ret (errResp ''not_found'' ''vm not in ledger'')
          | Unreadable _ \<Rightarrow> ret (errResp ''internal'' ''ledger read failed'')
          | Content e \<Rightarrow> do {
              x \<leftarrow> ReleaseNetworkContext os (ve_vmID e);
              case x of
                Some t \<Rightarrow> ret (errResp ''exec_failed'' t)
              | None \<Rightarrow>
                  if ve_PID e = 0 then do {
                    d \<leftarrow> ledger_delete os (py_vmID r);
                    ret (if d \<noteq> None then errResp ''internal'' ''ledger delete failed'' else okResp None) }
                  else do {
                    p \<leftarrow> ledger_put os (e\<lparr>ve_netCIDR := []\<rparr>);
                    ret (if p \<noteq> None then errResp ''internal'' ''ledger write failed'' else okResp None) } } })"

text \<open>\<open>filepath.Base(filepath.Clean(p))\<close>, with the components walked so far as a stack.\<close>

fun split_path :: "string \<Rightarrow> string list" where
  "split_path [] = [[]]"
| "split_path (c # cs) = (if c = CHR ''/'' then [] # split_path cs
     else case split_path cs of w # ws \<Rightarrow> (c # w) # ws | [] \<Rightarrow> [[c]])"

fun clean_stack :: "bool \<Rightarrow> string list \<Rightarrow> string list \<Rightarrow> string list" where
  "clean_stack rooted st [] = st"
| "clean_stack rooted st (c # cs) =
     (if c = [] \<or> c = ''.'' then clean_stack rooted st cs
      else if c = ''..'' then
        (case st of
           [] \<Rightarrow> if rooted then clean_stack rooted [] cs else clean_stack rooted [''..''] cs
         | t # ts \<Rightarrow> if t = ''..'' then clean_stack rooted (''..'' # st) cs else clean_stack rooted ts cs)
      else clean_stack rooted (c # st) cs)"

definition path_base :: "string \<Rightarrow> string" where
  "path_base p = (let rooted = (p \<noteq> [] \<and> hd p = CHR ''/'') in
     case clean_stack rooted [] (split_path p) of c # _ \<Rightarrow> c | [] \<Rightarrow> if rooted then ''/'' else ''.'')"

fun bad_file :: "nat \<Rightarrow> staged_file list \<Rightarrow> (nat \<times> string) option" where
  "bad_file i [] = None"
| "bad_file i (f # fs) = (if \<not> ValidStagedName (sf_name f) then Some (i, sf_name f) else bad_file (Suc i) fs)"

definition start_check :: "privd_cfg \<Rightarrow> payload \<Rightarrow> response option" where
  "start_check cfg r =
     (if \<not> ValidVMID (py_vmID r) then Some (errResp ''bad_request'' ''invalid vm_id'')
      else if py_UID r < pc_UIDMin cfg \<or> pc_UIDMax cfg \<le> py_UID r
      then Some (errResp ''bad_request'' (''uid '' @ format_int (py_UID r) @ '' outside allowed range ['' @ format_int (pc_UIDMin cfg) @ '', ''
             @ format_int (pc_UIDMax cfg) @ '')''))
      else if py_CID r < minGuestCID
      then Some (errResp ''bad_request'' (''cid '' @ format_uint (unat (py_CID r)) @ '' is reserved by the vsock spec; a guest cid starts at 3''))
      else case bad_file 0 (py_files r) of
        Some (i, name) \<Rightarrow> Some (errResp ''bad_request'' (''files['' @ format_uint i @ '']: '' @ quoted (truncateName name) @ '' is not a staged file name''))
      | None \<Rightarrow> if path_base (py_stageDir r) \<noteq> py_vmID r
          then Some (errResp ''bad_request'' ''stage_dir does not name this vm's stage directory'') else None)"

definition start_backend :: "os \<Rightarrow> privd_cfg \<Rightarrow> vm_entry \<Rightarrow> payload \<Rightarrow> ('m, response) pprog" where
  "start_backend os cfg entry0 r = do {
     (entry, s) \<leftarrow> StartVMContext os cfg entry0 r;
     case s of
       Inl err \<Rightarrow> do {
         a \<leftarrow> AbortStartVM os entry;
         ret (if a \<noteq> None then errResp ''outcome_unknown'' (error_text err @ ''; start rollback incomplete; ownership retained'')
              else backendErrResp err) }
     | Inr (pid, start) \<Rightarrow> do {
         p \<leftarrow> ledger_put os (entry\<lparr>ve_PID := pid, ve_startTime := start\<rparr>);
         ret (if p \<noteq> None then errResp ''internal'' ''ledger write failed'' else okResp (Some (pid, start))) } }"

definition handleStartVM :: "os \<Rightarrow> privd_cfg \<Rightarrow> string \<Rightarrow> payload option \<Rightarrow> ('m, response) pprog" where
  "handleStartVM os cfg opID raw = (case raw of
      None \<Rightarrow> ret (errResp ''bad_request'' ''invalid payload'')
    | Some r \<Rightarrow> (case start_check cfg r of
        Some bad \<Rightarrow> ret bad
      | None \<Rightarrow> do {
          existing \<leftarrow> ledger_get os (py_vmID r);
          case existing of
            Missing \<Rightarrow> ret (errResp ''bad_request'' ''vm has no network allocation'')
          | Unreadable _ \<Rightarrow> ret (errResp ''internal'' ''ledger read failed'')
          | Content e \<Rightarrow>
              if ve_PID e \<noteq> 0 then ret (errResp ''invalid_state'' ''vm already started'')
              else do {
                holder \<leftarrow> identityHolder os (py_UID r) (py_CID r);
                case holder of
                  Inl t \<Rightarrow> ret (errResp ''internal'' t)
                | Inr (who, what) \<Rightarrow>
                    if who \<noteq> [] then ret (errResp ''invalid_state'' (what @ '' is already held by vm '' @ who))
                    else start_backend os cfg
                      (e\<lparr>ve_UID := py_UID r, ve_GID := py_GID r, ve_CID := py_CID r, ve_startOpID := opID\<rparr>) r } }))"

definition handleSignalVM :: "os \<Rightarrow> payload option \<Rightarrow> ('m, response) pprog" where
  "handleSignalVM os raw = (case raw of
      None \<Rightarrow> ret (errResp ''bad_request'' ''invalid payload'')
    | Some r \<Rightarrow>
        if \<not> ValidVMID (py_vmID r) then ret (errResp ''bad_request'' ''invalid vm_id'')
        else do {
          existing \<leftarrow> ledger_get os (py_vmID r);
          case existing of
            Missing \<Rightarrow> ret (errResp ''not_found'' ''vm not in ledger'')
          | Unreadable _ \<Rightarrow> ret (errResp ''internal'' ''ledger read failed'')
          | Content e \<Rightarrow> do {
              s \<leftarrow> SignalVM os e (py_kind r);
              ret (case s of Some x \<Rightarrow> backendErrResp x | None \<Rightarrow> okResp None) } })"

text \<open>What a released VM half leaves of its entry.\<close>

definition clear_vm_half :: "vm_entry \<Rightarrow> vm_entry" where
  "clear_vm_half e = e\<lparr>ve_UID := 0, ve_GID := 0, ve_CID := 0, ve_PID := 0, ve_startTime := [], ve_bootID := [], ve_pidNamespace := []\<rparr>"

definition handleReleaseVM :: "os \<Rightarrow> payload option \<Rightarrow> ('m, response) pprog" where
  "handleReleaseVM os raw = (case raw of
      None \<Rightarrow> ret (errResp ''bad_request'' ''invalid payload'')
    | Some r \<Rightarrow>
        if \<not> ValidVMID (py_vmID r) then ret (errResp ''bad_request'' ''invalid vm_id'')
        else do {
          existing \<leftarrow> ledger_get os (py_vmID r);
          case existing of
            Missing \<Rightarrow> ret (errResp ''not_found'' ''vm not in ledger'')
          | Unreadable _ \<Rightarrow> ret (errResp ''internal'' ''ledger read failed'')
          | Content e \<Rightarrow> do {
              alive \<leftarrow> entryAlive os e;
              case alive of
                Inl t \<Rightarrow> ret (errResp ''invalid_state'' t)
              | Inr True \<Rightarrow> ret (errResp ''invalid_state'' ''vm process is still alive; signal first'')
              | Inr False \<Rightarrow> do {
                  x \<leftarrow> Ops_ReleaseVM os e;
                  case x of
                    Some y \<Rightarrow> ret (backendErrResp y)
                  | None \<Rightarrow>
                      if ve_netCIDR e \<noteq> [] then do {
                        p \<leftarrow> ledger_put os (clear_vm_half e);
                        ret (if p \<noteq> None then errResp ''internal'' ''ledger write failed'' else okResp None) }
                      else do {
                        d \<leftarrow> ledger_delete os (py_vmID r);
                        ret (if d \<noteq> None then errResp ''internal'' ''ledger delete failed'' else okResp None) } } } })"

definition execute :: "os \<Rightarrow> privd_cfg \<Rightarrow> request \<Rightarrow> ('m, response) pprog" where
  "execute os cfg req = do {
     c \<leftarrow> sys os;
     case c of
       Some t \<Rightarrow> ret (backendErrResp (PlainError t))
     | None \<Rightarrow>
         if pq_verb req = ''allocate_network'' then handleAllocateNetwork os (pq_opID req) (pq_payload req)
         else if pq_verb req = ''release_network'' then handleReleaseNetwork os (pq_payload req)
         else if pq_verb req = ''start_vm'' then handleStartVM os cfg (pq_opID req) (pq_payload req)
         else if pq_verb req = ''signal_vm'' then handleSignalVM os (pq_payload req)
         else if pq_verb req = ''release_vm'' then handleReleaseVM os (pq_payload req)
         else ret (errResp ''bad_request'' (''unknown verb '' @ quoted (pq_verb req))) }"

section \<open>The journal\<close>

definition saveOperation :: "os \<Rightarrow> operation_record \<Rightarrow> ('m, string option) pprog" where
  "saveOperation os r = do {
     e \<leftarrow> MkdirAll os ''ledger/.operations'' 1 id;
     case e of
       Some t \<Rightarrow> ret (Some t)
     | None \<Rightarrow> WriteFile os (''ledger/.operations/'' @ pq_opID (jr_request r))
         (\<lambda>h. h\<lparr>hs_opfiles := AList.update (pq_opID (jr_request r)) (Some r) (hs_opfiles h)\<rparr>) }"

definition operationVMID :: "request \<Rightarrow> string" where
  "operationVMID req = (case pq_payload req of None \<Rightarrow> [] | Some p \<Rightarrow> py_vmID p)"

definition recoverCommittedOperation :: "os \<Rightarrow> operation_record \<Rightarrow> ('m, operation_record) pprog" where
  "recoverCommittedOperation os r =
     (if \<not> ValidVMID (operationVMID (jr_request r)) then ret r
      else do {
        g \<leftarrow> ledger_get os (operationVMID (jr_request r));
        ret (case g of
            Content v \<Rightarrow>
              if pq_verb (jr_request r) = ''start_vm'' then
                (if ve_startOpID v \<noteq> pq_opID (jr_request r) \<or> ve_PID v \<le> 0 then r
                 else r\<lparr>jr_state := OpnSucceeded, jr_response := Some (okResp (Some (ve_PID v, ve_startTime v)))\<rparr>)
              else if pq_verb (jr_request r) = ''allocate_network'' then
                (if ve_networkOpID v \<noteq> pq_opID (jr_request r) \<or> ve_netCIDR v = [] then r
                 else r\<lparr>jr_state := OpnSucceeded, jr_response := Some (okResp None)\<rparr>)
              else r
          | _ \<Rightarrow> r) })"

text \<open>
  Reading the receipts when the daemon starts. Work that was under way is unknown until the ledger proves it was
  committed; a receipt that cannot be read closes the journal.
\<close>

fun load_records :: "os \<Rightarrow> (string \<times> operation_record option) list \<Rightarrow> ('m, unit) pprog" where
  "load_records os [] = ret ()"
| "load_records os ((i, f) # fs) = do {
     e \<leftarrow> sys os;
     case (f, e) of
       (Some r, None) \<Rightarrow>
         if \<not> ValidVMID i \<or> pq_opID (jr_request r) \<noteq> i then modify (\<lambda>h. h\<lparr>hs_operr := True\<rparr>)
         else if jr_state r \<in> {OpnPending, OpnUnknown} then do {
           r' \<leftarrow> recoverCommittedOperation os (r\<lparr>jr_state := OpnUnknown\<rparr>);
           s \<leftarrow> saveOperation os r';
           if s \<noteq> None then modify (\<lambda>h. h\<lparr>hs_operr := True\<rparr>)
           else do { _ \<leftarrow> modify (\<lambda>h. h\<lparr>hs_ops := AList.update i r' (hs_ops h)\<rparr>); load_records os fs } }
         else if jr_response r = None then modify (\<lambda>h. h\<lparr>hs_operr := True\<rparr>)
         else do { _ \<leftarrow> modify (\<lambda>h. h\<lparr>hs_ops := AList.update i r (hs_ops h)\<rparr>); load_records os fs }
     | _ \<Rightarrow> modify (\<lambda>h. h\<lparr>hs_operr := True\<rparr>) }"

definition NewServer :: "os \<Rightarrow> ('m, unit) pprog" where
  "NewServer os = do {
     _ \<leftarrow> modify (\<lambda>h. h\<lparr>hs_ops := [], hs_operr := False\<rparr>);
     e \<leftarrow> sys os;
     files \<leftarrow> gets (\<lambda>h. sort_key (\<lambda>p. fst p @ ''.json'') (hs_opfiles h));
     if e \<noteq> None then modify (\<lambda>h. h\<lparr>hs_operr := True\<rparr>) else load_records os files }"

text \<open>What a query finds: nothing, or a state with the recorded response.\<close>

type_synonym outcome = "(operation_state \<times> response option) option"

text \<open>\<open>free\<close> says that the execution mutex could be taken: only then is the ledger consulted.\<close>

definition queryOperation :: "os \<Rightarrow> bool \<Rightarrow> string \<Rightarrow> ('m, outcome) pprog" where
  "queryOperation os free i = do {
     (r, bad) \<leftarrow> gets (\<lambda>h. (map_of (hs_ops h) i, hs_operr h));
     _ \<leftarrow> (case r of
         Some rec \<Rightarrow>
           if free \<and> jr_state rec = OpnUnknown \<and> \<not> bad then do {
             rec' \<leftarrow> recoverCommittedOperation os rec;
             if jr_state rec' = OpnSucceeded then do {
               s \<leftarrow> saveOperation os rec';
               modify (\<lambda>h. if s \<noteq> None then h\<lparr>hs_operr := True\<rparr> else h\<lparr>hs_ops := AList.update i rec' (hs_ops h)\<rparr>) }
             else ret () }
           else ret ()
       | None \<Rightarrow> ret ());
     gets (\<lambda>h. if hs_operr h then Some (OpnUnknown, None)
        else map_option (\<lambda>q. (jr_state q, jr_response q)) (map_of (hs_ops h) i)) }"

text \<open>Whether an unresolved operation stands in the way of a request.\<close>

definition blocks :: "request \<Rightarrow> operation_record \<Rightarrow> bool" where
  "blocks req old \<longleftrightarrow> jr_state old = OpnUnknown
     \<and> (pq_verb req = ''allocate_network'' \<or> pq_verb req = ''start_vm'' \<or> operationVMID (jr_request old) = operationVMID req)"

definition final_state :: "response \<Rightarrow> operation_state" where
  "final_state resp = (if pa_cause resp = ''internal'' \<or> pa_cause resp = ''outcome_unknown'' then OpnUnknown
     else if pa_OK resp then OpnSucceeded else OpnFailed)"

text \<open>The first critical section: an early answer, or a durable record of the work to come.\<close>

definition outcome_cause :: "operation_state \<Rightarrow> string" where
  "outcome_cause st = (case st of OpnPending \<Rightarrow> ''outcome_pending'' | OpnSucceeded \<Rightarrow> ''outcome_succeeded''
      | OpnFailed \<Rightarrow> ''outcome_failed'' | OpnUnknown \<Rightarrow> ''outcome_unknown'')"

definition accept_mutation :: "os \<Rightarrow> request \<Rightarrow> ('m, response option) pprog" where
  "accept_mutation os req =
     (if \<not> ValidVMID (pq_opID req) then ret (Some (errResp ''bad_request'' ''valid op_id required for mutations''))
      else do {
        (bad, old, stuck) \<leftarrow> gets (\<lambda>h. (hs_operr h, map_of (hs_ops h) (pq_opID req), find (\<lambda>p. blocks req (snd p)) (hs_ops h)));
        if bad then ret (Some (errResp ''outcome_unknown'' ''operation journal unavailable; preserve host ownership''))
        else case old of
          Some r \<Rightarrow> ret (Some (
            if pq_verb (jr_request r) \<noteq> pq_verb req \<or> pq_payload (jr_request r) \<noteq> pq_payload req
            then errResp ''invalid_state'' ''op_id belongs to a different request''
            else case jr_response r of
                Some resp \<Rightarrow> resp
              | None \<Rightarrow> errResp (outcome_cause (jr_state r)) ''query operation before reclaiming resources''))
        | None \<Rightarrow> (case stuck of
              Some (_, r) \<Rightarrow> ret (Some (errResp ''outcome_unknown'' (''interrupted operation '' @ pq_opID (jr_request r)
                @ '' owns unresolved host resources; query that operation and verify host cleanup before repairing its root-owned receipt'')))
            | None \<Rightarrow> do {
                s \<leftarrow> saveOperation os \<lparr>jr_request = req, jr_state = OpnPending, jr_response = None\<rparr>;
                if s \<noteq> None then do {
                  _ \<leftarrow> modify (\<lambda>h. h\<lparr>hs_operr := True\<rparr>);
                  ret (Some (errResp ''outcome_unknown'' ''cannot durably record mutation; ownership retained'')) }
                else do {
                  _ \<leftarrow> modify (\<lambda>h. h\<lparr>hs_ops := AList.update (pq_opID req) \<lparr>jr_request = req, jr_state = OpnPending, jr_response = None\<rparr> (hs_ops h)\<rparr>);
                  ret None } }) })"

text \<open>The second: what other requests left behind in the meantime may keep it from running at all.\<close>

definition begin_mutation :: "os \<Rightarrow> privd_cfg \<Rightarrow> request \<Rightarrow> ('m, response) pprog" where
  "begin_mutation os cfg req = do {
     (bad, stuck) \<leftarrow> gets (\<lambda>h. (hs_operr h, find (\<lambda>p. blocks req (snd p)) (hs_ops h)));
     case stuck of
       Some (_, r) \<Rightarrow> ret (errResp ''invalid_state'' (''mutation not executed: operation '' @ pq_opID (jr_request r) @ '' retains unresolved ownership''))
     | None \<Rightarrow>
         if bad then ret (errResp ''invalid_state'' ''mutation not executed: operation journal unavailable'')
         else execute os cfg req }"

definition finish_mutation :: "os \<Rightarrow> request \<Rightarrow> response \<Rightarrow> ('m, response) pprog" where
  "finish_mutation os req resp = do {
     let r = \<lparr>jr_request = req, jr_state = final_state resp, jr_response = (if final_state resp = OpnUnknown then None else Some resp)\<rparr>;
     s \<leftarrow> saveOperation os r;
     if s \<noteq> None then do {
       _ \<leftarrow> modify (\<lambda>h. h\<lparr>hs_operr := True\<rparr>);
       ret (errResp ''outcome_unknown'' ''mutation result could not be persisted; ownership retained'') }
     else do {
       _ \<leftarrow> modify (\<lambda>h. h\<lparr>hs_ops := AList.update (pq_opID req) r (hs_ops h)\<rparr>);
       ret (if final_state resp = OpnUnknown
            then errResp ''outcome_unknown'' (pa_message resp @ ''; host mutation outcome requires recovery; ownership retained'')
            else resp) } }"

definition dispatchMutation :: "os \<Rightarrow> privd_cfg \<Rightarrow> request \<Rightarrow> ('m, response) pprog" where
  "dispatchMutation os cfg req = do {
     a \<leftarrow> accept_mutation os req;
     case a of
       Some resp \<Rightarrow> ret resp
     | None \<Rightarrow> do { resp \<leftarrow> begin_mutation os cfg req; finish_mutation os req resp } }"

text \<open>The size of the inventory as \<open>encoding/json\<close> writes it.\<close>

definition json_char :: "char \<Rightarrow> nat" where
  "json_char c = (if c \<in> {CHR 0x22, CHR 0x5C, CHR 0x08, CHR 0x09, CHR 0x0A, CHR 0x0C, CHR 0x0D} then 2
     else if (of_char c :: nat) < 32 \<or> c \<in> {CHR ''<'', CHR ''>'', CHR ''&''} then 6 else 1)"

definition json_string :: "string \<Rightarrow> nat" where
  "json_string s = 2 + sum_list (map json_char s)"

definition leases_size :: "(string \<times> string) list \<Rightarrow> nat" where
  "leases_size ls = 2 + sum_list (map (\<lambda>(i, c). json_string i + 1 + json_string c) ls) + (length ls - 1)"

definition MaxMsgBytes :: nat where
  "MaxMsgBytes = 65536"

definition networkLeases :: "os \<Rightarrow> bool \<Rightarrow> ('m, response + (string \<times> string) list) pprog" where
  "networkLeases os free = (if \<not> free then ret (Inl (errResp ''outcome_pending'' ''host mutation is in progress; retry lease inventory''))
   else do {
     (bad, ops) \<leftarrow> gets (\<lambda>h. (hs_operr h, map (\<lambda>p. jr_state (snd p)) (hs_ops h)));
     if bad then ret (Inl (errResp ''outcome_unknown'' ''operation journal unavailable''))
     else case find (\<lambda>st. st \<in> {OpnPending, OpnUnknown}) ops of
       Some st \<Rightarrow> ret (Inl (if st = OpnPending then errResp ''outcome_pending'' ''host mutation is pending; retry lease inventory''
           else errResp ''outcome_unknown'' ''interrupted mutation retains unknown claims''))
     | None \<Rightarrow> do {
         r \<leftarrow> ledger_all os;
         ret (case r of
             Inl t \<Rightarrow> Inl (errResp ''internal'' t)
           | Inr es \<Rightarrow>
               let ls = map (\<lambda>e. (ve_vmID e, ve_netCIDR e)) (filter (\<lambda>e. ve_netCIDR e \<noteq> []) es) in
               if MaxMsgBytes div 2 < leases_size ls then Inl (errResp ''internal'' ''network lease inventory exceeds response bound'')
               else Inr ls) } })"

definition ProtoVersion :: int where
  "ProtoVersion = 1"

datatype answer = Mutation response | Leases "response + (string \<times> string) list" | Outcome outcome

definition dispatch :: "os \<Rightarrow> privd_cfg \<Rightarrow> request \<Rightarrow> ('m, answer) pprog" where
  "dispatch os cfg req =
     (if pq_version req \<noteq> ProtoVersion
      then ret (Mutation (errResp ''bad_request'' (''unsupported protocol version '' @ format_int (pq_version req))))
      else if pq_verb req = ''network_leases'' then do { l \<leftarrow> networkLeases os True; ret (Leases l) }
      else if pq_verb req = ''query_operation'' then
        (case pq_payload req of
           None \<Rightarrow> ret (Mutation (errResp ''bad_request'' ''valid op_id required''))
         | Some p \<Rightarrow>
             if \<not> ValidVMID (py_opID p) then ret (Mutation (errResp ''bad_request'' ''valid op_id required''))
             else do { r \<leftarrow> queryOperation os True (py_opID p); ret (Outcome r) })
      else do { r \<leftarrow> dispatchMutation os cfg req; ret (Mutation r) })"

text \<open>Only the peer with the configured uid is served; everybody else gets no answer at all.\<close>

definition handleConn :: "os \<Rightarrow> privd_cfg \<Rightarrow> string + int \<Rightarrow> string + request \<Rightarrow> ('m, answer option) pprog" where
  "handleConn os cfg peer msg = (case peer of
      Inl _ \<Rightarrow> ret None
    | Inr uid \<Rightarrow>
        if uid \<noteq> pc_allowedUID cfg then ret None
        else case msg of
          Inl _ \<Rightarrow> ret None
        | Inr req \<Rightarrow> do { a \<leftarrow> dispatch os cfg req; ret (Some a) })"

section \<open>The client\<close>

datatype remote_error = RemoteError string string

datatype client_error = Remote remote_error | UnknownOutcomeError string "string + remote_error" | TransportError string

definition answer_response :: "answer \<Rightarrow> response" where
  "answer_response a = (case a of Mutation r \<Rightarrow> r | Leases (Inl r) \<Rightarrow> r | _ \<Rightarrow> okResp None)"

text \<open>
  A call on a connection of its own: it may not come about, the request may fail to be sent with or without reaching the
  daemon, the reply may be lost. The operation id is the given one, the one bound to the context, or a new UUID; only a
  mutation has one.
\<close>

definition client_call :: "os \<Rightarrow> privd_cfg \<Rightarrow> string \<Rightarrow> string \<Rightarrow> string \<Rightarrow> string \<Rightarrow> payload \<Rightarrow> ('m, client_error + answer) pprog" where
  "client_call os cfg socketPath ctxOpID verb opID pay = do {
     n \<leftarrow> tick;
     let mutation = (verb \<noteq> ''query_operation'' \<and> verb \<noteq> ''network_leases'');
     let opID = (if mutation \<and> opID = [] then (if ctxOpID = [] then os_uuid os n else ctxOpID) else opID);
     let serve = dispatch os cfg \<lparr>pq_version = ProtoVersion, pq_verb = verb, pq_opID = opID, pq_payload = Some pay\<rparr>;
     let lost = (\<lambda>what t. if mutation then Inl (UnknownOutcomeError opID (Inl t)) else Inl (TransportError (what @ '': '' @ t)));
     case os_delivery os n of
       Undialed t \<Rightarrow> ret (Inl (TransportError (''dial privd '' @ socketPath @ '': '' @ t)))
     | Unsent arrived t \<Rightarrow> do {
         _ \<leftarrow> (if arrived then do { _ \<leftarrow> serve; ret () } else ret ());
         ret (lost (''send '' @ verb) t) }
     | Unread t \<Rightarrow> do { _ \<leftarrow> serve; ret (lost (''read '' @ verb @ '' response'') t) }
     | Delivered \<Rightarrow> do {
         a \<leftarrow> serve;
         let resp = answer_response a;
         let remote = RemoteError (pa_cause resp) (pa_message resp);
         ret (if \<not> pa_OK resp then
                if mutation \<and> (pa_cause resp = ''outcome_pending'' \<or> pa_cause resp = ''outcome_unknown'')
                then Inl (UnknownOutcomeError opID (Inr remote))
                else Inl (Remote remote)
              else Inr a) } }"

end
