(* ===== verification/Privd_Laws.thy ===== *)
theory Privd_Laws
  imports Privd_Server
begin

text \<open>
  What the privileged daemon guarantees of the host. Its invariant ties the VMM processes, the jails and the
  network namespaces to the ledger and the journal: a live VMM has its jail, and the ledger names exactly that
  process, unless a start of its VM is still unresolved in the journal; a namespace has an entry that claims it, unless
  an allocation is unresolved. Every request keeps it, whatever fails on the way.
\<close>

section \<open>Calls that only look\<close>

text \<open>Updates of the machine stand inside those of the daemon's files.\<close>

lemma machine_inside [simp]:
  fixes h :: "'m privd_host_scheme"
  shows
    "hs_now_update n (hs_ledger_update v0 h) = hs_ledger_update v0 (hs_now_update n h)"
    "hs_now_update n (hs_opfiles_update v1 h) = hs_opfiles_update v1 (hs_now_update n h)"
    "hs_now_update n (hs_ops_update v2 h) = hs_ops_update v2 (hs_now_update n h)"
    "hs_now_update n (hs_operr_update v3 h) = hs_operr_update v3 (hs_now_update n h)"
    "hs_now_update n (hs_netns_update v4 h) = hs_netns_update v4 (hs_now_update n h)"
    "hs_now_update n (hs_ifs_update v5 h) = hs_ifs_update v5 (hs_now_update n h)"
    "hs_now_update n (hs_jails_update v6 h) = hs_jails_update v6 (hs_now_update n h)"
    "hs_now_update n (hs_stage_update v7 h) = hs_stage_update v7 (hs_now_update n h)"
    "hs_procs_update p (hs_ledger_update v0 h) = hs_ledger_update v0 (hs_procs_update p h)"
    "hs_procs_update p (hs_opfiles_update v1 h) = hs_opfiles_update v1 (hs_procs_update p h)"
    "hs_procs_update p (hs_ops_update v2 h) = hs_ops_update v2 (hs_procs_update p h)"
    "hs_procs_update p (hs_operr_update v3 h) = hs_operr_update v3 (hs_procs_update p h)"
    "hs_procs_update p (hs_netns_update v4 h) = hs_netns_update v4 (hs_procs_update p h)"
    "hs_procs_update p (hs_ifs_update v5 h) = hs_ifs_update v5 (hs_procs_update p h)"
    "hs_procs_update p (hs_jails_update v6 h) = hs_jails_update v6 (hs_procs_update p h)"
    "hs_procs_update p (hs_stage_update v7 h) = hs_stage_update v7 (hs_procs_update p h)"
  by (cases h; simp)+

definition pids_ok :: "'m machine_scheme \<Rightarrow> bool" where
  "pids_ok h \<longleftrightarrow> distinct (map pr_pid (hs_procs h)) \<and> (\<forall>p \<in> set (hs_procs h). 0 < pr_pid p)"

text \<open>Time passes and VMMs may exit.\<close>

definition calm :: "'m machine_scheme \<Rightarrow> 'm machine_scheme \<Rightarrow> bool" where
  "calm h h' \<longleftrightarrow> (\<exists>n f. hs_now h \<le> n \<and> h' = h\<lparr>hs_now := n, hs_procs := filter f (hs_procs h)\<rparr>)"

lemma calm_refl [simp]: "calm h h"
  unfolding calm_def by (rule exI [of _ "hs_now h"], rule exI [of _ "\<lambda>_. True"]) simp

lemma calm_trans: "calm h h1 \<Longrightarrow> calm h1 h2 \<Longrightarrow> calm h h2"
  unfolding calm_def by (elim exE conjE, rule_tac x = na in exI, rule_tac x = "\<lambda>x. fa x \<and> f x" in exI) (auto simp: conj_commute)

lemma calm_now: "hs_now h \<le> n \<Longrightarrow> calm h (h\<lparr>hs_now := n\<rparr>)"
  unfolding calm_def by (rule exI [of _ n], rule exI [of _ "\<lambda>_. True"]) simp

lemma distinct_map_filter_pids: "distinct (map pr_pid ps) \<Longrightarrow> distinct (map pr_pid (filter f ps))"
  by (induction ps) auto

lemma calm_pids: "calm h h' \<Longrightarrow> pids_ok h \<Longrightarrow> pids_ok h'"
  by (auto simp: calm_def pids_ok_def distinct_map_filter_pids)

lemma calm_procs: "calm h h' \<Longrightarrow> set (hs_procs h') \<subseteq> set (hs_procs h)"
  by (auto simp: calm_def)

lemma find_pid: "pids_ok h \<Longrightarrow> p \<in> set (hs_procs h) \<Longrightarrow> find (\<lambda>q. int (pr_pid q) = int (pr_pid p)) (hs_procs h) = Some p"
proof -
  assume "pids_ok h" "p \<in> set (hs_procs h)"
  moreover have "distinct (map pr_pid ps) \<Longrightarrow> p \<in> set ps \<Longrightarrow> find (\<lambda>q. int (pr_pid q) = int (pr_pid p)) ps = Some p" for ps
    by (induction ps) (auto simp: rev_image_eqI)
  ultimately show ?thesis by (simp add: pids_ok_def)
qed

text \<open>
  An answer of \<open>false\<close> is a proof: no VMM with that pid and start time is left.
\<close>

definition gone :: "int \<Rightarrow> string \<Rightarrow> 'm machine_scheme \<Rightarrow> bool" where
  "gone pid start h \<longleftrightarrow> (\<forall>p \<in> set (hs_procs h). \<not> (int (pr_pid p) = pid \<and> format_uint (unat (pr_start p)) = start))"

lemma proc_stat_wp:
  assumes "\<And>r h'. calm h h' \<Longrightarrow> (\<And>t. r = Unreadable t \<Longrightarrow> \<exists>n. os_fail os n = Some t) \<Longrightarrow>
    (\<And>p. pids_ok h \<Longrightarrow> p \<in> set (hs_procs h') \<Longrightarrow> int (pr_pid p) = pid \<Longrightarrow> (\<exists>t. r = Unreadable t) \<or> r = Content (vmm_stat p)) \<Longrightarrow> Q r h'"
  shows "wp (proc_stat os pid) Q h"
proof -
  let ?h = "reap os (hs_now h) (h\<lparr>hs_now := Suc (hs_now h)\<rparr>)"
  have c: "calm h ?h"
    unfolding calm_def reap_def by (rule exI [of _ "Suc (hs_now h)"], rule exI [of _ "\<lambda>p. \<not> os_exits os (hs_now h) p"]) simp
  show ?thesis
    unfolding proc_stat_def wp_bind wp_tick wp_state wp_return prod.case
  proof (rule assms [OF c])
    show "(\<exists>t. (case os_fail os (hs_now h) of None \<Rightarrow> (case find (\<lambda>p. int (pr_pid p) = pid) (hs_procs ?h) of
            None \<Rightarrow> case os_stat os (hs_now h) pid of None \<Rightarrow> Missing | Some t \<Rightarrow> Content t | Some p \<Rightarrow> Content (vmm_stat p))
          | Some t \<Rightarrow> Unreadable t) = Unreadable t)
        \<or> (case os_fail os (hs_now h) of None \<Rightarrow> (case find (\<lambda>p. int (pr_pid p) = pid) (hs_procs ?h) of
            None \<Rightarrow> case os_stat os (hs_now h) pid of None \<Rightarrow> Missing | Some t \<Rightarrow> Content t | Some p \<Rightarrow> Content (vmm_stat p))
          | Some t \<Rightarrow> Unreadable t) = Content (vmm_stat p)"
      if "pids_ok h" "p \<in> set (hs_procs ?h)" "int (pr_pid p) = pid" for p
      using find_pid [OF calm_pids [OF c that(1)] that(2)] that(3) by (auto split: option.splits)
  qed (auto split: option.splits)
qed

definition stat_answer :: "string \<Rightarrow> string content \<Rightarrow> string + bool" where
  "stat_answer starttime data = (case data of
      Missing \<Rightarrow> Inr False
    | Unreadable t \<Rightarrow> Inl (''read process identity: '' @ t)
    | Content s \<Rightarrow>
        let cur = ParseStartTime s in
        if parse_uint64 cur = None then Inl ''unreadable process starttime''
        else if cur \<noteq> starttime then Inr False
        else let st = hd (Fields (case after_comm s of None \<Rightarrow> [] | Some rest \<Rightarrow> rest))
             in Inr (st \<noteq> ''Z'' \<and> st \<noteq> ''X''))"

lemma parse_start [simp]: "parse_uint64 (format_uint (unat (w :: u64))) = Some (unat w)"
  by (rule parse_format_uint [OF unat_u64_lt])

lemma stat_answer_vmm: "stat_answer (format_uint (unat (pr_start p))) (Content (vmm_stat p)) = Inr True"
  using vmm_stat_reads [of p] by (auto simp: stat_answer_def Let_def split: option.splits)

lemma processAlive_wp:
  assumes "\<And>r h'. calm h h' \<Longrightarrow> (pids_ok h \<Longrightarrow> r = Inr False \<Longrightarrow> gone pid start h') \<Longrightarrow>
     (\<And>p. pids_ok h \<Longrightarrow> p \<in> set (hs_procs h') \<Longrightarrow> int (pr_pid p) = pid \<Longrightarrow> format_uint (unat (pr_start p)) = start \<Longrightarrow>
        r = Inr True \<or> (\<exists>n t. os_fail os n = Some t)) \<Longrightarrow> Q r h'"
  shows "wp (processAlive os pid start) Q h"
proof -
  have bad: "Q (Inl t) h" if "\<And>p. pids_ok h \<Longrightarrow> p \<in> set (hs_procs h) \<Longrightarrow> int (pr_pid p) = pid \<Longrightarrow> format_uint (unat (pr_start p)) = start \<Longrightarrow> False" for t
    by (rule assms [OF calm_refl]) (use that in auto)
  have look: "wp (proc_stat os pid) (\<lambda>r. Q (stat_answer start r)) h"
  proof (rule proc_stat_wp, rule assms)
    fix r h'
    assume c: "calm h h'" and f: "\<And>t. r = Unreadable t \<Longrightarrow> \<exists>n. os_fail os n = Some t"
      and v: "\<And>p. pids_ok h \<Longrightarrow> p \<in> set (hs_procs h') \<Longrightarrow> int (pr_pid p) = pid \<Longrightarrow> (\<exists>t. r = Unreadable t) \<or> r = Content (vmm_stat p)"
    have k: "stat_answer start r = Inr True \<or> (\<exists>t. r = Unreadable t)"
      if "pids_ok h" "p \<in> set (hs_procs h')" "int (pr_pid p) = pid" "format_uint (unat (pr_start p)) = start" for p
      using v [OF that(1-3)] stat_answer_vmm [of p] that(4) by auto
    show "calm h h'" by (rule c)
    show "gone pid start h'" if "pids_ok h" "stat_answer start r = Inr False"
    proof -
      have "\<not> (\<exists>t. r = Unreadable t)" using that(2) by (auto simp: stat_answer_def)
      then show ?thesis using k [OF that(1)] that(2) by (auto simp: gone_def)
    qed
    show "stat_answer start r = Inr True \<or> (\<exists>n t. os_fail os n = Some t)"
      if "pids_ok h" "p \<in> set (hs_procs h')" "int (pr_pid p) = pid" "format_uint (unat (pr_start p)) = start" for p
      using k [OF that] f by blast
  qed
  show ?thesis
    unfolding processAlive_def stat_answer_def [symmetric] wp_bind wp_return
    using look by (intro wp_ifI) (force simp: pids_ok_def intro!: bad)+
qed

lemma hostIdentity_wp:
  assumes "\<And>r n. hs_now h \<le> n \<Longrightarrow> (\<And>b s. r = Inr (b, s) \<Longrightarrow> b = TrimSpace (hs_boot h) \<and> s = hs_pidns h) \<Longrightarrow> Q r (h\<lparr>hs_now := n\<rparr>)"
  shows "wp (hostIdentity os) Q h"
  unfolding hostIdentity_def wp_bind
  by (rule attempt_wp) (auto intro!: assms split: option.splits if_splits)

text \<open>
  An entry names a live VMM when pid and start time are its own and the entry was written on this boot and in
  this pid namespace. Of such an entry \<open>entryAlive\<close> never says that its process is gone.
\<close>

definition names :: "vm_entry \<Rightarrow> 'm machine_scheme \<Rightarrow> vmm \<Rightarrow> bool" where
  "names e h p \<longleftrightarrow> ve_PID e = int (pr_pid p) \<and> ve_startTime e = format_uint (unat (pr_start p))
     \<and> ve_bootID e = TrimSpace (hs_boot h) \<and> ve_pidNamespace e = hs_pidns h"

lemma entryAlive_wp:
  assumes "\<And>r h'. calm h h' \<Longrightarrow> (\<And>p. pids_ok h \<Longrightarrow> r = Inr False \<Longrightarrow> p \<in> set (hs_procs h') \<Longrightarrow> names e h p \<Longrightarrow> False) \<Longrightarrow> Q r h'"
  shows "wp (entryAlive os e) Q h"
proof -
  have live: "ve_PID e \<noteq> 0" if "pids_ok h" "p \<in> set (hs_procs h)" "names e h p" for p
    using that by (auto simp: names_def pids_ok_def)
  have go: "wp (processAlive os (ve_PID e) (ve_startTime e)) Q (h\<lparr>hs_now := n\<rparr>)" if "hs_now h \<le> n" for n
    by (rule processAlive_wp, rule assms)
      (use that calm_trans [OF calm_now [OF that]] in \<open>auto simp: gone_def names_def pids_ok_def\<close>)
  have host: "wp (hostIdentity os) (\<lambda>i. wp (case i of Inl t \<Rightarrow> ret (Inl t) | Inr (boot, ns) \<Rightarrow>
      if ve_bootID e \<noteq> boot then ret (Inr False)
      else if ve_pidNamespace e \<noteq> ns then ret (Inl ''process PID namespace differs; ownership cannot be observed'')
      else processAlive os (ve_PID e) (ve_startTime e)) Q) h"
    by (rule hostIdentity_wp) (auto simp: names_def intro!: go assms [OF calm_now] split: sum.splits)
  show ?thesis
    unfolding entryAlive_def wp_bind using host live by (intro wp_ifI) (auto intro!: assms [OF calm_refl])
qed


section \<open>Calls that change one VM\<close>

text \<open>
  What the code relies on of the \<open>ip\<close> program: only \<open>ip netns add\<close> creates a namespace, and only the one it names.
\<close>

definition adds :: "string list \<Rightarrow> string \<Rightarrow> bool" where
  "adds argv x \<longleftrightarrow> argv = [''ip'', ''netns'', ''add'', x]"

definition ip_frame :: "os \<Rightarrow> bool" where
  "ip_frame os \<longleftrightarrow> (\<forall>n argv s e s'. os_ip os n argv s = (e, s') \<longrightarrow> set (fst s') \<subseteq> set (fst s) \<union> {x. adds argv x})"

definition ns_frame :: "string set \<Rightarrow> 'm privd_host_scheme \<Rightarrow> string list \<Rightarrow> bool" where
  "ns_frame S h ns \<longleftrightarrow> set ns \<subseteq> set (hs_netns h) \<union> S"

definition creates :: "string set \<Rightarrow> string list list \<Rightarrow> bool" where
  "creates S cmds \<longleftrightarrow> (\<forall>argv \<in> set cmds. \<forall>x. adds argv x \<longrightarrow> x \<in> S)"

lemma namespace_inj [simp]: "NamespaceName i = NamespaceName j \<longleftrightarrow> i = j"
  by (simp add: NamespaceName_def)

lemma creates_commands [simp]:
  "creates {NamespaceName i} (NetSetupCommands os i)" "creates {} (NetTeardownCommands os i)" "creates {} (NetProbeCommands os i)"
  by (simp_all add: creates_def adds_def NetSetupCommands_def NetTeardownCommands_def NetProbeCommands_def Let_def)

lemma runCmd_wp:
  assumes "ip_frame os" "creates S [argv]"
    "\<And>r n ns ifs. hs_now h \<le> n \<Longrightarrow> ns_frame S h ns \<Longrightarrow> Q r (h\<lparr>hs_now := n, hs_netns := ns, hs_ifs := ifs\<rparr>)"
  shows "wp (runCmd os argv) Q h"
proof -
  obtain e ns ifs where r: "os_ip os (hs_now h) argv (hs_netns h, hs_ifs h) = (e, ns, ifs)" by (rule prod_cases3)
  then have "set ns \<subseteq> set (hs_netns h) \<union> {x. adds argv x}" using assms(1) unfolding ip_frame_def by fastforce
  then have "ns_frame S h ns" using assms(2) by (auto simp: ns_frame_def creates_def)
  then show ?thesis using r by (simp add: runCmd_def assms(3))
qed

lemma ns_frame_trans: "ns_frame S h ns \<Longrightarrow> ns_frame T (h\<lparr>hs_now := n, hs_netns := ns, hs_ifs := ifs\<rparr>) ns' \<Longrightarrow> S \<subseteq> U \<Longrightarrow> T \<subseteq> U \<Longrightarrow> ns_frame U h ns'"
  by (auto simp: ns_frame_def)

lemma ns_frame_weaken: "ns_frame {} h ns \<Longrightarrow> ns_frame S h ns"
  by (auto simp: ns_frame_def)

lemma ns_frame_refl [simp]: "ns_frame S h (hs_netns h)"
  by (simp add: ns_frame_def)

lemma ns_frame_now [simp]: "ns_frame S (h\<lparr>hs_now := n\<rparr>) = ns_frame S h"
  by (intro ext) (simp add: ns_frame_def)

lemma runAll_wp:
  assumes "ip_frame os"
  shows "creates S cmds \<Longrightarrow> (\<And>r n ns ifs. hs_now h \<le> n \<Longrightarrow> ns_frame S h ns \<Longrightarrow> Q r (h\<lparr>hs_now := n, hs_netns := ns, hs_ifs := ifs\<rparr>)) \<Longrightarrow>
    wp (runAll os cmds) Q h"
proof (induction cmds arbitrary: h)
  case Nil
  from Nil(2) [of "hs_now h" "hs_netns h" None "hs_ifs h"] show ?case by simp
next
  case (Cons a as)
  have ab: "creates S [a]" "creates S as" using Cons.prems(1) by (simp_all add: creates_def)
  show ?case
    unfolding runAll.simps wp_bind
  proof (rule runCmd_wp [OF assms ab(1)])
    fix r n ns ifs
    assume n: "hs_now h \<le> n" and f: "ns_frame S h ns"
    have "wp (runAll os as) Q (h\<lparr>hs_now := n, hs_netns := ns, hs_ifs := ifs\<rparr>)"
    proof (rule Cons.IH [OF ab(2)])
      fix r n' ns' ifs'
      assume "hs_now (h\<lparr>hs_now := n, hs_netns := ns, hs_ifs := ifs\<rparr>) \<le> n'"
        "ns_frame S (h\<lparr>hs_now := n, hs_netns := ns, hs_ifs := ifs\<rparr>) ns'"
      then show "Q r (h\<lparr>hs_now := n, hs_netns := ns, hs_ifs := ifs, hs_now := n', hs_netns := ns', hs_ifs := ifs'\<rparr>)"
        using Cons.prems(2) [of n' ns' r ifs'] n ns_frame_trans [OF f, where U = S] by simp
    qed
    with Cons.prems(2) [OF n f] show "wp (case r of None \<Rightarrow> runAll os as | Some t \<Rightarrow> ret (Some t)) Q (h\<lparr>hs_now := n, hs_netns := ns, hs_ifs := ifs\<rparr>)"
      by (cases r) simp_all
  qed
qed

lemma runEach_wp:
  assumes "ip_frame os"
  shows "creates S cmds \<Longrightarrow> (\<And>r n ns ifs. hs_now h \<le> n \<Longrightarrow> ns_frame S h ns \<Longrightarrow> Q r (h\<lparr>hs_now := n, hs_netns := ns, hs_ifs := ifs\<rparr>)) \<Longrightarrow>
    wp (runEach os cmds) Q h"
proof (induction cmds arbitrary: h Q)
  case Nil
  from Nil(2) [of "hs_now h" "hs_netns h" "[]" "hs_ifs h"] show ?case by simp
next
  case (Cons a as)
  have ab: "creates S [a]" "creates S as" using Cons.prems(1) by (simp_all add: creates_def)
  show ?case
    unfolding runEach.simps wp_bind wp_return
  proof (rule runCmd_wp [OF assms ab(1)], rule Cons.IH [OF ab(2)])
    fix r n ns ifs r' n' ns' ifs'
    assume n: "hs_now h \<le> n" "ns_frame S h ns" "hs_now (h\<lparr>hs_now := n, hs_netns := ns, hs_ifs := ifs\<rparr>) \<le> n'"
      "ns_frame S (h\<lparr>hs_now := n, hs_netns := ns, hs_ifs := ifs\<rparr>) ns'"
    show "Q ((case r of None \<Rightarrow> [] | Some t \<Rightarrow> t @ [CHR 0x0A]) @ r') (h\<lparr>hs_now := n, hs_netns := ns, hs_ifs := ifs, hs_now := n', hs_netns := ns', hs_ifs := ifs'\<rparr>)"
      using Cons.prems(2) [of n' ns' _ ifs'] n ns_frame_trans [OF n(2,4), where U = S] by simp
  qed
qed

lemma netnsExists_wp:
  assumes "\<And>r n. hs_now h \<le> n \<Longrightarrow> (\<And>b. r = Inr b \<Longrightarrow> b = (NamespaceName i \<in> set (hs_netns h))) \<Longrightarrow> Q r (h\<lparr>hs_now := n\<rparr>)"
  shows "wp (netnsExists os i) Q h"
  unfolding netnsExists_def by (auto intro!: assms split: option.splits)

text \<open>A release that ends without an error has seen both the namespace and the host interface gone.\<close>

lemma ReleaseNetwork_wp:
  assumes "ip_frame os"
    "\<And>r n ns ifs. hs_now h \<le> n \<Longrightarrow> ns_frame {} h ns \<Longrightarrow> (r = None \<Longrightarrow> NamespaceName i \<notin> set ns \<and> VethName os i \<notin> set ifs) \<Longrightarrow>
      Q r (h\<lparr>hs_now := n, hs_netns := ns, hs_ifs := ifs\<rparr>)"
  shows "wp (ReleaseNetworkContext os i) Q h"
  unfolding ReleaseNetworkContext_def wp_bind
proof (rule runEach_wp [OF assms(1) creates_commands(2)], rule netnsExists_wp)
  fix errs n ns ifs n' and r :: "string + bool"
  assume n: "hs_now h \<le> n" "ns_frame {} h ns" "hs_now (h\<lparr>hs_now := n, hs_netns := ns, hs_ifs := ifs\<rparr>) \<le> n'"
    "\<And>b. r = Inr b \<Longrightarrow> b = (NamespaceName i \<in> set (hs_netns (h\<lparr>hs_now := n, hs_netns := ns, hs_ifs := ifs\<rparr>)))"
  have fin: "Q x (h\<lparr>hs_now := m, hs_netns := ns, hs_ifs := ifs\<rparr>)" if "n' \<le> m" "x = None \<Longrightarrow> NamespaceName i \<notin> set ns \<and> VethName os i \<notin> set ifs" for x m
    using assms(2) [of m ns x ifs] n that by simp
  show "wp (case r of Inl t \<Rightarrow> ret (Some (errs @ t)) | Inr exists \<Rightarrow>
         if exists then ret (Some (errs @ ''privd: network namespace '' @ NamespaceName i @ '' survives teardown''))
         else do {
           e \<leftarrow> sys os;
           ifs \<leftarrow> gets hs_ifs;
           ret (case e of
               Some t \<Rightarrow> Some (errs @ ''privd: probe host interfaces after teardown: '' @ t)
             | None \<Rightarrow> if VethName os i \<in> set ifs
                 then Some (errs @ ''privd: host interface '' @ VethName os i @ '' survives teardown'') else None) })
       Q (h\<lparr>hs_now := n, hs_netns := ns, hs_ifs := ifs, hs_now := n'\<rparr>)"
  proof (cases r)
    case (Inl t)
    then show ?thesis using fin [of n' "Some (errs @ t)"] by simp
  next
    case (Inr b)
    then show ?thesis using n(4) [OF Inr] by (auto intro!: fin split: option.splits)
  qed
qed

lemma AllocateNetwork_wp:
  assumes "ip_frame os"
    "\<And>r n ns ifs. hs_now h \<le> n \<Longrightarrow> ns_frame {NamespaceName i} h ns \<Longrightarrow> Q r (h\<lparr>hs_now := n, hs_netns := ns, hs_ifs := ifs\<rparr>)"
  shows "wp (AllocateNetworkContext os i) Q h"
proof -
  have mk: "wp (runAll os (NetSetupCommands os i)) Q (h\<lparr>hs_now := n, hs_netns := ns, hs_ifs := ifs\<rparr>)"
    if "hs_now h \<le> n" "ns_frame {NamespaceName i} h ns" for n ns ifs
    by (rule runAll_wp [OF assms(1) creates_commands(1)]) (use assms(2) that ns_frame_trans [OF that(2), where U = "{NamespaceName i}"] in auto)
  have tear: "wp (runEach os (NetTeardownCommands os i)) (\<lambda>_. wp (runAll os (NetSetupCommands os i)) Q) (h\<lparr>hs_now := n, hs_netns := ns, hs_ifs := ifs\<rparr>)"
    if "hs_now h \<le> n" "ns_frame {NamespaceName i} h ns" for n ns ifs
    by (rule runEach_wp [OF assms(1) creates_commands(2)]) (use mk that ns_frame_trans [OF that(2), where U = "{NamespaceName i}"] in auto)
  have built: "wp (do { _ \<leftarrow> (if b then runEach os (NetTeardownCommands os i) else ret []); runAll os (NetSetupCommands os i) }) Q
      (h\<lparr>hs_now := n, hs_netns := ns, hs_ifs := ifs\<rparr>)" if "hs_now h \<le> n" "ns_frame {NamespaceName i} h ns" for b n ns ifs
    using that tear mk by (simp add: wp_if)
  have probe: "wp (if b then probeHealthy os i else ret False)
      (\<lambda>healthy. wp (if b \<and> healthy then ret None
         else do { _ \<leftarrow> (if b then runEach os (NetTeardownCommands os i) else ret []); runAll os (NetSetupCommands os i) }) Q)
      (h\<lparr>hs_now := n\<rparr>)" if "hs_now h \<le> n" for b n
  proof (cases b)
    case True
    have "wp (runAll os (NetProbeCommands os i))
        (\<lambda>e. wp (if e = None then ret None else do { _ \<leftarrow> runEach os (NetTeardownCommands os i); runAll os (NetSetupCommands os i) }) Q) (h\<lparr>hs_now := n\<rparr>)"
      by (rule runAll_wp [OF assms(1) creates_commands(3)]) (use that built [of _ _ True] assms(2) in \<open>auto dest: ns_frame_weaken [where S = "{NamespaceName i}"]\<close>)
    with True show ?thesis by (simp add: probeHealthy_def)
  qed (use that built [of n "hs_netns h" False "hs_ifs h"] in auto)
  show ?thesis
    unfolding AllocateNetworkContext_def wp_bind
    by (rule netnsExists_wp)
      (use probe assms(2) [of _ "hs_netns h" _ "hs_ifs h"] in \<open>auto simp del: wp_bind simp: wp_bind [symmetric] split: sum.splits\<close>)
qed

section \<open>The ledger\<close>

lemma entry_valid_vmID: "entry_valid i e \<Longrightarrow> ve_vmID e = i"
  by (simp add: entry_valid_def)

lemma ledger_get_wp:
  assumes "\<And>r n. hs_now h \<le> n \<Longrightarrow> (r = Missing \<Longrightarrow> map_of (hs_ledger h) i = None) \<Longrightarrow>
     (\<And>e. r = Content e \<Longrightarrow> map_of (hs_ledger h) i = Some (Entry e) \<and> ve_vmID e = i \<and> entry_valid i e) \<Longrightarrow> Q r (h\<lparr>hs_now := n\<rparr>)"
  shows "wp (ledger_get os i) Q h"
  unfolding ledger_get_def by (auto intro!: assms dest: entry_valid_vmID split: option.splits ledger_file.splits if_splits)

lemma ledger_put_wp:
  assumes "\<And>t n. hs_now h \<le> n \<Longrightarrow> Q (Some t) (h\<lparr>hs_now := n\<rparr>)"
    "\<And>r n. hs_now h \<le> n \<Longrightarrow> Q r (h\<lparr>hs_now := n, hs_ledger := AList.update (ve_vmID e) (Entry (e\<lparr>ve_startAttempted := False\<rparr>)) (hs_ledger h)\<rparr>)"
  shows "wp (ledger_put os e) Q h"
  unfolding ledger_put_def wp_bind wp_return
  by (rule WriteFile_wp) (use assms in \<open>auto simp: timeless_def\<close>)

lemma delete_absent: "map_of xs k = None \<Longrightarrow> AList.delete k xs = xs"
  by (simp add: map_of_eq_None_iff AList.delete_idem)

lemma ledger_delete_wp:
  assumes "\<And>t n. hs_now h \<le> n \<Longrightarrow> Q (Some t) (h\<lparr>hs_now := n\<rparr>)"
    "\<And>r n. hs_now h \<le> n \<Longrightarrow> Q r (h\<lparr>hs_now := n, hs_ledger := AList.delete i (hs_ledger h)\<rparr>)"
  shows "wp (ledger_delete os i) Q h"
  unfolding ledger_delete_def wp_bind wp_return wp_state prod.case
  by (rule Remove_wp) (use assms assms(2) [of "hs_now h" None] in \<open>auto simp: timeless_def delete_absent\<close>)

text \<open>A scan that ends without an error has read every file with a VM's name, and found a valid entry of that VM in it.\<close>

definition scan_read :: "(string \<times> ledger_file) list \<Rightarrow> string list \<Rightarrow> vm_entry list \<Rightarrow> bool" where
  "scan_read files ids es \<longleftrightarrow> (\<forall>j \<in> set ids. \<exists>e \<in> set es. map_of files j = Some (Entry e) \<and> entry_valid j e)
     \<and> (\<forall>e \<in> set es. ve_vmID e \<in> set ids \<and> map_of files (ve_vmID e) = Some (Entry e))"

lemma get_all_wp:
  "(\<And>r n. hs_now h \<le> n \<Longrightarrow> (\<And>es. r = Inr es \<Longrightarrow> scan_read (hs_ledger h) ids es) \<Longrightarrow> Q r (h\<lparr>hs_now := n\<rparr>)) \<Longrightarrow> wp (get_all os ids) Q h"
proof (induction ids arbitrary: h Q)
  case Nil
  from Nil [of "hs_now h" "Inr []"] show ?case by (simp add: scan_read_def)
next
  case (Cons i ids)
  show ?case
    unfolding get_all.simps wp_bind
  proof (rule ledger_get_wp)
    fix r n
    assume n: "hs_now h \<le> n" and e: "\<And>e. r = Content e \<Longrightarrow> map_of (hs_ledger h) i = Some (Entry e) \<and> ve_vmID e = i \<and> entry_valid i e"
    have bad: "Q (Inl t) (h\<lparr>hs_now := n\<rparr>)" for t using Cons.prems [OF n, of "Inl t"] by simp
    have "wp (get_all os ids) (\<lambda>rest. Q (map_sum id (\<lambda>vs. v # vs) rest)) (h\<lparr>hs_now := n\<rparr>)" if "r = Content v" for v
    proof (rule Cons.IH)
      fix m and s :: "string + vm_entry list"
      assume m: "hs_now (h\<lparr>hs_now := n\<rparr>) \<le> m" "\<And>es. s = Inr es \<Longrightarrow> scan_read (hs_ledger (h\<lparr>hs_now := n\<rparr>)) ids es"
      have "scan_read (hs_ledger h) (i # ids) es" if "map_sum id ((#) v) s = Inr es" for es
        using m(2) that e [OF \<open>r = Content v\<close>] by (cases s) (auto simp: scan_read_def)
      then show "Q (map_sum id ((#) v) s) (h\<lparr>hs_now := n, hs_now := m\<rparr>)" using Cons.prems [of m] n m(1) by simp
    qed
    with bad show "wp (case r of Missing \<Rightarrow> ret (Inl (''ledger scan: '' @ i @ '': '' @ ErrNotExist)) | Unreadable t \<Rightarrow> ret (Inl (''ledger scan: '' @ i @ '': '' @ t))
        | Content v \<Rightarrow> do { rest \<leftarrow> get_all os ids; ret (map_sum id (\<lambda>vs. v # vs) rest) }) Q (h\<lparr>hs_now := n\<rparr>)"
      by (cases r) simp_all
  qed
qed

lemma ledger_all_wp:
  assumes "\<And>r n. hs_now h \<le> n \<Longrightarrow> (\<And>es. r = Inr es \<Longrightarrow> scan_read (hs_ledger h) (filter ValidVMID (map fst (hs_ledger h))) es) \<Longrightarrow> Q r (h\<lparr>hs_now := n\<rparr>)"
  shows "wp (ledger_all os) Q h"
proof -
  have "wp (get_all os (filter ValidVMID (sort_key (\<lambda>i. i @ ''.json'') (remdups (map fst (hs_ledger h)))))) Q (h\<lparr>hs_now := Suc (hs_now h)\<rparr>)"
    by (rule get_all_wp) (use assms in \<open>auto simp: scan_read_def\<close>)
  then show ?thesis unfolding ledger_all_def using assms [of "Suc (hs_now h)"] by (auto split: option.splits)
qed

lemma scan_entry: "scan_read files (filter ValidVMID (map fst files)) es \<Longrightarrow> ValidVMID j \<Longrightarrow> map_of files j = Some f \<Longrightarrow>
  \<exists>e \<in> set es. f = Entry e \<and> ve_vmID e = j"
  by (force simp: scan_read_def dest: entry_valid_vmID map_of_SomeD)

section \<open>The invariant of one VM\<close>

text \<open>
  \<open>starting\<close> and \<open>allocating\<close> say that a start or an allocation for the VM is unresolved.
\<close>

definition owner :: "'m privd_host_scheme \<Rightarrow> string \<Rightarrow> bool \<Rightarrow> vmm \<Rightarrow> bool" where
  "owner h i starting p = (case map_of (hs_ledger h) i of
      None \<Rightarrow> starting
    | Some Corrupt \<Rightarrow> True
    | Some (Entry e) \<Rightarrow> if ve_PID e = 0 then starting else names e h p)"

definition claimant :: "'m privd_host_scheme \<Rightarrow> string \<Rightarrow> bool \<Rightarrow> bool" where
  "claimant h i allocating = (case map_of (hs_ledger h) i of
      None \<Rightarrow> allocating
    | Some Corrupt \<Rightarrow> True
    | Some (Entry e) \<Rightarrow> ve_netCIDR e \<noteq> [] \<or> allocating)"

definition vm_ok :: "'m privd_host_scheme \<Rightarrow> string \<Rightarrow> bool \<Rightarrow> bool \<Rightarrow> bool" where
  "vm_ok h i starting allocating \<longleftrightarrow>
     (\<forall>p \<in> set (hs_procs h). pr_vm p = i \<longrightarrow> map_of (hs_jails h) i \<noteq> None \<and> owner h i starting p)
     \<and> (NamespaceName i \<in> set (hs_netns h) \<longrightarrow> claimant h i allocating)"

text \<open>The claims of a VM on a subnet, a jail uid and a guest CID are its own.\<close>

definition apart :: "vm_entry \<Rightarrow> vm_entry \<Rightarrow> bool" where
  "apart e f \<longleftrightarrow> (ve_netCIDR e \<noteq> [] \<longrightarrow> ve_netCIDR e \<noteq> ve_netCIDR f)
     \<and> (ve_PID e \<noteq> 0 \<longrightarrow> ve_PID f \<noteq> 0 \<longrightarrow> ve_UID e \<noteq> ve_UID f \<and> ve_CID e \<noteq> ve_CID f)"

definition fresh :: "'m privd_host_scheme \<Rightarrow> string \<Rightarrow> bool" where
  "fresh h i \<longleftrightarrow> (\<forall>j e f. j \<noteq> i \<longrightarrow> ValidVMID i \<longrightarrow> ValidVMID j \<longrightarrow> map_of (hs_ledger h) i = Some (Entry e) \<longrightarrow>
     map_of (hs_ledger h) j = Some (Entry f) \<longrightarrow> apart e f)"

text \<open>What a request about one VM leaves of the rest.\<close>

definition frame :: "string \<Rightarrow> 'm privd_host_scheme \<Rightarrow> 'm privd_host_scheme \<Rightarrow> bool" where
  "frame i h h' \<longleftrightarrow> hs_now h \<le> hs_now h' \<and> hs_boot h' = hs_boot h \<and> hs_pidns h' = hs_pidns h
     \<and> hs_ops h' = hs_ops h \<and> hs_opfiles h' = hs_opfiles h \<and> hs_operr h' = hs_operr h \<and> hs_stage h' = hs_stage h
     \<and> privd_host.more h' = privd_host.more h
     \<and> (\<forall>j. j \<noteq> i \<longrightarrow> map_of (hs_ledger h') j = map_of (hs_ledger h) j \<and> map_of (hs_jails h') j = map_of (hs_jails h) j
          \<and> (NamespaceName j \<in> set (hs_netns h') \<longrightarrow> NamespaceName j \<in> set (hs_netns h)))
     \<and> (\<forall>p \<in> set (hs_procs h'). pr_vm p \<noteq> i \<longrightarrow> p \<in> set (hs_procs h))"

definition before :: "string \<Rightarrow> 'm privd_host_scheme \<Rightarrow> bool" where
  "before i h \<longleftrightarrow> ValidVMID i \<and> pids_ok h \<and> vm_ok h i False False \<and> fresh h i"

definition after :: "string \<Rightarrow> 'm privd_host_scheme \<Rightarrow> bool \<Rightarrow> bool \<Rightarrow> 'm privd_host_scheme \<Rightarrow> bool" where
  "after i h starting allocating h' \<longleftrightarrow> frame i h h' \<and> pids_ok h' \<and> vm_ok h' i starting allocating \<and> fresh h' i"

lemma frame_refl [simp]: "frame i h h"
  by (simp add: frame_def)

lemma frame_trans: "frame i h h1 \<Longrightarrow> frame i h1 h2 \<Longrightarrow> frame i h h2"
  unfolding frame_def by (intro conjI allI impI ballI) (auto dest: order_trans)

lemma vm_ok_weaken: "vm_ok h i s a \<Longrightarrow> (s \<longrightarrow> s') \<Longrightarrow> (a \<longrightarrow> a') \<Longrightarrow> vm_ok h i s' a'"
  unfolding vm_ok_def owner_def claimant_def by (fastforce split: option.splits ledger_file.splits if_splits)

lemma calm_frame: "calm h h' \<Longrightarrow> frame i h (h' :: 'm privd_host_scheme)"
  by (auto simp: calm_def frame_def)

lemma calm_before: "calm h h' \<Longrightarrow> before i h \<Longrightarrow> before i (h' :: 'm privd_host_scheme)"
  by (auto simp: calm_def before_def vm_ok_def owner_def claimant_def fresh_def names_def pids_ok_def distinct_map_filter_pids
      split: option.splits ledger_file.splits if_splits)

lemma before_after: "before i h \<Longrightarrow> after i h s a h"
  by (auto simp: before_def after_def intro: vm_ok_weaken)

lemma calm_after: "calm h h' \<Longrightarrow> before i h \<Longrightarrow> after i h s a (h' :: 'm privd_host_scheme)"
  using before_after [OF calm_before] calm_frame by (fastforce simp: after_def)

text \<open>The changes a handler makes, and when they leave the VM in order.\<close>

lemma after_net:
  assumes "before i h" "hs_now h \<le> n" "ns_frame {NamespaceName i} h ns" "NamespaceName i \<in> set ns \<Longrightarrow> claimant h i a"
  shows "after i h s a (h\<lparr>hs_now := n, hs_netns := ns, hs_ifs := ifs\<rparr>)"
  using assms
  by (auto simp: before_def after_def frame_def vm_ok_def owner_def claimant_def fresh_def names_def pids_ok_def ns_frame_def
      split: option.splits ledger_file.splits if_splits)

lemma after_entry:
  assumes "before i h" "hs_now h \<le> n" "ns_frame {NamespaceName i} h ns" "ve_vmID e = i" "NamespaceName i \<in> set ns \<Longrightarrow> ve_netCIDR e \<noteq> [] \<or> a"
    "\<And>p. p \<in> set (hs_procs h) \<Longrightarrow> pr_vm p = i \<Longrightarrow> if ve_PID e = 0 then s else names e h p"
    "\<And>j f. j \<noteq> i \<Longrightarrow> ValidVMID j \<Longrightarrow> map_of (hs_ledger h) j = Some (Entry f) \<Longrightarrow> apart e f"
  shows "after i h s a (h\<lparr>hs_now := n, hs_netns := ns, hs_ifs := ifs, hs_ledger := AList.update i (Entry (e\<lparr>ve_startAttempted := False\<rparr>)) (hs_ledger h)\<rparr>)"
  using assms
  by (auto simp: before_def after_def frame_def vm_ok_def owner_def claimant_def fresh_def names_def pids_ok_def ns_frame_def update_conv' apart_def
      split: option.splits ledger_file.splits if_splits)

lemma after_no_entry:
  assumes "before i h" "hs_now h \<le> n" "ns_frame {} h ns" "NamespaceName i \<notin> set ns" "\<And>p. p \<in> set (hs_procs h) \<Longrightarrow> pr_vm p \<noteq> i"
  shows "after i h s a (h\<lparr>hs_now := n, hs_netns := ns, hs_ifs := ifs, hs_ledger := AList.delete i (hs_ledger h)\<rparr>)"
  using assms
  by (auto simp: before_def after_def frame_def vm_ok_def owner_def claimant_def fresh_def names_def pids_ok_def ns_frame_def delete_conv'
      split: option.splits ledger_file.splits if_splits)

section \<open>The handlers\<close>

definition unknown :: "response \<Rightarrow> bool" where
  "unknown resp \<longleftrightarrow> final_state resp = OpnUnknown"

lemma unknown_simps [simp]:
  "\<not> unknown (okResp p)" "unknown (errResp c m) \<longleftrightarrow> c = ''internal'' \<or> c = ''outcome_unknown''"
  by (simp_all add: unknown_def final_state_def okResp_def errResp_def)

lemma no_holder:
  assumes "scan_read files (filter ValidVMID (map fst files)) es" "\<And>e. find P es = Some e \<Longrightarrow> ve_vmID e = []"
    "ValidVMID j" "map_of files j = Some (Entry e)"
  shows "\<not> P e"
proof -
  have "ve_vmID d \<noteq> []" if "d \<in> set es" for d
    using assms(1) that by (fastforce simp: scan_read_def ValidVMID_def)
  then have "find P es = None" using assms(2) by (cases "find P es") (auto simp: find_Some_iff)
  moreover have "e \<in> set es" using scan_entry [OF assms(1,3,4)] by auto
  ultimately show ?thesis by (simp add: find_None_iff)
qed

lemma subnetHolder_wp:
  assumes "\<And>r n. hs_now h \<le> n \<Longrightarrow> (\<And>j e. r = Inr [] \<Longrightarrow> ValidVMID j \<Longrightarrow> map_of (hs_ledger h) j = Some (Entry e) \<Longrightarrow> ve_netCIDR e \<noteq> cidr) \<Longrightarrow>
    Q r (h\<lparr>hs_now := n\<rparr>)"
  shows "wp (subnetHolder os cidr) Q h"
  unfolding subnetHolder_def wp_bind wp_return
  by (rule ledger_all_wp, rule assms)
    (auto split: sum.splits option.splits dest: no_holder [where P = "\<lambda>e. ve_netCIDR e = cidr", rotated -2])

lemma identityHolder_wp:
  assumes "\<And>r n. hs_now h \<le> n \<Longrightarrow> (\<And>j e x. r = Inr ([], x) \<Longrightarrow> ValidVMID j \<Longrightarrow> map_of (hs_ledger h) j = Some (Entry e) \<Longrightarrow> ve_UID e \<noteq> uid \<and> ve_CID e \<noteq> cid) \<Longrightarrow>
    Q r (h\<lparr>hs_now := n\<rparr>)"
  shows "wp (identityHolder os uid cid) Q h"
  unfolding identityHolder_def wp_bind wp_return
  by (rule ledger_all_wp, rule assms)
    (auto split: sum.splits option.splits dest: no_holder [where P = "\<lambda>e. ve_UID e = uid \<or> ve_CID e = cid", rotated -2])

lemma before_now: "before i h \<Longrightarrow> hs_now h \<le> n \<Longrightarrow> before i (h\<lparr>hs_now := n\<rparr>)"
  by (rule calm_before [OF calm_now])

lemma after_now: "before i h \<Longrightarrow> hs_now h \<le> n \<Longrightarrow> after i h s a (h\<lparr>hs_now := n\<rparr>)"
  by (rule calm_after [OF calm_now])

lemma handleAllocateNetwork_wp:
  assumes "ip_frame os" "before (py_vmID r) h"
  shows "wp (handleAllocateNetwork os opID (Some r)) (\<lambda>resp. after (py_vmID r) h False (unknown resp)) h"
proof -
  let ?i = "py_vmID r"
  have idle: "pr_vm p \<noteq> ?i" if "map_of (hs_ledger h) ?i = None" "p \<in> set (hs_procs h)" for p
    using assms(2) that by (auto simp: before_def vm_ok_def owner_def)
  have put: "after ?i h False b (h\<lparr>hs_now := m, hs_netns := ns, hs_ifs := ifs,
      hs_ledger := AList.update ?i (Entry \<lparr>ve_startAttempted = False, ve_networkOpID = opID, ve_startOpID = [], ve_vmID = ?i, ve_UID = 0,
        ve_GID = 0, ve_CID = 0, ve_PID = 0, ve_startTime = [], ve_bootID = [], ve_pidNamespace = [], ve_netCIDR = py_CIDR r, ve_createdAt = t\<rparr>) (hs_ledger h)\<rparr>)"
    if "hs_now h \<le> m" "ns_frame {NamespaceName ?i} h ns" "py_CIDR r \<noteq> []" "map_of (hs_ledger h) ?i = None"
      "\<And>j e. ValidVMID j \<Longrightarrow> map_of (hs_ledger h) j = Some (Entry e) \<Longrightarrow> ve_netCIDR e \<noteq> py_CIDR r" for b m ns ifs t
    using after_entry [OF assms(2) that(1,2), of "\<lparr>ve_startAttempted = False, ve_networkOpID = opID, ve_startOpID = [], ve_vmID = ?i, ve_UID = 0,
        ve_GID = 0, ve_CID = 0, ve_PID = 0, ve_startTime = [], ve_bootID = [], ve_pidNamespace = [], ve_netCIDR = py_CIDR r, ve_createdAt = t\<rparr>" b False ifs]
      that(3-) idle by (fastforce simp: apart_def)
  have kept: "after ?i h False b (h\<lparr>hs_now := m, hs_netns := ns, hs_ifs := ifs\<rparr>)"
    if "map_of (hs_ledger h) ?i = None" "hs_now h \<le> m" "ns_frame {NamespaceName ?i} h ns" "NamespaceName ?i \<in> set ns \<longrightarrow> b" for b m ns ifs
    by (rule after_net [OF assms(2) that(2,3)]) (use that in \<open>simp add: claimant_def\<close>)
  show ?thesis
    unfolding handleAllocateNetwork_def option.case Let_def wp_bind
    by (intro wp_ifI, simp_all add: assms(2) before_after, rule ledger_get_wp)
      (auto 4 6 split: content.splits sum.splits option.splits intro!: after_now assms(2) subnetHolder_wp AllocateNetwork_wp [OF assms(1)]
        ReleaseNetwork_wp [OF assms(1)] ledger_put_wp put kept simp: ns_frame_def)
qed

lemma handleReleaseNetwork_wp:
  assumes "ip_frame os" "before (py_vmID r) h"
  shows "wp (handleReleaseNetwork os (Some r)) (\<lambda>_. after (py_vmID r) h False False) h"
proof -
  let ?i = "py_vmID r"
  have torn: "after ?i h False False (h\<lparr>hs_now := m, hs_netns := ns, hs_ifs := ifs\<rparr>)" if "hs_now h \<le> m" "ns_frame {} h ns" for m ns ifs
    by (rule after_net [OF assms(2) that(1)]) (use that(2) assms(2) in \<open>auto simp: ns_frame_def before_def vm_ok_def\<close>)
  have gone: "after ?i h False False (h\<lparr>hs_now := m, hs_netns := ns, hs_ifs := ifs, hs_ledger := AList.delete ?i (hs_ledger h)\<rparr>)"
    if "hs_now h \<le> m" "ns_frame {} h ns" "NamespaceName ?i \<notin> set ns" "\<exists>e. map_of (hs_ledger h) ?i = Some (Entry e) \<and> ve_PID e = 0" for m ns ifs
    by (rule after_no_entry [OF assms(2) that(1-3)]) (use assms(2) that(4) in \<open>auto simp: before_def vm_ok_def owner_def\<close>)
  have put: "after ?i h False False (h\<lparr>hs_now := m, hs_netns := ns, hs_ifs := ifs,
      hs_ledger := AList.update ?i (Entry (e\<lparr>ve_netCIDR := [], ve_startAttempted := False\<rparr>)) (hs_ledger h)\<rparr>)"
    if "hs_now h \<le> m" "ns_frame {} h ns" "NamespaceName ?i \<notin> set ns" "map_of (hs_ledger h) ?i = Some (Entry e)" "ve_PID e \<noteq> 0" "ve_vmID e = ?i" for m ns ifs e
    by (rule after_entry [OF assms(2) that(1) ns_frame_weaken [OF that(2)], of "e\<lparr>ve_netCIDR := []\<rparr>" False False ifs, simplified])
      (use assms(2) that(3-) in \<open>auto simp: before_def vm_ok_def owner_def names_def fresh_def apart_def\<close>)
  show ?thesis
    unfolding handleReleaseNetwork_def option.case Let_def wp_bind
    by (intro wp_ifI, simp_all add: assms(2) before_after, rule ledger_get_wp)
      (auto split: content.splits option.splits intro!: after_now assms(2)
        ReleaseNetwork_wp [OF assms(1)] ledger_put_wp ledger_delete_wp put gone torn)
qed

text \<open>Signals and rollback only look, from the point of view of the model: VMMs exit when they are observed.\<close>

lemma calm_reap: "calm h (reap os n (h\<lparr>hs_now := Suc (hs_now h)\<rparr>))"
  unfolding calm_def reap_def by (rule exI [of _ "Suc (hs_now h)"], rule exI [of _ "\<lambda>p. \<not> os_exits os n p"]) simp

lemma calm_sys: "calm g h \<Longrightarrow> hs_now h \<le> n \<Longrightarrow> calm g (h\<lparr>hs_now := n\<rparr>)"
  by (rule calm_trans [OF _ calm_now])

lemma openProcess_wp: "calm g h \<Longrightarrow> (\<And>r h'. calm g h' \<Longrightarrow> Q r h') \<Longrightarrow> wp (openProcess os pid) Q h"
  unfolding openProcess_def by (simp add: calm_trans [OF _ calm_reap])

lemma proc_stat_calm: "calm g h \<Longrightarrow> (\<And>r h'. calm g h' \<Longrightarrow> Q r h') \<Longrightarrow> wp (proc_stat os pid) Q h"
  by (rule proc_stat_wp) (blast intro: calm_trans)

lemma processAlive_calm: "calm g h \<Longrightarrow> (\<And>r h'. calm g h' \<Longrightarrow> Q r h') \<Longrightarrow> wp (processAlive os pid start) Q h"
  by (rule processAlive_wp) (blast intro: calm_trans)

lemma entryAlive_calm: "calm g h \<Longrightarrow> (\<And>r h'. calm g h' \<Longrightarrow> Q r h') \<Longrightarrow> wp (entryAlive os e) Q h"
  by (rule entryAlive_wp) (blast intro: calm_trans)

lemma await_exit_wp:
  assumes "\<And>r h'. calm g h' \<Longrightarrow> Q r h'"
  shows "calm g h \<Longrightarrow> wp (await_exit os k i pid start) Q h"
proof (induction k arbitrary: h)
  case 0
  then show ?case by (subst await_exit.simps) (auto intro!: processAlive_calm [of g] assms split: sum.splits bool.splits)
next
  case (Suc k)
  then show ?case by (subst await_exit.simps) (auto intro!: processAlive_calm [of g] assms split: sum.splits bool.splits)
qed

lemma kill_checked_wp:
  assumes "\<And>r h'. calm g h' \<Longrightarrow> Q r h'" "calm g h"
  shows "wp (kill_checked os i pid) Q h"
  unfolding kill_checked_def wp_bind
  by (rule proc_stat_calm [of g, OF assms(2)])
    (auto intro!: processAlive_calm [of g] await_exit_wp [of g] assms(1) calm_sys simp: procCmdline_def split: content.splits sum.splits bool.splits)

lemma SignalVM_wp:
  assumes "\<And>r h'. calm g h' \<Longrightarrow> Q r h'" "calm g h"
  shows "wp (SignalVM os e kind) Q h"
  unfolding SignalVM_def CheckSignalIdentity_def
  by (auto intro!: openProcess_wp [of g] entryAlive_calm [of g] assms calm_sys split: option.splits)

lemma handleSignalVM_wp: "before (py_vmID r) h \<Longrightarrow> wp (handleSignalVM os (Some r)) (\<lambda>_. after (py_vmID r) h False False) h"
  unfolding handleSignalVM_def option.case wp_bind
  by (intro wp_ifI, simp_all add: before_after, rule ledger_get_wp)
    (auto split: content.splits intro!: SignalVM_wp [of h] after_now calm_now intro: calm_after)

text \<open>Release: the jail goes, and the VM half of the entry, once the VMM the entry names is proven gone.\<close>

lemma after_trans: "frame i g h \<Longrightarrow> after i h s a h' \<Longrightarrow> after i g s a h'"
  by (auto simp: after_def intro: frame_trans)

definition idle :: "string \<Rightarrow> 'm machine_scheme \<Rightarrow> bool" where
  "idle i h \<longleftrightarrow> (\<forall>p \<in> set (hs_procs h). pr_vm p \<noteq> i)"

lemma entryAlive_before:
  assumes "calm g h" "before i h" "map_of (hs_ledger h) i = Some (Entry e)"
    "\<And>r h'. calm g h' \<Longrightarrow> before i h' \<Longrightarrow> map_of (hs_ledger h') i = Some (Entry e) \<Longrightarrow> (r = Inr False \<Longrightarrow> idle i h') \<Longrightarrow> Q r h'"
  shows "wp (entryAlive os e) Q h"
proof (rule entryAlive_wp, rule assms(4))
  fix h' and r :: "string + bool"
  assume c: "calm h h'" and dead: "\<And>p. pids_ok h \<Longrightarrow> r = Inr False \<Longrightarrow> p \<in> set (hs_procs h') \<Longrightarrow> names e h p \<Longrightarrow> False"
  show "calm g h'" by (rule calm_trans [OF assms(1) c])
  show b: "before i h'" by (rule calm_before [OF c assms(2)])
  show l: "map_of (hs_ledger h') i = Some (Entry e)" using c assms(3) by (auto simp: calm_def)
  show "idle i h'" if "r = Inr False"
    unfolding idle_def
  proof (intro ballI notI)
    fix p
    assume p: "p \<in> set (hs_procs h')" "pr_vm p = i"
    then have "names e h' p" using b l by (auto simp: before_def vm_ok_def owner_def split: if_splits)
    then show False using dead [OF _ that p(1)] c assms(2) by (auto simp: names_def calm_def before_def)
  qed
qed

lemma clear_vm_half_vmID [simp]: "ve_vmID (clear_vm_half e) = ve_vmID e"
  by (simp add: clear_vm_half_def)

lemma after_unjailed:
  assumes "before i h" "idle i h" "hs_now h \<le> n"
  shows "after i h s a (h\<lparr>hs_now := n, hs_jails := AList.delete i (hs_jails h)\<rparr>)"
    "NamespaceName i \<notin> set (hs_netns h) \<Longrightarrow> after i h s a (h\<lparr>hs_now := n, hs_jails := AList.delete i (hs_jails h), hs_ledger := AList.delete i (hs_ledger h)\<rparr>)"
    "map_of (hs_ledger h) i = Some (Entry e) \<Longrightarrow> ve_netCIDR e \<noteq> [] \<Longrightarrow>
       after i h s a (h\<lparr>hs_now := n, hs_jails := AList.delete i (hs_jails h), hs_ledger := AList.update i (Entry ((clear_vm_half e)\<lparr>ve_startAttempted := False\<rparr>)) (hs_ledger h)\<rparr>)"
  using assms
  by (auto simp: before_def after_def frame_def vm_ok_def owner_def claimant_def fresh_def names_def pids_ok_def delete_conv' update_conv' idle_def apart_def clear_vm_half_def
      split: option.splits ledger_file.splits if_splits)

lemmas after_unjailed_from =
  after_trans [OF calm_frame after_unjailed(1)] after_trans [OF calm_frame after_unjailed(2)] after_trans [OF calm_frame after_unjailed(3)]

lemma handleReleaseVM_wp:
  assumes "before (py_vmID r) h"
  shows "wp (handleReleaseVM os (Some r)) (\<lambda>_. after (py_vmID r) h False False) h"
proof -
  have free: "NamespaceName (py_vmID r) \<notin> set (hs_netns h')" if "before (py_vmID r) h'" "map_of (hs_ledger h') (py_vmID r) = Some (Entry e)" "ve_netCIDR e = []"
    for h' :: "'a privd_host_scheme" and e
    using that by (auto simp: before_def vm_ok_def claimant_def)
  have fin: "after (py_vmID r) h False False h'" if "calm h h'" for h' by (rule calm_after [OF that assms])
  show ?thesis
    unfolding handleReleaseVM_def option.case wp_bind
    by (intro wp_ifI, simp_all add: assms before_after, rule ledger_get_wp)
      (auto split: content.splits sum.splits bool.splits option.splits intro!: entryAlive_before [of h _ "py_vmID r"] before_now calm_now assms
        ledger_put_wp ledger_delete_wp after_unjailed_from [where g = h] simp: Ops_ReleaseVM_def remove_jail_def free; simp add: fin calm_sys)
qed

end
