(* ===== verification/Privd_Start.thy ===== *)
theory Privd_Start
  imports Privd_Laws
begin

text \<open>
  The start of a VM, the one request that creates a process. Whatever happens between the first look at the host
  and the write of the ledger, the new VMM stands in its jail, and it is named by the entry that is written or
  the start is reported as unknown; a start that is rolled back has not launched anything.
\<close>

section \<open>Kernel and jailer\<close>

text \<open>What the code relies on: the kernel hands out positive pids no live process has, and the pid file holds what the jailer wrote.\<close>

definition kernel :: "os \<Rightarrow> bool" where
  "kernel os \<longleftrightarrow> (\<forall>n pids. os_pid os n pids \<notin> set pids \<and> 0 < os_pid os n pids)"

definition pidfile_honest :: "os \<Rightarrow> bool" where
  "pidfile_honest os \<longleftrightarrow> (\<forall>n f. os_pidfile os n f = f)"

lemma format_uint_length: "n < 10 ^ Suc k \<Longrightarrow> length (format_uint n) \<le> Suc k"
proof (induction k arbitrary: n)
  case 0
  then show ?case by (subst format_uint.simps) simp
next
  case (Suc k)
  then have "n div 10 < 10 ^ Suc k" by (simp add: div_less_iff_less_mult mult.commute)
  with Suc.IH [of "n div 10"] show ?case by (subst format_uint.simps) simp
qed

lemma TrimSpace_format_uint [simp]: "TrimSpace (format_uint n) = format_uint n"
proof -
  have d: "dropWhile is_space xs = xs" if "\<forall>c \<in> set xs. \<not> is_space c" for xs
    using that by (cases xs) auto
  show ?thesis using d [of "format_uint n"] d [of "rev (format_uint n)"] format_uint_chars [of _ n] by (auto simp: TrimSpace_def)
qed

lemma Atoi_format_uint:
  assumes "n < 2 ^ 63"
  shows "Atoi (format_uint n) = Some (int n)"
proof -
  obtain c cs where f: "format_uint n = c # cs" by (cases "format_uint n") simp_all
  have "c \<noteq> CHR ''-'' \<and> c \<noteq> CHR ''+''"
    using parse_digits_format_uint [of n] f by (auto simp: char_digit_def)
  then show ?thesis using f assms parse_digits_format_uint [of n] by (simp add: Atoi_def del: parse_digits.simps)
qed

text \<open>A pid that does not fit into the bytes that are read is too large to be parsed.\<close>

lemma take_format_uint: "j < length (format_uint n) \<Longrightarrow> take (length (format_uint n) - j) (format_uint n) = format_uint (n div 10 ^ j)"
proof (induction j arbitrary: n)
  case (Suc j)
  then have n: "\<not> n < 10" by (subst (asm) format_uint.simps) (auto split: if_splits)
  then have f: "format_uint n = format_uint (n div 10) @ [digit_char (n mod 10)]" by (subst format_uint.simps) simp
  then have "j < length (format_uint (n div 10))" using Suc.prems by simp
  from Suc.IH [OF this] show ?case by (simp add: f div_mult2_eq)
qed simp

lemma Atoi_large:
  assumes "\<not> n < 2 ^ 63"
  shows "Atoi (format_uint n) = None"
proof -
  obtain c cs where f: "format_uint n = c # cs" by (cases "format_uint n") simp_all
  have "c \<noteq> CHR ''-'' \<and> c \<noteq> CHR ''+''"
    using parse_digits_format_uint [of n] f by (auto simp: char_digit_def)
  then show ?thesis using f assms parse_digits_format_uint [of n] by (simp add: Atoi_def del: parse_digits.simps)
qed

lemma pid_file_reads: "Atoi (TrimSpace (take maxPidFileBytes (format_uint n))) = (if n < 2 ^ 63 then Some (int n) else None)"
proof (cases "length (format_uint n) \<le> 32")
  case True
  then show ?thesis by (simp add: maxPidFileBytes_def Atoi_format_uint Atoi_large)
next
  case False
  let ?j = "length (format_uint n) - 32"
  let ?m = "n div 10 ^ ?j"
  have t: "take 32 (format_uint n) = format_uint ?m" using take_format_uint [of ?j n] False by simp
  then have "length (format_uint ?m) = 32" using False by (simp flip: t)
  then have m: "\<not> ?m < 10 ^ Suc 30" using format_uint_length [of ?m 30] by linarith
  then have "\<not> ?m < 2 ^ 63" by simp
  moreover have "?m \<le> n" by simp
  ultimately show ?thesis using t by (simp add: maxPidFileBytes_def Atoi_large del: div_le_dividend)
qed

section \<open>The jail\<close>

definition jail_frame :: "string \<Rightarrow> 'm privd_host_scheme \<Rightarrow> (string \<times> jail) list \<Rightarrow> bool" where
  "jail_frame i h js \<longleftrightarrow> (\<forall>j. j \<noteq> i \<longrightarrow> map_of js j = map_of (hs_jails h) j)"

lemma jail_frame_simps [simp]: "jail_frame i h (hs_jails h)" "jail_frame i h (AList.update i x js) = jail_frame i h js"
  "jail_frame i (h\<lparr>hs_now := n\<rparr>) js = jail_frame i h js"
  by (auto simp: jail_frame_def update_conv')

lemma in_jail_alt: "in_jail i f h = h\<lparr>hs_jails := (case map_of (hs_jails h) i of None \<Rightarrow> hs_jails h | Some j \<Rightarrow> AList.update i (f j) (hs_jails h))\<rparr>"
  by (simp add: in_jail_def split: option.splits)

lemma new_jail_alt: "new_jail i h = h\<lparr>hs_jails := (if map_of (hs_jails h) i = None
    then AList.update i \<lparr>jl_root = False, jl_files = [], jl_pidfile = None\<rparr> (hs_jails h) else hs_jails h)\<rparr>"
  by (simp add: new_jail_def)

lemma jailRoot_False_wp:
  assumes "\<And>r n. hs_now h \<le> n \<Longrightarrow> Q r (h\<lparr>hs_now := n\<rparr>)"
  shows "wp (jailRoot os i False) Q h"
  unfolding jailRoot_def by (auto intro!: assms split: option.splits)

lemma jailRoot_True_wp:
  assumes "\<And>r n js. hs_now h \<le> n \<Longrightarrow> jail_frame i h js \<Longrightarrow> (r = None \<Longrightarrow> map_of js i \<noteq> None) \<Longrightarrow> Q r (h\<lparr>hs_now := n, hs_jails := js\<rparr>)"
  shows "wp (jailRoot os i True) Q h"
proof -
  have same: "Q (Some r) (h\<lparr>hs_now := n\<rparr>)" if "hs_now h \<le> n" for r n using assms [of n "hs_jails h" "Some r"] that by simp
  show ?thesis
    unfolding jailRoot_def wp_bind if_True
  proof (rule attempt_wp, rule wp_optionI, goal_cases)
    case (1 r n)
    then show ?case
      by (cases "os_fail os (Suc n)"; cases "map_of (hs_jails h) i"; cases "os_fail os (Suc (Suc n))")
        (auto intro!: assms same simp: new_jail_alt in_jail_alt update_conv' split: option.splits)
  qed (simp add: same)
qed

lemma killJailedVMM_wp:
  assumes "\<And>r h'. calm g h' \<Longrightarrow> Q r h'" "calm g h"
  shows "wp (killJailedVMM os i) Q h"
  unfolding killJailedVMM_def wp_bind
  by (rule jailRoot_False_wp)
    (use assms(2) in \<open>auto intro!: openProcess_wp [of g] kill_checked_wp [of g] assms(1) calm_sys simp: readPidFileAt_def split: option.splits content.splits\<close>)

lemma verify_all_wp: "(\<And>r n. hs_now h \<le> n \<Longrightarrow> Q r (h\<lparr>hs_now := n\<rparr>)) \<Longrightarrow> wp (verify_all os dir fs) Q h"
proof (induction fs arbitrary: h Q)
  case Nil
  from Nil [of "hs_now h"] show ?case by simp
next
  case (Cons f fs)
  have look: "wp (verifyStagedFile os dir f) P h" if p: "\<And>r n. hs_now h \<le> n \<Longrightarrow> P r (h\<lparr>hs_now := n\<rparr>)" for P
    using p [of "hs_now h"] unfolding verifyStagedFile_def by (auto intro!: attempt_wp p split: option.splits)
  show ?case
    unfolding verify_all.simps wp_bind
    by (rule look) (auto intro!: Cons.IH Cons.prems split: sum.splits)
qed

lemma copy_all_wp:
  "(\<And>r n js. hs_now h \<le> n \<Longrightarrow> jail_frame i h js \<Longrightarrow> map_of js i = None \<longleftrightarrow> map_of (hs_jails h) i = None \<Longrightarrow> Q r (h\<lparr>hs_now := n, hs_jails := js\<rparr>)) \<Longrightarrow>
   wp (copy_all os i fs) Q h"
proof (induction fs arbitrary: h)
  case Nil
  from Nil [of "hs_now h" "hs_jails h"] show ?case by simp
next
  case (Cons f fs)
  have one: "wp (copyFromPinned os i (fst f) (snd f)) P h"
    if p: "\<And>r n js. hs_now h \<le> n \<Longrightarrow> jail_frame i h js \<Longrightarrow> map_of js i = None \<longleftrightarrow> map_of (hs_jails h) i = None \<Longrightarrow> P r (h\<lparr>hs_now := n, hs_jails := js\<rparr>)" for P
  proof -
    have same: "P r (h\<lparr>hs_now := n\<rparr>)" if "hs_now h \<le> n" for r n using p [of n "hs_jails h" r] that by simp
    show ?thesis
      unfolding copyFromPinned_def
      by (auto intro!: attempt_wp p same simp: in_jail_alt update_conv' split: option.splits)
  qed
  show ?case
    unfolding copy_all.simps wp_bind
  proof (rule one, goal_cases)
    case (1 r n js)
    then have "wp (copy_all os i fs) Q (h\<lparr>hs_now := n, hs_jails := js\<rparr>)"
      by (intro Cons.IH) (auto intro!: Cons.prems simp: jail_frame_def)
    with 1 show ?case by (cases r) (auto intro!: Cons.prems)
  qed
qed

lemma wait_sock_wp: "(\<And>r n. hs_now h \<le> n \<Longrightarrow> Q r (h\<lparr>hs_now := n\<rparr>)) \<Longrightarrow> wp (wait_sock os k) Q h"
proof (induction k arbitrary: h)
  case 0
  from 0 [of "hs_now h" None] show ?case by simp
next
  case (Suc k)
  have "wp (wait_sock os k) Q (h\<lparr>hs_now := Suc (Suc (hs_now h))\<rparr>)" by (rule Suc.IH) (use Suc.prems in auto)
  with Suc.prems show ?case by (auto split: option.splits)
qed

section \<open>The launch\<close>

text \<open>The pid file names the VMM of the VM, if it has one.\<close>

definition with_vmm :: "string \<Rightarrow> 'm privd_host_scheme \<Rightarrow> bool" where
  "with_vmm i h \<longleftrightarrow> (\<exists>k j. map_of (hs_jails h) i = Some j \<and> jl_pidfile j = Some (format_uint k) \<and> 0 < k
     \<and> (\<forall>p \<in> set (hs_procs h). pr_vm p = i \<longrightarrow> pr_pid p = k))"

lemma spawn_ok:
  assumes "kernel os" "pids_ok h" "idle i h" "map_of (hs_jails h) i \<noteq> None"
  shows "frame i h (spawn os n i h)" "pids_ok (spawn os n i h)" "with_vmm i (spawn os n i h)"
    "hs_ledger (spawn os n i h) = hs_ledger h" "hs_netns (spawn os n i h) = hs_netns h" "hs_now (spawn os n i h) = hs_now h"
proof -
  have "os_pid os n (map pr_pid (hs_procs h)) \<notin> pr_pid ` set (hs_procs h)" using assms(1) unfolding kernel_def by (metis set_map)
  then show "frame i h (spawn os n i h)" "pids_ok (spawn os n i h)" "with_vmm i (spawn os n i h)"
    "hs_ledger (spawn os n i h) = hs_ledger h" "hs_netns (spawn os n i h) = hs_netns h" "hs_now (spawn os n i h) = hs_now h"
    using assms unfolding kernel_def
    by (auto simp: spawn_def Let_def in_jail_alt frame_def pids_ok_def with_vmm_def idle_def update_conv')
qed

text \<open>The identity that is read is that of the VMM, if it still runs.\<close>

definition identified :: "string \<Rightarrow> 'm machine_scheme \<Rightarrow> backend_error + int \<times> string \<Rightarrow> bool" where
  "identified i h r \<longleftrightarrow> (case r of Inl _ \<Rightarrow> True | Inr (pid, start) \<Rightarrow> 0 < pid
     \<and> (\<forall>p \<in> set (hs_procs h). pr_vm p = i \<longrightarrow> pid = int (pr_pid p) \<and> start = format_uint (unat (pr_start p))))"

lemma read_identity_wp:
  assumes "pidfile_honest os" "pids_ok h" "with_vmm i h" "\<And>r h'. calm h h' \<Longrightarrow> identified i h' r \<Longrightarrow> Q r h'"
  shows "wp (read_identity os i) Q h"
proof -
  obtain k j where k: "map_of (hs_jails h) i = Some j" "jl_pidfile j = Some (format_uint k)" "0 < k"
    "\<And>p. p \<in> set (hs_procs h) \<Longrightarrow> pr_vm p = i \<Longrightarrow> pr_pid p = k" using assms(3) by (auto simp: with_vmm_def)
  let ?h = "h\<lparr>hs_now := Suc (hs_now h)\<rparr>"
  have c: "calm h ?h" by (rule calm_now) simp
  have stat: "wp (proc_stat os (int k)) (\<lambda>st. Q (case st of
        Missing \<Rightarrow> Inl (PlainError (''privd: read /proc/'' @ format_int (int k) @ ''/stat: '' @ ErrNotExist))
      | Unreadable t \<Rightarrow> Inl (PlainError (''privd: read /proc/'' @ format_int (int k) @ ''/stat: '' @ t))
      | Content s \<Rightarrow> if ParseStartTime s = []
          then Inl (PlainError (''privd: could not parse starttime from /proc/'' @ format_int (int k) @ ''/stat''))
          else Inr (int k, ParseStartTime s))) ?h"
  proof (rule proc_stat_wp, rule assms(4))
    fix r h'
    assume h': "calm ?h h'" "\<And>p. pids_ok ?h \<Longrightarrow> p \<in> set (hs_procs h') \<Longrightarrow> int (pr_pid p) = int k \<Longrightarrow> (\<exists>t. r = Unreadable t) \<or> r = Content (vmm_stat p)"
    show "calm h h'" by (rule calm_trans [OF c h'(1)])
    have "pids_ok ?h" using assms(2) by (simp add: pids_ok_def)
    moreover have "p \<in> set (hs_procs h)" if "p \<in> set (hs_procs h')" for p using calm_procs [OF h'(1)] that by auto
    ultimately show "identified i h' (case r of
        Missing \<Rightarrow> Inl (PlainError (''privd: read /proc/'' @ format_int (int k) @ ''/stat: '' @ ErrNotExist))
      | Unreadable t \<Rightarrow> Inl (PlainError (''privd: read /proc/'' @ format_int (int k) @ ''/stat: '' @ t))
      | Content s \<Rightarrow> if ParseStartTime s = []
          then Inl (PlainError (''privd: could not parse starttime from /proc/'' @ format_int (int k) @ ''/stat''))
          else Inr (int k, ParseStartTime s))"
      using h'(2) k(3,4) by (fastforce simp: identified_def vmm_stat_reads(1) split: content.splits)
  qed
  show ?thesis
    using stat assms(1) k(1,2) pid_file_reads [of k] c assms(4) unfolding read_identity_def readPidFileAt_def pidfile_honest_def
    by (auto simp: identified_def split: option.splits if_splits)
qed

text \<open>
  How a start ends: \<open>attempted\<close> is what the entry says of the launch. Unless it says so, no VMM of the VM runs.
\<close>

definition launched :: "string \<Rightarrow> 'm privd_host_scheme \<Rightarrow> bool \<Rightarrow> backend_error + int \<times> string \<Rightarrow> 'm privd_host_scheme \<Rightarrow> bool" where
  "launched i h attempted r h' \<longleftrightarrow> frame i h h' \<and> pids_ok h' \<and> hs_ledger h' = hs_ledger h \<and> hs_netns h' = hs_netns h
     \<and> (idle i h' \<or> attempted \<and> map_of (hs_jails h') i \<noteq> None) \<and> identified i h' r"

lemma launched_trans:
  "frame i g h \<Longrightarrow> hs_ledger h = hs_ledger g \<Longrightarrow> hs_netns h = hs_netns g \<Longrightarrow> launched i h a r h' \<Longrightarrow> launched i g a r h'"
  by (auto simp: launched_def intro: frame_trans)

lemma calm_launched:
  assumes "pids_ok g" "with_vmm i g" "calm g h'" "identified i h' r"
  shows "launched i g True r h'"
  using assms calm_frame [OF assms(3)] calm_pids [OF assms(3,1)] by (auto simp: launched_def with_vmm_def calm_def)

lemma quiet_launched: "pids_ok h \<Longrightarrow> idle i h \<Longrightarrow> hs_now h \<le> n \<Longrightarrow> jail_frame i h js \<Longrightarrow> launched i h a (Inl t) (h\<lparr>hs_now := n, hs_jails := js\<rparr>)"
  by (auto simp: launched_def identified_def frame_def pids_ok_def idle_def jail_frame_def)

lemma read_spawned:
  assumes "pidfile_honest os" "pids_ok g" "with_vmm i g" "hs_now g \<le> n" "\<And>r h'. launched i g True r h' \<Longrightarrow> Q r h'"
  shows "wp (read_identity os i) Q (g\<lparr>hs_now := n\<rparr>)"
  by (rule read_identity_wp [OF assms(1)])
    (use assms(2-4) calm_trans [OF calm_now [OF assms(4)]] in \<open>auto simp: pids_ok_def with_vmm_def intro!: assms(5) calm_launched\<close>)

lemma start_exec_wp:
  assumes "kernel os" "pidfile_honest os" "ve_vmID entry = i" "pids_ok h" "idle i h" "map_of (hs_jails h) i \<noteq> None"
    "\<And>a r h'. launched i h a r h' \<Longrightarrow> Q (entry\<lparr>ve_startAttempted := a\<rparr>, r) h'"
  shows "wp (start_exec os cfg entry i) Q h"
proof -
  let ?h = "h\<lparr>hs_now := Suc (hs_now h)\<rparr>" and ?n = "hs_now h"
  let ?g = "spawn os ?n i ?h"
  have pre: "pids_ok ?h" "idle i ?h" "map_of (hs_jails ?h) i \<noteq> None" using assms(4-6) by (auto simp: pids_ok_def idle_def)
  note sp = spawn_ok [OF assms(1) pre, of ?n]
  have fr: "frame i h ?g" by (rule frame_trans [OF _ sp(1)]) (simp add: frame_def)
  have fin: "Q (entry\<lparr>ve_startAttempted := True\<rparr>, r) h'" if "launched i ?g True r h'" for r h'
    by (rule assms(7), rule launched_trans [OF fr _ _ that]) (simp_all add: sp)
  have failed: "Q (entry\<lparr>ve_startAttempted := True\<rparr>, Inl t) (?g\<lparr>hs_now := n\<rparr>)" if "hs_now ?g \<le> n" for t n
    by (rule fin, rule calm_launched [OF sp(2,3) calm_now [OF that]]) (simp add: identified_def)
  have none: "Q (entry\<lparr>ve_startAttempted := a\<rparr>, Inl t) ?h" for a t
    using assms(7) [OF quiet_launched [OF assms(4,5), of "Suc ?n" "hs_jails h"]] by simp
  have sock: "wp (wait_sock os 100) (\<lambda>w. wp (case w of
      Some t \<Rightarrow> ret (entry\<lparr>ve_startAttempted := True\<rparr>, Inl (PlainError t))
    | None \<Rightarrow> do { _ \<leftarrow> sys os; i \<leftarrow> read_identity os i; ret (entry\<lparr>ve_startAttempted := True\<rparr>, i) }) Q) ?g"
    by (rule wait_sock_wp) (auto intro!: failed read_spawned [OF assms(2) sp(2,3) _ fin] split: option.splits)
  show ?thesis
    unfolding start_exec_def run_jailer_def
    using sock failed [of "hs_now ?g"] none assms(3) by (auto simp: JailerArgv_def split: exec_outcome.splits)
qed

lemma StartVMContext_wp:
  assumes "kernel os" "pidfile_honest os" "ve_vmID e0 = i" "py_vmID req = i" "pids_ok h" "idle i h"
    "\<And>b s a r h'. launched i h a r h' \<Longrightarrow> (\<And>x. r = Inr x \<Longrightarrow> b = TrimSpace (hs_boot h) \<and> s = hs_pidns h) \<Longrightarrow>
       Q (e0\<lparr>ve_bootID := b, ve_pidNamespace := s, ve_startAttempted := a\<rparr>, r) h'"
  shows "wp (StartVMContext os cfg e0 req) Q h"
proof -
  have quiet: "Q (e0\<lparr>ve_bootID := b, ve_pidNamespace := s\<rparr>, Inl t) (h\<lparr>hs_now := n, hs_jails := js\<rparr>)" if "hs_now h \<le> n" "jail_frame i h js" for t n js b s
  proof -
    have "launched i h (ve_startAttempted e0) (Inl t) (h\<lparr>hs_now := n, hs_jails := js\<rparr>)" by (rule quiet_launched [OF assms(5,6) that])
    from assms(7) [OF this, of b s] show ?thesis by simp
  qed
  have early: "Q (e0, Inl t) (h\<lparr>hs_now := n\<rparr>)" if "hs_now h \<le> n" for t n
    using quiet [OF that, of "hs_jails h" "ve_pidNamespace e0" "ve_bootID e0" t] by simp
  have quiet0: "Q (e0\<lparr>ve_bootID := b, ve_pidNamespace := s\<rparr>, Inl t) (h\<lparr>hs_now := n\<rparr>)" if "hs_now h \<le> n" for t n b s
    using quiet [OF that, of "hs_jails h"] by simp
  have exec: "wp (start_exec os cfg (e0\<lparr>ve_bootID := TrimSpace (hs_boot h), ve_pidNamespace := hs_pidns h, ve_startAttempted := True\<rparr>) i) Q (h\<lparr>hs_now := n, hs_jails := js\<rparr>)"
    if "hs_now h \<le> n" "jail_frame i h js" "map_of js i \<noteq> None" for n js
  proof (rule start_exec_wp [OF assms(1,2)], goal_cases)
    case (5 a r h')
    have "launched i h a r h'" by (rule launched_trans [OF _ _ _ 5]) (use that(1,2) in \<open>auto simp: frame_def jail_frame_def\<close>)
    from assms(7) [OF this, of "TrimSpace (hs_boot h)" "hs_pidns h"] show ?case by simp
  qed (use assms(3,5,6) that(3) in \<open>auto simp: pids_ok_def idle_def\<close>)
  show ?thesis
    unfolding StartVMContext_def Let_def open_stage_def assms(4)
    by (auto intro!: early quiet quiet0 exec hostIdentity_wp verify_all_wp jailRoot_True_wp copy_all_wp simp: jail_frame_def split: option.splits sum.splits)
qed

section \<open>The handler\<close>

lemma launched_before:
  assumes "before i h" "launched i h False r h'"
  shows "before i h'" "idle i h'"
  using assms by (auto simp: launched_def before_def vm_ok_def claimant_def fresh_def idle_def)

lemma launched_after:
  assumes "before i h" "map_of (hs_ledger h) i = Some (Entry e)" "ve_PID e = 0" "launched i h a r h'" "hs_now h' \<le> n"
  shows "after i h True False (h'\<lparr>hs_now := n\<rparr>)"
proof -
  have "frame i h (h'\<lparr>hs_now := n\<rparr>)" by (rule frame_trans [of _ _ h']) (use assms(4,5) in \<open>auto simp: launched_def frame_def\<close>)
  with assms show ?thesis
    by (auto simp: launched_def before_def after_def vm_ok_def owner_def claimant_def fresh_def idle_def pids_ok_def split: option.splits ledger_file.splits)
qed

lemma launched_entry:
  assumes "before i h" "launched i h a (Inr (pid, start)) h'" "hs_now h' \<le> n" "map_of (hs_ledger h) i = Some (Entry e0)"
    "ve_PID e = pid" "ve_startTime e = start" "ve_bootID e = TrimSpace (hs_boot h)" "ve_pidNamespace e = hs_pidns h" "ve_netCIDR e = ve_netCIDR e0"
    "\<And>j f. ValidVMID j \<Longrightarrow> map_of (hs_ledger h) j = Some (Entry f) \<Longrightarrow> ve_UID f \<noteq> ve_UID e \<and> ve_CID f \<noteq> ve_CID e"
  shows "after i h s False (h'\<lparr>hs_now := n, hs_ledger := AList.update i (Entry (e\<lparr>ve_startAttempted := False\<rparr>)) (hs_ledger h')\<rparr>)"
proof -
  let ?g = "h'\<lparr>hs_now := n, hs_ledger := AList.update i (Entry (e\<lparr>ve_startAttempted := False\<rparr>)) (hs_ledger h')\<rparr>"
  have "frame i h ?g" by (rule frame_trans [of _ _ h']) (use assms(2,3) in \<open>auto simp: launched_def frame_def update_conv'\<close>)
  moreover have "apart e f" if "j \<noteq> i" "ValidVMID j" "map_of (hs_ledger h) j = Some (Entry f)" for j f
    using assms(1,4,9) assms(10) [OF that(2,3)] that unfolding before_def fresh_def apart_def by metis
  moreover have "ve_PID e > 0" using assms(2,5) by (simp add: launched_def identified_def)
  ultimately show ?thesis
    using assms(1-9)
    by (auto simp: launched_def identified_def before_def after_def vm_ok_def owner_def claimant_def fresh_def idle_def pids_ok_def names_def update_conv' frame_def apart_def)
qed

lemma AbortStartVM_wp:
  assumes "before (ve_vmID e) h" "map_of (hs_ledger h) (ve_vmID e) = Some (Entry f)" "ve_PID f = 0" "launched (ve_vmID e) h (ve_startAttempted e) r h'"
    "\<And>r g. after (ve_vmID e) h (r \<noteq> None) False g \<Longrightarrow> Q r g"
  shows "wp (AbortStartVM os e) Q h'"
proof (cases "ve_startAttempted e")
  case True
  then show ?thesis using launched_after [OF assms(1-4) order_refl] by (simp add: AbortStartVM_def assms(5))
next
  case False
  note b = launched_before [OF assms(1) assms(4) [simplified False]]
  have fr: "frame (ve_vmID e) h h'" using assms(4) by (simp add: launched_def)
  have calm: "after (ve_vmID e) h s False g" if "calm h' g" for g s
    by (rule after_trans [OF fr calm_after [OF that b(1)]])
  have gone: "after (ve_vmID e) h s False (g\<lparr>hs_now := n, hs_jails := AList.delete (ve_vmID e) (hs_jails g)\<rparr>)" if "calm h' g" "hs_now g \<le> n" for g s n
    by (rule after_trans [OF fr after_unjailed_from(1) [OF that(1) calm_before [OF that(1) b(1)] _ that(2)]])
      (use calm_procs [OF that(1)] b(2) in \<open>auto simp: idle_def\<close>)
  show ?thesis
    using False unfolding AbortStartVM_def remove_jail_def
    by (auto intro!: killJailedVMM_wp [of h'] assms(5) gone split: option.splits; simp add: calm calm_sys)
qed

lemma after_weaken: "after i h s a g \<Longrightarrow> (s \<longrightarrow> s') \<Longrightarrow> (a \<longrightarrow> a') \<Longrightarrow> after i h s' a' g"
  by (auto simp: after_def intro: vm_ok_weaken)

lemma handleStartVM_wp:
  assumes "kernel os" "pidfile_honest os" "before (py_vmID r) h"
  shows "wp (handleStartVM os cfg opID (Some r)) (\<lambda>resp. after (py_vmID r) h (unknown resp) False) h"
proof -
  let ?i = "py_vmID r"
  have go: "wp (start_backend os cfg (e\<lparr>ve_UID := py_UID r, ve_GID := py_GID r, ve_CID := py_CID r, ve_startOpID := opID\<rparr>) r)
      (\<lambda>resp. after ?i h (unknown resp) False) (h\<lparr>hs_now := n\<rparr>)" (is "wp (start_backend os cfg ?e r) _ ?h")
    if n: "hs_now h \<le> n" and e: "map_of (hs_ledger h) ?i = Some (Entry e)" "ve_vmID e = ?i" "ve_PID e = 0"
      and ids: "\<And>j f. ValidVMID j \<Longrightarrow> map_of (hs_ledger h) j = Some (Entry f) \<Longrightarrow> ve_UID f \<noteq> py_UID r \<and> ve_CID f \<noteq> py_CID r" for e n
  proof -
    have b: "before ?i ?h" by (rule before_now [OF assms(3) n])
    have le: "map_of (hs_ledger ?h) ?i = Some (Entry e)" using e(1) by simp
    have idle: "idle ?i ?h" using b e by (auto simp: before_def vm_ok_def owner_def idle_def)
    have fr: "frame ?i h ?h" by (rule calm_frame [OF calm_now [OF n]])
    show ?thesis
      unfolding start_backend_def wp_bind
    proof (rule StartVMContext_wp [OF assms(1,2) _ refl _ idle], goal_cases)
      case (3 b' s a x h')
      let ?e' = "?e\<lparr>ve_bootID := b', ve_pidNamespace := s, ve_startAttempted := a\<rparr>"
      have l: "launched (ve_vmID ?e') ?h (ve_startAttempted ?e') x h'" using 3(1) e(2) by simp
      show ?case
      proof (cases x)
        case (Inl t)
        have "wp (AbortStartVM os ?e') (\<lambda>r' g. after ?i h (unknown (if r' \<noteq> None
            then errResp ''outcome_unknown'' (error_text t @ ''; start rollback incomplete; ownership retained'') else backendErrResp t)) False g) h'"
        proof (rule AbortStartVM_wp [OF _ _ e(3) l])
          fix r' g
          assume "after (ve_vmID ?e') ?h (r' \<noteq> None) False g"
          then show "after ?i h (unknown (if r' \<noteq> None then errResp ''outcome_unknown'' (error_text t @ ''; start rollback incomplete; ownership retained'')
              else backendErrResp t)) False g"
            using e(2) by (intro after_trans [OF fr]) (auto elim!: after_weaken)
        qed (use b le e(2) in simp_all)
        with Inl show ?thesis by simp
      next
        case (Inr y)
        obtain pid start where y: "y = (pid, start)" by fastforce
        have put: "after ?i h c False (h'\<lparr>hs_now := m, hs_ledger := AList.update ?i (Entry (?e'\<lparr>ve_PID := pid, ve_startTime := start, ve_startAttempted := False\<rparr>)) (hs_ledger h')\<rparr>)"
          if "hs_now h' \<le> m" for c m
          using after_trans [OF fr launched_entry [OF b 3(1) [unfolded Inr y] that le, of "?e'\<lparr>ve_PID := pid, ve_startTime := start\<rparr>"]] 3(2) [OF Inr] ids by simp
        have old: "after ?i h True False (h'\<lparr>hs_now := m\<rparr>)" if "hs_now h' \<le> m" for m
          by (rule after_trans [OF fr launched_after [OF b le e(3) 3(1) that]])
        show ?thesis unfolding Inr y using e(2) put old by (auto intro!: ledger_put_wp)
      qed
    qed (use e(2) b in \<open>auto simp: before_def\<close>)
  qed
  show ?thesis
    unfolding handleStartVM_def option.case wp_bind
    by (rule wp_optionI, simp add: wp_bind, rule ledger_get_wp)
      (auto split: content.splits sum.splits intro!: after_now before_after assms(3) identityHolder_wp go)
qed

end
