(* ===== verification/Privd_Safety.thy ===== *)
theory Privd_Safety
  imports Privd_Start "HOL-Library.Multiset"
begin

text \<open>
  The daemon as a whole: requests, queries, restarts and reboots of the host keep its invariant, which ties
  what runs on the host to the ledger and to the receipts on disk.
\<close>

section \<open>One request\<close>

definition ready :: "string \<Rightarrow> 'm privd_host_scheme \<Rightarrow> bool" where
  "ready i h \<longleftrightarrow> pids_ok h \<and> vm_ok h i False False \<and> fresh h i"

lemma ready_before: "ready i h \<Longrightarrow> ValidVMID i \<Longrightarrow> before i h"
  by (simp add: ready_def before_def)

lemma ready_now: "ready i h \<Longrightarrow> ready i (h\<lparr>hs_now := n\<rparr>)"
  by (auto simp: ready_def pids_ok_def vm_ok_def fresh_def owner_def claimant_def names_def split: option.splits ledger_file.splits if_splits)

lemma ready_after: "ready i h \<Longrightarrow> after i h s a h"
  by (auto simp: ready_def after_def intro: vm_ok_weaken)

lemma invalid_vmid:
  assumes "\<And>r. raw = Some r \<Longrightarrow> \<not> ValidVMID (py_vmID r)" "\<And>m. Q (errResp ''bad_request'' m) h"
  shows "wp (handleAllocateNetwork os opID raw) Q h" "wp (handleReleaseNetwork os raw) Q h" "wp (handleStartVM os cfg opID raw) Q h"
    "wp (handleSignalVM os raw) Q h" "wp (handleReleaseVM os raw) Q h"
  using assms
  by (cases raw; simp add: handleAllocateNetwork_def handleReleaseNetwork_def handleStartVM_def start_check_def handleSignalVM_def handleReleaseVM_def)+

lemma execute_wp:
  assumes "kernel os" "pidfile_honest os" "ip_frame os" "ready (operationVMID req) h"
  shows "wp (execute os cfg req) (\<lambda>resp. after (operationVMID req) h
      (unknown resp \<and> pq_verb req = ''start_vm'') (unknown resp \<and> pq_verb req = ''allocate_network'')) h"
proof -
  let ?i = "operationVMID req" and ?h = "h\<lparr>hs_now := Suc (hs_now h)\<rparr>"
  have r: "ready ?i ?h" by (rule ready_now [OF assms(4)])
  have fr: "frame ?i h ?h" by (simp add: frame_def)
  have id: "after ?i h s a ?h" for s a by (rule after_trans [OF fr ready_after [OF r]])
  show ?thesis
  proof (cases "\<exists>p. pq_payload req = Some p \<and> ValidVMID (py_vmID p)")
    case True
    then obtain p where p: "pq_payload req = Some p" "ValidVMID (py_vmID p)" by auto
    have i: "py_vmID p = ?i" using p by (simp add: operationVMID_def)
    have b: "before (py_vmID p) ?h" using ready_before [OF r] p(2) by (simp add: i)
    note hs = handleAllocateNetwork_wp [OF assms(3) b] handleReleaseNetwork_wp [OF assms(3) b] handleStartVM_wp [OF assms(1,2) b]
      handleSignalVM_wp [OF b] handleReleaseVM_wp [OF b]
    show ?thesis
      unfolding execute_def wp_bind p(1)
      using hs [THEN wp_mono, unfolded i] after_trans [OF fr] id by (auto split: option.splits intro!: hs [THEN wp_mono, unfolded i])
  next
    case False
    then have bad: "\<And>r. pq_payload req = Some r \<Longrightarrow> \<not> ValidVMID (py_vmID r)" by auto
    show ?thesis
      unfolding execute_def using id by (auto split: option.splits intro!: invalid_vmid [OF bad])
  qed
qed

section \<open>The journal\<close>

lemma saveOperation_wp:
  assumes "\<And>t n. hs_now h \<le> n \<Longrightarrow> Q (Some t) (h\<lparr>hs_now := n\<rparr>)"
    "\<And>e n. hs_now h \<le> n \<Longrightarrow> Q e (h\<lparr>hs_now := n, hs_opfiles := AList.update (pq_opID (jr_request r)) (Some r) (hs_opfiles h)\<rparr>)"
  shows "wp (saveOperation os r) Q h"
proof -
  have "wp (WriteFile os (''ledger/.operations/'' @ pq_opID (jr_request r))
         (\<lambda>h. h\<lparr>hs_opfiles := AList.update (pq_opID (jr_request r)) (Some r) (hs_opfiles h)\<rparr>)) Q (h\<lparr>hs_now := n\<rparr>)" if "hs_now h \<le> n" for n
    by (rule WriteFile_wp) (use assms that in \<open>auto simp: timeless_def\<close>)
  then show ?thesis
    unfolding saveOperation_def wp_bind
    by (intro MkdirAll_wp) (auto simp: timeless_def intro!: assms(1) split: option.splits)
qed

text \<open>
  An operation is open while its record is pending or unknown. A receipt on disk counts as open also when a restart
  would not accept it.
\<close>

definition open_op :: "operation_record \<Rightarrow> string \<Rightarrow> string \<Rightarrow> bool" where
  "open_op r verb j \<longleftrightarrow> jr_state r \<in> {OpnPending, OpnUnknown} \<and> pq_verb (jr_request r) = verb \<and> operationVMID (jr_request r) = j"

definition receipt_ok :: "string \<Rightarrow> operation_record \<Rightarrow> bool" where
  "receipt_ok k r \<longleftrightarrow> ValidVMID k \<and> pq_opID (jr_request r) = k \<and> (jr_state r \<in> {OpnPending, OpnUnknown} \<or> jr_response r \<noteq> None)"

definition left_open :: "string \<Rightarrow> operation_record option \<Rightarrow> string \<Rightarrow> string \<Rightarrow> bool" where
  "left_open k f verb j = (case f of None \<Rightarrow> True | Some r \<Rightarrow> \<not> receipt_ok k r \<or> open_op r verb j)"

definition unresolved :: "'m privd_host_scheme \<Rightarrow> string \<Rightarrow> string \<Rightarrow> bool" where
  "unresolved h verb j \<longleftrightarrow> hs_operr h \<or> (\<exists>k r. map_of (hs_ops h) k = Some r \<and> open_op r verb j)"

text \<open>
  The requests in flight: \<open>q\<close> have been accepted and wait for the execution mutex, and \<open>run\<close> has been executed with
  the given response, which is not published yet. Their records are pending.
\<close>

type_synonym running = "(request \<times> response) option"

definition live :: "request list \<Rightarrow> running \<Rightarrow> request list" where
  "live q run = q @ (case run of None \<Rightarrow> [] | Some (req, _) \<Rightarrow> [req])"

definition pending :: "request \<Rightarrow> operation_record" where
  "pending req = \<lparr>jr_request = req, jr_state = OpnPending, jr_response = None\<rparr>"

definition mine :: "request list \<Rightarrow> running \<Rightarrow> string set" where
  "mine q run = pq_opID ` set (live q run)"

definition live_ok :: "request list \<Rightarrow> running \<Rightarrow> 'm privd_host_scheme \<Rightarrow> bool" where
  "live_ok q run h \<longleftrightarrow> distinct (map pq_opID (live q run)) \<and> (\<forall>req \<in> set (live q run). ValidVMID (pq_opID req)
     \<and> map_of (hs_opfiles h) (pq_opID req) = Some (Some (pending req)) \<and> map_of (hs_ops h) (pq_opID req) = Some (pending req))"

text \<open>
  What may be out of order with a VM: what the open receipts of operations no longer in flight leave open, and what the
  unpublished outcome does. A waiting request has not touched the host yet.
\<close>

definition owed :: "request list \<Rightarrow> running \<Rightarrow> 'm privd_host_scheme \<Rightarrow> string \<Rightarrow> string \<Rightarrow> bool" where
  "owed q run h verb j \<longleftrightarrow> (\<exists>k f. k \<notin> mine q run \<and> map_of (hs_opfiles h) k = Some f \<and> left_open k f verb j)
     \<or> (case run of None \<Rightarrow> False | Some (req, resp) \<Rightarrow> unknown resp \<and> pq_verb req = verb \<and> operationVMID req = j)"

text \<open>While the journal is available, memory and disk hold the same records, and only requests in flight are pending.\<close>

definition journal_ok :: "request list \<Rightarrow> running \<Rightarrow> 'm privd_host_scheme \<Rightarrow> bool" where
  "journal_ok q run h \<longleftrightarrow> (\<forall>k. map_of (hs_opfiles h) k = map_option Some (map_of (hs_ops h) k))
     \<and> (\<forall>k r. map_of (hs_ops h) k = Some r \<longrightarrow> receipt_ok k r \<and> (jr_state r = OpnPending \<longrightarrow> k \<in> mine q run))"

definition base_ok :: "'m privd_host_scheme \<Rightarrow> bool" where
  "base_ok h \<longleftrightarrow> pids_ok h \<and> distinct (map fst (hs_opfiles h)) \<and> (\<forall>j. fresh h j)"

definition inventory_ok :: "request list \<Rightarrow> running \<Rightarrow> 'm privd_host_scheme \<Rightarrow> bool" where
  "inventory_ok q run h \<longleftrightarrow> base_ok h \<and> (\<forall>j. vm_ok h j (owed q run h ''start_vm'' j) (owed q run h ''allocate_network'' j))"

definition privd_ok :: "request list \<Rightarrow> running \<Rightarrow> 'm privd_host_scheme \<Rightarrow> bool" where
  "privd_ok q run h \<longleftrightarrow> inventory_ok q run h \<and> live_ok q run h \<and> (\<not> hs_operr h \<longrightarrow> journal_ok q run h)"

lemma owed_unresolved:
  assumes "privd_ok q run h" "owed q run h verb j"
  shows "unresolved h verb j"
proof (cases "hs_operr h")
  case False
  then have j: "journal_ok q run h" using assms(1) by (simp add: privd_ok_def)
  show ?thesis
  proof (cases "\<exists>k f. k \<notin> mine q run \<and> map_of (hs_opfiles h) k = Some f \<and> left_open k f verb j")
    case True
    then show ?thesis using j by (auto simp: journal_ok_def left_open_def unresolved_def)
  next
    case False
    then obtain req resp where r: "run = Some (req, resp)" "pq_verb req = verb" "operationVMID req = j"
      using assms(2) by (auto simp: owed_def split: option.splits)
    then have "map_of (hs_ops h) (pq_opID req) = Some (pending req)" using assms(1) by (simp add: privd_ok_def live_ok_def live_def)
    moreover have "open_op (pending req) verb j" using r by (simp add: open_op_def pending_def)
    ultimately show ?thesis unfolding unresolved_def by blast
  qed
qed (simp add: unresolved_def)

lemma apart_sym: "apart e f \<longleftrightarrow> apart f e"
  by (auto simp: apart_def)

text \<open>A request about one VM keeps the order of all others.\<close>

lemma frame_vm_ok: "frame i h h' \<Longrightarrow> j \<noteq> i \<Longrightarrow> vm_ok h j s a \<Longrightarrow> vm_ok h' j s a"
  by (auto simp: frame_def vm_ok_def owner_def claimant_def names_def split: option.splits ledger_file.splits if_splits)

lemma after_fresh: "after i h s a h' \<Longrightarrow> (\<And>j. fresh h j) \<Longrightarrow> fresh h' j"
  unfolding after_def frame_def fresh_def by (metis apart_sym)

text \<open>Only the journal changes: the host is in order as far as it was, for what is owed now.\<close>

lemma vm_ok_cong:
  assumes "hs_procs h' = hs_procs h" "hs_ledger h' = hs_ledger h" "hs_jails h' = hs_jails h" "hs_netns h' = hs_netns h"
    "hs_boot h' = hs_boot h" "hs_pidns h' = hs_pidns h"
  shows "vm_ok h' j s a = vm_ok h j s a" "fresh h' j = fresh h j"
proof -
  have "names e h' p = names e h p" for e p by (simp add: names_def assms(5,6))
  then have "owner h' j s p = owner h j s p" for j s p unfolding owner_def assms(2) by (simp split: option.split ledger_file.split)
  then show "vm_ok h' j s a = vm_ok h j s a" "fresh h' j = fresh h j"
    by (simp_all add: vm_ok_def claimant_def fresh_def assms(1-4))
qed

lemma journal_host_ok:
  assumes "inventory_ok q run h" "hs_procs h' = hs_procs h" "hs_ledger h' = hs_ledger h" "hs_jails h' = hs_jails h" "hs_netns h' = hs_netns h"
    "hs_boot h' = hs_boot h" "hs_pidns h' = hs_pidns h" "distinct (map fst (hs_opfiles h'))"
    "\<And>j. vm_ok h j (owed q' run' h' ''start_vm'' j) (owed q' run' h' ''allocate_network'' j)"
  shows "inventory_ok q' run' h'"
  using assms(1,8,9) by (simp add: inventory_ok_def base_ok_def vm_ok_cong [OF assms(2-7)] pids_ok_def assms(2))

lemma owed_host_ok:
  assumes "inventory_ok q run h" "hs_procs h' = hs_procs h" "hs_ledger h' = hs_ledger h" "hs_jails h' = hs_jails h" "hs_netns h' = hs_netns h"
    "hs_boot h' = hs_boot h" "hs_pidns h' = hs_pidns h" "distinct (map fst (hs_opfiles h'))"
    "\<And>verb j. owed q run h verb j \<longrightarrow> owed q' run' h' verb j"
  shows "inventory_ok q' run' h'"
  by (rule journal_host_ok [OF assms(1-8)]) (use assms(1,9) vm_ok_weaken in \<open>unfold inventory_ok_def, blast\<close>)

lemma inventory_ok_journal [simp]:
  "inventory_ok q run (h\<lparr>hs_now := n\<rparr>) = inventory_ok q run h" "inventory_ok q run (h\<lparr>hs_operr := b\<rparr>) = inventory_ok q run h" "inventory_ok q run (h\<lparr>hs_ops := ops\<rparr>) = inventory_ok q run h"
  "inventory_ok q run (h\<lparr>hs_stage := st\<rparr>) = inventory_ok q run h"
  by (simp_all add: inventory_ok_def base_ok_def pids_ok_def fresh_def vm_ok_def owner_def claimant_def names_def owed_def
      cong: option.case_cong ledger_file.case_cong)

lemma privd_ok_now [simp]: "privd_ok q run (h\<lparr>hs_now := n\<rparr>) = privd_ok q run h" "privd_ok q run (h\<lparr>hs_stage := st\<rparr>) = privd_ok q run h"
  by (simp_all add: privd_ok_def live_ok_def journal_ok_def)

lemma files_distinct: "inventory_ok q run h \<Longrightarrow> distinct (map fst (hs_opfiles h))"
  by (simp add: inventory_ok_def base_ok_def)

section \<open>The critical sections\<close>

lemma live_Cons: "live (req # q) run = req # live q run"
  by (simp add: live_def)

lemma mine_Cons: "mine (req # q) run = insert (pq_opID req) (mine q run)"
  by (simp add: mine_def live_def)

lemma accept_mutation_ok:
  assumes "privd_ok q run h"
  shows "wp (accept_mutation os req) (\<lambda>a. privd_ok (if a = None then req # q else q) run) h"
proof -
  have save: "wp (saveOperation os (pending req)) (\<lambda>s. wp (if s \<noteq> None then do {
                  _ \<leftarrow> modify (\<lambda>h. h\<lparr>hs_operr := True\<rparr>);
                  ret (Some (errResp ''outcome_unknown'' ''cannot durably record mutation; ownership retained'')) }
                else do {
                  _ \<leftarrow> modify (\<lambda>h. h\<lparr>hs_ops := AList.update (pq_opID req) (pending req) (hs_ops h)\<rparr>);
                  ret None }) (\<lambda>a. privd_ok (if a = None then req # q else q) run)) h"
    if c: "ValidVMID (pq_opID req)" "\<not> hs_operr h" "map_of (hs_ops h) (pq_opID req) = None"
  proof -
    have j: "journal_ok q run h" "inventory_ok q run h" "live_ok q run h" using assms c(2) by (auto simp: privd_ok_def)
    have new: "map_of (hs_opfiles h) (pq_opID req) = None" "pq_opID req \<notin> mine q run"
      using j c(3) by (auto simp: journal_ok_def live_ok_def mine_def)
    let ?h = "\<lambda>n. h\<lparr>hs_now := n, hs_opfiles := AList.update (pq_opID req) (Some (pending req)) (hs_opfiles h)\<rparr>"
    have keep: "map_of (hs_opfiles (?h n)) k = Some f \<and> k \<noteq> pq_opID req" if "map_of (hs_opfiles h) k = Some f" for k f n
      using that new by (auto simp: update_conv')
    have dist: "distinct (map fst (hs_opfiles (?h n)))" for n using files_distinct [OF j(2)] by (simp add: distinct_update)
    have host: "inventory_ok q run (?h n)" for n
    proof (rule owed_host_ok [OF j(2) _ _ _ _ _ _ dist])
      show "owed q run h verb i \<longrightarrow> owed q run (?h n) verb i" for verb i unfolding owed_def using keep by blast
    qed simp_all
    have ne: "pq_opID x \<noteq> pq_opID req" if "x \<in> set (live q run)" for x using new(2) that unfolding mine_def by (metis imageI)
    have live: "live_ok q run (?h n)" "live_ok (req # q) run (?h n\<lparr>hs_ops := AList.update (pq_opID req) (pending req) (hs_ops h)\<rparr>)" for n
      using j(3) new c(1) ne by (auto simp: live_ok_def live_Cons mine_def update_conv')
    have acc: "inventory_ok (req # q) run (?h n)" for n
    proof (rule owed_host_ok [OF j(2) _ _ _ _ _ _ dist])
      show "owed q run h verb i \<longrightarrow> owed (req # q) run (?h n) verb i" for verb i unfolding owed_def mine_Cons using keep by blast
    qed simp_all
    have "journal_ok (req # q) run (?h n\<lparr>hs_ops := AList.update (pq_opID req) (pending req) (hs_ops h)\<rparr>)" for n
      using j(1) c(1) by (auto simp: journal_ok_def update_conv' mine_Cons receipt_ok_def pending_def split: if_splits)
    moreover have "live_ok q run (h\<lparr>hs_now := n, hs_operr := True\<rparr>)" "live_ok q run (?h n\<lparr>hs_operr := True\<rparr>)" for n
      using j(3) live(1) [of n] by (simp_all add: live_ok_def)
    ultimately show ?thesis
      by (intro saveOperation_wp) (use host acc live(2) j(2) in \<open>auto simp: privd_ok_def pending_def\<close>)
  qed
  show ?thesis
    unfolding accept_mutation_def pending_def [symmetric] using assms save by (auto split: option.splits)
qed

lemma begin_ready:
  assumes "privd_ok q None h" "\<not> hs_operr h" "find (\<lambda>p. blocks req (snd p)) (hs_ops h) = None"
  shows "ready (operationVMID req) h"
proof -
  have nb: "\<not> blocks req r" if "map_of (hs_ops h) k = Some r" for k r
    using assms(3) map_of_SomeD [OF that] by (auto simp: find_None_iff)
  have j: "journal_ok q None h" using assms(1,2) by (simp add: privd_ok_def)
  have "\<not> owed q None h verb (operationVMID req)" for verb
  proof
    assume "owed q None h verb (operationVMID req)"
    then obtain k f where k: "k \<notin> mine q None" "map_of (hs_opfiles h) k = Some f" "left_open k f verb (operationVMID req)" by (auto simp: owed_def)
    then obtain r where "f = Some r" "map_of (hs_ops h) k = Some r" using j by (auto simp: journal_ok_def)
    then show False using k(1,3) j nb [of k r] by (auto simp: journal_ok_def left_open_def open_op_def blocks_def)
  qed
  moreover have "vm_ok h i (owed q None h ''start_vm'' i) (owed q None h ''allocate_network'' i)" for i
    using assms(1) by (simp add: privd_ok_def inventory_ok_def)
  ultimately have "vm_ok h (operationVMID req) False False" by metis
  then show ?thesis using assms(1) by (simp add: ready_def privd_ok_def inventory_ok_def base_ok_def)
qed

lemma live_begin:
  assumes "req \<in> set q"
  shows "set (live (remove1 req q) (Some (req, resp))) = set (live q None)"
    "distinct (map pq_opID (live q None)) \<Longrightarrow> distinct (map pq_opID (live (remove1 req q) (Some (req, resp))))"
proof -
  have "mset (live (remove1 req q) (Some (req, resp))) = mset (live q None)" using assms by (simp add: live_def)
  then show "set (live (remove1 req q) (Some (req, resp))) = set (live q None)"
    "distinct (map pq_opID (live q None)) \<Longrightarrow> distinct (map pq_opID (live (remove1 req q) (Some (req, resp))))"
    by (metis set_mset_mset) (metis \<open>mset (live (remove1 req q) (Some (req, resp))) = mset (live q None)\<close> mset_eq_imp_distinct_iff mset_map)
qed

lemma executed_ok:
  assumes "privd_ok q None h" "req \<in> set q"
    "after (operationVMID req) h (unknown resp \<and> pq_verb req = ''start_vm'') (unknown resp \<and> pq_verb req = ''allocate_network'') h'"
  shows "privd_ok (remove1 req q) (Some (req, resp)) h'"
proof -
  let ?i = "operationVMID req" and ?q = "remove1 req q" and ?run = "Some (req, resp)"
  have ok: "inventory_ok q None h" "live_ok q None h" "\<not> hs_operr h \<longrightarrow> journal_ok q None h" using assms(1) by (auto simp: privd_ok_def)
  have fs: "hs_opfiles h' = hs_opfiles h" "hs_ops h' = hs_ops h" "hs_operr h' = hs_operr h" "frame ?i h h'"
    using assms(3) by (auto simp: after_def frame_def)
  have m: "mine ?q ?run = mine q None" using live_begin(1) [OF assms(2)] by (simp add: mine_def)
  have o: "owed ?q ?run h' verb j \<longleftrightarrow> owed q None h verb j \<or> unknown resp \<and> pq_verb req = verb \<and> ?i = j" for verb j
    by (simp add: owed_def m fs(1))
  have v: "vm_ok h' j (owed ?q ?run h' ''start_vm'' j) (owed ?q ?run h' ''allocate_network'' j)" for j
  proof (cases "j = ?i")
    case True
    then show ?thesis using assms(3) by (auto simp: after_def o elim!: vm_ok_weaken)
  next
    case False
    have "vm_ok h j (owed q None h ''start_vm'' j) (owed q None h ''allocate_network'' j)" using ok(1) by (simp add: inventory_ok_def)
    from frame_vm_ok [OF fs(4) False this] show ?thesis by (rule vm_ok_weaken) (simp_all add: o)
  qed
  have "fresh h' j" for j by (rule after_fresh [OF assms(3)]) (use ok(1) in \<open>simp add: inventory_ok_def base_ok_def\<close>)
  then have "base_ok h'" using ok(1) assms(3) by (simp add: inventory_ok_def base_ok_def after_def fs(1))
  moreover have "live_ok ?q ?run h'" using ok(2) live_begin [OF assms(2), of resp] by (simp add: live_ok_def fs)
  moreover have "\<not> hs_operr h' \<longrightarrow> journal_ok ?q ?run h'" using ok(3) by (simp add: journal_ok_def fs m)
  ultimately show ?thesis using v by (simp add: privd_ok_def inventory_ok_def)
qed

lemma begin_mutation_ok:
  assumes "kernel os" "pidfile_honest os" "ip_frame os" "privd_ok q None h" "req \<in> set q"
  shows "wp (begin_mutation os cfg req) (\<lambda>resp. privd_ok (remove1 req q) (Some (req, resp))) h"
proof -
  have refused: "privd_ok (remove1 req q) (Some (req, errResp ''invalid_state'' m)) h" for m
  proof -
    have m: "mine (remove1 req q) (Some (req, errResp ''invalid_state'' m)) = mine q None" using live_begin(1) [OF assms(5)] by (simp add: mine_def)
    have "owed (remove1 req q) (Some (req, errResp ''invalid_state'' m)) h = owed q None h" by (intro ext) (simp add: owed_def m)
    then show ?thesis
      using assms(4) live_begin [OF assms(5)] by (simp add: privd_ok_def inventory_ok_def live_ok_def journal_ok_def m)
  qed
  have go: "wp (execute os cfg req) (\<lambda>resp. privd_ok (remove1 req q) (Some (req, resp))) h"
    if "\<not> hs_operr h" "find (\<lambda>p. blocks req (snd p)) (hs_ops h) = None"
    by (rule wp_mono [OF execute_wp [OF assms(1-3) begin_ready [OF assms(4) that]]]) (rule executed_ok [OF assms(4,5)])
  show ?thesis
    unfolding begin_mutation_def using refused go by (auto split: option.splits)
qed

lemma finish_mutation_ok:
  assumes "privd_ok q (Some (req, resp)) h"
  shows "wp (finish_mutation os req resp) (\<lambda>_. privd_ok q None) h"
proof -
  let ?k = "pq_opID req" and ?r = "\<lparr>jr_request = req, jr_state = final_state resp, jr_response = (if final_state resp = OpnUnknown then None else Some resp)\<rparr>"
  let ?run = "Some (req, resp)" and ?h = "\<lambda>n. h\<lparr>hs_now := n, hs_opfiles := AList.update ?k (Some ?r) (hs_opfiles h)\<rparr>"
  have ok: "inventory_ok q ?run h" "live_ok q ?run h" "\<not> hs_operr h \<longrightarrow> journal_ok q ?run h" using assms by (auto simp: privd_ok_def)
  have l: "ValidVMID ?k" "map_of (hs_opfiles h) ?k = Some (Some (pending req))" "?k \<notin> mine q None" "mine q ?run = insert ?k (mine q None)"
    using ok(2) by (auto simp: live_ok_def live_def mine_def)
  have r: "receipt_ok ?k ?r" "receipt_ok ?k (pending req)" using l(1) by (auto simp: receipt_ok_def pending_def)
  have lo: "left_open ?k (Some ?r) verb j \<longleftrightarrow> unknown resp \<and> pq_verb req = verb \<and> operationVMID req = j"
    "left_open ?k (Some (pending req)) verb j \<longleftrightarrow> pq_verb req = verb \<and> operationVMID req = j" for verb j
    using r by (auto simp: left_open_def open_op_def unknown_def final_state_def pending_def)
  have dist: "distinct (map fst (hs_opfiles (?h n)))" for n using files_distinct [OF ok(1)] by (simp add: distinct_update)
  have done1: "inventory_ok q None (?h n)" for n
  proof (rule owed_host_ok [OF ok(1) _ _ _ _ _ _ dist])
    show "owed q ?run h verb j \<longrightarrow> owed q None (?h n) verb j" for verb j
      using l(3,4) lo(1) by (auto simp: owed_def update_conv')
  qed simp_all
  have done2: "inventory_ok q None h"
  proof (rule owed_host_ok [OF ok(1) _ _ _ _ _ _ files_distinct [OF ok(1)]])
    show "owed q ?run h verb j \<longrightarrow> owed q None h verb j" for verb j
      using l(2-4) lo(2) by (auto simp: owed_def)
  qed simp_all
  have ne: "pq_opID x \<noteq> ?k" if "x \<in> set q" for x using l(3) that by (metis UnCI imageI live_def mine_def set_append)
  have live: "live_ok q None (h\<lparr>hs_now := n\<rparr>)" "live_ok q None (?h n)" "live_ok q None (?h n\<lparr>hs_ops := AList.update ?k ?r (hs_ops h)\<rparr>)" for n
    using ok(2) ne by (auto simp: live_ok_def live_def update_conv')
  have "\<not> hs_operr h \<longrightarrow> journal_ok q None (?h n\<lparr>hs_ops := AList.update ?k ?r (hs_ops h)\<rparr>)" for n
    using ok(3) l(4) r(1) by (auto simp: journal_ok_def update_conv' final_state_def split: if_splits)
  moreover have "live_ok q None (h\<lparr>hs_now := n, hs_operr := True\<rparr>)" "live_ok q None (?h n\<lparr>hs_operr := True\<rparr>)" for n
    using live [of n] by (simp_all add: live_ok_def)
  ultimately show ?thesis
    unfolding finish_mutation_def Let_def wp_bind
    by (intro saveOperation_wp) (use done1 done2 live in \<open>auto simp: privd_ok_def\<close>)
qed

section \<open>Queries and restarts\<close>

text \<open>The ledger proves that an operation was committed: then the order of its VM no longer rests on the record.\<close>

definition proven :: "'m privd_host_scheme \<Rightarrow> request \<Rightarrow> bool" where
  "proven h req \<longleftrightarrow> (\<exists>v. map_of (hs_ledger h) (operationVMID req) = Some (Entry v)
     \<and> (pq_verb req = ''start_vm'' \<longrightarrow> ve_PID v \<noteq> 0) \<and> (pq_verb req = ''allocate_network'' \<longrightarrow> ve_netCIDR v \<noteq> []))"

definition settles :: "'m privd_host_scheme \<Rightarrow> operation_record \<Rightarrow> operation_record \<Rightarrow> bool" where
  "settles h r r' \<longleftrightarrow> jr_request r' = jr_request r
     \<and> (jr_state r' = OpnUnknown \<or> jr_state r' = OpnSucceeded \<and> jr_response r' \<noteq> None \<and> proven h (jr_request r))"

lemma recover_wp:
  assumes "jr_state r = OpnUnknown" "\<And>r' n. hs_now h \<le> n \<Longrightarrow> settles h r r' \<Longrightarrow> Q r' (h\<lparr>hs_now := n\<rparr>)"
  shows "wp (recoverCommittedOperation os r) Q h"
proof -
  have same: "Q r (h\<lparr>hs_now := n\<rparr>)" if "hs_now h \<le> n" for n using assms that by (simp add: settles_def)
  show ?thesis
    unfolding recoverCommittedOperation_def wp_bind
  proof (rule wp_ifI, goal_cases)
    case 1
    then show ?case using same [of "hs_now h"] by simp
  next
    case 2
    show ?case
      unfolding wp_bind wp_return
      by (rule ledger_get_wp) (auto intro!: same assms(2) simp: settles_def proven_def split: content.splits)
  qed
qed

lemma proven_vm_ok:
  assumes "vm_ok h j (open_op r ''start_vm'' j \<or> s) (open_op r ''allocate_network'' j \<or> a)" "proven h (jr_request r)"
  shows "vm_ok h j s a"
  using assms by (auto simp: vm_ok_def owner_def claimant_def open_op_def proven_def split: option.splits ledger_file.splits if_splits)

lemma settle_host_ok:
  assumes "inventory_ok q None h" "k \<notin> mine q None" "map_of (hs_opfiles h) k = Some (Some r)" "receipt_ok k r" "jr_state r \<in> {OpnPending, OpnUnknown}"
    "settles h r r'"
  shows "inventory_ok q None (h\<lparr>hs_now := n, hs_opfiles := AList.update k (Some r') (hs_opfiles h)\<rparr>)" (is "inventory_ok q None ?h") and "receipt_ok k r'"
proof -
  show ok: "receipt_ok k r'" using assms(4,6) by (auto simp: receipt_ok_def settles_def)
  define rest where "rest verb j \<longleftrightarrow> (\<exists>k' f. k' \<noteq> k \<and> k' \<notin> mine q None \<and> map_of (hs_opfiles h) k' = Some f \<and> left_open k' f verb j)" for verb j
  have split: "owed q None g verb j \<longleftrightarrow> open_op x verb j \<or> rest verb j"
    if "map_of (hs_opfiles g) k = Some (Some x)" "receipt_ok k x" "\<And>k'. k' \<noteq> k \<Longrightarrow> map_of (hs_opfiles g) k' = map_of (hs_opfiles h) k'"
    for g :: "'a privd_host_scheme" and x verb j
  proof -
    have "left_open k (Some x) verb j \<longleftrightarrow> open_op x verb j" using that(2) by (simp add: left_open_def)
    moreover have "owed q None g verb j \<longleftrightarrow> left_open k (Some x) verb j \<or> rest verb j"
      unfolding owed_def rest_def option.case using assms(2) that(1,3) by (metis option.inject)
    ultimately show ?thesis by simp
  qed
  have p: "owed q None ?h verb j \<longleftrightarrow> open_op r' verb j \<or> rest verb j" "owed q None h verb j \<longleftrightarrow> open_op r verb j \<or> rest verb j" for verb j
    using split [of ?h r'] split [of h r] assms(3,4) ok by (simp_all add: update_conv')
  have v: "vm_ok h j (open_op r ''start_vm'' j \<or> rest ''start_vm'' j) (open_op r ''allocate_network'' j \<or> rest ''allocate_network'' j)" for j
    using assms(1) by (simp add: inventory_ok_def p(2))
  show "inventory_ok q None ?h"
  proof (rule journal_host_ok [OF assms(1)])
    show "vm_ok h j (owed q None ?h ''start_vm'' j) (owed q None ?h ''allocate_network'' j)" for j
    proof (cases "jr_state r' = OpnUnknown")
      case True
      then have "open_op r' verb j = open_op r verb j" for verb using assms(5,6) by (auto simp: open_op_def settles_def)
      then show ?thesis using v [of j] by (simp add: p(1))
    next
      case False
      then have "proven h (jr_request r)" "\<not> open_op r' verb j" for verb using assms(6) by (auto simp: open_op_def settles_def)
      then show ?thesis using proven_vm_ok [OF v] by (simp add: p(1))
    qed
  qed (use files_distinct [OF assms(1)] in \<open>auto simp: distinct_update\<close>)
qed

lemma queryOperation_ok:
  assumes "privd_ok q run h" "free \<longrightarrow> run = None"
  shows "wp (queryOperation os free i) (\<lambda>_. privd_ok q run) h"
proof -
  have go: "wp (recoverCommittedOperation os r) (\<lambda>rec'. wp (if jr_state rec' = OpnSucceeded then do {
               s \<leftarrow> saveOperation os rec';
               modify (\<lambda>h. if s \<noteq> None then h\<lparr>hs_operr := True\<rparr> else h\<lparr>hs_ops := AList.update i rec' (hs_ops h)\<rparr>) }
             else ret ()) (\<lambda>_. privd_ok q run)) h"
    if r: "free" "map_of (hs_ops h) i = Some r" "jr_state r = OpnUnknown" "\<not> hs_operr h" for r
  proof (rule recover_wp [OF r(3)], goal_cases)
    case (1 r' n)
    have run: "run = None" using assms(2) r(1) by simp
    have j: "journal_ok q None h" "inventory_ok q None h" "live_ok q None h" using assms(1) r(4) by (auto simp: privd_ok_def run)
    have m: "i \<notin> mine q None" using j(3) r(2,3) by (auto simp: live_ok_def mine_def pending_def)
    have d: "map_of (hs_opfiles h) i = Some (Some r)" "receipt_ok i r" "jr_state r \<in> {OpnPending, OpnUnknown}" using j r by (auto simp: journal_ok_def)
    have k: "pq_opID (jr_request r') = i" using d(2) 1(2) by (simp add: receipt_ok_def settles_def)
    note w = settle_host_ok [OF j(2) m d 1(2)]
    have ne: "pq_opID x \<noteq> i" if "x \<in> set (live q None)" for x using m that unfolding mine_def by (metis imageI)
    have save: "wp (saveOperation os r') (\<lambda>s h. privd_ok q run (if s \<noteq> None then h\<lparr>hs_operr := True\<rparr> else h\<lparr>hs_ops := AList.update i r' (hs_ops h)\<rparr>)) (h\<lparr>hs_now := n\<rparr>)"
      if "jr_state r' = OpnSucceeded"
      by (rule saveOperation_wp) (use w j k that ne in \<open>auto simp: privd_ok_def run journal_ok_def live_ok_def update_conv' split: if_splits\<close>)
    show ?case using assms save by auto
  qed
  show ?thesis
    unfolding queryOperation_def using go assms(1) by (auto split: option.splits)
qed

text \<open>While the receipts are read: those that are left are still as they were, the others are in memory.\<close>

definition loading :: "(string \<times> operation_record option) list \<Rightarrow> 'm privd_host_scheme \<Rightarrow> bool" where
  "loading fs h \<longleftrightarrow> inventory_ok [] None h \<and> distinct (map fst fs) \<and> (\<forall>(k, f) \<in> set fs. map_of (hs_opfiles h) k = Some f)
     \<and> (\<forall>k. k \<notin> fst ` set fs \<longrightarrow> map_of (hs_opfiles h) k = map_option Some (map_of (hs_ops h) k)
          \<and> (\<forall>r. map_of (hs_ops h) k = Some r \<longrightarrow> receipt_ok k r \<and> jr_state r \<noteq> OpnPending))"

lemma loading_settled:
  assumes "loading ((k, Some r) # fs) h" "receipt_ok k r'" "jr_state r' \<noteq> OpnPending" "h' = h\<lparr>hs_now := n, hs_opfiles := AList.update k (Some r') (hs_opfiles h), hs_ops := AList.update k r' (hs_ops h)\<rparr>"
    "inventory_ok [] None h'"
  shows "loading fs h'"
  unfolding loading_def
proof (intro conjI allI impI)
  show "inventory_ok [] None h'" "distinct (map fst fs)" using assms by (auto simp: loading_def)
  show "\<forall>(k, f) \<in> set fs. map_of (hs_opfiles h') k = Some f"
  proof clarify
    fix j f
    assume m: "(j, f) \<in> set fs"
    then have "j \<noteq> k" using assms(1) by (auto simp: loading_def rev_image_eqI)
    then show "map_of (hs_opfiles h') j = Some f" using m assms(1) by (auto simp: assms(4) loading_def update_conv')
  qed
  fix j
  assume "j \<notin> fst ` set fs"
  then show "map_of (hs_opfiles h') j = map_option Some (map_of (hs_ops h') j)" using assms(1) by (simp add: assms(4) loading_def update_conv')
  show "receipt_ok j x" "jr_state x \<noteq> OpnPending" if "map_of (hs_ops h') j = Some x" for x
    using \<open>j \<notin> fst ` set fs\<close> that assms(1-3) by (auto simp: assms(4) loading_def update_conv' split: if_splits)
qed

lemma load_records_ok: "loading fs h \<Longrightarrow> wp (load_records os fs) (\<lambda>_. privd_ok [] None) h"
proof (induction fs arbitrary: h)
  case Nil
  then show ?case by (auto simp: loading_def privd_ok_def journal_ok_def live_ok_def live_def)
next
  case (Cons kf fs)
  obtain k f where kf: "kf = (k, f)" by fastforce
  let ?h = "h\<lparr>hs_now := Suc (hs_now h)\<rparr>"
  have bad: "privd_ok [] None (?h\<lparr>hs_operr := True\<rparr>)" using Cons.prems by (auto simp: loading_def privd_ok_def live_ok_def live_def)
  have host: "inventory_ok [] None ?h" using Cons.prems by (simp add: loading_def)
  have open_rec: "wp (recoverCommittedOperation os (r\<lparr>jr_state := OpnUnknown\<rparr>)) (\<lambda>r'. wp (do {
           s \<leftarrow> saveOperation os r';
           if s \<noteq> None then modify (\<lambda>h. h\<lparr>hs_operr := True\<rparr>)
           else do { _ \<leftarrow> modify (\<lambda>h. h\<lparr>hs_ops := AList.update k r' (hs_ops h)\<rparr>); load_records os fs } }) (\<lambda>_. privd_ok [] None)) ?h"
    if r: "f = Some r" "receipt_ok k r" "jr_state r \<in> {OpnPending, OpnUnknown}" for r
  proof (rule recover_wp, simp, goal_cases)
    case (1 r' n)
    have st: "settles ?h r r'" using 1(2) by (simp add: settles_def)
    have d: "map_of (hs_opfiles ?h) k = Some (Some r)" using Cons.prems by (simp add: loading_def kf r(1))
    have k: "pq_opID (jr_request r') = k" using r(2) st by (simp add: receipt_ok_def settles_def)
    note w = settle_host_ok [OF host _ d r(2,3) st]
    have w2: "receipt_ok k r'" using w(2) by (simp add: mine_def live_def)
    have np: "jr_state r' \<noteq> OpnPending" using st by (auto simp: settles_def)
    have w1: "inventory_ok [] None (h\<lparr>hs_now := m, hs_opfiles := AList.update k (Some r') (hs_opfiles h)\<rparr>)" for m using w(1) [of m] by (simp add: mine_def live_def)
    have "wp (load_records os fs) (\<lambda>_. privd_ok [] None) (h\<lparr>hs_now := m, hs_opfiles := AList.update k (Some r') (hs_opfiles h), hs_ops := AList.update k r' (hs_ops h)\<rparr>)" for m
      by (rule Cons.IH, rule loading_settled [of k r fs h, OF _ w2 np refl]) (use Cons.prems w1 in \<open>auto simp: kf r(1)\<close>)
    then show ?case
      unfolding wp_bind using host by (intro saveOperation_wp) (auto simp: k privd_ok_def live_ok_def live_def w1)
  qed
  have closed: "wp (load_records os fs) (\<lambda>_. privd_ok [] None) (?h\<lparr>hs_ops := AList.update k r (hs_ops h)\<rparr>)"
    if "f = Some r" "receipt_ok k r" "jr_state r \<notin> {OpnPending, OpnUnknown}" for r
    by (rule Cons.IH) (use Cons.prems that in \<open>auto simp: loading_def kf update_conv'\<close>)
  show ?case
    unfolding kf load_records.simps
    using bad open_rec closed by (auto simp: receipt_ok_def split: option.splits)
qed

lemma drop_queue:
  assumes "privd_ok q run h"
  shows "inventory_ok [] None h"
proof (rule owed_host_ok [of q run h])
  show "owed q run h verb j \<longrightarrow> owed [] None h verb j" for verb j
  proof
    assume o: "owed q run h verb j"
    show "owed [] None h verb j"
    proof (cases "\<exists>k f. k \<notin> mine q run \<and> map_of (hs_opfiles h) k = Some f \<and> left_open k f verb j")
      case True
      then show ?thesis by (auto simp: owed_def mine_def live_def)
    next
      case False
      then obtain req resp where r: "run = Some (req, resp)" "pq_verb req = verb" "operationVMID req = j"
        using o by (auto simp: owed_def split: option.splits)
      then have "map_of (hs_opfiles h) (pq_opID req) = Some (Some (pending req))" using assms by (simp add: privd_ok_def live_ok_def live_def)
      moreover have "left_open (pq_opID req) (Some (pending req)) verb j" using r by (simp add: left_open_def open_op_def pending_def)
      ultimately show ?thesis unfolding owed_def mine_def live_def by auto
    qed
  qed
qed (use assms in \<open>auto simp: privd_ok_def files_distinct\<close>)

lemma NewServer_ok:
  assumes "inventory_ok [] None h"
  shows "wp (NewServer os) (\<lambda>_. privd_ok [] None) h"
proof -
  have d: "distinct (map fst (hs_opfiles h))" by (rule files_distinct [OF assms])
  have "wp (load_records os (sort_key (\<lambda>p. fst p @ ''.json'') (hs_opfiles h))) (\<lambda>_. privd_ok [] None) (h\<lparr>hs_now := n, hs_ops := [], hs_operr := False\<rparr>)" for n
    using assms d by (intro load_records_ok) (auto simp: loading_def distinct_map map_of_eq_None_iff)
  with assms show ?thesis
    unfolding NewServer_def by (auto simp: privd_ok_def live_ok_def live_def)
qed

section \<open>Runs of the daemon\<close>

lemma networkLeases_wp:
  assumes "\<And>r n. hs_now h \<le> n \<Longrightarrow> Q r (h\<lparr>hs_now := n\<rparr>)"
  shows "wp (networkLeases os free) Q h"
  unfolding networkLeases_def using assms [of "hs_now h"] by (auto intro!: ledger_all_wp assms split: option.splits)

definition reboot :: "string \<Rightarrow> string \<Rightarrow> 'm privd_host_scheme \<Rightarrow> 'm privd_host_scheme" where
  "reboot boot ns h = h\<lparr>hs_boot := boot, hs_pidns := ns, hs_procs := [], hs_netns := [], hs_ifs := []\<rparr>"

text \<open>
  What happens to the host. The critical sections of the requests interleave: any number of them wait while one
  has executed and not yet published its outcome. Queries and inventories are served at any time, VMMs exit, the stage
  directory is filled; the daemon is restarted, or the host is rebooted and the daemon comes up again, and
  whatever was in flight is lost.
\<close>

inductive privd_run :: "os \<Rightarrow> privd_cfg \<Rightarrow> request list \<Rightarrow> running \<Rightarrow> 'm privd_host_scheme \<Rightarrow> request list \<Rightarrow> running \<Rightarrow> 'm privd_host_scheme \<Rightarrow> bool" for os cfg q0 run0 h0 where
  run_init: "privd_run os cfg q0 run0 h0 q0 run0 h0"
| run_accept: "privd_run os cfg q0 run0 h0 q run h \<Longrightarrow> run_state (accept_mutation os req) h = (a, h') \<Longrightarrow>
     privd_run os cfg q0 run0 h0 (if a = None then req # q else q) run h'"
| run_execute: "privd_run os cfg q0 run0 h0 q None h \<Longrightarrow> req \<in> set q \<Longrightarrow> run_state (begin_mutation os cfg req) h = (resp, h') \<Longrightarrow>
     privd_run os cfg q0 run0 h0 (remove1 req q) (Some (req, resp)) h'"
| run_publish: "privd_run os cfg q0 run0 h0 q (Some (req, resp)) h \<Longrightarrow> run_state (finish_mutation os req resp) h = (a, h') \<Longrightarrow>
     privd_run os cfg q0 run0 h0 q None h'"
| run_query: "privd_run os cfg q0 run0 h0 q run h \<Longrightarrow> run_state (queryOperation os (run = None) i) h = (a, h') \<Longrightarrow> privd_run os cfg q0 run0 h0 q run h'"
| run_leases: "privd_run os cfg q0 run0 h0 q run h \<Longrightarrow> run_state (networkLeases os (run = None)) h = (l, h') \<Longrightarrow> privd_run os cfg q0 run0 h0 q run h'"
| run_exits: "privd_run os cfg q0 run0 h0 q run h \<Longrightarrow> calm h h' \<Longrightarrow> privd_run os cfg q0 run0 h0 q run h'"
| run_stage: "privd_run os cfg q0 run0 h0 q run h \<Longrightarrow> privd_run os cfg q0 run0 h0 q run (h\<lparr>hs_stage := st\<rparr>)"
| run_restart: "privd_run os cfg q0 run0 h0 q run h \<Longrightarrow> run_state (NewServer os) h = (u, h') \<Longrightarrow> privd_run os cfg q0 run0 h0 [] None h'"
| run_reboot: "privd_run os cfg q0 run0 h0 q run h \<Longrightarrow> run_state (NewServer os) (reboot boot ns h) = (u, h') \<Longrightarrow> privd_run os cfg q0 run0 h0 [] None h'"

lemma wp_run: "wp c Q h \<Longrightarrow> run_state c h = (r, h') \<Longrightarrow> Q r h'"
  by (simp add: wp_def)

lemma calm_privd_ok:
  assumes "privd_ok q run h" "calm h h'"
  shows "privd_ok q run (h' :: 'm privd_host_scheme)"
proof -
  have c: "hs_opfiles h' = hs_opfiles h" "hs_ledger h' = hs_ledger h" "hs_ops h' = hs_ops h" "hs_operr h' = hs_operr h" using assms(2) by (auto simp: calm_def)
  have o: "owed q run h' = owed q run h" by (intro ext) (simp add: owed_def c(1))
  have "fresh h' = fresh h" by (intro ext) (simp add: fresh_def c(2))
  moreover have "vm_ok h' j s a" if "vm_ok h j s a" for j s a
    using assms(2) that by (auto simp: calm_def vm_ok_def owner_def claimant_def names_def split: option.splits ledger_file.splits if_splits)
  ultimately show ?thesis
    using assms(1) calm_pids [OF assms(2)] by (simp add: privd_ok_def inventory_ok_def base_ok_def live_ok_def journal_ok_def o c)
qed

lemma reboot_host_ok: "inventory_ok q run h \<Longrightarrow> inventory_ok q run (reboot b s h)"
  by (auto simp: inventory_ok_def base_ok_def reboot_def pids_ok_def fresh_def vm_ok_def)

theorem run_privd_ok:
  assumes "kernel os" "pidfile_honest os" "ip_frame os" "privd_ok q0 run0 h0" "privd_run os cfg q0 run0 h0 q run h"
  shows "privd_ok q run h"
  using assms(5)
proof induction
  case (run_accept q run h req a h')
  from wp_run [OF accept_mutation_ok [OF run_accept.IH] run_accept.hyps(2)] show ?case .
next
  case (run_execute q h req resp h')
  from wp_run [OF begin_mutation_ok [OF assms(1-3) run_execute.IH run_execute.hyps(2)] run_execute.hyps(3)] show ?case .
next
  case (run_publish q req resp h a h')
  from wp_run [OF finish_mutation_ok [OF run_publish.IH] run_publish.hyps(2)] show ?case .
next
  case (run_query q run h i a h')
  from wp_run [OF queryOperation_ok [OF run_query.IH] run_query.hyps(2)] show ?case by simp
next
  case (run_leases q run h l h')
  have "wp (networkLeases os (run = None)) (\<lambda>_. privd_ok q run) h" by (rule networkLeases_wp) (simp add: run_leases.IH)
  from wp_run [OF this run_leases.hyps(2)] show ?case .
next
  case (run_exits q run h h')
  show ?case by (rule calm_privd_ok [OF run_exits.IH run_exits.hyps(2)])
next
  case (run_restart q run h u h')
  from wp_run [OF NewServer_ok [OF drop_queue [OF run_restart.IH]] run_restart.hyps(2)] show ?case .
next
  case (run_reboot q run h boot ns u h')
  from wp_run [OF NewServer_ok [OF reboot_host_ok [OF drop_queue [OF run_reboot.IH]]] run_reboot.hyps(2)] show ?case .
qed (simp_all add: assms(4))

text \<open>A request that nobody disturbs is the three sections in a row, and so is every other request the dispatcher serves.\<close>

lemma run_mutation:
  assumes "privd_run os cfg q0 run0 h0 [] None h" "run_state (dispatchMutation os cfg req) h = (resp, h')"
  shows "privd_run os cfg q0 run0 h0 [] None h'"
proof -
  obtain a g where a: "run_state (accept_mutation os req) h = (a, g)" by fastforce
  note acc = run_accept [OF assms(1) a]
  show ?thesis
  proof (cases a)
    case (Some r)
    then show ?thesis using acc assms(2) a by (simp add: dispatchMutation_def)
  next
    case None
    obtain x g1 where b: "run_state (begin_mutation os cfg req) g = (x, g1)" by fastforce
    have "privd_run os cfg q0 run0 h0 [] (Some (req, x)) g1" using run_execute [of os cfg q0 run0 h0 "[req]" g req x g1] acc None b by simp
    from run_publish [OF this] show ?thesis using assms(2) a b None by (simp add: dispatchMutation_def)
  qed
qed

lemma run_request:
  assumes "privd_run os cfg q0 run0 h0 [] None h" "run_state (dispatch os cfg req) h = (a, h')"
  shows "privd_run os cfg q0 run0 h0 [] None h'"
  using assms run_mutation [OF assms(1), of req] run_query [OF assms(1)] run_leases [OF assms(1)]
  by (auto simp: dispatch_def split: if_splits option.splits prod.splits)

end
