(* ===== verification/Privd_Journal.thy ===== *)
theory Privd_Journal
  imports Privd_Safety
begin

text \<open>
  What a client of the privileged daemon may rely on: an operation id runs at most once, and the answer it got
  is the answer every retry gets, across restarts; and the properties of the daemon as a whole.
\<close>

section \<open>What stays true\<close>

text \<open>
  A fact about the host that every critical section, query, restart and reboot keeps holds for ever. The laws are asked for
  in a state that satisfies the daemon's invariant.
\<close>

locale stable_fact =
  fixes holds :: "'m privd_host_scheme \<Rightarrow> bool"
  assumes accept_law: "holds h \<Longrightarrow> wp (accept_mutation os req) (\<lambda>_. holds) h"
    and begin_law: "kernel os \<Longrightarrow> pidfile_honest os \<Longrightarrow> ip_frame os \<Longrightarrow> privd_ok q None h \<Longrightarrow> holds h \<Longrightarrow> wp (begin_mutation os cfg req) (\<lambda>_. holds) h"
    and finish_law: "privd_ok q (Some (req, resp)) h \<Longrightarrow> holds h \<Longrightarrow> wp (finish_mutation os req resp) (\<lambda>_. holds) h"
    and query_law: "privd_ok q run h \<Longrightarrow> holds h \<Longrightarrow> wp (queryOperation os free i) (\<lambda>_. holds) h"
    and now_law: "holds h \<Longrightarrow> holds (h\<lparr>hs_now := n\<rparr>)"
    and exits_law: "holds h \<Longrightarrow> calm h h' \<Longrightarrow> holds h'"
    and stage_law: "holds h \<Longrightarrow> holds (h\<lparr>hs_stage := st\<rparr>)"
    and restart_law: "privd_ok q run h \<Longrightarrow> holds h \<Longrightarrow> wp (NewServer os) (\<lambda>_. holds) h"
    and reboot_law: "privd_ok q run h \<Longrightarrow> holds h \<Longrightarrow> wp (NewServer os) (\<lambda>_. holds) (reboot b s h)"
begin

lemma run_stable:
  assumes "kernel os" "pidfile_honest os" "ip_frame os" "privd_ok q0 run0 h0" "holds h0" "privd_run os cfg q0 run0 h0 q run h"
  shows "holds h"
  using assms(6)
proof induction
  case run_init
  show ?case by (rule assms(5))
next
  case (run_accept q run h req a h')
  from wp_run [OF accept_law [OF run_accept.IH] run_accept.hyps(2)] show ?case .
next
  case (run_execute q h req resp h')
  from wp_run [OF begin_law [OF assms(1-3) run_privd_ok [OF assms(1-4) run_execute.hyps(1)] run_execute.IH] run_execute.hyps(3)] show ?case .
next
  case (run_publish q req resp h a h')
  from wp_run [OF finish_law [OF run_privd_ok [OF assms(1-4) run_publish.hyps(1)] run_publish.IH] run_publish.hyps(2)] show ?case .
next
  case (run_query q run h i a h')
  from wp_run [OF query_law [OF run_privd_ok [OF assms(1-4) run_query.hyps(1)] run_query.IH] run_query.hyps(2)] show ?case .
next
  case (run_leases q run h l h')
  have "wp (networkLeases os (run = None)) (\<lambda>_. holds) h" by (rule networkLeases_wp) (simp add: now_law run_leases.IH)
  from wp_run [OF this run_leases.hyps(2)] show ?case .
next
  case (run_exits q run h h')
  show ?case by (rule exits_law [OF run_exits.IH run_exits.hyps(2)])
next
  case (run_stage q run h st)
  show ?case by (rule stage_law [OF run_stage.IH])
next
  case (run_restart q run h u h')
  from wp_run [OF restart_law [OF run_privd_ok [OF assms(1-4) run_restart.hyps(1)] run_restart.IH] run_restart.hyps(2)] show ?case .
next
  case (run_reboot q run h boot ns u h')
  from wp_run [OF reboot_law [OF run_privd_ok [OF assms(1-4) run_reboot.hyps(1)] run_reboot.IH] run_reboot.hyps(2)] show ?case .
qed

end

section \<open>A definite answer stays\<close>

definition closed :: "operation_record \<Rightarrow> bool" where
  "closed r \<longleftrightarrow> jr_state r \<notin> {OpnPending, OpnUnknown}"

definition kept :: "string \<Rightarrow> operation_record \<Rightarrow> 'm privd_host_scheme \<Rightarrow> bool" where
  "kept k r h \<longleftrightarrow> closed r \<and> map_of (hs_opfiles h) k = Some (Some r) \<and> (\<not> hs_operr h \<longrightarrow> map_of (hs_ops h) k = Some r)"

lemma kept_cong: "hs_opfiles h' = hs_opfiles h \<Longrightarrow> hs_ops h' = hs_ops h \<Longrightarrow> hs_operr h' = hs_operr h \<Longrightarrow> kept k r h' = kept k r h"
  by (simp add: kept_def)

lemma finish_mutation_kept:
  assumes "kept k r h" "k \<noteq> pq_opID req"
  shows "wp (finish_mutation os req resp) (\<lambda>_. kept k r) h"
  unfolding finish_mutation_def Let_def wp_bind
  by (rule saveOperation_wp) (use assms in \<open>auto simp: kept_def update_conv'\<close>)

lemma accept_mutation_kept:
  assumes "kept k r h"
  shows "wp (accept_mutation os req) (\<lambda>_. kept k r) h"
proof -
  let ?p = "\<lparr>jr_request = req, jr_state = OpnPending, jr_response = None\<rparr>"
  have "wp (saveOperation os ?p) (\<lambda>s. wp (if s \<noteq> None then do {
                  _ \<leftarrow> modify (\<lambda>h. h\<lparr>hs_operr := True\<rparr>);
                  ret (Some (errResp ''outcome_unknown'' ''cannot durably record mutation; ownership retained'')) }
                else do {
                  _ \<leftarrow> modify (\<lambda>h. h\<lparr>hs_ops := AList.update (pq_opID req) ?p (hs_ops h)\<rparr>);
                  ret None }) (\<lambda>_. kept k r)) h"
    if "\<not> hs_operr h" "map_of (hs_ops h) (pq_opID req) = None"
    by (rule saveOperation_wp) (use assms that in \<open>auto simp: kept_def update_conv'\<close>)
  then show ?thesis
    unfolding accept_mutation_def using assms by (auto split: option.splits)
qed

lemma begin_mutation_kept:
  assumes "kernel os" "pidfile_honest os" "ip_frame os" "privd_ok q None h" "kept k r h"
  shows "wp (begin_mutation os cfg req) (\<lambda>_. kept k r) h"
proof -
  have "wp (execute os cfg req) (\<lambda>_. kept k r) h" if "\<not> hs_operr h" "find (\<lambda>p. blocks req (snd p)) (hs_ops h) = None"
  proof (rule wp_mono [OF execute_wp [OF assms(1-3) begin_ready [OF assms(4) that]]])
    fix resp h'
    assume "after (operationVMID req) h (unknown resp \<and> pq_verb req = ''start_vm'') (unknown resp \<and> pq_verb req = ''allocate_network'') h'"
    then show "kept k r h'" using assms(5) kept_cong [of h' h] by (simp add: after_def frame_def)
  qed
  then show ?thesis
    unfolding begin_mutation_def using assms(5) by (auto split: option.splits)
qed

lemma queryOperation_kept:
  assumes "privd_ok q run h" "kept k r h"
  shows "wp (queryOperation os free i) (\<lambda>_. kept k r) h"
proof -
  have go: "wp (recoverCommittedOperation os x) (\<lambda>rec'. wp (if jr_state rec' = OpnSucceeded then do {
               s \<leftarrow> saveOperation os rec';
               modify (\<lambda>h. if s \<noteq> None then h\<lparr>hs_operr := True\<rparr> else h\<lparr>hs_ops := AList.update i rec' (hs_ops h)\<rparr>) }
             else ret ()) (\<lambda>_. kept k r)) h"
    if x: "map_of (hs_ops h) i = Some x" "jr_state x = OpnUnknown" "\<not> hs_operr h" for x
  proof (rule recover_wp [OF x(2)], goal_cases)
    case (1 r' n)
    have "receipt_ok i x" using assms(1) x by (auto simp: privd_ok_def journal_ok_def)
    then have i: "pq_opID (jr_request r') = i" using 1(2) by (simp add: receipt_ok_def settles_def)
    have ne: "i \<noteq> k" using assms(2) x by (auto simp: kept_def closed_def)
    have "wp (saveOperation os r') (\<lambda>s h. kept k r (if s \<noteq> None then h\<lparr>hs_operr := True\<rparr> else h\<lparr>hs_ops := AList.update i r' (hs_ops h)\<rparr>)) (h\<lparr>hs_now := n\<rparr>)"
      by (rule saveOperation_wp) (use assms(2) ne in \<open>auto simp: i kept_def update_conv'\<close>)
    then show ?case using assms(2) by (auto simp: kept_def)
  qed
  show ?thesis
    unfolding queryOperation_def using go assms by (auto split: option.splits)
qed

text \<open>A restart reads the receipt back; the others it may rewrite.\<close>

lemma load_records_kept:
  "distinct (map fst fs) \<Longrightarrow> closed r \<Longrightarrow> map_of (hs_opfiles h) k = Some (Some r) \<Longrightarrow>
   ((k, Some r) \<in> set fs \<or> k \<notin> fst ` set fs \<and> map_of (hs_ops h) k = Some r) \<Longrightarrow>
   wp (load_records os fs) (\<lambda>_. kept k r) h"
proof (induction fs arbitrary: h)
  case Nil
  then show ?case by (simp add: kept_def)
next
  case (Cons ig fs)
  obtain i g where ig: "ig = (i, g)" by fastforce
  let ?h = "h\<lparr>hs_now := Suc (hs_now h)\<rparr>"
  have bad: "kept k r (?h\<lparr>hs_operr := True\<rparr>)" using Cons.prems by (simp add: kept_def)
  have open_rec: "wp (recoverCommittedOperation os (q\<lparr>jr_state := OpnUnknown\<rparr>)) (\<lambda>r'. wp (do {
           s \<leftarrow> saveOperation os r';
           if s \<noteq> None then modify (\<lambda>h. h\<lparr>hs_operr := True\<rparr>)
           else do { _ \<leftarrow> modify (\<lambda>h. h\<lparr>hs_ops := AList.update i r' (hs_ops h)\<rparr>); load_records os fs } }) (\<lambda>_. kept k r)) ?h"
    if q: "g = Some q" "pq_opID (jr_request q) = i" "jr_state q \<in> {OpnPending, OpnUnknown}" for q
  proof (rule recover_wp, simp, goal_cases)
    case (1 r' n)
    have i: "pq_opID (jr_request r') = i" using 1(2) q(2) by (simp add: settles_def)
    have ne: "k \<noteq> i" using Cons.prems q by (auto simp: ig closed_def rev_image_eqI)
    have "wp (load_records os fs) (\<lambda>_. kept k r) (h\<lparr>hs_now := m, hs_opfiles := AList.update i (Some r') (hs_opfiles h), hs_ops := AList.update i r' (hs_ops h)\<rparr>)" for m
      by (rule Cons.IH) (use Cons.prems ne in \<open>auto simp: ig update_conv'\<close>)
    then show ?case
      unfolding wp_bind using Cons.prems ne by (intro saveOperation_wp) (auto simp: i kept_def update_conv')
  qed
  have closed_rec: "wp (load_records os fs) (\<lambda>_. kept k r) (?h\<lparr>hs_ops := AList.update i q (hs_ops h)\<rparr>)" if "g = Some q" for q
    by (rule Cons.IH) (use Cons.prems that in \<open>auto simp: ig update_conv' rev_image_eqI\<close>)
  show ?case
    unfolding ig load_records.simps
    using bad open_rec closed_rec by (auto split: option.splits)
qed

lemma NewServer_kept:
  assumes "distinct (map fst (hs_opfiles h))" "closed r" "map_of (hs_opfiles h) k = Some (Some r)"
  shows "wp (NewServer os) (\<lambda>_. kept k r) h"
proof -
  have "wp (load_records os (sort_key (\<lambda>p. fst p @ ''.json'') (hs_opfiles h))) (\<lambda>_. kept k r) (h\<lparr>hs_now := n, hs_ops := [], hs_operr := False\<rparr>)" for n
    using assms by (intro load_records_kept) (auto simp: distinct_map dest: map_of_SomeD)
  with assms show ?thesis
    unfolding NewServer_def by (auto simp: kept_def)
qed

lemma kept_live:
  assumes "privd_ok q run h" "kept k r h" "req \<in> set (live q run)"
  shows "k \<noteq> pq_opID req"
  using assms by (auto simp: privd_ok_def live_ok_def kept_def closed_def pending_def)

lemma finish_live_kept:
  assumes "privd_ok q (Some (req, resp)) h" "kept k r h"
  shows "wp (finish_mutation os req resp) (\<lambda>_. kept k r) h"
  by (rule finish_mutation_kept [OF assms(2) kept_live [OF assms]]) (simp add: live_def)

lemma restart_kept: "privd_ok q run h \<Longrightarrow> kept k r h \<Longrightarrow> wp (NewServer os) (\<lambda>_. kept k r) h"
  by (rule NewServer_kept) (auto simp: privd_ok_def files_distinct kept_def)

lemma reboot_kept: "privd_ok q run h \<Longrightarrow> kept k r h \<Longrightarrow> wp (NewServer os) (\<lambda>_. kept k r) (reboot b s h)"
  by (rule NewServer_kept) (auto simp: privd_ok_def files_distinct kept_def reboot_def)

lemma kept_frame: "kept k r h \<Longrightarrow> kept k r (h\<lparr>hs_now := n\<rparr>)" "kept k r h \<Longrightarrow> calm h h' \<Longrightarrow> kept k r h'" "kept k r h \<Longrightarrow> kept k r (h\<lparr>hs_stage := st\<rparr>)"
  by (auto simp: kept_def calm_def)

interpretation receipt: stable_fact "kept k r" for k r
  by unfold_locales
    (blast intro: accept_mutation_kept begin_mutation_kept finish_live_kept queryOperation_kept restart_kept reboot_kept kept_frame)+

text \<open>A definite answer to a request under a new operation id is in the journal.\<close>

definition definite :: "response \<Rightarrow> bool" where
  "definite resp \<longleftrightarrow> pa_cause resp \<noteq> ''outcome_unknown'' \<and> pa_cause resp \<noteq> ''outcome_pending''"

definition answered :: "request \<Rightarrow> response \<Rightarrow> operation_record \<Rightarrow> bool" where
  "answered req resp r \<longleftrightarrow> jr_request r = req \<and> jr_response r = Some resp"

definition mutation :: "request \<Rightarrow> bool" where
  "mutation req \<longleftrightarrow> pq_version req = ProtoVersion \<and> pq_verb req \<notin> {''network_leases'', ''query_operation''} \<and> ValidVMID (pq_opID req)"

lemma finish_mutation_answer:
  "wp (finish_mutation os req resp) (\<lambda>a h'. definite a \<longrightarrow> (\<exists>r. kept (pq_opID req) r h' \<and> answered req a r)) h"
  unfolding finish_mutation_def Let_def wp_bind
  by (rule saveOperation_wp) (auto simp: definite_def errResp_def kept_def closed_def answered_def final_state_def update_conv')

lemma retry_replays:
  assumes "kept (pq_opID req) r h" "answered req resp r" "ValidVMID (pq_opID req)"
  shows "run_state (accept_mutation os req) h =
    (Some (if hs_operr h then errResp ''outcome_unknown'' ''operation journal unavailable; preserve host ownership'' else resp), h)"
  using assms by (auto simp: accept_mutation_def answered_def kept_def)

section \<open>An operation id is accepted once\<close>

text \<open>Whatever its outcome, an accepted operation stays in the journal.\<close>

definition recorded :: "string \<Rightarrow> 'm privd_host_scheme \<Rightarrow> bool" where
  "recorded k h \<longleftrightarrow> k \<in> dom (map_of (hs_opfiles h)) \<and> (\<not> hs_operr h \<longrightarrow> k \<in> dom (map_of (hs_ops h)))"

lemma recorded_refused:
  assumes "recorded k h" "pq_opID req = k"
  shows "\<exists>resp. run_state (accept_mutation os req) h = (Some resp, h)"
  using assms by (auto simp: accept_mutation_def recorded_def)

lemma finish_mutation_recorded: "recorded k h \<Longrightarrow> wp (finish_mutation os req resp) (\<lambda>_. recorded k) h"
  unfolding finish_mutation_def Let_def wp_bind
  by (rule saveOperation_wp) (auto simp: recorded_def update_conv' dom_def)

lemma accept_mutation_recorded:
  shows "wp (accept_mutation os req) (\<lambda>a h'. (recorded k h \<longrightarrow> recorded k h') \<and> (a = None \<longrightarrow> recorded (pq_opID req) h')) h"
proof -
  let ?p = "\<lparr>jr_request = req, jr_state = OpnPending, jr_response = None\<rparr>"
  have "wp (saveOperation os ?p) (\<lambda>s. wp (if s \<noteq> None then do {
                  _ \<leftarrow> modify (\<lambda>h. h\<lparr>hs_operr := True\<rparr>);
                  ret (Some (errResp ''outcome_unknown'' ''cannot durably record mutation; ownership retained'')) }
                else do {
                  _ \<leftarrow> modify (\<lambda>h. h\<lparr>hs_ops := AList.update (pq_opID req) ?p (hs_ops h)\<rparr>);
                  ret None }) (\<lambda>a h'. (recorded k h \<longrightarrow> recorded k h') \<and> (a = None \<longrightarrow> recorded (pq_opID req) h'))) h"
    by (rule saveOperation_wp) (auto simp: recorded_def update_conv' dom_def)
  then show ?thesis
    unfolding accept_mutation_def by (auto split: option.splits)
qed

lemma begin_mutation_recorded:
  assumes "kernel os" "pidfile_honest os" "ip_frame os" "privd_ok q None h" "recorded k h"
  shows "wp (begin_mutation os cfg req) (\<lambda>_. recorded k) h"
proof -
  have "wp (execute os cfg req) (\<lambda>_. recorded k) h" if "\<not> hs_operr h" "find (\<lambda>p. blocks req (snd p)) (hs_ops h) = None"
  proof (rule wp_mono [OF execute_wp [OF assms(1-3) begin_ready [OF assms(4) that]]])
    fix resp h'
    assume "after (operationVMID req) h (unknown resp \<and> pq_verb req = ''start_vm'') (unknown resp \<and> pq_verb req = ''allocate_network'') h'"
    then show "recorded k h'" using assms(5) by (simp add: recorded_def after_def frame_def)
  qed
  then show ?thesis
    unfolding begin_mutation_def using assms(5) by (auto split: option.splits)
qed

lemma queryOperation_recorded:
  assumes "recorded k h"
  shows "wp (queryOperation os free i) (\<lambda>_. recorded k) h"
proof -
  have go: "wp (recoverCommittedOperation os x) (\<lambda>rec'. wp (if jr_state rec' = OpnSucceeded then do {
               s \<leftarrow> saveOperation os rec';
               modify (\<lambda>h. if s \<noteq> None then h\<lparr>hs_operr := True\<rparr> else h\<lparr>hs_ops := AList.update i rec' (hs_ops h)\<rparr>) }
             else ret ()) (\<lambda>_. recorded k)) h" if x: "jr_state x = OpnUnknown" for x
  proof (rule recover_wp [OF x], goal_cases)
    case (1 r' n)
    have "wp (saveOperation os r') (\<lambda>s h. recorded k (if s \<noteq> None then h\<lparr>hs_operr := True\<rparr> else h\<lparr>hs_ops := AList.update i r' (hs_ops h)\<rparr>)) (h\<lparr>hs_now := n\<rparr>)"
      by (rule saveOperation_wp) (use assms in \<open>auto simp: recorded_def update_conv' dom_def\<close>)
    then show ?case using assms by (auto simp: recorded_def)
  qed
  show ?thesis
    unfolding queryOperation_def using go assms by (auto split: option.splits)
qed

lemma load_records_recorded:
  "k \<in> dom (map_of (hs_opfiles h)) \<Longrightarrow> k \<in> fst ` set fs \<or> k \<in> dom (map_of (hs_ops h)) \<Longrightarrow> wp (load_records os fs) (\<lambda>_. recorded k) h"
proof (induction fs arbitrary: h)
  case Nil
  then show ?case by (simp add: recorded_def)
next
  case (Cons ig fs)
  obtain i g where ig: "ig = (i, g)" by fastforce
  let ?h = "h\<lparr>hs_now := Suc (hs_now h)\<rparr>"
  have bad: "recorded k (?h\<lparr>hs_operr := True\<rparr>)" using Cons.prems by (simp add: recorded_def)
  have open_rec: "wp (recoverCommittedOperation os (q\<lparr>jr_state := OpnUnknown\<rparr>)) (\<lambda>r'. wp (do {
           s \<leftarrow> saveOperation os r';
           if s \<noteq> None then modify (\<lambda>h. h\<lparr>hs_operr := True\<rparr>)
           else do { _ \<leftarrow> modify (\<lambda>h. h\<lparr>hs_ops := AList.update i r' (hs_ops h)\<rparr>); load_records os fs } }) (\<lambda>_. recorded k)) ?h" for q
  proof (rule recover_wp, simp, goal_cases)
    case (1 r' n)
    have "wp (load_records os fs) (\<lambda>_. recorded k) (h\<lparr>hs_now := m, hs_opfiles := AList.update c f (hs_opfiles h), hs_ops := AList.update i r' (hs_ops h)\<rparr>)" for m c f
      by (rule Cons.IH) (use Cons.prems in \<open>auto simp: ig update_conv'\<close>)
    then show ?case
      unfolding wp_bind using Cons.prems by (intro saveOperation_wp) (auto simp: recorded_def update_conv')
  qed
  have closed_rec: "wp (load_records os fs) (\<lambda>_. recorded k) (?h\<lparr>hs_ops := AList.update i q (hs_ops h)\<rparr>)" for q
    by (rule Cons.IH) (use Cons.prems in \<open>auto simp: ig update_conv'\<close>)
  show ?case
    unfolding ig load_records.simps
    using bad open_rec closed_rec by (auto split: option.splits)
qed

lemma NewServer_recorded:
  assumes "k \<in> dom (map_of (hs_opfiles h))"
  shows "wp (NewServer os) (\<lambda>_. recorded k) h"
proof -
  have "wp (load_records os (sort_key (\<lambda>p. fst p @ ''.json'') (hs_opfiles h))) (\<lambda>_. recorded k) (h\<lparr>hs_now := n, hs_ops := [], hs_operr := False\<rparr>)" for n
    using assms by (intro load_records_recorded) (auto simp: dom_map_of_conv_image_fst)
  with assms show ?thesis
    unfolding NewServer_def by (auto simp: recorded_def)
qed

lemma accept_stays_recorded: "recorded k h \<Longrightarrow> wp (accept_mutation os req) (\<lambda>_. recorded k) h"
  by (rule wp_mono [OF accept_mutation_recorded [of os req k]]) blast

lemma restart_recorded: "recorded k h \<Longrightarrow> wp (NewServer os) (\<lambda>_. recorded k) h" "recorded k h \<Longrightarrow> wp (NewServer os) (\<lambda>_. recorded k) (reboot b s h)"
  by (auto intro!: NewServer_recorded simp: recorded_def reboot_def)

lemma recorded_frame: "recorded k h \<Longrightarrow> recorded k (h\<lparr>hs_now := n\<rparr>)" "recorded k h \<Longrightarrow> calm h h' \<Longrightarrow> recorded k h'" "recorded k h \<Longrightarrow> recorded k (h\<lparr>hs_stage := st\<rparr>)"
  by (auto simp: recorded_def calm_def)

interpretation journalled: stable_fact "recorded k" for k
  by unfold_locales
    (blast intro: accept_stays_recorded begin_mutation_recorded finish_mutation_recorded queryOperation_recorded restart_recorded recorded_frame)+

end
