(* ===== verification/Privd_Properties.thy ===== *)
theory Privd_Properties
  imports Privd_Journal
begin

text \<open>
  The properties of the privileged daemon, and a run of it on a host on which nothing fails: it allocates a network
  and starts a VM.
\<close>

section \<open>A run\<close>

definition demo_ip :: "string list \<Rightarrow> string list \<times> string list \<Rightarrow> string option \<times> string list \<times> string list" where
  "demo_ip argv s = (None, (case argv of [a, b, c, x] \<Rightarrow> if a = ''ip'' \<and> b = ''netns'' \<and> c = ''add'' then x # fst s else fst s | _ \<Rightarrow> fst s), snd s)"

definition demo_priv_os :: os where
  "demo_priv_os = \<lparr>os_fail = \<lambda>_. None, os_exits = \<lambda>_ _. False, os_stat = \<lambda>_ _. None, os_cmdline = \<lambda>_ _. [], os_pid = \<lambda>_ pids. Suc (sum_list pids),
     os_start = \<lambda>_. 7, os_uuid = \<lambda>_. [], os_clock = \<lambda>_. 0, os_polls = \<lambda>_. 0, os_exec = \<lambda>_. ExecOk, os_ip = \<lambda>_. demo_ip,
     os_pidfile = \<lambda>_ f. f, os_delivery = \<lambda>_. Delivered, os_sha256 = \<lambda>s. s, os_cut = \<lambda>_. 0\<rparr>"

definition demo_priv_cfg :: privd_cfg where
  "demo_priv_cfg = \<lparr>pc_allowedUID = 1000, pc_UIDMin = 100, pc_UIDMax = 200, pc_stageRoot = ''/s'', pc_jailBase = ''/j'', pc_firecracker = ''fc'', pc_jailer = ''jl''\<rparr>"

definition demo_priv_host :: privd_host where
  "demo_priv_host = \<lparr>hs_now = 0, hs_boot = ''01234567-89ab-cdef-0123-456789abcdef'', hs_pidns = ''pid:[4026531836]'', hs_procs = [], hs_ledger = [], hs_opfiles = [], hs_ops = [],
     hs_operr = False, hs_netns = [], hs_ifs = [], hs_jails = [], hs_stage = [(''a'', [(''vmlinux'', ''k'')])]\<rparr>"

definition demo_pay :: payload where
  "demo_pay = \<lparr>py_vmID = ''a'', py_CIDR = ''c'', py_UID = 100, py_GID = 100, py_CID = 3, py_stageDir = ''/s/a'', py_files = [\<lparr>sf_name = ''vmlinux'', sf_SHA256 = ''k''\<rparr>], py_kind = [], py_opID = []\<rparr>"


lemma demo_os [simp]: "os_fail demo_priv_os n = None" "os_exits demo_priv_os n p = False" "os_stat demo_priv_os n pid = None" "os_pid demo_priv_os n pids = Suc (sum_list pids)"
  "os_start demo_priv_os n = 7" "os_clock demo_priv_os n = 0" "os_exec demo_priv_os n = ExecOk" "os_ip demo_priv_os n = demo_ip" "os_pidfile demo_priv_os n f = f" "os_sha256 demo_priv_os t = t"
  by (simp_all add: demo_priv_os_def)

lemma demo_attempt [simp]: "wp (attempt demo_priv_os ls) Q = (\<lambda>h. Q None (h\<lparr>hs_now := hs_now h + length ls\<rparr>))"
  by (induction ls) simp_all

lemma demo_WriteFile [simp]: "timeless f \<Longrightarrow> wp (WriteFile demo_priv_os path f) Q = (\<lambda>h. Q None ((f h)\<lparr>hs_now := hs_now h + 8\<rparr>))"
  by (intro ext) (simp add: WriteFile_def SyncDir_def timelessD eval_nat_numeral del: attempt.simps)

lemma demo_save [simp]: "wp (saveOperation demo_priv_os r) Q = (\<lambda>h. Q None (h\<lparr>hs_now := hs_now h + 12, hs_opfiles := AList.update (pq_opID (jr_request r)) (Some r) (hs_opfiles h)\<rparr>))"
  by (intro ext) (simp add: saveOperation_def MkdirAll_def timeless_def add.commute del: attempt.simps)


lemma demo_ids [simp]: "ValidVMID ''1''" "ValidVMID ''2''" "ValidVMID ''3''" "ValidVMID ''a''" "ValidVMID ''b''"
  by code_simp+

lemma demo_put [simp]: "wp (ledger_put demo_priv_os v) Q = (\<lambda>h. Q None (h\<lparr>hs_now := hs_now h + 8, hs_ledger := AList.update (ve_vmID v) (Entry (v\<lparr>ve_startAttempted := False\<rparr>)) (hs_ledger h)\<rparr>))"
  by (intro ext) (simp add: ledger_put_def timeless_def)


definition demo_reqs :: "string \<Rightarrow> string \<Rightarrow> request" where
  "demo_reqs verb opID = \<lparr>pq_version = 1, pq_verb = verb, pq_opID = opID, pq_payload = Some demo_pay\<rparr>"

definition demo_entry :: vm_entry where
  "demo_entry = \<lparr>ve_startAttempted = False, ve_networkOpID = ''1'', ve_startOpID = [], ve_vmID = ''a'', ve_UID = 0,
        ve_GID = 0, ve_CID = 0, ve_PID = 0, ve_startTime = [], ve_bootID = [], ve_pidNamespace = [], ve_netCIDR = ''c'', ve_createdAt = 0\<rparr>"

definition demo_priv_leased :: privd_host where
  "demo_priv_leased = demo_priv_host\<lparr>hs_now := 45, hs_ledger := [(''a'', Entry demo_entry)], hs_netns := [NamespaceName ''a''],
      hs_opfiles := [(''1'', Some \<lparr>jr_request = demo_reqs ''allocate_network'' ''1'', jr_state = OpnSucceeded, jr_response = Some (okResp None)\<rparr>)],
      hs_ops := [(''1'', \<lparr>jr_request = demo_reqs ''allocate_network'' ''1'', jr_state = OpnSucceeded, jr_response = Some (okResp None)\<rparr>)]\<rparr>"

lemma demo_alloc: "wp (dispatch demo_priv_os demo_priv_cfg (demo_reqs ''allocate_network'' ''1'')) (\<lambda>a h. a = Mutation (okResp None) \<and> h = demo_priv_leased) demo_priv_host"
proof -
  have alloc: "wp (AllocateNetworkContext demo_priv_os ''a'') Q h = Q None (h\<lparr>hs_now := hs_now h + 9, hs_netns := [NamespaceName ''a'']\<rparr>)"
    if "hs_netns h = []" for h :: privd_host and Q
    using that by (simp add: AllocateNetworkContext_def netnsExists_def NetSetupCommands_def runCmd_def demo_ip_def Let_def eval_nat_numeral)
  have new: "hs_ops demo_priv_host = []" "\<not> hs_operr demo_priv_host" "hs_ledger demo_priv_host = []" "hs_netns demo_priv_host = []" "hs_opfiles demo_priv_host = []" "hs_now demo_priv_host = 0"
    by (simp_all add: demo_priv_host_def)
  show ?thesis
    by (simp add: new dispatch_def ProtoVersion_def dispatchMutation_def accept_mutation_def begin_mutation_def blocks_def execute_def demo_reqs_def del: attempt.simps)
      (simp add: new alloc handleAllocateNetwork_def demo_pay_def ledger_get_def subnetHolder_def ledger_all_def finish_mutation_def Let_def demo_priv_leased_def demo_reqs_def demo_entry_def
        final_state_def okResp_def del: attempt.simps)
qed

lemma demo_check: "start_check demo_priv_cfg demo_pay = None"
  by code_simp

lemma demo_leased [simp]: "hs_operr demo_priv_leased = False" "hs_ops demo_priv_leased = [(''1'', \<lparr>jr_request = demo_reqs ''allocate_network'' ''1'', jr_state = OpnSucceeded, jr_response = Some (okResp None)\<rparr>)]"
  "hs_ledger demo_priv_leased = [(''a'', Entry demo_entry)]" "hs_netns demo_priv_leased = [NamespaceName ''a'']" "hs_procs demo_priv_leased = []" "hs_jails demo_priv_leased = []"
  "hs_boot demo_priv_leased = ''01234567-89ab-cdef-0123-456789abcdef''" "hs_pidns demo_priv_leased = ''pid:[4026531836]''" "map_of (hs_stage demo_priv_leased) ''a'' = Some [(''vmlinux'', ''k'')]"
  by (simp_all add: demo_priv_leased_def demo_priv_host_def)

lemma demo_entry_ok: "entry_valid ''a'' demo_entry" "ve_PID demo_entry = 0" "ve_vmID demo_entry = ''a''"
  by (simp_all add: demo_entry_def entry_valid_def)

lemma demo_scan: "wp (ledger_all demo_priv_os) Q (demo_priv_leased\<lparr>hs_now := n, hs_opfiles := f, hs_ops := ops\<rparr>)
   = Q (Inr [demo_entry]) (demo_priv_leased\<lparr>hs_now := n + 2, hs_opfiles := f, hs_ops := ops\<rparr>)"
  by (simp add: ledger_all_def ledger_get_def demo_entry_ok)

lemma demo_holder: "wp (identityHolder demo_priv_os 100 3) Q (demo_priv_leased\<lparr>hs_now := n, hs_opfiles := f, hs_ops := ops\<rparr>)
   = Q (Inr ([], [])) (demo_priv_leased\<lparr>hs_now := n + 2, hs_opfiles := f, hs_ops := ops\<rparr>)"
  by (simp add: identityHolder_def demo_scan demo_entry_def)

lemma demo_wait [simp]: "wp (wait_sock demo_priv_os (Suc k)) Q = (\<lambda>h. Q None (h\<lparr>hs_now := Suc (hs_now h)\<rparr>))"
  by simp

definition demo_vmm :: vmm where
  "demo_vmm = \<lparr>pr_vm = ''a'', pr_pid = 1, pr_start = 7\<rparr>"

lemma demo_exec: "hs_procs h = [] \<Longrightarrow> map_of (hs_jails h) ''a'' = Some j \<Longrightarrow> ve_vmID e = ''a'' \<Longrightarrow>
   (\<And>e h' t. hs_procs h' = [demo_vmm] \<Longrightarrow> Q (e, Inr (1, t)) h') \<Longrightarrow> wp (start_exec demo_priv_os cfg e ''a'') Q h"
  by (simp add: start_exec_def run_jailer_def JailerArgv_def spawn_def in_jail_def numeral_eq_Suc del: attempt.simps)
    (simp add: read_identity_def readPidFileAt_def update_conv' pid_file_reads proc_stat_def reap_def vmm_stat_reads demo_vmm_def)

lemma demo_identity: "hs_boot h = ''01234567-89ab-cdef-0123-456789abcdef'' \<Longrightarrow> hs_pidns h = ''pid:[4026531836]'' \<Longrightarrow>
  wp (hostIdentity demo_priv_os) Q h = Q (Inr (''01234567-89ab-cdef-0123-456789abcdef'', ''pid:[4026531836]'')) (h\<lparr>hs_now := hs_now h + 2\<rparr>)"
proof -
  have a: "TrimSpace ''01234567-89ab-cdef-0123-456789abcdef'' = ''01234567-89ab-cdef-0123-456789abcdef''" "bootIDPattern ''01234567-89ab-cdef-0123-456789abcdef''" "pidNamespacePattern ''pid:[4026531836]''"
    by code_simp+
  assume "hs_boot h = ''01234567-89ab-cdef-0123-456789abcdef''" "hs_pidns h = ''pid:[4026531836]''"
  then show ?thesis by (simp add: hostIdentity_def a)
qed

lemma demo_jail: "map_of (hs_jails h) i = None \<Longrightarrow> (\<And>h'. hs_procs h' = hs_procs h \<Longrightarrow> (\<exists>j. map_of (hs_jails h') i = Some j \<and> jl_files j = []) \<Longrightarrow> Q None h') \<Longrightarrow> wp (jailRoot demo_priv_os i True) Q h"
  by (simp add: jailRoot_def new_jail_def in_jail_def update_conv')

lemma demo_context:
  assumes "hs_procs h = []" "map_of (hs_jails h) ''a'' = None" "ve_vmID e = ''a''" "hs_boot h = ''01234567-89ab-cdef-0123-456789abcdef''" "hs_pidns h = ''pid:[4026531836]''"
    "map_of (hs_stage h) ''a'' = Some [(''vmlinux'', ''k'')]" "\<And>e h' t. hs_procs h' = [demo_vmm] \<Longrightarrow> Q (e, Inr (1, t)) h'"
  shows "wp (StartVMContext demo_priv_os cfg e demo_pay) Q h"
  using assms
  by (simp add: StartVMContext_def demo_identity open_stage_def Let_def demo_pay_def verifyStagedFile_def ValidStagedName_def StagedFileNames_def, intro demo_jail)
    (auto simp: copyFromPinned_def ValidStagedName_def StagedFileNames_def in_jail_def update_conv' intro!: demo_exec)


lemma demo_pay_sel: "py_vmID demo_pay = ''a''" "py_UID demo_pay = 100" "py_CID demo_pay = 3"
  by (simp_all add: demo_pay_def)

lemma demo_started: "wp (dispatch demo_priv_os demo_priv_cfg (demo_reqs ''start_vm'' ''2'')) (\<lambda>_ h. hs_procs h = [demo_vmm]) demo_priv_leased"
proof -
  have "wp (start_backend demo_priv_os demo_priv_cfg (demo_entry\<lparr>ve_UID := 100, ve_GID := py_GID demo_pay, ve_CID := 3, ve_startOpID := ''2''\<rparr>) demo_pay)
      (\<lambda>resp. wp (finish_mutation demo_priv_os (demo_reqs ''start_vm'' ''2'') resp) (\<lambda>_ h. hs_procs h = [demo_vmm]))
      (demo_priv_leased\<lparr>hs_now := n, hs_opfiles := f, hs_ops := ops\<rparr>)" for n f ops
    unfolding start_backend_def wp_bind
    by (rule demo_context) (simp_all add: demo_entry_ok Let_def finish_mutation_def)
  then show ?thesis
    by (simp add: dispatch_def ProtoVersion_def dispatchMutation_def accept_mutation_def begin_mutation_def demo_reqs_def execute_def blocks_def del: attempt.simps)
      (simp add: handleStartVM_def demo_check demo_pay_sel ledger_get_def demo_entry_ok demo_holder)
qed

definition new_host :: "'m privd_host_scheme \<Rightarrow> bool" where
  "new_host h \<longleftrightarrow> hs_procs h = [] \<and> hs_netns h = [] \<and> hs_ledger h = [] \<and> hs_opfiles h = [] \<and> hs_ops h = [] \<and> \<not> hs_operr h"

lemma new_host_ok: "new_host h \<Longrightarrow> privd_ok [] None h"
  by (simp add: new_host_def privd_ok_def inventory_ok_def base_ok_def journal_ok_def live_ok_def live_def pids_ok_def fresh_def vm_ok_def)

definition demo_priv_started :: privd_host where
  "demo_priv_started = snd (run_state (dispatch demo_priv_os demo_priv_cfg (demo_reqs ''start_vm'' ''2'')) demo_priv_leased)"

lemma demo_run_privd: "privd_run demo_priv_os demo_priv_cfg [] None demo_priv_host [] None demo_priv_leased" "privd_run demo_priv_os demo_priv_cfg [] None demo_priv_host [] None demo_priv_started"
proof -
  show l: "privd_run demo_priv_os demo_priv_cfg [] None demo_priv_host [] None demo_priv_leased"
    using demo_alloc by (auto simp: wp_def split: prod.splits intro: run_request [OF run_init])
  show "privd_run demo_priv_os demo_priv_cfg [] None demo_priv_host [] None demo_priv_started"
    unfolding demo_priv_started_def by (rule run_request [OF l]) (rule surjective_pairing)
qed

lemma demo_alloc_answer: "run_state (dispatch demo_priv_os demo_priv_cfg (demo_reqs ''allocate_network'' ''1'')) demo_priv_host = (Mutation (okResp None), demo_priv_leased)"
  using demo_alloc by (simp add: wp_def split: prod.splits)

lemma demo_accepted: "\<exists>h. run_state (accept_mutation demo_priv_os (demo_reqs ''allocate_network'' ''1'')) demo_priv_host = (None, h)"
proof -
  have "wp (accept_mutation demo_priv_os (demo_reqs ''allocate_network'' ''1'')) (\<lambda>a _. a = None) demo_priv_host"
    by (simp add: accept_mutation_def demo_reqs_def demo_priv_host_def del: attempt.simps)
  then show ?thesis by (auto simp: wp_def split: prod.splits)
qed

lemma demo_sections:
  "\<exists>x h. privd_run demo_priv_os demo_priv_cfg [] None demo_priv_host [] (Some (demo_reqs ''allocate_network'' ''1'', x)) h
     \<and> run_state (finish_mutation demo_priv_os (demo_reqs ''allocate_network'' ''1'') x) h = (okResp None, demo_priv_leased)"
proof -
  let ?r = "demo_reqs ''allocate_network'' ''1''"
  obtain g where g: "run_state (accept_mutation demo_priv_os ?r) demo_priv_host = (None, g)" using demo_accepted by blast
  obtain x h where x: "run_state (begin_mutation demo_priv_os demo_priv_cfg ?r) g = (x, h)" by fastforce
  have "privd_run demo_priv_os demo_priv_cfg [] None demo_priv_host [?r] None g" using run_accept [OF run_init g] by simp
  from run_execute [OF this _ x] have "privd_run demo_priv_os demo_priv_cfg [] None demo_priv_host [] (Some (?r, x)) h" by simp
  moreover have "run_state (dispatchMutation demo_priv_os demo_priv_cfg ?r) demo_priv_host = (okResp None, demo_priv_leased)"
    using demo_alloc_answer by (auto simp: dispatch_def demo_reqs_def ProtoVersion_def split: prod.splits)
  then have "run_state (finish_mutation demo_priv_os ?r x) h = (okResp None, demo_priv_leased)"
    by (simp add: dispatchMutation_def g x)
  ultimately show ?thesis by blast
qed

lemma demo_priv_procs: "hs_procs demo_priv_started = [demo_vmm]"
  using demo_started by (simp add: demo_priv_started_def wp_def split: prod.splits)

lemma demo_priv_env: "kernel demo_priv_os" "pidfile_honest demo_priv_os" "ip_frame demo_priv_os" "new_host demo_priv_host"
proof -
  have "Suc (sum_list pids) \<notin> set pids" for pids :: "nat list"
    using member_le_sum_list [of "Suc (sum_list pids)" pids] by force
  then show "kernel demo_priv_os" by (simp add: kernel_def)
  show "pidfile_honest demo_priv_os" by (simp add: pidfile_honest_def)
  show "ip_frame demo_priv_os" by (auto simp: ip_frame_def adds_def demo_ip_def split: list.splits if_splits)
  show "new_host demo_priv_host" by (simp add: new_host_def demo_priv_host_def)
qed

definition demo_second :: request where
  "demo_second = (demo_reqs ''allocate_network'' ''3'')\<lparr>pq_payload := Some (demo_pay\<lparr>py_vmID := ''b'', py_CIDR := ''d''\<rparr>)\<rparr>"

lemma demo_subnet: "wp (subnetHolder demo_priv_os ''d'') Q (demo_priv_leased\<lparr>hs_now := n, hs_opfiles := f, hs_ops := ops\<rparr>)
   = Q (Inr []) (demo_priv_leased\<lparr>hs_now := n + 2, hs_opfiles := f, hs_ops := ops\<rparr>)"
  by (simp add: subnetHolder_def demo_scan demo_entry_def)

lemma demo_two: "wp (dispatch demo_priv_os demo_priv_cfg demo_second)
   (\<lambda>_ h. map_of (hs_ledger h) ''a'' = Some (Entry demo_entry) \<and> (\<exists>e. map_of (hs_ledger h) ''b'' = Some (Entry e))) demo_priv_leased"
proof -
  have "wp (AllocateNetworkContext demo_priv_os ''b'') Q (demo_priv_leased\<lparr>hs_now := n, hs_opfiles := f, hs_ops := ops\<rparr>)"
    if "\<And>m ns. Q None (demo_priv_leased\<lparr>hs_now := m, hs_opfiles := f, hs_ops := ops, hs_netns := ns\<rparr>)" for Q n f ops
    using that by (simp add: AllocateNetworkContext_def netnsExists_def NetSetupCommands_def runCmd_def demo_ip_def Let_def)
  then show ?thesis
    by (simp add: demo_second_def dispatch_def ProtoVersion_def dispatchMutation_def accept_mutation_def begin_mutation_def demo_reqs_def execute_def blocks_def del: attempt.simps)
      (simp add: handleAllocateNetwork_def demo_pay_def  ledger_get_def demo_subnet finish_mutation_def Let_def del: attempt.simps)
qed

section \<open>Properties\<close>



text \<open>
  C8: Once the outcome of a request has been published with a definite answer, every retry of the request gets
  the same answer and changes nothing, after any interleaving with other requests, restarts and reboots; while the
  journal is unavailable it is told that the outcome is unknown, and nothing is executed either.
\<close>

theorem retry_executes_nothing:
  assumes "kernel os" "pidfile_honest os" "ip_frame os" "new_host h0" "privd_run os cfg [] None h0 q (Some (req, x)) h"
    "run_state (finish_mutation os req x) h = (resp, h1)" "definite resp" "privd_run os cfg q None h1 q2 run2 h2"
  shows "run_state (accept_mutation os req) h2 =
    (Some (if hs_operr h2 then errResp ''outcome_unknown'' ''operation journal unavailable; preserve host ownership'' else resp), h2)"
proof -
  note inv = run_privd_ok [OF assms(1-3) new_host_ok [OF assms(4)]]
  have v: "ValidVMID (pq_opID req)" using inv [OF assms(5)] by (simp add: privd_ok_def live_ok_def live_def)
  from wp_run [OF finish_mutation_answer assms(6)] assms(7)
  obtain r where r: "kept (pq_opID req) r h1" "answered req resp r" by auto
  show ?thesis by (rule retry_replays [OF receipt.run_stable [OF assms(1-3) inv [OF run_publish [OF assms(5,6)]] r(1) assms(8)] r(2) v])
qed

theorem retry_executes_nothing_witness:
  "hs_operr demo_priv_leased = False \<and> run_state (accept_mutation demo_priv_os (demo_reqs ''allocate_network'' ''1'')) demo_priv_leased
     = (Some (okResp None), demo_priv_leased)"
proof -
  obtain x h where "privd_run demo_priv_os demo_priv_cfg [] None demo_priv_host [] (Some (demo_reqs ''allocate_network'' ''1'', x)) h"
    "run_state (finish_mutation demo_priv_os (demo_reqs ''allocate_network'' ''1'') x) h = (okResp None, demo_priv_leased)"
    using demo_sections by blast
  from retry_executes_nothing [OF demo_priv_env this _ run_init] show ?thesis by (simp add: definite_def okResp_def)
qed

text \<open>
  C4: An operation id is accepted at most once: after a request has been accepted, a request under its id is
  answered from the journal and changes nothing, whatever became of the first one, however the requests interleave
  and however often the daemon restarts and the host reboots. So no mutation is executed twice.
\<close>

theorem accepted_once:
  assumes "kernel os" "pidfile_honest os" "ip_frame os" "new_host h0" "privd_run os cfg [] None h0 q run h"
    "run_state (accept_mutation os req) h = (None, h1)" "privd_run os cfg (req # q) run h1 q2 run2 h2" "pq_opID req2 = pq_opID req"
  shows "\<exists>resp. run_state (accept_mutation os req2) h2 = (Some resp, h2)"
proof -
  have "privd_ok (req # q) run h1"
    using run_privd_ok [OF assms(1-3) new_host_ok [OF assms(4)] run_accept [OF assms(5,6)]] by simp
  moreover have "recorded (pq_opID req) h1" using wp_run [OF accept_mutation_recorded assms(6)] by simp
  ultimately have "recorded (pq_opID req) h2" by (rule journalled.run_stable [OF assms(1-3) _ _ assms(7)])
  then show ?thesis by (rule recorded_refused) (rule assms(8))
qed

theorem accepted_once_witness:
  "\<exists>h1. run_state (accept_mutation demo_priv_os (demo_reqs ''allocate_network'' ''1'')) demo_priv_host = (None, h1)
    \<and> (\<exists>resp. run_state (accept_mutation demo_priv_os (demo_reqs ''start_vm'' ''1'')) h1 = (Some resp, h1))"
proof -
  obtain h1 where h1: "run_state (accept_mutation demo_priv_os (demo_reqs ''allocate_network'' ''1'')) demo_priv_host = (None, h1)"
    using demo_accepted by blast
  with accepted_once [OF demo_priv_env run_init h1 run_init, of "demo_reqs ''start_vm'' ''1''"] show ?thesis by (simp add: demo_reqs_def)
qed

text \<open>
  C9: At every moment the claims in the ledger are disjoint: no two VMs hold the same subnet, and no two started
  VMs the same jail uid or the same guest CID.
\<close>

theorem claims_are_disjoint:
  assumes "kernel os" "pidfile_honest os" "ip_frame os" "new_host h0" "privd_run os cfg [] None h0 q run h" "i \<noteq> j" "ValidVMID i" "ValidVMID j"
    "map_of (hs_ledger h) i = Some (Entry e)" "map_of (hs_ledger h) j = Some (Entry f)"
  shows "apart e f"
proof -
  have "fresh h i" using run_privd_ok [OF assms(1-3) new_host_ok [OF assms(4)] assms(5)] by (simp add: privd_ok_def inventory_ok_def base_ok_def)
  then show ?thesis using assms(6-) unfolding fresh_def by metis
qed

theorem claims_are_disjoint_witness:
  "\<exists>h e. privd_run demo_priv_os demo_priv_cfg [] None demo_priv_host [] None h \<and> map_of (hs_ledger h) ''a'' = Some (Entry demo_entry)
     \<and> map_of (hs_ledger h) ''b'' = Some (Entry e) \<and> apart demo_entry e"
proof -
  let ?h = "snd (run_state (dispatch demo_priv_os demo_priv_cfg demo_second) demo_priv_leased)"
  have run: "privd_run demo_priv_os demo_priv_cfg [] None demo_priv_host [] None ?h" by (rule run_request [OF demo_run_privd(1)]) (rule surjective_pairing)
  obtain e where e: "map_of (hs_ledger ?h) ''a'' = Some (Entry demo_entry)" "map_of (hs_ledger ?h) ''b'' = Some (Entry e)"
    using demo_two by (auto simp: wp_def split: prod.splits)
  have "apart demo_entry e"
    by (rule claims_are_disjoint [OF demo_priv_env run _ _ _ e]) (simp_all add: )
  with run e show ?thesis by blast
qed

section \<open>A start that fails before its jail exists\<close>

text \<open>
  The rollback of such a start never succeeds on a host whose jail base can be opened: the missing jail is reported by
  a \<open>BackendError\<close>, which \<open>errors.Is(err, os.ErrNotExist)\<close> does not see through. So the outcome of the
  start is unknown, and the record blocks every later allocation and start on the host.
\<close>

lemma abort_without_jail:
  assumes "\<not> ve_startAttempted e" "map_of (hs_jails h) (ve_vmID e) = None" "os_fail os (hs_now h) \<noteq> Some ErrNotExist"
  shows "wp (AbortStartVM os e) (\<lambda>r _. r \<noteq> None) h"
  using assms by (simp add: AbortStartVM_def killJailedVMM_def jailRoot_def split: option.splits)

lemma unknown_blocks_host:
  assumes "\<not> hs_operr h" "map_of (hs_ops h) k = Some r" "jr_state r = OpnUnknown" "mutation req" "pq_verb req \<in> {''allocate_network'', ''start_vm''}"
    "map_of (hs_ops h) (pq_opID req) = None"
  shows "\<exists>m. run_state (dispatch os cfg req) h = (Mutation (errResp ''outcome_unknown'' m), h)"
proof -
  have "blocks req (snd (k, r))" "(k, r) \<in> set (hs_ops h)" using map_of_SomeD [OF assms(2)] assms(3,5) by (auto simp: blocks_def)
  then have "find (\<lambda>p. blocks req (snd p)) (hs_ops h) \<noteq> None" unfolding find_None_iff by blast
  with assms show ?thesis by (auto simp: dispatch_def mutation_def dispatchMutation_def accept_mutation_def)
qed

end
