(* ===== verification/Network_Alloc.thy ===== *)
theory Network_Alloc
  imports Privd_Backend
begin

text \<open>
  The allocator of transit subnets (\<open>src/internal/network/alloc.go\<close>), with what it uses of Go's
  \<open>net/netip\<close>: IPv4 addresses are 32-bit words whose arithmetic wraps, a prefix is an address and a length. The loop
  over the subnets of a pool is a function into \<open>option\<close>, so that a loop that does not end is a value, \<open>None\<close>, and
  its end is a theorem. An IPv4-mapped IPv6 address is an IPv6 address here, as it is for \<open>Is4\<close>.
\<close>

unbundle bit_operations_syntax

section \<open>Addresses and prefixes\<close>

datatype ip_addr = V4 u32 | V6 "128 word"

record ip_prefix =
  px_addr :: ip_addr
  px_bits :: nat

definition Is4 :: "ip_addr \<Rightarrow> bool" where
  "Is4 a = (case a of V4 _ \<Rightarrow> True | V6 _ \<Rightarrow> False)"

text \<open>\<open>Prefix.Contains\<close>: the same family, and no difference in the leading bits. An invalid prefix contains nothing.\<close>

definition Contains :: "ip_prefix \<Rightarrow> ip_addr \<Rightarrow> bool" where
  "Contains p ip = (case (px_addr p, ip) of
      (V4 a, V4 b) \<Rightarrow> px_bits p \<le> 32 \<and> drop_bit (32 - px_bits p) (a XOR b) = 0
    | (V6 a, V6 b) \<Rightarrow> px_bits p \<le> 128 \<and> drop_bit (128 - px_bits p) (a XOR b) = 0
    | _ \<Rightarrow> False)"

definition Masked :: "ip_prefix \<Rightarrow> ip_prefix" where
  "Masked p = p\<lparr>px_addr := (case px_addr p of
      V4 a \<Rightarrow> V4 (push_bit (32 - px_bits p) (drop_bit (32 - px_bits p) a))
    | V6 a \<Rightarrow> V6 (push_bit (128 - px_bits p) (drop_bit (128 - px_bits p) a)))\<rparr>"

definition prefixesOverlap :: "ip_prefix \<Rightarrow> ip_prefix \<Rightarrow> bool" where
  "prefixesOverlap a b \<longleftrightarrow> Contains a (px_addr b) \<or> Contains b (px_addr a)"

text \<open>Both take the four bytes of an IPv4 address.\<close>

definition lastAddr :: "u32 \<Rightarrow> nat \<Rightarrow> u32" where
  "lastAddr n ones = n OR (push_bit (32 - ones) 1 - 1)"

definition addUint32 :: "u32 \<Rightarrow> u32 \<Rightarrow> u32 \<times> bool" where
  "addUint32 n delta = (let s = n + delta in (s, s < n))"

section \<open>The allocator\<close>

record route =
  ro_dst :: ip_prefix
  ro_dev :: string
  ro_gateway :: string

text \<open>An exclusion names the pool and the route it overlaps.\<close>

record allocator =
  al_pools :: "ip_prefix list"
  al_exclusions :: "(ip_prefix \<times> ip_prefix) list"
  al_leases :: "string \<rightharpoonup> ip_prefix"
  al_occupied :: "ip_prefix \<rightharpoonup> string"

datatype alloc_error = NotPlainIPv4 ip_prefix | AllPoolsOverlap | OwnerRequired | PoolExhausted
  | InvalidLease string ip_prefix | BelongsTo ip_prefix string string | AlreadyHolds string ip_prefix ip_prefix

text \<open>The leases in the order in which the range over the map yields them.\<close>

definition ExcludeOwnedRoutes :: "os \<Rightarrow> route list \<Rightarrow> (string \<times> ip_prefix) list \<Rightarrow> route list" where
  "ExcludeOwnedRoutes os routes leases =
     (let owned = fold (\<lambda>(vmID, p) m. m(VethName os vmID \<mapsto> p)) leases Map.empty
      in filter (\<lambda>r. \<not> (owned (ro_dev r) = Some (ro_dst r) \<and> ro_gateway r = [])) routes)"

definition overlapping :: "route list \<Rightarrow> ip_prefix \<Rightarrow> route option" where
  "overlapping hostRoutes pool = find (\<lambda>r. px_bits (ro_dst r) \<noteq> 0 \<and> prefixesOverlap pool (ro_dst r)) hostRoutes"

definition NewAllocator :: "route list \<Rightarrow> ip_prefix list \<Rightarrow> allocator option \<times> alloc_error option" where
  "NewAllocator hostRoutes pools = (case find (\<lambda>pool. \<not> Is4 (px_addr pool)) pools of
      Some pool \<Rightarrow> (None, Some (NotPlainIPv4 pool))
    | None \<Rightarrow>
        let usable = filter (\<lambda>pool. overlapping hostRoutes pool = None) pools;
            excluded = List.map_filter (\<lambda>pool. map_option (\<lambda>r. (pool, ro_dst r)) (overlapping hostRoutes pool)) pools
        in (Some \<lparr>al_pools = usable, al_exclusions = excluded, al_leases = Map.empty, al_occupied = Map.empty\<rparr>,
            if usable = [] then Some AllPoolsOverlap else None))"

text \<open>The first free /30 of a pool from an address on; the inner \<open>None\<close> says that there is none.\<close>

partial_function (option) scan_pool :: "ip_prefix \<Rightarrow> (ip_prefix \<rightharpoonup> string) \<Rightarrow> u32 \<Rightarrow> ip_prefix option option" where
  "scan_pool pool occupied addr =
     (let p = \<lparr>px_addr = V4 addr, px_bits = 30\<rparr> in
      if \<not> Contains pool (V4 addr) \<or> \<not> Contains pool (V4 (lastAddr addr 30)) then Some None
      else if occupied p = None then Some (Some p)
      else let (nxt, overflow) = addUint32 addr 4 in
        if overflow then Some None else scan_pool pool occupied nxt)"

text \<open>\<open>NewAllocator\<close> lets no other than IPv4 pools through.\<close>

fun scan_pools :: "ip_prefix list \<Rightarrow> (ip_prefix \<rightharpoonup> string) \<Rightarrow> ip_prefix option option" where
  "scan_pools [] occupied = Some None"
| "scan_pools (pool # pools) occupied = (case px_addr (Masked pool) of
      V6 _ \<Rightarrow> scan_pools pools occupied
    | V4 addr \<Rightarrow> (case scan_pool pool occupied addr of
          None \<Rightarrow> None
        | Some (Some p) \<Rightarrow> Some (Some p)
        | Some None \<Rightarrow> scan_pools pools occupied))"

definition Acquire :: "string \<Rightarrow> allocator \<Rightarrow> (allocator \<times> (alloc_error + ip_prefix)) option" where
  "Acquire vmID a =
     (if vmID = [] then Some (a, Inl OwnerRequired)
      else case al_leases a vmID of
        Some p \<Rightarrow> Some (a, Inr p)
      | None \<Rightarrow> (case scan_pools (al_pools a) (al_occupied a) of
            None \<Rightarrow> None
          | Some None \<Rightarrow> Some (a, Inl PoolExhausted)
          | Some (Some p) \<Rightarrow> Some (a\<lparr>al_leases := (al_leases a)(vmID \<mapsto> p), al_occupied := (al_occupied a)(p \<mapsto> vmID)\<rparr>, Inr p)))"

definition Restore :: "string \<Rightarrow> ip_prefix \<Rightarrow> allocator \<Rightarrow> allocator \<times> alloc_error option" where
  "Restore vmID p a =
     (if vmID = [] \<or> \<not> Is4 (px_addr p) \<or> px_bits p \<noteq> 30 \<or> p \<noteq> Masked p then (a, Some (InvalidLease vmID p))
      else if al_occupied a p \<notin> {None, Some vmID} then (a, Some (BelongsTo p (the (al_occupied a p)) vmID))
      else if al_leases a vmID \<notin> {None, Some p} then (a, Some (AlreadyHolds vmID (the (al_leases a vmID)) p))
      else (a\<lparr>al_leases := (al_leases a)(vmID \<mapsto> p), al_occupied := (al_occupied a)(p \<mapsto> vmID)\<rparr>, None))"

definition Release :: "string \<Rightarrow> allocator \<Rightarrow> allocator" where
  "Release vmID a = (case al_leases a vmID of
      Some p \<Rightarrow> a\<lparr>al_occupied := (al_occupied a)(p := None), al_leases := (al_leases a)(vmID := None)\<rparr>
    | None \<Rightarrow> a)"

section \<open>Prefixes as sets of addresses\<close>

text \<open>Two addresses agree above bit \<open>k\<close>; agreement is an equivalence and gets coarser as \<open>k\<close> grows.\<close>

lemma xor_zero_iff: "a XOR b = 0 \<longleftrightarrow> a = (b :: 'a::len word)"
  by (simp add: bit_eq_iff bit_simps)

lemma agree_coarser: "drop_bit k a = drop_bit k b \<Longrightarrow> k \<le> l \<Longrightarrow> drop_bit l a = drop_bit l (b :: 'a::len word)"
  using drop_bit_drop_bit [of "l - k" k a] drop_bit_drop_bit [of "l - k" k b] by simp

lemma Contains_V4 [simp]: "Contains \<lparr>px_addr = V4 a, px_bits = k\<rparr> (V4 b) \<longleftrightarrow> k \<le> 32 \<and> drop_bit (32 - k) a = drop_bit (32 - k) b"
  by (simp add: Contains_def xor_zero_iff)

lemma Contains_cases: "Contains p ip \<Longrightarrow> (\<exists>a b. px_addr p = V4 a \<and> ip = V4 b) \<or> (\<exists>a b. px_addr p = V6 a \<and> ip = V6 b)"
  by (auto simp: Contains_def split: ip_addr.splits)

text \<open>Prefixes that share an address overlap, whichever of them is the wider one.\<close>

lemma agree_shared:
  assumes "drop_bit (w - k) a = drop_bit (w - k) x" "drop_bit (w - l) b = drop_bit (w - l) (x :: 'a::len word)"
  shows "drop_bit (w - k) a = drop_bit (w - k) b \<or> drop_bit (w - l) b = drop_bit (w - l) a"
proof (cases "k \<le> l")
  case True
  then show ?thesis using assms(1) agree_coarser [OF assms(2), of "w - k"] by simp
next
  case False
  then show ?thesis using assms(2) agree_coarser [OF assms(1), of "w - l"] by simp
qed

lemma shared_overlap:
  assumes "Contains p ip" "Contains q ip"
  shows "prefixesOverlap p q"
proof (cases ip)
  case (V4 x)
  then obtain a b where ab: "px_addr p = V4 a" "px_addr q = V4 b" using assms Contains_cases by blast
  then show ?thesis
    using assms V4 agree_shared [of 32 "px_bits p" a x "px_bits q" b] by (auto simp: prefixesOverlap_def Contains_def xor_zero_iff)
next
  case (V6 x)
  then obtain a b where ab: "px_addr p = V6 a" "px_addr q = V6 b" using assms Contains_cases by blast
  then show ?thesis
    using assms V6 agree_shared [of 128 "px_bits p" a x "px_bits q" b] by (auto simp: prefixesOverlap_def Contains_def xor_zero_iff)
qed

text \<open>The subnets handed out: IPv4, of length 30, on their own boundary.\<close>

definition slash30 :: "ip_prefix \<Rightarrow> bool" where
  "slash30 p \<longleftrightarrow> (\<exists>n. p = \<lparr>px_addr = V4 n, px_bits = 30\<rparr> \<and> push_bit 2 (drop_bit 2 n) = n)"

lemma slash30_disjoint:
  assumes "slash30 p" "slash30 q" "Contains p ip" "Contains q ip"
  shows "p = q"
proof -
  obtain m n where mn: "p = \<lparr>px_addr = V4 m, px_bits = 30\<rparr>" "push_bit 2 (drop_bit 2 m) = m" "q = \<lparr>px_addr = V4 n, px_bits = 30\<rparr>" "push_bit 2 (drop_bit 2 n) = n"
    using assms(1,2) by (auto simp: slash30_def)
  obtain x where "ip = V4 x" using Contains_cases [OF assms(3)] mn(1) by auto
  then have "drop_bit 2 m = drop_bit 2 n" using assms(3,4) mn by simp
  then have "m = n" using mn(2,4) by metis
  then show ?thesis using mn by simp
qed

section \<open>The loop over a pool\<close>

text \<open>A pool as \<open>NewAllocator\<close> takes it, not longer than the subnets cut from it.\<close>

definition wide :: "ip_prefix \<Rightarrow> bool" where
  "wide pool \<longleftrightarrow> Is4 (px_addr pool) \<and> px_bits pool \<le> 30"

text \<open>The loop ends because the address grows until it leaves the pool or wraps, and wrapping ends it.\<close>

lemma next_closer:
  assumes "\<not> addr + 4 < (addr :: u32)"
  shows "2 ^ 32 - unat (addr + 4) < 2 ^ 32 - unat addr"
proof -
  have "unat addr \<le> unat (addr + 4)" using assms by (simp add: word_le_nat_alt not_less)
  moreover have "addr + 4 \<noteq> addr" by simp
  then have "unat addr \<noteq> unat (addr + 4)" by (metis word_unat_eq_iff)
  moreover have "unat (addr + 4) < 2 ^ LENGTH(32)" by (rule unsigned_less)
  ultimately show ?thesis by simp
qed

lemma scan_pool_returns: "\<exists>r. scan_pool pool occupied addr = Some r"
proof (induction "2 ^ 32 - unat addr" arbitrary: addr rule: less_induct)
  case less
  show ?case
  proof (cases "addr + 4 < addr")
    case True
    then show ?thesis by (subst scan_pool.simps) (simp add: addUint32_def Let_def)
  next
    case False
    from less [OF next_closer [OF this]] show ?thesis by (subst scan_pool.simps) (simp add: addUint32_def Let_def)
  qed
qed

lemma scan_pool_is_Some [simp]: "scan_pool pool occupied addr \<noteq> None"
  using scan_pool_returns [of pool occupied addr] by auto

lemma scan_pools_returns: "\<exists>r. scan_pools pools occupied = Some r"
proof (induction pools)
  case (Cons pool pools)
  then show ?case by (auto simp: scan_pool_is_Some split: ip_addr.split option.split)
qed simp

section \<open>What the loop finds\<close>

text \<open>The subnets of a pool, in the order of their addresses.\<close>

definition subnets :: "ip_prefix \<Rightarrow> ip_prefix list" where
  "subnets pool = (case px_addr (Masked pool) of
      V4 base \<Rightarrow> map (\<lambda>j. \<lparr>px_addr = V4 (base + of_nat (4 * j)), px_bits = 30\<rparr>) [0..<2 ^ (30 - px_bits pool)]
    | V6 _ \<Rightarrow> [])"

lemma lastAddr_agrees: "2 \<le> k \<Longrightarrow> drop_bit k (lastAddr n 30) = drop_bit k n"
  by (rule agree_coarser [of 2]) (simp_all add: lastAddr_def)

lemma drop_bit_of_nat: "m < 2 ^ 32 \<Longrightarrow> drop_bit k (a :: u32) = drop_bit k (of_nat m) \<longleftrightarrow> unat a div 2 ^ k = m div 2 ^ k"
  unfolding word_unat_eq_iff unat_drop_bit_eq by (simp add: drop_bit_eq_div unat_of_nat)

lemma drop_bit_word: "drop_bit k (a :: u32) = of_nat (unat a div 2 ^ k)"
proof -
  have "drop_bit k a = of_nat (unat (drop_bit k a))" by simp
  also have "\<dots> = of_nat (unat a div 2 ^ k)" unfolding unat_drop_bit_eq by (simp add: drop_bit_eq_div)
  finally show ?thesis .
qed

lemma Contains_of_nat:
  "px_addr pool = V4 a \<Longrightarrow> px_bits pool \<le> 32 \<Longrightarrow> m < 2 ^ 32 \<Longrightarrow>
    Contains pool (V4 (of_nat m)) \<longleftrightarrow> unat a div 2 ^ (32 - px_bits pool) = m div 2 ^ (32 - px_bits pool)"
  by (simp add: Contains_def xor_zero_iff drop_bit_of_nat)

lemma find_append: "find P (xs @ ys) = (case find P xs of Some x \<Rightarrow> Some x | None \<Rightarrow> find P ys)"
  by (induction xs) simp_all

lemma scan_pool_step:
  assumes "wide pool" "Contains pool (V4 addr)"
  shows "scan_pool pool occupied addr = (let p = \<lparr>px_addr = V4 addr, px_bits = 30\<rparr> in
    if occupied p = None then Some (Some p) else if addr + 4 < addr then Some None else scan_pool pool occupied (addr + 4))"
proof -
  obtain a where a: "px_addr pool = V4 a" using assms(1) by (auto simp: wide_def Is4_def split: ip_addr.splits)
  have "2 \<le> 32 - px_bits pool" using assms(1) unfolding wide_def by linarith
  from lastAddr_agrees [OF this] a have "Contains pool (V4 (lastAddr addr 30))"
    using assms(2) by (simp add: Contains_def xor_zero_iff)
  with assms(2) show ?thesis by (subst scan_pool.simps) (simp add: addUint32_def Let_def)
qed

lemma scan_pool_outside: "\<not> Contains pool (V4 addr) \<Longrightarrow> scan_pool pool occupied addr = Some None"
  by (subst scan_pool.simps) (simp add: Let_def)

lemma scan_pool_finds:
  assumes "wide pool" "px_addr pool = V4 a" "k = 32 - px_bits pool" "d = unat a div 2 ^ k"
    "4 dvd m" "d * 2 ^ k \<le> m" "m \<le> Suc d * 2 ^ k" "m < 2 ^ 32"
  shows "scan_pool pool occupied (of_nat m) = Some (find (\<lambda>p. occupied p = None)
     (map (\<lambda>j. \<lparr>px_addr = V4 (of_nat (m + 4 * j)), px_bits = 30\<rparr>) [0..<(Suc d * 2 ^ k - m) div 4]))"
  using assms(5-8)
proof (induction "Suc d * 2 ^ k - m" arbitrary: m rule: less_induct)
  case less
  let ?hi = "Suc d * 2 ^ k"
  have b: "px_bits pool \<le> 32" "2 \<le> k" using assms(1,3) by (auto simp: wide_def)
  have hi4: "4 dvd ?hi" using le_imp_power_dvd [OF b(2), of "2 :: nat"] by (simp add: dvd_mult)
  have "unat a < 2 ^ LENGTH(32)" by (rule unsigned_less)
  then have ad: "unat a < 2 ^ 32" by simp
  show ?case
  proof (cases "m = ?hi")
    case True
    then have "m div 2 ^ k = Suc d" by simp
    then have "\<not> Contains pool (V4 (of_nat m))" using less.prems assms(2-4) b by (simp add: Contains_of_nat)
    then show ?thesis using True by (simp add: scan_pool_outside)
  next
    case False
    then have m4: "m + 4 \<le> ?hi" using less.prems hi4 by presburger
    have "m div 2 ^ k = d" using less.prems False by (intro div_nat_eqI) (simp_all add: mult.commute)
    then have c: "Contains pool (V4 (of_nat m))" using less.prems assms(2-4) b by (simp add: Contains_of_nat)
    define n where "n = (?hi - (m + 4)) div 4"
    have "(?hi - m) div 4 = Suc n" using m4 unfolding n_def by (simp add: div_if)
    then have l: "map f [0..<(?hi - m) div 4] = f 0 # map (\<lambda>j. f (Suc j)) [0..<n]" for f :: "nat \<Rightarrow> ip_prefix"
      by (simp add: map_upt_Suc del: upt_Suc)
    have "d < 2 ^ (32 - k)" using ad assms(3,4) by (simp add: div_less_iff_less_mult flip: power_add)
    then have "Suc d * 2 ^ k \<le> 2 ^ (32 - k) * 2 ^ k" by (intro mult_le_mono1) simp
    then have top: "?hi \<le> 2 ^ 32" using assms(3) by (simp flip: power_add)
    have nxt: "of_nat m + 4 = (of_nat (m + 4) :: u32)" by simp
    show ?thesis
    proof (cases "m + 4 = 2 ^ 32")
      case True
      then have "of_nat (m + 4) = (0 :: u32)" by simp
      moreover have "n = 0" using True top by (simp add: n_def)
      moreover have "(0 :: u32) < of_nat m" using True by (simp add: word_less_nat_alt unat_of_nat)
      ultimately show ?thesis unfolding scan_pool_step [OF assms(1) c] l nxt by (simp add: Let_def)
    next
      case False
      then have "unat (of_nat (m + 4) :: u32) = m + 4" "unat (of_nat m :: u32) = m"
        using m4 top by (simp_all add: unat_of_nat del: of_nat_add)
      then have "\<not> of_nat (m + 4) < (of_nat m :: u32)" by (simp add: word_less_nat_alt del: of_nat_add)
      moreover have "scan_pool pool occupied (of_nat (m + 4)) = Some (find (\<lambda>p. occupied p = None)
          (map (\<lambda>j. \<lparr>px_addr = V4 (of_nat (m + 4 + 4 * j)), px_bits = 30\<rparr>) [0..<(?hi - (m + 4)) div 4]))"
        by (rule less.hyps) (use less.prems m4 top False in auto)
      ultimately show ?thesis
        unfolding scan_pool_step [OF assms(1) c] l nxt n_def by (simp add: Let_def add.assoc del: of_nat_add)
    qed
  qed
qed

lemma scan_pool_subnets:
  assumes "wide pool" "px_addr (Masked pool) = V4 base"
  shows "scan_pool pool occupied base = Some (find (\<lambda>p. occupied p = None) (subnets pool))"
proof -
  obtain a where a: "px_addr pool = V4 a" using assms(1) by (auto simp: wide_def Is4_def split: ip_addr.splits)
  define k where "k = 32 - px_bits pool"
  define d where "d = unat a div 2 ^ k"
  have k: "2 \<le> k" "px_bits pool = 32 - k" "k \<le> 32" using assms(1) by (auto simp: wide_def k_def)
  have base: "base = of_nat (d * 2 ^ k)"
    using assms(2) a by (simp add: Masked_def k_def d_def push_bit_eq_mult drop_bit_word)
  have "unat a < 2 ^ LENGTH(32)" by (rule unsigned_less)
  then have m: "d * 2 ^ k < 2 ^ 32" using le_less_trans [OF div_times_less_eq_dividend [of "unat a" "2 ^ k"]] unfolding d_def by simp
  have "4 dvd d * 2 ^ k" using le_imp_power_dvd [OF k(1), of "2 :: nat"] by (simp add: dvd_mult)
  from scan_pool_finds [OF assms(1) a k_def d_def this _ _ m]
  have "scan_pool pool occupied base = Some (find (\<lambda>p. occupied p = None)
     (map (\<lambda>j. \<lparr>px_addr = V4 (of_nat (d * 2 ^ k + 4 * j)), px_bits = 30\<rparr>) [0..<2 ^ k div 4]))"
    by (simp add: base)
  moreover have "2 ^ k div 4 = (2 ^ (k - 2) :: nat)" using k(1) power_diff [of "2 :: nat" 2 k] by simp
  ultimately show ?thesis unfolding subnets_def assms(2) using base k by simp
qed

lemma scan_pools_subnets:
  "list_all wide pools \<Longrightarrow> scan_pools pools occupied = Some (find (\<lambda>p. occupied p = None) (concat (map subnets pools)))"
proof (induction pools)
  case (Cons pool pools)
  then obtain base where b: "px_addr (Masked pool) = V4 base" by (auto simp: wide_def Is4_def Masked_def split: ip_addr.splits)
  then show ?case using Cons scan_pool_subnets [of pool base occupied] by (simp add: find_append split: option.split)
qed simp

lemma aligned_iff: "push_bit 2 (drop_bit 2 n) = n \<longleftrightarrow> take_bit 2 n = (0 :: u32)"
  using bits_ident [of 2 n] by (metis add.right_neutral add_left_cancel)

lemma aligned_dvd: "take_bit 2 n = (0 :: u32) \<longleftrightarrow> 4 dvd unat n"
  unfolding word_unat_eq_iff unsigned_take_bit_eq by (simp add: take_bit_eq_mod dvd_eq_mod_eq_0)

lemma no_wrap: "\<not> a + b < (a :: u32) \<Longrightarrow> unat (a + b) = unat a + unat b"
proof -
  have "unat b < 2 ^ LENGTH(32)" by (rule unsigned_less)
  then show "\<not> a + b < a \<Longrightarrow> unat (a + b) = unat a + unat b"
    by (simp add: unat_plus_if' word_less_nat_alt split: if_splits)
qed

lemma slash30_Masked: "Is4 (px_addr p) \<Longrightarrow> px_bits p = 30 \<Longrightarrow> p = Masked p \<Longrightarrow> slash30 p"
  by (cases p) (auto simp: slash30_def Is4_def Masked_def split: ip_addr.splits)

lemma scan_pool_sound:
  assumes "wide pool"
  shows "take_bit 2 addr = 0 \<Longrightarrow> scan_pool pool occupied addr = Some (Some p) \<Longrightarrow>
    slash30 p \<and> Contains pool (px_addr p) \<and> occupied p = None"
proof (induction "2 ^ 32 - unat addr" arbitrary: addr rule: less_induct)
  case less
  then have c: "Contains pool (V4 addr)" using scan_pool_outside by force
  note step = less.prems(2) [unfolded scan_pool_step [OF assms c] Let_def]
  show ?case
  proof (cases "occupied \<lparr>px_addr = V4 addr, px_bits = 30\<rparr> = None")
    case True
    with step c less.prems(1) show ?thesis by (auto simp: slash30_def aligned_iff)
  next
    case False
    with step have n: "\<not> addr + 4 < addr" "scan_pool pool occupied (addr + 4) = Some (Some p)" by (auto split: if_splits)
    then have "unat (addr + 4) = unat addr + unat (4 :: u32)" using no_wrap [of addr 4] by simp
    then have "take_bit 2 (addr + 4) = 0" using less.prems(1) by (simp add: aligned_dvd)
    from less.hyps [OF next_closer [OF n(1)] this n(2)] show ?thesis .
  qed
qed

lemma scan_pools_sound:
  "list_all wide pools \<Longrightarrow> scan_pools pools occupied = Some (Some p) \<Longrightarrow> slash30 p \<and> occupied p = None \<and> (\<exists>pool \<in> set pools. Contains pool (px_addr p))"
proof (induction pools)
  case (Cons pool pools)
  then obtain a where a: "px_addr pool = V4 a" by (auto simp: wide_def Is4_def split: ip_addr.splits)
  have k: "2 \<le> 32 - px_bits pool" using Cons.prems(1) by (auto simp: wide_def)
  define base where "base = push_bit (32 - px_bits pool) (drop_bit (32 - px_bits pool) a)"
  have "take_bit 2 base = 0" using k by (simp add: base_def take_bit_push_bit)
  moreover have "px_addr (Masked pool) = V4 base" by (simp add: Masked_def a base_def)
  ultimately show ?case
    using Cons scan_pool_sound [of pool base occupied p] by (auto split: option.splits)
qed simp

section \<open>Histories of an allocator\<close>

text \<open>The two maps are each other's inverse, and every lease is a subnet.\<close>

definition alloc_ok :: "allocator \<Rightarrow> bool" where
  "alloc_ok a \<longleftrightarrow> (\<forall>i p. al_leases a i = Some p \<longleftrightarrow> al_occupied a p = Some i) \<and> (\<forall>i p. al_leases a i = Some p \<longrightarrow> slash30 p)"

inductive alloc_run :: "allocator \<Rightarrow> allocator \<Rightarrow> bool" for a0 where
  alloc_init: "alloc_run a0 a0"
| alloc_acquire: "alloc_run a0 a \<Longrightarrow> Acquire vmID a = Some (a', r) \<Longrightarrow> alloc_run a0 a'"
| alloc_restore: "alloc_run a0 a \<Longrightarrow> Restore vmID p a = (a', e) \<Longrightarrow> alloc_run a0 a'"
| alloc_release: "alloc_run a0 a \<Longrightarrow> alloc_run a0 (Release vmID a)"

lemma grant_ok:
  assumes "alloc_ok a" "slash30 p" "al_occupied a p \<in> {None, Some vmID}" "al_leases a vmID \<in> {None, Some p}"
  shows "alloc_ok (a\<lparr>al_leases := (al_leases a)(vmID \<mapsto> p), al_occupied := (al_occupied a)(p \<mapsto> vmID)\<rparr>)"
proof -
  have "al_occupied a q \<noteq> Some vmID" if "q \<noteq> p" for q using assms(1,4) that unfolding alloc_ok_def by (metis insertE option.distinct(1) option.inject singletonD)
  with assms show ?thesis by (auto simp: alloc_ok_def)
qed

lemma Release_ok: "alloc_ok a \<Longrightarrow> alloc_ok (Release vmID a)"
  by (auto simp: alloc_ok_def Release_def split: option.splits) (metis option.inject)+

lemma Restore_ok: "alloc_ok a \<Longrightarrow> Restore vmID p a = (a', e) \<Longrightarrow> alloc_ok a' \<and> al_pools a' = al_pools a"
  using grant_ok [of a p vmID] slash30_Masked [of p] by (auto simp: Restore_def split: if_splits)

lemma Acquire_ok:
  assumes "alloc_ok a" "list_all wide (al_pools a)" "Acquire vmID a = Some (a', r)"
  shows "alloc_ok a' \<and> al_pools a' = al_pools a"
  using assms scan_pools_sound [OF assms(2), of "al_occupied a"] grant_ok [OF assms(1), of _ vmID]
  by (auto simp: Acquire_def split: if_splits option.splits)

lemma run_alloc_ok:
  assumes "alloc_run a0 a" "alloc_ok a0" "list_all wide (al_pools a0)"
  shows "alloc_ok a \<and> al_pools a = al_pools a0"
  using assms(1)
proof induction
  case (alloc_acquire a vmID a' r)
  then show ?case using Acquire_ok [of a vmID a' r] assms(3) by simp
next
  case (alloc_restore a vmID p a' e)
  then show ?case using Restore_ok [of a vmID p a' e] by simp
next
  case (alloc_release a vmID)
  then show ?case using Release_ok [of a vmID] by (simp add: Release_def split: option.splits)
qed (simp add: assms(2))

lemma NewAllocator_ok:
  assumes "NewAllocator routes pools = (Some a, e)" "\<forall>pool \<in> set pools. px_bits pool \<le> 30"
  shows "alloc_ok a" "list_all wide (al_pools a)" "\<forall>pool \<in> set (al_pools a). overlapping routes pool = None"
  using assms by (auto simp: NewAllocator_def alloc_ok_def wide_def list_all_iff find_None_iff Let_def split: option.splits)

lemma overlapping_None: "overlapping routes pool = None \<Longrightarrow> r \<in> set routes \<Longrightarrow> px_bits (ro_dst r) \<noteq> 0 \<Longrightarrow> \<not> prefixesOverlap pool (ro_dst r)"
  by (auto simp: overlapping_def find_None_iff)

lemma subnet_in_pool:
  assumes "wide pool" "slash30 p" "Contains pool (px_addr p)" "Contains p ip"
  shows "Contains pool ip"
proof -
  obtain n where n: "p = \<lparr>px_addr = V4 n, px_bits = 30\<rparr>" using assms(2) by (auto simp: slash30_def)
  obtain a where a: "px_addr pool = V4 a" using assms(1) by (auto simp: wide_def Is4_def split: ip_addr.splits)
  obtain x where x: "ip = V4 x" using Contains_cases [OF assms(4)] n by auto
  have k: "2 \<le> 32 - px_bits pool" using assms(1) unfolding wide_def by linarith
  have "drop_bit 2 n = drop_bit 2 x" using assms(4) by (simp add: n x)
  from agree_coarser [OF this k] show ?thesis using assms(3) by (simp add: a n x Contains_def xor_zero_iff)
qed

text \<open>
  A pool longer than a subnet would be cut wrongly: from \<open>10.0.0.2/31\<close> the loop takes \<open>10.0.0.2/30\<close>, which is not on its own
  boundary and reaches out of the pool.
\<close>

lemma narrow_pool_lease:
  "scan_pool \<lparr>px_addr = V4 0x0A000002, px_bits = 31\<rparr> Map.empty 0x0A000002 = Some (Some \<lparr>px_addr = V4 0x0A000002, px_bits = 30\<rparr>)
   \<and> \<not> slash30 \<lparr>px_addr = V4 0x0A000002, px_bits = 30\<rparr>"
  by (subst scan_pool.simps) (simp add: lastAddr_def slash30_def Let_def)

section \<open>Properties\<close>

text \<open>
  C23: \<open>Acquire\<close> returns, whatever the pools are and however many subnets are taken: the loop ends even in a pool
  that reaches to the last address, where the next address wraps to the first.
\<close>

theorem acquire_returns: "\<exists>r. Acquire vmID a = Some r"
  using scan_pools_returns [of "al_pools a" "al_occupied a"] by (auto simp: Acquire_def split: option.splits)

text \<open>
  C22: A VM without a lease gets the first subnet that is free, going through the pools in their order and through each pool
  by address, and it is refused only when every subnet of every pool is taken.
\<close>

theorem acquire_first_free:
  assumes "list_all wide (al_pools a)" "vmID \<noteq> []" "al_leases a vmID = None"
  shows "Acquire vmID a = Some (case find (\<lambda>p. al_occupied a p = None) (concat (map subnets (al_pools a))) of
      None \<Rightarrow> (a, Inl PoolExhausted)
    | Some p \<Rightarrow> (a\<lparr>al_leases := (al_leases a)(vmID \<mapsto> p), al_occupied := (al_occupied a)(p \<mapsto> vmID)\<rparr>, Inr p))"
  using assms by (simp add: Acquire_def scan_pools_subnets split: option.split)

definition demo_pool :: ip_prefix where
  "demo_pool = \<lparr>px_addr = V4 0x0A000008, px_bits = 29\<rparr>"

definition demo_subnet4 :: "u32 \<Rightarrow> ip_prefix" where
  "demo_subnet4 n = \<lparr>px_addr = V4 n, px_bits = 30\<rparr>"

definition demo_alloc_a :: allocator where
  "demo_alloc_a = \<lparr>al_pools = [demo_pool], al_exclusions = [], al_leases = [''a'' \<mapsto> demo_subnet4 0x0A000008],
     al_occupied = [demo_subnet4 0x0A000008 \<mapsto> ''a'']\<rparr>"

lemma demo_subnet4_eq [simp]: "demo_subnet4 m = demo_subnet4 n \<longleftrightarrow> m = n"
  by (simp add: demo_subnet4_def)

lemma demo_subnets: "subnets demo_pool = [demo_subnet4 0x0A000008, demo_subnet4 0x0A00000C]"
  by code_simp

lemma demo_wide: "wide demo_pool"
  by (simp add: demo_pool_def wide_def Is4_def)

theorem acquire_first_free_witness:
  "map_option snd (Acquire ''b'' demo_alloc_a) = Some (Inr (demo_subnet4 0x0A00000C))"
  using acquire_first_free [of demo_alloc_a "''b''"]
  by (simp add: demo_alloc_a_def demo_subnets demo_wide)

text \<open>
  C20: At every moment the subnets of two different VMs have no address in common, whatever was acquired, restored
  and released before.
\<close>

theorem leases_disjoint:
  assumes "NewAllocator routes pools = (Some a0, e)" "\<forall>pool \<in> set pools. px_bits pool \<le> 30" "alloc_run a0 a"
    "al_leases a i = Some p" "al_leases a j = Some q" "i \<noteq> j"
  shows "\<not> (Contains p ip \<and> Contains q ip)"
proof
  have ok: "alloc_ok a" using run_alloc_ok [OF assms(3)] NewAllocator_ok [OF assms(1,2)] by blast
  assume "Contains p ip \<and> Contains q ip"
  then have "p = q" using slash30_disjoint ok assms(4,5) unfolding alloc_ok_def by blast
  then show False using ok assms(4-6) unfolding alloc_ok_def by (metis option.inject)
qed

text \<open>
  C21: A subnet that \<open>Acquire\<close> hands out has no address in common with any route of the host but the default route.
\<close>

theorem acquired_avoids_routes:
  assumes "NewAllocator routes pools = (Some a0, e)" "\<forall>pool \<in> set pools. px_bits pool \<le> 30" "alloc_run a0 a"
    "al_leases a vmID = None" "Acquire vmID a = Some (a', Inr p)" "r \<in> set routes" "px_bits (ro_dst r) \<noteq> 0"
  shows "\<not> (Contains p ip \<and> Contains (ro_dst r) ip)"
proof
  note new = NewAllocator_ok [OF assms(1,2)]
  have pools: "al_pools a = al_pools a0" using run_alloc_ok [OF assms(3) new(1,2)] by simp
  have "scan_pools (al_pools a) (al_occupied a) = Some (Some p)"
    using assms(4,5) by (auto simp: Acquire_def split: if_splits option.splits)
  then obtain pool where pool: "slash30 p" "pool \<in> set (al_pools a0)" "Contains pool (px_addr p)"
    using scan_pools_sound new(2) pools by metis
  assume c: "Contains p ip \<and> Contains (ro_dst r) ip"
  have "Contains pool ip" using subnet_in_pool [of pool p ip] pool new(2) c by (auto simp: list_all_iff)
  then have "prefixesOverlap pool (ro_dst r)" using c shared_overlap by blast
  then show False using overlapping_None new(3) pool(2) assms(6,7) by blast
qed

definition demo_route :: route where
  "demo_route = \<lparr>ro_dst = \<lparr>px_addr = V4 0x0A000000, px_bits = 29\<rparr>, ro_dev = ''eth0'', ro_gateway = []\<rparr>"

definition demo_alloc_0 :: allocator where
  "demo_alloc_0 = \<lparr>al_pools = [demo_pool], al_exclusions = [(\<lparr>px_addr = V4 0x0A000000, px_bits = 28\<rparr>, ro_dst demo_route)],
     al_leases = Map.empty, al_occupied = Map.empty\<rparr>"

lemma demo_new: "NewAllocator [demo_route] [\<lparr>px_addr = V4 0x0A000000, px_bits = 28\<rparr>, demo_pool] = (Some demo_alloc_0, None)"
  by (simp add: NewAllocator_def demo_alloc_0_def demo_pool_def demo_route_def Is4_def overlapping_def prefixesOverlap_def Let_def map_filter_simps)

definition demo_alloc_b :: allocator where
  "demo_alloc_b = demo_alloc_0\<lparr>al_leases := [''a'' \<mapsto> demo_subnet4 0x0A000008], al_occupied := [demo_subnet4 0x0A000008 \<mapsto> ''a'']\<rparr>"

lemma demo_acquires:
  "Acquire ''a'' demo_alloc_0 = Some (demo_alloc_b, Inr (demo_subnet4 0x0A000008))"
  "Acquire ''b'' demo_alloc_b = Some (demo_alloc_b\<lparr>al_leases := [''a'' \<mapsto> demo_subnet4 0x0A000008, ''b'' \<mapsto> demo_subnet4 0x0A00000C],
      al_occupied := [demo_subnet4 0x0A000008 \<mapsto> ''a'', demo_subnet4 0x0A00000C \<mapsto> ''b'']\<rparr>, Inr (demo_subnet4 0x0A00000C))"
  by (simp_all add: Acquire_def scan_pools_subnets demo_subnets demo_wide demo_alloc_0_def demo_alloc_b_def del: scan_pools.simps)

lemmas demo_alloc_runs = alloc_acquire [OF alloc_init demo_acquires(1)] alloc_acquire [OF alloc_acquire [OF alloc_init demo_acquires(1)] demo_acquires(2)]

theorem leases_disjoint_witness:
  "\<not> (Contains (demo_subnet4 0x0A000008) (V4 0x0A00000B) \<and> Contains (demo_subnet4 0x0A00000C) (V4 0x0A00000B)) \<and> Contains (demo_subnet4 0x0A000008) (V4 0x0A00000B)"
  using leases_disjoint [OF demo_new _ demo_alloc_runs(2), of "''a''" _ "''b''"] by (simp add: demo_pool_def demo_subnet4_def)

theorem acquired_avoids_routes_witness:
  "\<not> (Contains (demo_subnet4 0x0A00000C) (V4 0x0A00000D) \<and> Contains (ro_dst demo_route) (V4 0x0A00000D)) \<and> Contains (demo_subnet4 0x0A00000C) (V4 0x0A00000D)"
  using acquired_avoids_routes [OF demo_new _ demo_alloc_runs(1) _ demo_acquires(2), of demo_route "V4 0x0A00000D"]
  by (simp add: demo_pool_def demo_subnet4_def demo_route_def demo_alloc_b_def)

end
