(* ===== verification/Spec2Isabelle.thy ===== *)
theory Spec2Isabelle
  imports Keystroke_Path Telemetry_Ring Registry_Laws Run_Laws Privd_Properties Network_Alloc
begin

text \<open>
  A verification development for the Firecracker Observatory, a daemon that runs VMs on one host, watches what
  happens in them and gives people and agents terminals into them.

  \<^bold>\<open>The program and its parts.\<close> The daemon (\<open>src/cmd/vmobsd\<close>) keeps a registry of VMs and runs and an event log in
  SQLite (\<open>src/internal/store\<close>). Its lifecycle manager (\<open>src/internal/runtime\<close>) creates, starts, stops and deletes VMs
  through a runtime interface, admits them against the capacity of the host, and concludes runs. What needs root is done by a
  privileged daemon (\<open>src/internal/privd\<close>) that answers a unix socket, keeps a ledger of what every VM owns and a journal
  of the mutations it was asked for. Inside a VM the guest agent (\<open>src/internal/guest\<close>) runs shells on pseudo
  terminals and queues telemetry; on the host the terminal registry (\<open>src/internal/terminal\<close>) and the stream handler
  of the API connect browsers to these shells. Subnets come from an allocator (\<open>src/internal/network\<close>).

  \<^bold>\<open>Conventions.\<close> A Go struct is a record with the source's field names behind a prefix, an enumeration a datatype, an integer a
  word of its width where it can wrap and a \<open>nat\<close> or \<open>int\<close> where the code bounds it, an error a value of a sum or
  option type. State is passed explicitly in the terminal and store theories; the manager and the privileged daemon are
  programs of the state monad, about which \<open>State_Logic\<close> reasons with weakest preconditions. What is not in the
  repository is a parameter: the clock, digests, the host below the runtime interface, and for the privileged daemon the
  record \<open>os\<close>, which says of the \<open>n\<close>th call whether it fails, which VMMs have exited by then, and what \<open>ip\<close>, the jailer and
  \<open>/proc\<close> do.

  \<^bold>\<open>Terminals.\<close>
  \<^item> \<open>Obs_Prelude\<close>, \<open>Byte_Codec\<close>: machine types, list segments, decimal and big-endian numbers.
  \<^item> \<open>Replay_Ring\<close> (\<open>guest/pty/ring.go\<close>): the ring behind every shell. Its locale \<open>replay_buffer\<close> states what a client may
    rely on, and the ring interprets it: it keeps the newest bytes of the stream and reports the range it drops.
  \<^item> \<open>Guest_Frame\<close> (\<open>guest/proto/frame.go\<close>): the frame codec, its round trip and the exact set of inputs it accepts.
  \<^item> \<open>Pty_Session\<close>, \<open>Pty_Broker\<close> (\<open>guest/pty/broker.go\<close>, \<open>guest/terminal.go\<close>, \<open>guest/agent.go\<close>): sessions, attachments, the
    output pump, the terminal verbs and the admission of streams. A viewer gets a tiling of the output, keystrokes are
    applied once, only the holder of the token gets in.
  \<^item> \<open>Terminal_Window\<close> (\<open>terminal/window.go\<close>, \<open>api/terminal_stream.go\<close>), \<open>Writer_Lease\<close> (\<open>terminal/lease.go\<close>),
    \<open>Terminal_Registry\<close> (\<open>terminal/session.go\<close>, \<open>terminal/transport.go\<close>): flow control towards the browser, who may type,
    and who owns which stream.
  \<^item> \<open>Keystroke_Path\<close>: what an attached writer types reaches the shell once and in order, across all of them.
  \<^item> \<open>Telemetry_Ring\<close> (\<open>guest/telemetry/ring.go\<close>, \<open>health.go\<close>, \<open>guest/telemetry.go\<close>): the bounded queue, with the locale
    \<open>send_queue\<close> for its sender, and the sensor registry.

  \<^bold>\<open>Store.\<close>
  \<^item> \<open>Event_Model\<close> (\<open>events/\<close>), \<open>Event_Store\<close> (\<open>store/append.go\<close>, \<open>query.go\<close>): envelopes, the table of kinds, ingress with
    deduplication and paging.
  \<^item> \<open>Store_Tables\<close>, \<open>Run_Store\<close>, \<open>VM_Store\<close>, \<open>Batch_Store\<close> (\<open>store/vms.go\<close>, \<open>runs.go\<close>, \<open>batches.go\<close>, \<open>cleanup.go\<close>): every
    write as a transaction on the tables that takes effect or leaves them as they were.
  \<^item> \<open>Store_History\<close>: any sequence of calls, through the locale \<open>step_history\<close>, which is interpreted on the row writes,
    the store calls and, in \<open>Admission\<close>, the calls with the policy behind them. \<open>Registry_Laws\<close>: the tables are what a
    replay of the log gives; lifecycles, idempotent creation, durable refusals, atomic batches.

  \<^bold>\<open>Manager.\<close>
  \<^item> \<open>Admission\<close> (\<open>runtime/admission.go\<close>): reservations never exceed what the policy leaves of the host.
  \<^item> \<open>Manager_State\<close>, \<open>Run_Engine\<close>, \<open>VM_Manager\<close>, \<open>VM_Recovery\<close>, \<open>Batch_Manager\<close> (\<open>runtime/runtime.go\<close>, \<open>manager.go\<close>, \<open>runs.go\<close>,
    \<open>cleanup_retry.go\<close>, \<open>batch.go\<close>): the operations, queued tasks, startup reconciliation and the cleanup sweep.
  \<^item> \<open>Manager_Logic\<close>, \<open>Manager_Safety\<close>, \<open>Manager_Steps\<close>: the contract of the runtime interface (locale
    \<open>runtime_contract\<close>, interpreted on the portable runtime of the repository), the invariant, its preservation by every
    operation, and the step relation. VMs that are up fit the host; a deleted VM has nothing left on it.
  \<^item> \<open>Run_Laws\<close>: a run ends as its criteria say.

  \<^bold>\<open>Privileged daemon and network.\<close>
  \<^item> \<open>State_Logic\<close>, \<open>Host_OS\<close> (\<open>durable/file.go\<close>, \<open>privd/pid_linux.go\<close>): the machine, durable files, process identity.
  \<^item> \<open>Privd_Ledger\<close>, \<open>Privd_Backend\<close>, \<open>Privd_Server\<close> (\<open>privd/ledger.go\<close>, \<open>proto.go\<close>, \<open>vmops.go\<close>, \<open>netops.go\<close>, \<open>server.go\<close>,
    \<open>operations.go\<close>, \<open>client.go\<close>, \<open>network/names.go\<close>): the ledger, the host operations, the handlers, the journal. A mutation is three
    critical sections, \<open>accept_mutation\<close>, \<open>begin_mutation\<close> and \<open>finish_mutation\<close>, as the two mutexes of the code divide it.
  \<^item> \<open>Privd_Laws\<close>, \<open>Privd_Start\<close>: what every handler does to the host, whatever call fails on the way.
  \<^item> \<open>Privd_Safety\<close>: the step relation \<open>privd_run\<close>, in which the critical sections of any number of requests interleave with
    queries, exits of VMMs, restarts and reboots, and the invariant.
  \<^item> \<open>Privd_Journal\<close>: facts that stay true, by the locale \<open>stable_fact\<close>, interpreted on the receipts and on the acceptance of
    an operation id. \<open>Privd_Properties\<close>: what runs on the host is accounted for by the ledger or the journal; an operation
    is executed once; a retry gets the first answer; claims are disjoint.
  \<^item> \<open>Network_Alloc\<close> (\<open>network/alloc.go\<close>): the allocator on 32-bit addresses.

  \<^bold>\<open>Assumptions.\<close> The manager's theorems hold for a runtime that keeps the contract its interface documents. The daemon's hold
  on a host where a new process gets a pid no live process has (\<open>kernel\<close>), the jailer's pid file names the VMM it started
  (\<open>pidfile_honest\<close>) and the \<open>ip\<close> commands add nothing but what they are asked to add (\<open>ip_frame\<close>); each has a witness. VMMs exit by
  themselves at any time, but a process dies within the daemon's view only when it looks at \<open>/proc\<close>.
  Operations of the manager are taken to run one after the other: interleavings of the transactions of two of them are not modelled.
  A restart falls between the steps of the step relations; within a step any system call of the privileged daemon may fail.

  \<^bold>\<open>Bounds and fuel.\<close> The loop over a pool is a partial function, and \<open>acquire_returns\<close> proves that it returns. Loops over tables and
  lists are structural. The wait for the VMM's socket has the source's hundred rounds; the polls of a killed process
  are bounded by an arbitrary number the host chooses, standing for the deadline. A client that pages through the log is given as many
  rounds as there are rows, which \<open>paging_complete\<close> shows to be enough.

  \<^bold>\<open>Not modelled.\<close> The jailer adapter, which implements the runtime interface on Linux, is represented by its contract. The spool,
  the runner, sockets and timers are I/O around the modelled parts; JSON and YAML decoding is an argument. The situation rules, reports,
  evidence archives, authentication, the HTTP routes, the command line and the web client are left out: they read the tables
  modelled here and present them, or rest on cryptographic and rendering libraries. File modes and owners, the nft script and the
  parsing of \<open>ip route\<close> are not modelled either.
\<close>

end
